(* ===== verification/Prelude.thy ===== *)
theory Prelude
  imports Main "HOL-Library.Word" "HOL-Library.Monad_Syntax" "HOL-Library.Multiset"
begin

unbundle bit_operations_syntax

text \<open>
  What the component theories share: the proof collections, the models of the parts of Rust's
  \<open>core\<close> and \<open>alloc\<close> that the crates use (\<open>Ordering\<close>, \<open>slice::binary_search_by\<close>,
  \<open>slice::copy_within\<close>, little-endian byte conversions), the result types, and generic lemmas
  on lists and words.

  Conventions.  A Rust value of type \<open>Result<T, E>\<close> is a value of \<open>'e + 't\<close> with \<open>Inl\<close> for
  \<open>Err\<close>.  A computation that can panic has type \<open>'a option\<close>, with \<open>None\<close> for the panic.  Machine words
  are 64 bits wide (\<open>x86_64\<close>), integer overflow wraps (the release profile), and array indices and
  lengths that are bounded by an array in memory are natural numbers.
\<close>

section \<open>Proof collections\<close>

named_theorems krsm_simps \<open>unfolding of the operations of the asynchronous runtime\<close>
named_theorems table_simps \<open>the pending table as an association list\<close>

section \<open>Types\<close>

type_synonym u8 = "8 word"
type_synonym u16 = "16 word"
type_synonym u32 = "32 word"
type_synonym usize = "64 word"
type_synonym isize = "64 word"

section \<open>Ordering and searching slices\<close>

text \<open>\<open>core::cmp::Ordering\<close>.\<close>

datatype ordering = Less | Equal | Greater

definition cmp :: "'a::linorder \<Rightarrow> 'a \<Rightarrow> ordering" where
  "cmp a b = (if a < b then Less else if a = b then Equal else Greater)"

text \<open>\<open>Option\<close> is ordered with \<open>None\<close> below every \<open>Some\<close>.\<close>

fun cmp_option :: "'a::linorder option \<Rightarrow> 'a option \<Rightarrow> ordering" where
  "cmp_option None None = Equal"
| "cmp_option None (Some _) = Less"
| "cmp_option (Some _) None = Greater"
| "cmp_option (Some a) (Some b) = cmp a b"

text \<open>
  \<open>slice::binary_search_by\<close> of the standard library (since Rust 1.82): the loop has no early exit
  on \<open>Equal\<close>; it keeps the upper half unless the probe compares \<open>Greater\<close>.
\<close>

function bs_loop :: "('a \<Rightarrow> ordering) \<Rightarrow> 'a list \<Rightarrow> nat \<Rightarrow> nat \<Rightarrow> nat" where
  "bs_loop f xs base sz =
     (if sz > 1
      then bs_loop f xs
             (if f (xs ! (base + sz div 2)) = Greater then base else base + sz div 2)
             (sz - sz div 2)
      else base)"
  by pat_completeness auto
termination
  by (relation "measure (\<lambda>(f, xs, base, sz). sz)") auto

declare bs_loop.simps [simp del]

definition binary_search_by :: "('a \<Rightarrow> ordering) \<Rightarrow> 'a list \<Rightarrow> nat + nat" where
  "binary_search_by f xs =
     (if xs = [] then Inl 0
      else let base = bs_loop f xs 0 (length xs)
           in case f (xs ! base) of
                Equal \<Rightarrow> Inr base
              | Less \<Rightarrow> Inl (base + 1)
              | Greater \<Rightarrow> Inl base)"

text \<open>The documented precondition: the slice is partitioned into \<open>Less\<close>, \<open>Equal\<close>, \<open>Greater\<close>.\<close>

fun rank :: "ordering \<Rightarrow> nat" where
  "rank Less = 0" | "rank Equal = 1" | "rank Greater = 2"

definition partitioned :: "('a \<Rightarrow> ordering) \<Rightarrow> 'a list \<Rightarrow> bool" where
  "partitioned f xs \<longleftrightarrow> sorted (map (rank \<circ> f) xs)"

lemma rank_simps [simp]:
  "rank x = 0 \<longleftrightarrow> x = Less" "rank x = Suc 0 \<longleftrightarrow> x = Equal" "rank x = 2 \<longleftrightarrow> x = Greater"
  "rank x \<le> 2"
  by (cases x; simp)+

lemma partitioned_nth:
  "partitioned f xs \<Longrightarrow> i \<le> j \<Longrightarrow> j < length xs \<Longrightarrow> rank (f (xs ! i)) \<le> rank (f (xs ! j))"
  unfolding partitioned_def by (auto simp: sorted_iff_nth_mono)

lemma sorted_map_const: "\<forall>x \<in> set xs. g x = c \<Longrightarrow> sorted (map g xs)"
  by (induction xs) auto

lemma partitionedI:
  assumes "\<forall>x \<in> set hi. f x = Less" "\<forall>x \<in> set mid. f x = Equal" "\<forall>x \<in> set lo. f x = Greater"
  shows "partitioned f (hi @ mid @ lo)"
  using assms sorted_map_const [of hi "rank \<circ> f" 0] sorted_map_const [of mid "rank \<circ> f" 1]
    sorted_map_const [of lo "rank \<circ> f" 2]
  by (auto simp: partitioned_def sorted_append)

text \<open>The loop ends at the last element that does not compare \<open>Greater\<close>.\<close>

lemma bs_loop_split:
  assumes "\<And>i. i < length xs \<Longrightarrow> (f (xs ! i) = Greater) = (p \<le> i)"
    and "0 < sz" "base + sz \<le> length xs" "p \<le> base + sz" "base = 0 \<or> base < p"
  shows "bs_loop f xs base sz = p - 1"
  using assms(2-)
proof (induction sz arbitrary: base rule: less_induct)
  case (less sz)
  show ?case
  proof (cases "sz > 1")
    case True
    let ?mid = "base + sz div 2"
    let ?base = "if f (xs ! ?mid) = Greater then base else ?mid"
    have mid: "?mid < length xs" using True less.prems by linarith
    have "bs_loop f xs ?base (sz - sz div 2) = p - 1"
      using True less.prems assms(1) [OF mid]
      by (intro less.IH) (auto simp: not_le)
    then show ?thesis using True by (simp add: bs_loop.simps [of f xs base sz])
  next
    case False
    then show ?thesis using less.prems by (auto simp: bs_loop.simps [of f xs base sz])
  qed
qed

lemma binary_search_by_split:
  assumes "\<And>i. i < length xs \<Longrightarrow> (f (xs ! i) = Greater) = (p \<le> i)" and "p \<le> length xs"
  shows "binary_search_by f xs =
    (if p = 0 then Inl 0 else if f (xs ! (p - 1)) = Equal then Inr (p - 1) else Inl p)"
proof (cases "xs = []")
  case False
  then have "bs_loop f xs 0 (length xs) = p - 1"
    using assms by (intro bs_loop_split) auto
  moreover have "f (xs ! 0) = Greater" if "p = 0"
    using assms(1) [of 0] False that by simp
  moreover have "f (xs ! (p - 1)) \<noteq> Greater" if "p \<noteq> 0"
    using assms(1) [of "p - 1"] assms(2) that by auto
  ultimately show ?thesis
    using False by (cases "p = 0"; cases "f (xs ! (p - 1))") (auto simp: binary_search_by_def)
qed (use assms in \<open>simp add: binary_search_by_def\<close>)

text \<open>
  The documented contract of the search on a partitioned slice: \<open>Ok\<close> is the index of some match,
  \<open>Err\<close> is the place where a match could be inserted.
\<close>

locale slice_search =
  fixes search :: "('a \<Rightarrow> ordering) \<Rightarrow> 'a list \<Rightarrow> nat + nat"
  assumes found: "partitioned f xs \<Longrightarrow> search f xs = Inr i \<Longrightarrow>
      i < length xs \<and> f (xs ! i) = Equal"
    and missing: "partitioned f xs \<Longrightarrow> search f xs = Inl i \<Longrightarrow>
      i \<le> length xs \<and> (\<forall>j < i. f (xs ! j) = Less) \<and>
      (\<forall>j. i \<le> j \<and> j < length xs \<longrightarrow> f (xs ! j) = Greater)"
begin

lemma search_finds: "partitioned f xs \<Longrightarrow> x \<in> set xs \<Longrightarrow> f x = Equal \<Longrightarrow>
    \<exists>i. search f xs = Inr i"
  by (cases "search f xs")
    (metis in_set_conv_nth missing not_le ordering.distinct(1,5), blast)

lemma search_insertion_point:
  assumes "partitioned f (hi @ lo)" "\<forall>x \<in> set hi. f x = Less" "\<forall>x \<in> set lo. f x = Greater"
  shows "search f (hi @ lo) = Inl (length hi)"
proof (cases "search f (hi @ lo)")
  case (Inl i)
  note m = missing [OF assms(1) Inl]
  have "\<not> i < length hi"
    using m assms(2) by (auto simp: nth_append dest!: spec [of _ i])
  moreover have "\<not> length hi < i"
  proof
    assume "length hi < i"
    then have "f (lo ! 0) = Less" "lo \<noteq> []" using m by (auto simp: nth_append dest: spec [of _ "length hi"])
    then show False using assms(3) by (cases lo) auto
  qed
  ultimately show ?thesis using Inl by simp
next
  case (Inr i)
  then have "i < length (hi @ lo)" "f ((hi @ lo) ! i) = Equal" using found [OF assms(1)] by auto
  moreover have "f y \<noteq> Equal" if "y \<in> set (hi @ lo)" for y using that assms(2,3) by auto
  ultimately show ?thesis using nth_mem by blast
qed

lemma search_unique_match:
  assumes "partitioned f (hi @ x # lo)" "f x = Equal"
    "\<forall>y \<in> set hi. f y = Less" "\<forall>y \<in> set lo. f y = Greater"
  shows "search f (hi @ x # lo) = Inr (length hi)"
proof -
  obtain i where i: "search f (hi @ x # lo) = Inr i"
    using search_finds [OF assms(1)] assms(2) by auto
  have len: "i < length (hi @ x # lo)" and eq: "f ((hi @ x # lo) ! i) = Equal"
    using found [OF assms(1) i] by auto
  have "\<not> i < length hi" using eq assms(3) by (auto simp: nth_append)
  moreover have "\<not> length hi < i"
  proof
    assume "length hi < i"
    then have "(hi @ x # lo) ! i \<in> set lo" using len by (auto simp: nth_append nth_Cons' intro!: nth_mem)
    then show False using eq assms(4) by auto
  qed
  ultimately show ?thesis using i by simp
qed

end

text \<open>The library's search keeps the contract, and among equal elements it returns the last.\<close>

lemma partitioned_split:
  assumes "partitioned f xs"
  obtains p where "p \<le> length xs" "\<And>i. i < length xs \<Longrightarrow> (f (xs ! i) = Greater) = (p \<le> i)"
proof -
  define p where "p = length (takeWhile (\<lambda>x. f x \<noteq> Greater) xs)"
  have "(f (xs ! i) = Greater) = (p \<le> i)" if "i < length xs" for i
  proof
    assume "f (xs ! i) = Greater"
    moreover have "f (xs ! i) \<noteq> Greater" if "i < p"
      using that set_takeWhileD [OF nth_mem [of i "takeWhile (\<lambda>x. f x \<noteq> Greater) xs"]]
      by (simp add: p_def takeWhile_nth)
    ultimately show "p \<le> i" by (meson not_le)
  next
    assume "p \<le> i"
    then have "f (xs ! p) = Greater" "rank (f (xs ! p)) \<le> rank (f (xs ! i))"
      using that nth_length_takeWhile [of "\<lambda>x. f x \<noteq> Greater" xs] partitioned_nth [OF assms, of p i]
      by (auto simp: p_def)
    then show "f (xs ! i) = Greater" by (cases "f (xs ! i)") auto
  qed
  moreover have "p \<le> length xs" by (simp add: p_def length_takeWhile_le)
  ultimately show ?thesis using that by blast
qed

interpretation std_search: slice_search binary_search_by
proof
  fix f :: "'a \<Rightarrow> ordering" and xs i
  assume part: "partitioned f xs"
  obtain p where p: "p \<le> length xs" "\<And>i. i < length xs \<Longrightarrow> (f (xs ! i) = Greater) = (p \<le> i)"
    using partitioned_split [OF part] by blast
  note res = binary_search_by_split [OF p(2) p(1)]
  show "i < length xs \<and> f (xs ! i) = Equal" if "binary_search_by f xs = Inr i"
    using that p res by (auto split: if_splits)
  show "i \<le> length xs \<and> (\<forall>j < i. f (xs ! j) = Less) \<and>
      (\<forall>j. i \<le> j \<and> j < length xs \<longrightarrow> f (xs ! j) = Greater)" if "binary_search_by f xs = Inl i"
  proof -
    have ip: "i = p" and neq: "p \<noteq> 0 \<longrightarrow> f (xs ! (p - 1)) \<noteq> Equal"
      using that res by (auto split: if_splits)
    have "f (xs ! j) = Less" if "j < p" for j
    proof -
      have "f (xs ! (p - 1)) = Less"
        using p(2) [of "p - 1"] p(1) neq that by (cases "f (xs ! (p - 1))") auto
      moreover have "rank (f (xs ! j)) \<le> rank (f (xs ! (p - 1)))"
        using that p(1) by (intro partitioned_nth [OF part]) auto
      ultimately show ?thesis by simp
    qed
    then show ?thesis using ip p by auto
  qed
qed

lemma binary_search_by_last_match:
  assumes "\<forall>x \<in> set hi. f x = Less" "\<forall>x \<in> set lo. f x = Equal" "lo \<noteq> []"
  shows "binary_search_by f (hi @ lo) = Inr (length hi + length lo - 1)"
proof -
  have "f ((hi @ lo) ! i) \<noteq> Greater" if "i < length (hi @ lo)" for i
    using nth_mem [OF that] assms by auto
  moreover have "f ((hi @ lo) ! (length hi + length lo - 1)) = Equal"
    using assms(2,3) by (auto simp: nth_append length_greater_0_conv [symmetric]
        simp del: length_greater_0_conv)
  ultimately show ?thesis
    using binary_search_by_split [of "hi @ lo" f "length (hi @ lo)"] assms(3) by auto
qed

section \<open>Moving within a slice\<close>

lemma take_drop_prefix:
  assumes "n + k \<le> m" "m \<le> length xs"
  shows "take k (drop n (take m xs @ ys)) = take k (drop n xs)"
proof -
  have "length (drop n (take m xs)) = m - n" "n \<le> length (take m xs)" using assms by simp_all
  then have "take k (drop n (take m xs @ ys)) = take k (drop n (take m xs))" using assms by simp
  also have "\<dots> = take k (drop n xs)" using assms by (simp add: drop_take min_def)
  finally show ?thesis .
qed

lemma take_prefix_append:
  assumes "take (length cs) xs = cs"
  shows "take (length cs) (xs @ ys) = cs"
proof -
  have "length cs \<le> length xs" using arg_cong [OF assms, of length] by simp
  then show ?thesis using assms by simp
qed

text \<open>
  \<open>slice::copy_within(src..end, dest)\<close>: panics when the source range or the destination is out of
  bounds, otherwise copies as \<open>memmove\<close>.
\<close>

definition copy_within :: "'a list \<Rightarrow> nat \<Rightarrow> nat \<Rightarrow> nat \<Rightarrow> 'a list option" where
  "copy_within xs start stop dest =
     (if start \<le> stop \<and> stop \<le> length xs \<and> dest + (stop - start) \<le> length xs
      then Some (take dest xs @ take (stop - start) (drop start xs) @ drop (dest + (stop - start)) xs)
      else None)"

lemma length_copy_within [simp]: "copy_within xs a b d = Some ys \<Longrightarrow> length ys = length xs"
  by (auto simp: copy_within_def split: if_splits)

text \<open>Closing a gap, and opening one, in a list of the form \<open>hi @ x # mid @ rest\<close>.\<close>

lemma copy_within_left:
  assumes "n = length hi"
  shows "copy_within (hi @ x # mid @ rest) (Suc n) (Suc n + length mid) n =
     Some (hi @ mid @ drop (length mid) (x # mid @ rest))"
proof -
  have "take (Suc n + length mid - Suc n) (drop (Suc n) (hi @ x # mid @ rest)) = mid"
    "drop (n + (Suc n + length mid - Suc n)) (hi @ x # mid @ rest) =
       drop (length mid) (x # mid @ rest)"
    using assms by (simp_all only: diff_add_inverse drop_append append_eq_append_conv) simp_all
  then show ?thesis using assms by (simp only: copy_within_def) simp
qed

lemma copy_within_right:
  assumes "n = length hi"
  shows "copy_within (hi @ mid @ y # rest) n (n + length mid) (Suc n) =
     Some (take (Suc n) (hi @ mid @ [y]) @ mid @ rest)"
proof -
  have "take (n + length mid - n) (drop n (hi @ mid @ y # rest)) = mid"
    "drop (Suc n + (n + length mid - n)) (hi @ mid @ y # rest) = rest"
    using assms by (simp_all only: diff_add_inverse drop_append append_eq_append_conv) simp_all
  moreover have "take (Suc n) (hi @ mid @ y # rest) = take (Suc n) (hi @ mid @ [y])"
    using assms by (cases mid) simp_all
  ultimately show ?thesis using assms by (simp only: copy_within_def) simp
qed

end
