(* ===== verification/Krsm.thy ===== *)
theory Krsm
  imports Prelude
begin

text \<open>
  The asynchronous runtime of the \<open>krsm\<close> crate (\<open>krsm/src/futures.rs\<close>).  The runtime keeps one
  optional unblocking response, a flag for the unit tests, and an array of pending yield reasons
  with their multiplicities.  The array is kept in descending order with its free slots (\<open>None\<close>) at
  the end, and is searched with \<open>binary_search_by\<close>.  Futures are modelled by what polling and
  dropping them does to the runtime.
\<close>

section \<open>State\<close>

datatype async_runtime_error = TooManyPending | TooManyUnblocked

type_synonym 'r pending = "('r \<times> nat) option list"

record ('r, 's) async_runtime =
  has_unblock :: "('r \<times> 's) option"
  has_new_future :: bool
  pending_futures :: "'r pending"

definition async_runtime_new :: "nat \<Rightarrow> ('r, 's) async_runtime" where
  "async_runtime_new max_pending =
     \<lparr>has_unblock = None, has_new_future = False, pending_futures = replicate max_pending None\<rparr>"

section \<open>The pending table\<close>

text \<open>The comparators of the two searches; \<open>None\<close> compares below \<open>Some\<close>.\<close>

definition size_cmp :: "('r \<times> nat) option \<Rightarrow> ordering" where
  "size_cmp x = (case x of None \<Rightarrow> Equal | Some _ \<Rightarrow> Less)"

definition reason_cmp :: "'r::linorder \<Rightarrow> ('r \<times> nat) option \<Rightarrow> ordering" where
  "reason_cmp t x = cmp_option (Some t) (map_option fst x)"

definition pending_futures_size :: "'r pending \<Rightarrow> nat" where
  "pending_futures_size pf =
     (case binary_search_by size_cmp pf of Inr i \<Rightarrow> i | Inl _ \<Rightarrow> length pf)"

definition remove_pending_future :: "'r::linorder \<Rightarrow> 'r pending \<Rightarrow> 'r pending option" where
  "remove_pending_future t pf =
     (let sz = pending_futures_size pf
      in case binary_search_by (reason_cmp t) pf of
           Inl _ \<Rightarrow> Some pf
         | Inr i \<Rightarrow> do {
             e \<leftarrow> pf ! i;
             let count = snd e;
             if count > 1 then Some (pf[i := Some (t, count - 1)])
             else copy_within pf (i + 1) sz i
           })"

text \<open>
  The registration half of \<open>new_pending_future\<close>: \<open>Inl\<close> is the early return with
  \<open>TooManyPending\<close>.
\<close>

definition add_pending_future ::
  "'r::linorder \<Rightarrow> 'r pending \<Rightarrow> (async_runtime_error + 'r pending) option" where
  "add_pending_future t pf =
     (let sz = pending_futures_size pf
      in case binary_search_by (reason_cmp t) pf of
           Inl i \<Rightarrow>
             if sz = length pf then Some (Inl TooManyPending)
             else do {
               pf' \<leftarrow> copy_within pf i sz (i + 1);
               Some (Inr (pf'[i := Some (t, 1)]))
             }
         | Inr i \<Rightarrow> do {
             e \<leftarrow> pf ! i;
             Some (Inr (pf[i := Some (t, snd e + 1)]))
           })"

definition unblock_futures ::
  "'r::linorder \<Rightarrow> 's \<Rightarrow> ('r, 's) async_runtime \<Rightarrow>
     ((async_runtime_error + unit) \<times> ('r, 's) async_runtime) option" where
  "unblock_futures t status rt =
     (if has_unblock rt \<noteq> None then Some (Inl TooManyUnblocked, rt)
      else do {
        pf \<leftarrow> remove_pending_future t (pending_futures rt);
        Some (Inr (), rt\<lparr>pending_futures := pf, has_unblock := Some (t, status)\<rparr>)
      })"

section \<open>Futures\<close>

text \<open>
  The states of the future that \<open>new_pending_future(t)\<close> returns: not yet polled, registered and
  waiting (it then owns the \<open>FutureDropGuard\<close>), and finished.
\<close>

datatype 'r pending_future = Unpolled 'r | Waiting 'r | Finished

text \<open>The closure that \<open>FutureDropGuard::build\<close> polls: takes the response when the reason matches.\<close>

definition guard_poll :: "'r \<Rightarrow> ('r, 's) async_runtime \<Rightarrow> 's option \<times> ('r, 's) async_runtime" where
  "guard_poll t rt =
     (case has_unblock rt of
        Some (current, status) \<Rightarrow>
          if current = t then (Some status, rt\<lparr>has_unblock := None\<rparr>) else (None, rt)
      | None \<Rightarrow> (None, rt))"

text \<open>The destructor of the guard.\<close>

definition guard_drop :: "'r::linorder \<Rightarrow> ('r, 's) async_runtime \<Rightarrow> ('r, 's) async_runtime option" where
  "guard_drop t rt = do {
     pf \<leftarrow> remove_pending_future t (pending_futures rt);
     Some (rt\<lparr>pending_futures := pf\<rparr>)
   }"

text \<open>Polling the guard; once it is ready the guard goes out of scope.\<close>

definition poll_waiting ::
  "'r::linorder \<Rightarrow> ('r, 's) async_runtime \<Rightarrow>
     ((async_runtime_error + 's) option \<times> 'r pending_future \<times> ('r, 's) async_runtime) option" where
  "poll_waiting t rt =
     (case guard_poll t rt of
        (None, rt') \<Rightarrow> Some (None, Waiting t, rt')
      | (Some status, rt') \<Rightarrow> do {
          rt'' \<leftarrow> guard_drop t rt';
          Some (Some (Inr status), Finished, rt'')
        })"

text \<open>One poll of \<open>new_pending_future(t)\<close>; a finished future panics when polled again.\<close>

fun new_pending_future_poll ::
  "'r::linorder pending_future \<Rightarrow> ('r, 's) async_runtime \<Rightarrow>
     ((async_runtime_error + 's) option \<times> 'r pending_future \<times> ('r, 's) async_runtime) option" where
  "new_pending_future_poll (Unpolled t) rt = do {
     let rt1 = rt\<lparr>has_new_future := True\<rparr>;
     added \<leftarrow> add_pending_future t (pending_futures rt1);
     (case added of
        Inl e \<Rightarrow> do {
          rt2 \<leftarrow> guard_drop t rt1;
          Some (Some (Inl e), Finished, rt2)
        }
      | Inr pf \<Rightarrow> poll_waiting t (rt1\<lparr>pending_futures := pf\<rparr>))
   }"
| "new_pending_future_poll (Waiting t) rt = poll_waiting t rt"
| "new_pending_future_poll Finished rt = None"

fun new_pending_future_drop ::
  "'r::linorder pending_future \<Rightarrow> ('r, 's) async_runtime \<Rightarrow> ('r, 's) async_runtime option" where
  "new_pending_future_drop (Waiting t) rt = guard_drop t rt"
| "new_pending_future_drop _ rt = Some rt"

text \<open>
  \<open>run_async_step\<close> polls the caller's future (the parameter \<open>poll\<close> on its state) exactly once and
  then discards an unconsumed response.
\<close>

definition run_async_step ::
  "('f \<Rightarrow> ('r, 's) async_runtime \<Rightarrow> ('a option \<times> 'f \<times> ('r, 's) async_runtime) option) \<Rightarrow>
     'f \<Rightarrow> ('r, 's) async_runtime \<Rightarrow> ('a option \<times> 'f \<times> ('r, 's) async_runtime) option" where
  "run_async_step poll fut rt = do {
     (result, fut', rt') \<leftarrow> poll fut (rt\<lparr>has_new_future := False\<rparr>);
     Some (result, fut', rt'\<lparr>has_unblock := None\<rparr>)
   }"

definition has_new_blockage :: "('r, 's) async_runtime \<Rightarrow> bool" where
  "has_new_blockage rt = has_new_future rt"

section \<open>Queries by the caller of the runtime\<close>

definition check_pending_reasons ::
  "('r option \<Rightarrow> bool) \<Rightarrow> ('r, 's) async_runtime \<Rightarrow> 'r option" where
  "check_pending_reasons func rt =
     (let pf = pending_futures rt
      in case find (\<lambda>x. func (map_option fst x)) (take (pending_futures_size pf) pf) of
           Some (Some e) \<Rightarrow> Some (fst e)
         | _ \<Rightarrow> None)"

text \<open>The compaction loop of \<open>filter_valid_futures\<close>, over the indices still to visit.\<close>

fun filter_loop :: "('r option \<Rightarrow> bool) \<Rightarrow> nat list \<Rightarrow> nat \<Rightarrow> 'r pending \<Rightarrow> nat \<times> 'r pending" where
  "filter_loop func [] write_idx pf = (write_idx, pf)"
| "filter_loop func (i # is) write_idx pf =
     (if \<not> func (map_option fst (pf ! i)) then filter_loop func is write_idx pf
      else filter_loop func is (write_idx + 1)
             (if write_idx \<noteq> i then pf[write_idx := pf ! i] else pf))"

fun clear_loop :: "nat list \<Rightarrow> 'r pending \<Rightarrow> 'r pending" where
  "clear_loop [] pf = pf"
| "clear_loop (i # is) pf = clear_loop is (pf[i := None])"

definition filter_valid_futures ::
  "('r option \<Rightarrow> bool) \<Rightarrow> ('r, 's) async_runtime \<Rightarrow> ('r, 's) async_runtime" where
  "filter_valid_futures func rt =
     (let pf = pending_futures rt;
          end_idx = pending_futures_size pf;
          (write_idx, pf') = filter_loop func [0..<end_idx] 0 pf
      in rt\<lparr>pending_futures :=
              (if write_idx < end_idx then clear_loop [write_idx..<end_idx] pf' else pf')\<rparr>)"

section \<open>The yielder\<close>

record async_yielder =
  num_polls :: usize

definition yielder_unblock :: "async_yielder \<Rightarrow> async_yielder" where
  "yielder_unblock y = y\<lparr>num_polls := num_polls y + 1\<rparr>"

text \<open>\<open>yield_now\<close> remembers the counter when it starts and is ready once the counter differs.\<close>

definition yield_now_start :: "async_yielder \<Rightarrow> usize" where
  "yield_now_start y = num_polls y"

definition yield_now_poll :: "usize \<Rightarrow> async_yielder \<Rightarrow> unit option" where
  "yield_now_poll original y = (if num_polls y = original then None else Some ())"

section \<open>The table as an association list\<close>

definition table :: "('r \<times> nat) list \<Rightarrow> nat \<Rightarrow> 'r pending" where
  "table ps k = map Some ps @ replicate k None"

definition descending :: "('r::linorder \<times> nat) list \<Rightarrow> bool" where
  "descending ps \<longleftrightarrow> sorted_wrt (>) (map fst ps) \<and> (\<forall>e \<in> set ps. 0 < snd e)"

text \<open>The entries of a table: everything before the first free slot.\<close>

definition entries :: "'r pending \<Rightarrow> ('r \<times> nat) list" where
  "entries pf = map the (takeWhile (\<lambda>x. x \<noteq> None) pf)"

definition free_slots :: "'r pending \<Rightarrow> nat" where
  "free_slots pf = length pf - length (entries pf)"

text \<open>Well-formed: in descending order with positive counts, free slots only at the end.\<close>

definition wf_pending :: "'r::linorder pending \<Rightarrow> bool" where
  "wf_pending pf \<longleftrightarrow> pf = table (entries pf) (free_slots pf) \<and> descending (entries pf)"

definition count_of :: "'r pending \<Rightarrow> 'r \<Rightarrow> nat" where
  "count_of pf r = (case map_of (entries pf) r of None \<Rightarrow> 0 | Some c \<Rightarrow> c)"

lemma entries_table [table_simps]: "entries (table ps k) = ps"
proof -
  have "takeWhile (\<lambda>x. x \<noteq> None) (map Some ps @ replicate k None) = map Some ps"
    by (induction ps) (auto simp: takeWhile_replicate)
  then show ?thesis by (simp add: entries_def table_def comp_def)
qed

lemma length_table [table_simps]: "length (table ps k) = length ps + k"
  by (simp add: table_def)

lemma free_slots_table [table_simps]: "free_slots (table ps k) = k"
  by (simp add: free_slots_def table_simps)

lemma wf_pending_table [table_simps]: "wf_pending (table ps k) \<longleftrightarrow> descending ps"
  by (simp add: wf_pending_def table_simps)

lemma wf_pendingE:
  assumes "wf_pending pf"
  obtains ps k where "pf = table ps k" "descending ps"
  using assms unfolding wf_pending_def by blast

lemma descending_split:
  assumes "descending ps"
  obtains (present) hi c lo where "ps = hi @ (t, c) # lo" "\<forall>e \<in> set hi. t < fst e"
      "\<forall>e \<in> set lo. fst e < t" "0 < c" "descending (hi @ lo)"
    | (absent) hi lo where "ps = hi @ lo" "\<forall>e \<in> set hi. t < fst e" "\<forall>e \<in> set lo. fst e < t"
proof (cases "t \<in> fst ` set ps")
  case True
  then obtain c where "(t, c) \<in> set ps" by auto
  then obtain hi lo where ps: "ps = hi @ (t, c) # lo" by (auto dest: split_list)
  show ?thesis
    by (rule present [of hi c lo]) (use assms ps in \<open>auto simp: descending_def sorted_wrt_append\<close>)
next
  case False
  let ?hi = "takeWhile (\<lambda>e. t < fst e) ps" and ?lo = "dropWhile (\<lambda>e. t < fst e) ps"
  have "fst e < t" if "e \<in> set ?lo" for e
  proof (cases ?lo)
    case (Cons d ds)
    then have d: "\<not> t < fst d" "d \<in> set ps"
      by (metis hd_dropWhile list.distinct(1) list.sel(1), metis Cons list.set_intros(1) set_dropWhileD)
    have "sorted_wrt (>) (map fst ?lo)"
      using assms sorted_wrt_append [of "(>)" "map fst ?hi" "map fst ?lo"]
      by (metis descending_def map_append takeWhile_dropWhile_id)
    then have "fst e \<le> fst d" using that Cons by auto
    moreover have "fst d \<noteq> t" using False d by auto
    ultimately show ?thesis using d by auto
  qed (use that in \<open>simp only: list.set empty_iff\<close>)
  then show ?thesis
    by (intro absent [of ?hi ?lo]) (auto dest: set_takeWhileD)
qed

lemma descending_insert:
  assumes "descending (hi @ lo)" "\<forall>e \<in> set hi. t < fst e" "\<forall>e \<in> set lo. fst e < t" "0 < c"
  shows "descending (hi @ (t, c) # lo)"
  using assms by (auto simp: descending_def sorted_wrt_append)

lemma size_table:
  "pending_futures_size (table ps k) = (if k = 0 then length ps else length ps + k - 1)"
proof (cases "k = 0")
  case True
  have "binary_search_by size_cmp (map Some ps @ []) = Inl (length (map Some ps))"
    using partitionedI [of "map Some ps" size_cmp "[]" "[]"]
    by (intro std_search.search_insertion_point) (auto simp: size_cmp_def)
  then show ?thesis using True by (simp add: pending_futures_size_def table_def)
next
  case False
  then show ?thesis
    using binary_search_by_last_match [of "map Some ps" size_cmp "replicate k None"]
    by (simp add: pending_futures_size_def table_def size_cmp_def)
qed

lemma reason_cmp_simps [simp]:
  "reason_cmp t None = Greater" "t < fst e \<Longrightarrow> reason_cmp t (Some e) = Less"
  "fst e < t \<Longrightarrow> reason_cmp t (Some e) = Greater" "reason_cmp t (Some (t, c)) = Equal"
  by (auto simp: reason_cmp_def cmp_def)

lemma search_hit:
  assumes "\<forall>e \<in> set hi. t < fst e" "\<forall>e \<in> set lo. fst e < t"
  shows "binary_search_by (reason_cmp t) (table (hi @ (t, c) # lo) k) = Inr (length hi)"
proof -
  let ?lo = "map Some lo @ replicate k None"
  have hi: "\<forall>x \<in> set (map Some hi). reason_cmp t x = Less"
    and lo: "\<forall>x \<in> set ?lo. reason_cmp t x = Greater" using assms by auto
  have "partitioned (reason_cmp t) (map Some hi @ Some (t, c) # ?lo)"
    using partitionedI [OF hi _ lo, of "[Some (t, c)]"] by simp
  from std_search.search_unique_match [OF this _ hi lo] show ?thesis by (simp add: table_def)
qed

lemma search_miss:
  assumes "\<forall>e \<in> set hi. t < fst e" "\<forall>e \<in> set lo. fst e < t"
  shows "binary_search_by (reason_cmp t) (table (hi @ lo) k) = Inl (length hi)"
proof -
  let ?lo = "map Some lo @ replicate k None"
  have hi: "\<forall>x \<in> set (map Some hi). reason_cmp t x = Less"
    and lo: "\<forall>x \<in> set ?lo. reason_cmp t x = Greater" using assms by auto
  from std_search.search_insertion_point [OF _ hi lo] partitionedI [OF hi _ lo, of "[]"]
  show ?thesis by (simp add: table_def)
qed

section \<open>The operations on a well-formed table\<close>

lemma nth_table: "i < length ps \<Longrightarrow> table ps k ! i = Some (ps ! i)"
  by (simp add: table_def nth_append)

lemma table_update: "(table (hi @ x # lo) k)[length hi := Some y] = table (hi @ y # lo) k"
  by (simp add: table_def list_update_append)

lemma add_present:
  assumes "\<forall>e \<in> set hi. t < fst e" "\<forall>e \<in> set lo. fst e < t"
  shows "add_pending_future t (table (hi @ (t, c) # lo) k) =
    Some (Inr (table (hi @ (t, c + 1) # lo) k))"
  using search_hit [OF assms] by (simp add: add_pending_future_def nth_table table_update)

lemma add_full:
  assumes "\<forall>e \<in> set hi. t < fst e" "\<forall>e \<in> set lo. fst e < t"
  shows "add_pending_future t (table (hi @ lo) 0) = Some (Inl TooManyPending)"
  using search_miss [OF assms] by (simp add: add_pending_future_def size_table length_table)

lemma add_absent:
  assumes "\<forall>e \<in> set hi. t < fst e" "\<forall>e \<in> set lo. fst e < t"
  shows "add_pending_future t (table (hi @ lo) (Suc k)) =
    Some (Inr (table (hi @ (t, 1) # lo) k))"
proof -
  let ?hi = "map Some hi" and ?mid = "map Some lo @ replicate k None"
  have "table (hi @ lo) (Suc k) = ?hi @ ?mid @ None # []"
    by (simp add: table_def replicate_append_same)
  then have "copy_within (table (hi @ lo) (Suc k)) (length hi) (length hi + length lo + k) (Suc (length hi)) =
      Some (take (Suc (length hi)) (?hi @ ?mid @ [None]) @ ?mid @ [])"
    using copy_within_right [of "length hi" ?hi ?mid None "[]"] by (simp only: length_map
        length_append length_replicate add.assoc)
  moreover have "(take (Suc (length hi)) (?hi @ ?mid @ [None]) @ ?mid @ [])[length hi := Some (t, 1)] =
      table (hi @ (t, 1) # lo) k"
    by (cases ?mid) (simp_all add: table_def list_update_append)
  ultimately show ?thesis
    using search_miss [OF assms]
    by (simp add: add_pending_future_def size_table length_table add.assoc)
qed

lemma remove_absent:
  assumes "\<forall>e \<in> set hi. t < fst e" "\<forall>e \<in> set lo. fst e < t"
  shows "remove_pending_future t (table (hi @ lo) k) = Some (table (hi @ lo) k)"
  using search_miss [OF assms] by (simp add: remove_pending_future_def)

lemma remove_many:
  assumes "\<forall>e \<in> set hi. t < fst e" "\<forall>e \<in> set lo. fst e < t" "1 < c"
  shows "remove_pending_future t (table (hi @ (t, c) # lo) k) =
    Some (table (hi @ (t, c - 1) # lo) k)"
  using search_hit [OF assms(1,2)] assms(3)
  by (simp add: remove_pending_future_def nth_table table_update)

lemma remove_one:
  assumes "\<forall>e \<in> set hi. t < fst e" "\<forall>e \<in> set lo. fst e < t"
  shows "remove_pending_future t (table (hi @ (t, 1) # lo) k) =
    copy_within (table (hi @ (t, 1) # lo) k) (Suc (length hi))
      (pending_futures_size (table (hi @ (t, 1) # lo) k)) (length hi)"
  using search_hit [OF assms] by (simp add: remove_pending_future_def nth_table)

text \<open>The last reference to a reason: the gap closes when two slots are free.\<close>

lemma remove_last:
  assumes "\<forall>e \<in> set hi. t < fst e" "\<forall>e \<in> set lo. fst e < t"
  shows "remove_pending_future t (table (hi @ (t, 1) # lo) (Suc (Suc k))) =
    Some (table (hi @ lo) (Suc (Suc (Suc k))))"
proof -
  let ?hi = "map Some hi" and ?mid = "map Some lo @ replicate (Suc k) None"
  have tab: "table (hi @ (t, 1) # lo) (Suc (Suc k)) = ?hi @ Some (t, 1) # ?mid @ [None]"
    by (simp add: table_def replicate_append_same)
  have "drop (length ?mid) (Some (t, 1) # ?mid @ [None]) = [None, None]"
    by (simp add: replicate_append_same flip: replicate_Suc) (simp add: numeral_2_eq_2)
  then have "copy_within (table (hi @ (t, 1) # lo) (Suc (Suc k))) (Suc (length hi))
      (Suc (length hi) + length ?mid) (length hi) = Some (?hi @ ?mid @ [None, None])"
    unfolding tab using copy_within_left [of "length hi" ?hi "Some (t, 1)" ?mid "[None]"] by simp
  moreover have "?hi @ ?mid @ [None, None] = table (hi @ lo) (Suc (Suc (Suc k)))"
    by (simp add: table_def replicate_app_Cons_same)
  ultimately show ?thesis
    unfolding remove_one [OF assms] by (simp add: size_table add.assoc)
qed

text \<open>With at most one free slot the shift leaves a copy of the last entry behind.\<close>

lemma remove_last_crowded:
  assumes "\<forall>e \<in> set hi. t < fst e" "\<forall>e \<in> set lo. fst e < t" "k \<le> 1"
  shows "remove_pending_future t (table (hi @ (t, 1) # lo) k) =
    Some (table (hi @ lo @ [last ((t, 1) # lo)]) k)"
proof -
  let ?hi = "map Some hi" and ?mid = "map Some lo" and ?rest = "replicate k None"
  have tab: "table (hi @ (t, 1) # lo) k = ?hi @ Some (t, 1) # ?mid @ ?rest"
    by (simp add: table_def)
  have "drop (length ?mid) (Some (t, 1) # ?mid @ ?rest) = Some (last ((t, 1) # lo)) # ?rest"
    by (induction lo rule: rev_induct) simp_all
  then have "copy_within (table (hi @ (t, 1) # lo) k) (Suc (length hi))
      (Suc (length hi) + length ?mid) (length hi) =
      Some (?hi @ ?mid @ Some (last ((t, 1) # lo)) # ?rest)"
    unfolding tab using copy_within_left [of "length hi" ?hi "Some (t, 1)" ?mid ?rest] by simp
  moreover have "pending_futures_size (table (hi @ (t, 1) # lo) k) = Suc (length hi) + length ?mid"
    using assms(3) by (auto simp: size_table)
  ultimately show ?thesis
    unfolding remove_one [OF assms(1,2)] by (simp only: table_def) simp
qed

section \<open>The table as a bag of reasons\<close>

text \<open>
  What the runtime relies on: adding and removing change exactly one multiplicity, and neither
  fails.  The laws hold for the reasons of a given set.
\<close>

locale reason_bag =
  fixes reasons :: "'r set"
    and inv :: "'t \<Rightarrow> bool"
    and cnt :: "'t \<Rightarrow> 'r \<Rightarrow> nat"
    and add :: "'r \<Rightarrow> 't \<Rightarrow> ('e + 't) option"
    and rem :: "'r \<Rightarrow> 't \<Rightarrow> 't option"
  assumes add_law: "inv t \<Longrightarrow> r \<in> reasons \<Longrightarrow>
      \<exists>t'. add r t = Some (Inr t') \<and> inv t' \<and> cnt t' = (cnt t)(r := cnt t r + 1)"
    and rem_law: "inv t \<Longrightarrow> r \<in> reasons \<Longrightarrow>
      \<exists>t'. rem r t = Some t' \<and> inv t' \<and> cnt t' = (cnt t)(r := cnt t r - 1)"
begin

lemma add_returns: "inv t \<Longrightarrow> r \<in> reasons \<Longrightarrow> add r t \<noteq> None \<and> add r t \<noteq> Some (Inl e)"
  using add_law by force

lemma add_then_rem:
  assumes "inv t" "r \<in> reasons" "add r t = Some (Inr t')"
  shows "\<exists>t''. rem r t' = Some t'' \<and> inv t'' \<and> cnt t'' = cnt t"
proof -
  have "inv t'" "cnt t' = (cnt t)(r := cnt t r + 1)" using add_law assms by force+
  moreover from this obtain t'' where "rem r t' = Some t''" "inv t''"
    "cnt t'' = (cnt t')(r := cnt t' r - 1)" using rem_law assms(2) by blast
  ultimately show ?thesis by (auto simp: fun_eq_iff)
qed

text \<open>Counts bounded by a multiset of owners stay bounded when an owner is added or removed.\<close>

lemma add_bounded:
  assumes "inv t" "r \<in> reasons" "add r t = Some (Inr t')" "\<forall>x. cnt t x \<le> count L x"
  shows "inv t' \<and> (\<forall>x. cnt t' x \<le> count (add_mset r L) x)"
  using add_law [OF assms(1,2)] assms(3,4) by auto

lemma rem_bounded:
  assumes "inv t" "r \<in> reasons" "rem r t = Some t'" "\<forall>x. cnt t x \<le> count L x"
  shows "inv t' \<and> (\<forall>x. cnt t' x \<le> count (L - {#r#}) x) \<and> (\<forall>x. cnt t' x \<le> count L x)"
proof -
  have "inv t'" "cnt t' = (cnt t)(r := cnt t r - 1)" using rem_law [OF assms(1,2)] assms(3) by auto
  moreover have "cnt t r - 1 \<le> count L r - 1" using assms(4) by (simp add: diff_le_mono)
  ultimately show ?thesis using assms(4) by (auto intro: le_trans [OF diff_le_self])
qed

end

text \<open>
  The array keeps the laws as long as it has two slots more than there are reasons in use.
\<close>

definition pending_inv :: "'r::linorder set \<Rightarrow> 'r pending \<Rightarrow> bool" where
  "pending_inv R pf \<longleftrightarrow> wf_pending pf \<and> fst ` set (entries pf) \<subseteq> R \<and> finite R \<and>
     card R + 2 \<le> length pf"

lemma count_of_table [table_simps]:
  "count_of (table ps k) r = (case map_of ps r of None \<Rightarrow> 0 | Some c \<Rightarrow> c)"
  by (simp add: count_of_def table_simps)

lemma map_of_above: "\<forall>e \<in> set ps. (t::'r::linorder) < fst e \<Longrightarrow> map_of ps t = None"
  by (auto simp: map_of_eq_None_iff)

lemma map_of_below: "\<forall>e \<in> set ps. fst e < (t::'r::linorder) \<Longrightarrow> map_of ps t = None"
  by (auto simp: map_of_eq_None_iff)

lemmas map_of_split = map_of_append map_add_def map_of_above map_of_below

lemma count_of_insert:
  fixes t :: "'r::linorder"
  assumes "\<forall>e \<in> set hi. t < fst e" "\<forall>e \<in> set lo. fst e < t"
  shows "count_of (table (hi @ (t, c) # lo) k) = (count_of (table (hi @ lo) j))(t := c)"
  using assms map_of_above [OF assms(1)]
  by (auto simp: table_simps map_of_append map_add_def fun_eq_iff split: option.splits)

lemma descending_card:
  assumes "descending ps" "fst ` set ps \<subseteq> R" "finite R"
  shows "length ps \<le> card R"
proof -
  have "distinct (map fst ps)"
    using assms(1) by (auto simp: descending_def distinct_conv_nth sorted_wrt_iff_nth_less)
       (metis length_map linorder_neqE_nat nth_map order_less_irrefl)
  then have "length ps = card (fst ` set ps)" by (metis distinct_card length_map set_map)
  then show ?thesis using assms card_mono by metis
qed

lemma count_of_positive:
  assumes "descending ps"
  shows "0 < count_of (table ps k) r \<longleftrightarrow> r \<in> fst ` set ps"
proof (cases "map_of ps r")
  case None
  then have "r \<notin> fst ` set ps" by (simp add: map_of_eq_None_iff)
  then show ?thesis unfolding count_of_table None by simp
next
  case (Some c)
  then have "(r, c) \<in> set ps" by (rule map_of_SomeD)
  then show ?thesis using assms Some by (auto simp: table_simps descending_def intro: rev_image_eqI)
qed

lemma descending_count_positive: "descending (hi @ (t, c) # lo) \<Longrightarrow> 0 < c"
  by (auto simp: descending_def)

lemma descending_change:
  "descending (hi @ (t, c) # lo) \<Longrightarrow> 0 < d \<Longrightarrow> descending (hi @ (t, d) # lo)"
  by (auto simp: descending_def)

lemma pending_inv_table:
  "pending_inv R (table ps k) \<longleftrightarrow>
     descending ps \<and> fst ` set ps \<subseteq> R \<and> finite R \<and> card R + 2 \<le> length ps + k"
  by (simp add: pending_inv_def table_simps)

interpretation pending: reason_bag R "pending_inv R" count_of add_pending_future remove_pending_future
  for R :: "'r::linorder set"
proof
  fix pf :: "'r pending" and r
  assume inv: "pending_inv R pf" and r: "r \<in> R"
  then obtain ps k where pf: "pf = table ps k" and ps: "descending ps" "fst ` set ps \<subseteq> R" "finite R"
    "card R + 2 \<le> length ps + k"
    unfolding pending_inv_def by (metis length_table entries_table wf_pendingE)
  have k: "2 \<le> k" using descending_card [OF ps(1-3)] ps(4) by simp
  then obtain k' where k': "k = Suc (Suc k')" by (metis add_2_eq_Suc le_Suc_ex)
  show "\<exists>pf'. add_pending_future r pf = Some (Inr pf') \<and> pending_inv R pf' \<and>
      count_of pf' = (count_of pf)(r := count_of pf r + 1)"
    using ps(1)
  proof (cases rule: descending_split [where t = r])
    case (present hi c lo)
    then show ?thesis
      using ps add_present [OF present(2,3)] descending_change [of hi r c lo "Suc c"]
      by (auto simp: pf pending_inv_table count_of_insert [where j = 0] map_of_split table_simps)
  next
    case (absent hi lo)
    then show ?thesis
      using ps r add_absent [OF absent(2,3), of "Suc k'"] descending_insert [of hi lo r 1]
      by (auto simp: pf k' pending_inv_table count_of_insert [where j = "Suc (Suc k')"] map_of_split
          table_simps)
  qed
  show "\<exists>pf'. remove_pending_future r pf = Some pf' \<and> pending_inv R pf' \<and>
      count_of pf' = (count_of pf)(r := count_of pf r - 1)"
    using ps(1)
  proof (cases rule: descending_split [where t = r])
    case (present hi c lo)
    show ?thesis
    proof (cases "1 < c")
      case True
      then show ?thesis
        using ps present remove_many [OF present(2,3)] descending_change [of hi r c lo "c - 1"]
        by (auto simp: pf pending_inv_table count_of_insert [where j = 0] map_of_split table_simps)
    next
      case False
      then have "c = 1" using present(4) by simp
      then show ?thesis
        using ps present remove_last [OF present(2,3), of k']
        by (auto simp: pf k' pending_inv_table count_of_insert [where j = 0] map_of_split table_simps
            fun_eq_iff)
    qed
  next
    case (absent hi lo)
    then show ?thesis
      using ps remove_absent [OF absent(2,3)]
      by (auto simp: pf pending_inv_table map_of_split table_simps fun_eq_iff)
  qed
qed

section \<open>Queries\<close>

definition kept_slots :: "('r option \<Rightarrow> bool) \<Rightarrow> nat \<Rightarrow> nat \<Rightarrow> 'r pending \<Rightarrow> 'r pending" where
  "kept_slots func i e pf = filter (\<lambda>x. func (map_option fst x)) (take (e - i) (drop i pf))"

lemma kept_slots_step:
  assumes "i < e" "e \<le> length pf"
  shows "kept_slots func i e pf =
    (if func (map_option fst (pf ! i)) then [pf ! i] else []) @ kept_slots func (Suc i) e pf"
proof -
  have "take (e - i) (drop i pf) = pf ! i # take (e - Suc i) (drop (Suc i) pf)"
    using assms by (simp add: Cons_nth_drop_Suc [symmetric] take_Cons')
  then show ?thesis by (simp add: kept_slots_def)
qed

lemma filter_loop_spec:
  assumes "w \<le> i" "i \<le> e" "e \<le> length pf"
  shows "\<exists>pf'. filter_loop func [i..<e] w pf = (w + length (kept_slots func i e pf), pf') \<and>
    length pf' = length pf \<and> drop e pf' = drop e pf \<and>
    take (w + length (kept_slots func i e pf)) pf' = take w pf @ kept_slots func i e pf"
  using assms
proof (induction "e - i" arbitrary: i w pf)
  case 0
  then show ?case by (simp add: kept_slots_def)
next
  case (Suc d)
  have lt: "i < e" using Suc.hyps(2) by simp
  note cons = upt_conv_Cons [OF lt] kept_slots_step [OF lt Suc.prems(3)]
  show ?case
  proof (cases "func (map_option fst (pf ! i))")
    case False
    then show ?thesis using Suc.hyps(1) [of "Suc i" w pf] Suc.hyps(2) Suc.prems cons by auto
  next
    case True
    let ?pf = "if w \<noteq> i then pf[w := pf ! i] else pf"
    have "kept_slots func (Suc i) e ?pf = kept_slots func (Suc i) e pf" "drop e ?pf = drop e pf"
      "length ?pf = length pf" "take (Suc w) ?pf = take w pf @ [pf ! i]"
      using Suc.prems lt by (auto simp: kept_slots_def take_Suc_conv_app_nth)
    then show ?thesis
      using Suc.hyps(1) [of "Suc i" "Suc w" ?pf] Suc.hyps(2) Suc.prems lt cons True by auto
  qed
qed

lemma clear_loop_spec:
  "w \<le> e \<Longrightarrow> e \<le> length pf \<Longrightarrow>
     clear_loop [w..<e] pf = take w pf @ replicate (e - w) None @ drop e pf"
proof (induction "e - w" arbitrary: w pf)
  case (Suc d)
  have "clear_loop [w..<e] pf = clear_loop [Suc w..<e] (pf[w := None])"
    using Suc.hyps(2) by (simp add: upt_conv_Cons)
  also have "\<dots> = take (Suc w) (pf[w := None]) @ replicate (e - Suc w) None @ drop e pf"
    using Suc.hyps Suc.prems by (subst Suc.hyps(1)) auto
  also have "\<dots> = take w pf @ replicate (e - w) None @ drop e pf"
    using Suc.hyps(2) Suc.prems by (simp add: take_Suc_conv_app_nth Suc_diff_Suc flip: replicate_Suc)
  finally show ?case .
qed simp

lemma table_unique: "set ys \<subseteq> {None} \<Longrightarrow> map Some ps @ ys = table ps (length ys)"
proof -
  assume "set ys \<subseteq> {None}"
  then have "ys = replicate (length ys) None" by (intro replicate_eqI) auto
  then show ?thesis by (simp add: table_def)
qed

lemma size_table_within: "\<exists>m \<le> k. pending_futures_size (table ps k) = length ps + m"
  by (cases k) (auto simp: size_table)

lemma take_table: "m \<le> k \<Longrightarrow> take (length ps + m) (table ps k) = map Some ps @ replicate m None"
  by (simp add: table_def)

lemma filter_valid_array:
  fixes func :: "'r option \<Rightarrow> bool"
  assumes "pending_futures rt = pf" "e = pending_futures_size pf" "e \<le> length pf"
  defines "kept \<equiv> kept_slots func 0 e pf"
  shows "pending_futures (filter_valid_futures func rt) =
    kept @ replicate (e - length kept) None @ drop e pf"
proof -
  obtain pf' where loop: "filter_loop func [0..<e] 0 pf = (length kept, pf')" "length pf' = length pf"
      "drop e pf' = drop e pf" "take (length kept) pf' = kept"
    using filter_loop_spec [of 0 0 e pf func] assms(3) by (auto simp: kept_def)
  have le: "length kept \<le> e"
    using assms(3) by (simp add: kept_def kept_slots_def length_filter_le [THEN le_trans])
  show ?thesis
  proof (cases "length kept < e")
    case True
    then show ?thesis
      using loop clear_loop_spec [of "length kept" e pf'] assms(1-3)
      by (simp add: filter_valid_futures_def Let_def)
  next
    case False
    then have "pf' = kept @ drop e pf" using loop le by (metis append_take_drop_id le_antisym not_le)
    then show ?thesis
      using False loop assms(1,2) le by (simp add: filter_valid_futures_def Let_def)
  qed
qed

lemma filter_valid_table:
  fixes func :: "'r option \<Rightarrow> bool"
  assumes "pending_futures rt = table ps k"
  defines "qs \<equiv> filter (\<lambda>e. func (Some (fst e))) ps"
  shows "pending_futures (filter_valid_futures func rt) = table qs (length ps + k - length qs)"
proof -
  let ?e = "pending_futures_size (table ps k)"
  let ?kept = "kept_slots func 0 ?e (table ps k)"
  obtain m where e: "?e = length ps + m" "m \<le> k"
    using size_table_within by blast
  have kept: "?kept = map Some qs @ filter (\<lambda>x. func (map_option fst x)) (replicate m None)"
    unfolding e(1) kept_slots_def
    using e(2) by (simp add: take_table qs_def filter_map comp_def)
  let ?rest = "filter (\<lambda>x. func (map_option fst x)) (replicate m None) @
    replicate (?e - length ?kept) (None :: ('r \<times> nat) option) @ drop ?e (table ps k)"
  have fv: "pending_futures (filter_valid_futures func rt) = map Some qs @ ?rest"
    using filter_valid_array [OF assms(1) refl, of func, unfolded kept] e
    by (simp add: kept [unfolded e(1)] length_table)
  moreover have "set ?rest \<subseteq> {None}" unfolding e(1) by (auto simp: table_def)
  ultimately have tab: "pending_futures (filter_valid_futures func rt) = table qs (length ?rest)"
    by (simp only: table_unique)
  have "length ?kept \<le> ?e" using e(2) by (auto simp: kept_slots_def length_table e(1)
        intro: length_filter_le [THEN le_trans])
  moreover have "length ?kept = length qs +
      length (filter (\<lambda>x. func (map_option fst x)) (replicate m (None :: ('r \<times> nat) option)))"
    by (simp add: kept)
  ultimately have "length (map Some qs @ ?rest) = length ps + k"
    using e by (simp add: length_table)
  then have "length ?rest = length ps + k - length qs" by simp
  then show ?thesis using tab by (simp only:)
qed

lemma find_filter: "find P xs = (case filter P xs of [] \<Rightarrow> None | x # _ \<Rightarrow> Some x)"
  by (induction xs) auto

lemma check_pending_table:
  assumes "pending_futures rt = table ps k"
  shows "check_pending_reasons func rt =
    map_option fst (find (\<lambda>e. func (Some (fst e))) ps)"
proof -
  let ?e = "pending_futures_size (table ps k)"
  obtain m where e: "?e = length ps + m" "m \<le> k"
    using size_table_within by blast
  have "take ?e (table ps k) = map Some ps @ replicate m None"
    unfolding e(1) using e(2) by (rule take_table)
  moreover have "find (\<lambda>x. func (map_option fst x)) (map Some ps @ replicate m None) =
      (case find (\<lambda>e. func (Some (fst e))) ps of Some e \<Rightarrow> Some (Some e)
       | None \<Rightarrow> if func None \<and> 0 < m then Some None else None)"
    by (induction ps) (cases m, auto simp: find_filter)
  ultimately show ?thesis
    using assms by (auto simp: check_pending_reasons_def split: option.splits)
qed

section \<open>Runs of the runtime\<close>

text \<open>
  A state is the runtime with the multiset of reasons whose futures are registered and not yet
  finished or dropped.  The steps are everything the callers of the runtime can do: start a future,
  poll or drop a registered one, unblock a reason, prune the table, and begin or end an asynchronous
  step.  \<open>R\<close> is the set of reasons the program uses.
\<close>

inductive krsm_step ::
  "'r::linorder set \<Rightarrow> ('r, 's) async_runtime \<times> 'r multiset \<Rightarrow>
     ('r, 's) async_runtime \<times> 'r multiset \<Rightarrow> bool" for R where
  start: "r \<in> R \<Longrightarrow> new_pending_future_poll (Unpolled r) rt = Some (None, Waiting r, rt') \<Longrightarrow>
    krsm_step R (rt, L) (rt', add_mset r L)"
| start_ready: "r \<in> R \<Longrightarrow> new_pending_future_poll (Unpolled r) rt = Some (Some res, Finished, rt') \<Longrightarrow>
    krsm_step R (rt, L) (rt', L)"
| poll_pending: "r \<in># L \<Longrightarrow> new_pending_future_poll (Waiting r) rt = Some (None, Waiting r, rt') \<Longrightarrow>
    krsm_step R (rt, L) (rt', L)"
| poll_ready: "r \<in># L \<Longrightarrow> new_pending_future_poll (Waiting r) rt = Some (Some res, Finished, rt') \<Longrightarrow>
    krsm_step R (rt, L) (rt', L - {#r#})"
| drop: "r \<in># L \<Longrightarrow> new_pending_future_drop (Waiting r) rt = Some rt' \<Longrightarrow>
    krsm_step R (rt, L) (rt', L - {#r#})"
| unblock: "r \<in> R \<Longrightarrow> unblock_futures r s rt = Some (res, rt') \<Longrightarrow> krsm_step R (rt, L) (rt', L)"
| prune: "krsm_step R (rt, L) (filter_valid_futures func rt, L)"
| begin_step: "krsm_step R (rt, L) (rt\<lparr>has_new_future := False\<rparr>, L)"
| end_step: "krsm_step R (rt, L) (rt\<lparr>has_unblock := None\<rparr>, L)"

inductive krsm_reachable ::
  "'r::linorder set \<Rightarrow> nat \<Rightarrow> ('r, 's) async_runtime \<times> 'r multiset \<Rightarrow> bool" for R max_pending where
  init: "krsm_reachable R max_pending (async_runtime_new max_pending, {#})"
| step: "krsm_reachable R max_pending st \<Longrightarrow> krsm_step R st st' \<Longrightarrow> krsm_reachable R max_pending st'"

definition runtime_inv :: "'r::linorder set \<Rightarrow> ('r, 's) async_runtime \<times> 'r multiset \<Rightarrow> bool" where
  "runtime_inv R st \<longleftrightarrow> pending_inv R (pending_futures (fst st)) \<and> set_mset (snd st) \<subseteq> R \<and>
     (\<forall>r. count_of (pending_futures (fst st)) r \<le> count (snd st) r)"

lemma guard_poll_frame: "guard_poll t rt = (res, rt') \<Longrightarrow> pending_futures rt' = pending_futures rt"
  by (auto simp: guard_poll_def split: option.splits if_splits)

lemma guard_drop_Some: "guard_drop t rt = Some rt' \<Longrightarrow>
    \<exists>pf. remove_pending_future t (pending_futures rt) = Some pf \<and> rt' = rt\<lparr>pending_futures := pf\<rparr>"
  by (auto simp: guard_drop_def bind_eq_Some_conv)

lemma poll_waiting_cases:
  assumes "poll_waiting t rt = Some (res, fut, rt')"
  shows "res = None \<and> fut = Waiting t \<and> pending_futures rt' = pending_futures rt \<or>
    res \<noteq> None \<and> fut = Finished \<and>
      remove_pending_future t (pending_futures rt) = Some (pending_futures rt')"
  using assms
  by (auto simp: poll_waiting_def bind_eq_Some_conv split: prod.splits option.splits
      dest!: guard_poll_frame guard_drop_Some)

lemma runtime_inv_remove:
  assumes "runtime_inv R (rt, L)" "r \<in> R"
    "remove_pending_future r (pending_futures rt) = Some (pending_futures rt')"
  shows "runtime_inv R (rt', L - {#r#}) \<and> runtime_inv R (rt', L)"
  using pending.rem_bounded [OF _ assms(2,3), of L] assms(1)
  by (auto simp: runtime_inv_def dest: in_diffD)

lemma runtime_inv_add:
  assumes "runtime_inv R (rt, L)" "r \<in> R"
    "add_pending_future r (pending_futures rt) = Some (Inr (pending_futures rt'))"
  shows "runtime_inv R (rt', add_mset r L)"
  using pending.add_bounded [OF _ assms(2,3), of L] assms(1,2) by (simp add: runtime_inv_def)

lemma runtime_inv_same_table:
  "runtime_inv R (rt, L) \<Longrightarrow> pending_futures rt' = pending_futures rt \<Longrightarrow> runtime_inv R (rt', L)"
  by (simp add: runtime_inv_def)

lemma pending_inv_table_form:
  assumes "pending_inv R pf"
  obtains ps k where "pf = table ps k" "descending ps" "fst ` set ps \<subseteq> R" "finite R"
    "card R + 2 \<le> length ps + k"
  using assms by (auto simp: pending_inv_table pending_inv_def elim!: wf_pendingE)
    (metis entries_table length_table)

lemma descending_filter: "descending ps \<Longrightarrow> descending (filter P ps)"
  by (induction ps) (auto simp: descending_def)

lemma map_of_filter_key:
  "map_of (filter (\<lambda>e. P (fst e)) ps) r = (if P r then map_of ps r else None)"
  by (induction ps) auto

lemma filter_valid_inv:
  fixes func :: "'r::linorder option \<Rightarrow> bool"
  assumes "pending_inv R (pending_futures rt)"
  defines "rt' \<equiv> filter_valid_futures func rt"
  shows "pending_inv R (pending_futures rt')"
    and "count_of (pending_futures rt') r = (if func (Some r) then count_of (pending_futures rt) r else 0)"
    and "length (pending_futures rt') = length (pending_futures rt)"
proof -
  obtain ps k where pf: "pending_futures rt = table ps k" "descending ps" "fst ` set ps \<subseteq> R" "finite R"
      "card R + 2 \<le> length ps + k"
    using assms(1) by (rule pending_inv_table_form)
  note fv = filter_valid_table [OF pf(1), of func, folded rt'_def]
  have "length (filter (\<lambda>e. func (Some (fst e))) ps) \<le> length ps + k" by (simp add: trans_le_add1)
  then show "pending_inv R (pending_futures rt')" "length (pending_futures rt') = length (pending_futures rt)"
    using pf descending_filter [OF pf(2)] by (auto simp: fv pending_inv_table length_table)
  show "count_of (pending_futures rt') r = (if func (Some r) then count_of (pending_futures rt) r else 0)"
    by (simp add: fv pf(1) table_simps map_of_filter_key [where P = "\<lambda>r. func (Some r)"])
qed

lemma krsm_step_inv: "krsm_step R st st' \<Longrightarrow> runtime_inv R st \<Longrightarrow> runtime_inv R st'"
proof (induction rule: krsm_step.induct)
  case (start r rt rt' L)
  have inv: "pending_inv R (pending_futures rt)" using start.prems by (simp add: runtime_inv_def)
  obtain pf where add: "add_pending_future r (pending_futures rt) = Some (Inr pf)"
    using pending.add_law [OF inv start(1)] by blast
  then have "pending_futures rt' = pf" using start(2) by (auto dest: poll_waiting_cases)
  then show ?case using add runtime_inv_add start by blast
next
  case (start_ready r rt res rt' L)
  have inv: "pending_inv R (pending_futures rt)" using start_ready.prems by (simp add: runtime_inv_def)
  obtain pf where add: "add_pending_future r (pending_futures rt) = Some (Inr pf)"
    using pending.add_law [OF inv start_ready(1)] by blast
  then have "remove_pending_future r pf = Some (pending_futures rt')"
    using start_ready(2) by (auto dest: poll_waiting_cases)
  moreover have "runtime_inv R (rt\<lparr>pending_futures := pf\<rparr>, add_mset r L)"
    using runtime_inv_add [OF start_ready.prems start_ready(1), of "rt\<lparr>pending_futures := pf\<rparr>"] add
    by simp
  ultimately show ?case
    using runtime_inv_remove [of R "rt\<lparr>pending_futures := pf\<rparr>" "add_mset r L" r rt'] start_ready(1)
    by simp
next
  case (poll_pending r L rt rt')
  then show ?case by (auto dest: poll_waiting_cases intro: runtime_inv_same_table)
next
  case (poll_ready r L rt res rt')
  then have "r \<in> R" by (auto simp: runtime_inv_def)
  then show ?case using poll_ready by (auto dest!: poll_waiting_cases runtime_inv_remove)
next
  case (drop r L rt rt')
  then have "r \<in> R" by (auto simp: runtime_inv_def)
  then show ?case
    using drop runtime_inv_remove [of R rt L r rt'] by (auto dest!: guard_drop_Some)
next
  case (unblock r s rt res rt' L)
  then show ?case
    using runtime_inv_remove [of R rt L r rt']
    by (auto simp: unblock_futures_def bind_eq_Some_conv split: if_splits)
next
  case (prune rt L func)
  then show ?case
    using filter_valid_inv [of R rt func] by (auto simp: runtime_inv_def)
qed (auto intro: runtime_inv_same_table)

lemma runtime_inv_init:
  fixes R :: "'r::linorder set"
  assumes "finite R" "card R + 2 \<le> max_pending"
  shows "runtime_inv R (async_runtime_new max_pending, {#})"
proof -
  have "replicate max_pending None = table ([] :: ('r \<times> nat) list) max_pending" by (simp add: table_def)
  then show ?thesis
    using assms by (simp add: runtime_inv_def async_runtime_new_def pending_inv_table table_simps
        descending_def)
qed

lemma krsm_reachable_inv:
  assumes "krsm_reachable R max_pending st" "finite R" "card R + 2 \<le> max_pending"
  shows "runtime_inv R st"
  using assms by (induction rule: krsm_reachable.induct) (auto intro: runtime_inv_init krsm_step_inv)

section \<open>Properties of the runtime\<close>

lemma start_returns:
  assumes "pending_inv R (pending_futures rt)" "r \<in> R" "has_unblock rt = None"
  obtains rt' where "new_pending_future_poll (Unpolled r) rt = Some (None, Waiting r, rt')"
    "pending_inv R (pending_futures rt')" "has_unblock rt' = None" "has_new_future rt'"
    "count_of (pending_futures rt') = (count_of (pending_futures rt))(r := count_of (pending_futures rt) r + 1)"
proof -
  obtain pf where "add_pending_future r (pending_futures rt) = Some (Inr pf)" "pending_inv R pf"
    "count_of pf = (count_of (pending_futures rt))(r := count_of (pending_futures rt) r + 1)"
    using pending.add_law [OF assms(1,2)] by blast
  then show ?thesis
    using assms(3) by (intro that [of "rt\<lparr>has_new_future := True, pending_futures := pf\<rparr>"])
      (auto simp: poll_waiting_def guard_poll_def)
qed

lemma unblock_returns:
  assumes "pending_inv R (pending_futures rt)" "r \<in> R" "has_unblock rt = None"
  obtains rt' where "unblock_futures r s rt = Some (Inr (), rt')"
    "pending_inv R (pending_futures rt')" "has_unblock rt' = Some (r, s)"
    "count_of (pending_futures rt') = (count_of (pending_futures rt))(r := count_of (pending_futures rt) r - 1)"
proof -
  obtain pf where "remove_pending_future r (pending_futures rt) = Some pf" "pending_inv R pf"
    "count_of pf = (count_of (pending_futures rt))(r := count_of (pending_futures rt) r - 1)"
    using pending.rem_law [OF assms(1,2)] by blast
  then show ?thesis
    using assms(3)
    by (intro that [of "rt\<lparr>pending_futures := pf, has_unblock := Some (r, s)\<rparr>"])
      (auto simp: unblock_futures_def)
qed

lemma resolve_returns:
  assumes "pending_inv R (pending_futures rt)" "r \<in> R" "has_unblock rt = Some (r, s)"
  obtains rt' where "new_pending_future_poll (Waiting r) rt = Some (Some (Inr s), Finished, rt')"
    "pending_inv R (pending_futures rt')" "has_unblock rt' = None" "has_new_future rt' = has_new_future rt"
    "count_of (pending_futures rt') = (count_of (pending_futures rt))(r := count_of (pending_futures rt) r - 1)"
proof -
  obtain pf where "remove_pending_future r (pending_futures rt) = Some pf" "pending_inv R pf"
    "count_of pf = (count_of (pending_futures rt))(r := count_of (pending_futures rt) r - 1)"
    using pending.rem_law [OF assms(1,2)] by blast
  then show ?thesis
    using assms(3)
    by (intro that [of "rt\<lparr>has_unblock := None, pending_futures := pf\<rparr>"])
      (auto simp: poll_waiting_def guard_poll_def guard_drop_def)
qed

lemma poll_other_reason:
  "has_unblock rt = Some (r', s) \<Longrightarrow> r' \<noteq> r \<Longrightarrow>
     new_pending_future_poll (Waiting r) rt = Some (None, Waiting r, rt)"
  by (simp add: poll_waiting_def guard_poll_def)

lemma run_async_step_eq:
  "poll fut (rt\<lparr>has_new_future := False\<rparr>) = Some (res, fut', rt') \<Longrightarrow>
     run_async_step poll fut rt = Some (res, fut', rt'\<lparr>has_unblock := None\<rparr>)"
  by (simp add: run_async_step_def)

lemma find_greatest:
  assumes "descending ps"
  shows "map_option fst (find (\<lambda>e. P (fst e)) ps) = Some r \<longleftrightarrow>
    r \<in> fst ` set ps \<and> P r \<and> (\<forall>r'. r' \<in> fst ` set ps \<and> P r' \<longrightarrow> r' \<le> r)"
  using assms
proof (induction ps)
  case (Cons e es)
  have below: "\<forall>r' \<in> fst ` set es. r' < fst e" and es: "descending es"
    using Cons.prems by (auto simp: descending_def)
  show ?case
  proof (cases "P (fst e)")
    case True
    then have "map_option fst (find (\<lambda>e. P (fst e)) (e # es)) = Some r \<longleftrightarrow> fst e = r" by simp
    also have "\<dots> \<longleftrightarrow> r \<in> fst ` set (e # es) \<and> P r \<and>
        (\<forall>r'. r' \<in> fst ` set (e # es) \<and> P r' \<longrightarrow> r' \<le> r)"
      using True below by (metis image_insert insert_iff leD less_imp_le list.simps(15) order_refl)
    finally show ?thesis .
  next
    case False
    then show ?thesis using Cons.IH [OF es] by auto
  qed
qed simp

text \<open>
  \<open>check_pending_reasons\<close> returns the greatest registered reason that the callback accepts, and
  nothing exactly when the callback rejects all of them; what the callback answers for an empty slot
  does not matter.
\<close>

lemma check_pending_reasons_greatest:
  assumes "wf_pending (pending_futures rt)"
  shows "check_pending_reasons func rt = Some r \<longleftrightarrow>
    0 < count_of (pending_futures rt) r \<and> func (Some r) \<and>
    (\<forall>r'. 0 < count_of (pending_futures rt) r' \<and> func (Some r') \<longrightarrow> r' \<le> r)"
proof -
  obtain ps k where pf: "pending_futures rt = table ps k" "descending ps"
    using assms by (rule wf_pendingE)
  then show ?thesis
    using find_greatest [OF pf(2), of "\<lambda>r. func (Some r)" r]
    by (simp add: check_pending_table count_of_positive)
qed

text \<open>
  C24.  The reasons that \<open>check_pending_reasons\<close> reports are reasons of futures that are alive.  In every state the callers can
  reach, with a table that has two slots more than the program has reasons, no reason is registered more often than it has
  futures that were neither finished nor dropped; so a reported reason has such a future, and it is the greatest registered one
  that the callback accepts.  A reason may be registered less often: \<open>unblock_futures\<close> and
  \<open>filter_valid_futures\<close> remove reasons of futures that are still alive.
\<close>

theorem krsm_reports_live_reasons:
  assumes "krsm_reachable R max_pending (rt, L)" "finite R" "card R + 2 \<le> max_pending"
    and "check_pending_reasons func rt = Some r"
  shows "r \<in># L \<and> func (Some r) \<and>
    (\<forall>x. 0 < count_of (pending_futures rt) x \<and> func (Some x) \<longrightarrow> x \<le> r) \<and>
    (\<forall>x. count_of (pending_futures rt) x \<le> count L x)"
proof -
  have inv: "runtime_inv R (rt, L)" using assms(1-3) by (rule krsm_reachable_inv)
  then have wf: "wf_pending (pending_futures rt)" and le: "\<forall>x. count_of (pending_futures rt) x \<le> count L x"
    by (simp_all add: runtime_inv_def pending_inv_def)
  have "0 < count_of (pending_futures rt) r \<and> func (Some r) \<and>
      (\<forall>x. 0 < count_of (pending_futures rt) x \<and> func (Some x) \<longrightarrow> x \<le> r)"
    using check_pending_reasons_greatest [OF wf] assms(4) by simp
  then show ?thesis using le by (metis count_greater_zero_iff less_le_trans)
qed

text \<open>A runtime of six slots with one future that waits for reason 1 of the reasons 1 and 2.\<close>

definition example_runtime :: "(nat, nat) async_runtime" where
  "example_runtime = \<lparr>has_unblock = None, has_new_future = True,
     pending_futures = [Some (1, 1), None, None, None, None, None]\<rparr>"

lemma example_reachable: "krsm_reachable {1, 2} 6 (example_runtime, {#1#})"
proof -
  have "new_pending_future_poll (Unpolled (1::nat)) (async_runtime_new 6 :: (nat, nat) async_runtime) =
      Some (None, Waiting 1, example_runtime)"
    by code_simp
  then have "krsm_step {1, 2} (async_runtime_new 6 :: (nat, nat) async_runtime, {#}) (example_runtime, {#1#})"
    by (intro krsm_step.start) auto
  then show ?thesis by (rule krsm_reachable.step [OF krsm_reachable.init])
qed

theorem krsm_reports_live_reasons_witness:
  "check_pending_reasons (\<lambda>_. True) example_runtime = Some 1 \<and> (1::nat) \<in># {#1#} \<and> count_of (pending_futures example_runtime) 1 \<le> 1"
proof -
  have c: "check_pending_reasons (\<lambda>_. True) example_runtime = Some 1" by code_simp
  show ?thesis
    using c krsm_reports_live_reasons [OF example_reachable _ _ c] by (auto dest: spec [of _ 1])
qed

text \<open>
  C23.  If the table has two slots more than the program has reasons, no operation of the runtime panics or runs out of slots
  in a reachable state: starting, polling and dropping a future, and unblocking a reason, all return, and starting never
  fails with \<open>TooManyPending\<close>.  With fewer slots it can: \<open>add_pending_future_capacity\<close> says when, and
  \<open>remove_pending_future_crowded\<close> why two slots must be free.
\<close>

theorem krsm_never_stuck:
  fixes rt :: "('r::linorder, 's) async_runtime"
  assumes "krsm_reachable R max_pending (rt, L)" "finite R" "card R + 2 \<le> max_pending" "r \<in> R"
  shows "unblock_futures r s rt \<noteq> None \<and>
    (\<exists>res fut rt'. new_pending_future_poll (Unpolled r) rt = Some (res, fut, rt') \<and>
       res \<noteq> Some (Inl TooManyPending)) \<and>
    new_pending_future_poll (Waiting r) rt \<noteq> None \<and>
    new_pending_future_drop (Waiting r) rt \<noteq> None"
proof -
  have inv: "pending_inv R (pending_futures rt)"
    using krsm_reachable_inv [OF assms(1-3)] by (simp add: runtime_inv_def)
  obtain pf where rem: "remove_pending_future r (pending_futures rt) = Some pf"
    using pending.rem_law [OF inv assms(4)] by blast
  have poll: "\<exists>res fut rt''. poll_waiting r rt' = Some (res, fut, rt'') \<and> res \<noteq> Some (Inl TooManyPending)"
    if "pending_inv R (pending_futures rt')" for rt' :: "('r, 's) async_runtime"
    using pending.rem_law [OF that assms(4)]
    by (auto simp: poll_waiting_def guard_poll_def guard_drop_def split: option.splits)
  obtain pf' where "add_pending_future r (pending_futures rt) = Some (Inr pf')" "pending_inv R pf'"
    using pending.add_law [OF inv assms(4)] by blast
  then show ?thesis
    using rem poll [of rt] poll [of "rt\<lparr>has_new_future := True, pending_futures := pf'\<rparr>"] inv
    by (auto simp: unblock_futures_def guard_drop_def)
qed

theorem krsm_never_stuck_witness:
  "new_pending_future_drop (Waiting (1::nat)) example_runtime \<noteq> None"
  using krsm_never_stuck [OF example_reachable, of 1] by simp

text \<open>
  C20.  The life of one future, as in the crate's unit test, for a table that has two slots more than the program has reasons.  The
  first step registers it: the multiplicity of its reason in the table grows by one, no other changes, the runtime
  reports a new blockage and \<open>check_pending_reasons\<close> finds the reason.  A step after an unrelated reason was unblocked leaves the
  future pending and registered.  Unblocking its own reason takes the reason out of the table once, and the next step returns
  exactly the given response; the guard then takes the reason out once more, and the response slot is empty.
\<close>

theorem krsm_await_protocol:
  fixes rt :: "('r::linorder, 's) async_runtime"
  assumes "pending_inv R (pending_futures rt)" "has_unblock rt = None" "r \<in> R" "r' \<in> R" "r' \<noteq> r"
  shows "\<exists>rt1 rt2 rt3 rt4 rt5. let n = count_of (pending_futures rt) in
    run_async_step new_pending_future_poll (Unpolled r) rt = Some (None, Waiting r, rt1) \<and>
    has_new_blockage rt1 \<and> count_of (pending_futures rt1) = n(r := n r + 1) \<and>
    check_pending_reasons (\<lambda>x. x = Some r) rt1 = Some r \<and>
    unblock_futures r' s' rt1 = Some (Inr (), rt2) \<and>
    run_async_step new_pending_future_poll (Waiting r) rt2 = Some (None, Waiting r, rt3) \<and>
    \<not> has_new_blockage rt3 \<and> count_of (pending_futures rt3) = n(r := n r + 1, r' := n r' - 1) \<and>
    unblock_futures r s rt3 = Some (Inr (), rt4) \<and> count_of (pending_futures rt4) = n(r' := n r' - 1) \<and>
    run_async_step new_pending_future_poll (Waiting r) rt4 = Some (Some (Inr s), Finished, rt5) \<and>
    \<not> has_new_blockage rt5 \<and> has_unblock rt5 = None \<and> count_of (pending_futures rt5) = n(r := n r - 1, r' := n r' - 1)"
proof -
  let ?n = "count_of (pending_futures rt)"
  obtain rt1 where rt1: "new_pending_future_poll (Unpolled r) (rt\<lparr>has_new_future := False\<rparr>) =
      Some (None, Waiting r, rt1)" "pending_inv R (pending_futures rt1)" "has_new_future rt1"
      "count_of (pending_futures rt1) = ?n(r := ?n r + 1)"
    using start_returns [of R "rt\<lparr>has_new_future := False\<rparr>" r] assms by auto
  let ?rt1 = "rt1\<lparr>has_unblock := None\<rparr>"
  have report: "check_pending_reasons (\<lambda>x. x = Some r) ?rt1 = Some r"
    using rt1(2,4) by (subst check_pending_reasons_greatest) (simp_all add: pending_inv_def)
  obtain rt2 where rt2: "unblock_futures r' s' ?rt1 = Some (Inr (), rt2)"
      "pending_inv R (pending_futures rt2)" "has_unblock rt2 = Some (r', s')"
      "count_of (pending_futures rt2) = ?n(r := ?n r + 1, r' := ?n r' - 1)"
    using unblock_returns [of R ?rt1 r' s'] rt1(2,4) assms(4,5) by auto
  let ?rt3 = "rt2\<lparr>has_new_future := False, has_unblock := None\<rparr>"
  have step2: "run_async_step new_pending_future_poll (Waiting r) rt2 = Some (None, Waiting r, ?rt3)"
    using rt2(3) assms(5)
    by (intro run_async_step_eq) (simp add: poll_waiting_def guard_poll_def)
  obtain rt4 where rt4: "unblock_futures r s ?rt3 = Some (Inr (), rt4)"
      "pending_inv R (pending_futures rt4)" "has_unblock rt4 = Some (r, s)"
      "count_of (pending_futures rt4) = ?n(r' := ?n r' - 1)"
    using unblock_returns [of R ?rt3 r s] rt2(2,4) assms(3,5) by (auto simp: fun_upd_twist)
  obtain rt5 where rt5: "new_pending_future_poll (Waiting r) (rt4\<lparr>has_new_future := False\<rparr>) =
      Some (Some (Inr s), Finished, rt5)" "has_new_future rt5 = False"
      "count_of (pending_futures rt5) = ?n(r := ?n r - 1, r' := ?n r' - 1)"
    using resolve_returns [of R "rt4\<lparr>has_new_future := False\<rparr>" r s] rt4(2,3,4) assms(3,5) by (auto simp: fun_upd_twist)
  show ?thesis
    using run_async_step_eq [where poll = new_pending_future_poll, OF rt1(1)] rt1(3,4) report rt2(1,4) step2
      rt4(1,4) run_async_step_eq [where poll = new_pending_future_poll, OF rt5(1)] rt5(2,3)
    unfolding Let_def by (intro exI conjI) (assumption | simp add: has_new_blockage_def)+
qed

theorem krsm_await_protocol_witness:
  "\<exists>rt1 rt4 rt5. count_of (pending_futures rt1) 2 = 1 \<and>
     run_async_step new_pending_future_poll (Unpolled (2::nat)) example_runtime = Some (None, Waiting 2, rt1) \<and>
     run_async_step new_pending_future_poll (Waiting (2::nat)) rt4 = Some (Some (Inr (7::nat)), Finished, rt5)"
proof -
  have "pending_inv {1, 2} (pending_futures example_runtime)"
    using krsm_reachable_inv [OF example_reachable] by (simp add: runtime_inv_def)
  moreover have "has_unblock example_runtime = None" "count_of (pending_futures example_runtime) 2 = 0"
    by (simp_all add: example_runtime_def count_of_def entries_def)
  ultimately obtain rt1 rt4 rt5 where
      "run_async_step new_pending_future_poll (Unpolled 2) example_runtime = Some (None, Waiting 2, rt1)"
      "count_of (pending_futures rt1) 2 = 1"
      "run_async_step new_pending_future_poll (Waiting (2::nat)) rt4 = Some (Some (Inr (7::nat)), Finished, rt5)"
    using krsm_await_protocol [of "{1, 2}" example_runtime 2 1 0 7] unfolding Let_def by auto
  then show ?thesis by blast
qed

text \<open>
  \<open>filter_valid_futures\<close> keeps the multiplicities of the reasons that the callback accepts,
  removes the others, and leaves a well-formed table of the same size.
\<close>

theorem filter_valid_futures_counts:
  assumes "wf_pending (pending_futures rt)"
  shows "wf_pending (pending_futures (filter_valid_futures func rt)) \<and>
    length (pending_futures (filter_valid_futures func rt)) = length (pending_futures rt) \<and>
    count_of (pending_futures (filter_valid_futures func rt)) r =
      (if func (Some r) then count_of (pending_futures rt) r else 0)"
proof -
  obtain ps k where pf: "pending_futures rt = table ps k" "descending ps"
    using assms by (rule wf_pendingE)
  have "length (filter (\<lambda>e. func (Some (fst e))) ps) \<le> length ps + k" by (simp add: trans_le_add1)
  then show ?thesis
    using descending_filter [OF pf(2)]
    by (simp add: filter_valid_table [OF pf(1)] pf(1) table_simps
        map_of_filter_key [where P = "\<lambda>r. func (Some r)"])
qed

theorem filter_valid_futures_counts_witness:
  "count_of (pending_futures (filter_valid_futures (\<lambda>x. x \<noteq> Some 1) example_runtime)) 1 = 0"
proof -
  have "wf_pending (pending_futures example_runtime)"
    using krsm_reachable_inv [OF example_reachable] by (simp add: runtime_inv_def pending_inv_def)
  then show ?thesis using filter_valid_futures_counts [of example_runtime "\<lambda>x. x \<noteq> Some 1" 1] by simp
qed

text \<open>
  Starting a future on a well-formed table fails with \<open>TooManyPending\<close> exactly when the table is
  full and the reason is not in it yet, and then the table is unchanged; otherwise the future is
  registered.
\<close>

theorem add_pending_future_capacity:
  assumes "wf_pending pf"
  shows "(add_pending_future t pf = Some (Inl TooManyPending) \<longleftrightarrow> free_slots pf = 0 \<and> count_of pf t = 0) \<and>
    (free_slots pf = 0 \<and> count_of pf t = 0 \<longrightarrow> remove_pending_future t pf = Some pf) \<and>
    (0 < free_slots pf \<or> 0 < count_of pf t \<longrightarrow>
      (\<exists>pf'. add_pending_future t pf = Some (Inr pf') \<and> wf_pending pf' \<and>
         count_of pf' = (count_of pf)(t := count_of pf t + 1)))"
proof -
  obtain ps k where pf: "pf = table ps k" "descending ps" using assms by (rule wf_pendingE)
  show ?thesis
    using pf(2)
  proof (cases rule: descending_split [where t = t])
    case (present hi c lo)
    then show ?thesis
      using pf add_present [OF present(2,3)] descending_change [of hi t c lo "Suc c"]
      by (auto simp: count_of_insert [where j = 0] map_of_split table_simps)
  next
    case (absent hi lo)
    have "\<not> 0 < count_of pf t" using absent pf by (auto simp: count_of_positive)
    then have none: "count_of pf t = 0" by simp
    have free: "free_slots pf = k" using pf(1) by (simp add: table_simps)
    show ?thesis
    proof (cases k)
      case 0
      have "add_pending_future t pf = Some (Inl TooManyPending)" "remove_pending_future t pf = Some pf"
        using pf(1) absent(1) 0 add_full [OF absent(2,3)] remove_absent [OF absent(2,3)] by simp_all
      then show ?thesis using none free 0 by simp
    next
      case (Suc k')
      have "add_pending_future t pf = Some (Inr (table (hi @ (t, 1) # lo) k'))"
        using pf(1) absent(1) Suc add_absent [OF absent(2,3), of k'] by simp
      moreover have "wf_pending (table (hi @ (t, 1) # lo) k')"
        using pf(2) absent descending_insert [of hi lo t 1] by (simp add: table_simps)
      moreover have "count_of (table (hi @ (t, 1) # lo) k') = (count_of pf)(t := count_of pf t + 1)"
        using pf absent none by (simp add: count_of_insert [where j = k])
      ultimately show ?thesis using none free Suc by simp
    qed
  qed
qed

theorem add_pending_future_capacity_witness:
  "add_pending_future (3::nat) [Some (2, 1)] = Some (Inl TooManyPending)"
proof -
  have "wf_pending [Some (2::nat, 1)]"
    by (simp add: wf_pending_def table_def entries_def free_slots_def descending_def)
  moreover have "free_slots [Some (2::nat, 1)] = 0" "count_of [Some (2::nat, 1)] 3 = 0"
    by (simp_all add: free_slots_def entries_def count_of_def)
  ultimately show ?thesis using add_pending_future_capacity [of "[Some (2::nat, 1)]" 3] by simp
qed

text \<open>
  C27.  With at most one free slot, removing the last reference to a reason does not free a slot: the
  shift stops before the last entry, which stays in its old place, so the smallest reason cannot be
  removed at all.
\<close>

theorem remove_pending_future_crowded:
  assumes "descending (hi @ [(t, 1)])" "k \<le> 1"
  shows "remove_pending_future t (table (hi @ [(t, 1)]) k) = Some (table (hi @ [(t, 1)]) k) \<and>
    count_of (table (hi @ [(t, 1)]) k) t = 1"
proof -
  have hi: "\<forall>e \<in> set hi. t < fst e" using assms(1) by (auto simp: descending_def sorted_wrt_append)
  then show ?thesis
    using remove_last_crowded [OF hi, of "[]" k] assms(2) by (simp add: table_simps map_of_split)
qed

theorem remove_pending_future_crowded_witness:
  "remove_pending_future (1::nat) [Some (2, 1), Some (1, 1), None] =
     Some [Some (2, 1), Some (1, 1), None]"
  using remove_pending_future_crowded [of "[(2, 1)]" "1::nat" 1]
  by (simp add: descending_def table_def)

text \<open>
  C28.  A response is charged twice: unblocking a reason and finishing its future both remove one
  reference.  When another future waits for the same reason, one full cycle of a second future
  leaves that reason unregistered although the first future still waits.
\<close>

theorem shared_reason_lost:
  assumes "pending_inv R (pending_futures rt)" "has_unblock rt = None" "r \<in> R"
  shows "\<exists>rt1 rt2 rt3.
    new_pending_future_poll (Unpolled r) rt = Some (None, Waiting r, rt1) \<and>
    unblock_futures r s rt1 = Some (Inr (), rt2) \<and>
    new_pending_future_poll (Waiting r) rt2 = Some (Some (Inr s), Finished, rt3) \<and>
    count_of (pending_futures rt3) =
      (count_of (pending_futures rt))(r := count_of (pending_futures rt) r - 1)"
proof -
  obtain rt1 where rt1: "new_pending_future_poll (Unpolled r) rt = Some (None, Waiting r, rt1)"
      "pending_inv R (pending_futures rt1)" "has_unblock rt1 = None"
      "count_of (pending_futures rt1) = (count_of (pending_futures rt))(r := count_of (pending_futures rt) r + 1)"
    by (rule start_returns [OF assms(1,3,2)])
  obtain rt2 where rt2: "unblock_futures r s rt1 = Some (Inr (), rt2)"
      "pending_inv R (pending_futures rt2)" "has_unblock rt2 = Some (r, s)"
      "count_of (pending_futures rt2) = (count_of (pending_futures rt1))(r := count_of (pending_futures rt1) r - 1)"
    by (rule unblock_returns [OF rt1(2) assms(3) rt1(3)])
  obtain rt3 where rt3: "new_pending_future_poll (Waiting r) rt2 = Some (Some (Inr s), Finished, rt3)"
      "count_of (pending_futures rt3) = (count_of (pending_futures rt2))(r := count_of (pending_futures rt2) r - 1)"
    by (rule resolve_returns [OF rt2(2) assms(3) rt2(3)])
  show ?thesis using rt1 rt2 rt3 by auto
qed

theorem shared_reason_lost_witness:
  "count_of (pending_futures example_runtime) 1 = 1 \<and>
     (\<exists>rt2 rt3. new_pending_future_poll (Waiting (1::nat)) rt2 = Some (Some (Inr (7::nat)), Finished, rt3) \<and>
        count_of (pending_futures rt3) 1 = 0)"
proof -
  have inv: "pending_inv {1, 2} (pending_futures example_runtime)"
    using krsm_reachable_inv [OF example_reachable] by (simp add: runtime_inv_def)
  moreover have un: "has_unblock example_runtime = None" by (simp add: example_runtime_def)
  moreover have "count_of (pending_futures example_runtime) 1 = 1"
    by (simp add: example_runtime_def count_of_def entries_def)
  ultimately show ?thesis using shared_reason_lost [OF inv un, of 1 7]
    by (metis fun_upd_same diff_self_eq_0 insertI1)
qed

text \<open>
  A future that yielded with \<open>yield_now\<close> becomes ready after any number of \<open>unblock\<close> calls
  between one and the word size, also when the counter wraps around in between.
\<close>

theorem yield_now_ready:
  assumes "0 < n" "n < 2 ^ 64"
  shows "yield_now_poll (yield_now_start y) y = None \<and>
    yield_now_poll (yield_now_start y) ((yielder_unblock ^^ n) y) = Some ()"
proof -
  have polls: "num_polls ((yielder_unblock ^^ n) y) = num_polls y + of_nat n" for n
    by (induction n) (simp_all add: yielder_unblock_def)
  have "(of_nat n :: usize) \<noteq> 0"
    using assms by (simp add: word_of_nat_eq_0_iff dvd_imp_le not_le nat_dvd_not_less)
  then show ?thesis by (simp add: yield_now_poll_def yield_now_start_def polls)
qed

theorem yield_now_ready_witness:
  "yield_now_poll (- 1) ((yielder_unblock ^^ 1) \<lparr>num_polls = - 1\<rparr>) = Some ()"
  using yield_now_ready [of 1 "\<lparr>num_polls = - 1\<rparr>"] by (simp add: yield_now_start_def)

end
