(* ===== verification/Effects.thy ===== *)
theory Effects
  imports Prelude
begin

text \<open>
  Fallible and effectful Rust code.  \<open>Result\<close> with the \<open>?\<close> operator is \<open>r_then\<close>.  A function that
  also acts on the world (the kernel, the tracee, the globals of the program) has type \<open>io\<close>: from a
  world it gives a result and the world afterwards; the result is a value, an \<open>Err\<close>, a panic, or
  undefined behaviour of an \<open>unsafe\<close> block; a loop that may run forever counts fuel and reports its
  end.
  \<open>m_then\<close> is the sequencing of such functions with \<open>?\<close>.  The second part holds machine words as
  little-endian byte arrays (\<open>to_ne_bytes\<close> and \<open>from_ne_bytes\<close> on \<open>x86_64\<close>) and \<open>RwLock\<close>.
\<close>

named_theorems io_simps \<open>unfolding of sequenced effects\<close>

section \<open>Results\<close>

definition r_then :: "'e + 'a \<Rightarrow> ('a \<Rightarrow> 'e + 'b) \<Rightarrow> 'e + 'b" where
  "r_then r f = (case r of Inl e \<Rightarrow> Inl e | Inr a \<Rightarrow> f a)"

definition map_err :: "('e \<Rightarrow> 'f) \<Rightarrow> 'e + 'a \<Rightarrow> 'f + 'a" where
  "map_err f r = (case r of Inl e \<Rightarrow> Inl (f e) | Inr a \<Rightarrow> Inr a)"

definition ok_or :: "'e \<Rightarrow> 'a option \<Rightarrow> 'e + 'a" where
  "ok_or e x = (case x of None \<Rightarrow> Inl e | Some a \<Rightarrow> Inr a)"

lemma r_then_simps [simp]: "r_then (Inl e) f = Inl e" "r_then (Inr a) f = f a"
  by (simp_all add: r_then_def)

lemma map_err_simps [simp]: "map_err f (Inl e) = Inl (f e)" "map_err f (Inr a) = Inr a"
  by (simp_all add: map_err_def)

lemma ok_or_simps [simp]: "ok_or e None = Inl e" "ok_or e (Some a) = Inr a"
  by (simp_all add: ok_or_def)

lemma r_then_eq_Inr: "r_then r f = Inr b \<longleftrightarrow> (\<exists>a. r = Inr a \<and> f a = Inr b)"
  by (cases r) auto

section \<open>Effects\<close>

datatype 'e fault = Err 'e | Panic | UndefinedBehaviour | OutOfFuel

type_synonym ('w, 'e, 'a) io = "'w \<Rightarrow> ('e fault + 'a) \<times> 'w"

definition ret :: "'a \<Rightarrow> ('w, 'e, 'a) io" where
  "ret a = (\<lambda>w. (Inr a, w))"

definition throw :: "'e \<Rightarrow> ('w, 'e, 'a) io" where
  "throw e = (\<lambda>w. (Inl (Err e), w))"

definition panic :: "('w, 'e, 'a) io" where
  "panic = (\<lambda>w. (Inl Panic, w))"

definition out_of_fuel :: "('w, 'e, 'a) io" where
  "out_of_fuel = (\<lambda>w. (Inl OutOfFuel, w))"

definition undefined_behaviour :: "('w, 'e, 'a) io" where
  "undefined_behaviour = (\<lambda>w. (Inl UndefinedBehaviour, w))"

definition m_then :: "('w, 'e, 'a) io \<Rightarrow> ('a \<Rightarrow> ('w, 'e, 'b) io) \<Rightarrow> ('w, 'e, 'b) io" where
  "m_then m f = (\<lambda>w. case m w of (Inl e, w') \<Rightarrow> (Inl e, w') | (Inr a, w') \<Rightarrow> f a w')"

definition lift_r :: "'e + 'a \<Rightarrow> ('w, 'e, 'a) io" where
  "lift_r r = (case r of Inl e \<Rightarrow> throw e | Inr a \<Rightarrow> ret a)"

text \<open>A library call that reports an error value, with \<open>map_err\<close> and \<open>?\<close>.\<close>

definition call :: "('n \<Rightarrow> 'e) \<Rightarrow> ('w \<Rightarrow> ('n + 'a) \<times> 'w) \<Rightarrow> ('w, 'e, 'a) io" where
  "call f c = (\<lambda>w. case c w of (Inl n, w') \<Rightarrow> (Inl (Err (f n)), w') | (Inr a, w') \<Rightarrow> (Inr a, w'))"

definition get_w :: "('w, 'e, 'w) io" where
  "get_w = (\<lambda>w. (Inr w, w))"

definition put_w :: "'w \<Rightarrow> ('w, 'e, unit) io" where
  "put_w w' = (\<lambda>w. (Inr (), w'))"

lemma ret_apply [io_simps]: "ret a w = (Inr a, w)" by (simp add: ret_def)
lemma throw_apply [io_simps]: "throw e w = (Inl (Err e), w)" by (simp add: throw_def)
lemma panic_apply [io_simps]: "panic w = (Inl Panic, w)" by (simp add: panic_def)

lemma out_of_fuel_apply [io_simps]: "out_of_fuel w = (Inl OutOfFuel, w)" by (simp add: out_of_fuel_def)
lemma undefined_behaviour_apply [io_simps]: "undefined_behaviour w = (Inl UndefinedBehaviour, w)"
  by (simp add: undefined_behaviour_def)

lemma m_then_apply [io_simps]:
  "m_then m f w = (case m w of (Inl e, w') \<Rightarrow> (Inl e, w') | (Inr a, w') \<Rightarrow> f a w')"
  by (simp add: m_then_def)

lemma lift_r_apply [io_simps]: "lift_r r w = (map_err Err r, w)"
  by (cases r) (simp_all add: lift_r_def ret_def throw_def)

lemma call_apply [io_simps]: "call f c w = (map_err (\<lambda>n. Err (f n)) (fst (c w)), snd (c w))"
  by (simp add: call_def map_err_def split: prod.splits sum.splits)

lemma get_put_apply [io_simps]: "get_w w = (Inr w, w)" "put_w w' w = (Inr (), w')"
  by (simp_all add: get_w_def put_w_def)

lemma m_then_step: "m w = (Inr a, w') \<Longrightarrow> m_then m f w = f a w'"
  by (simp add: m_then_apply)

lemma m_then_stop: "m w = (Inl e, w') \<Longrightarrow> m_then m f w = (Inl e, w')"
  by (simp add: m_then_apply)

lemma m_then_eq_Inr:
  "m_then m f w = (Inr b, w'') \<longleftrightarrow> (\<exists>a w'. m w = (Inr a, w') \<and> f a w' = (Inr b, w''))"
  by (auto simp: m_then_apply split: prod.splits sum.splits)

lemma m_then_ret [simp]: "m_then (ret a) f = f a" by (simp add: m_then_def ret_def)
lemma m_then_throw [simp]: "m_then (throw e) f = throw e" by (simp add: m_then_def throw_def)
lemma lift_r_Inr [simp]: "lift_r (Inr a) = ret a" by (simp add: lift_r_def)
lemma lift_r_Inl [simp]: "lift_r (Inl e) = throw e" by (simp add: lift_r_def)

lemma m_then_assoc: "m_then (m_then m f) g = m_then m (\<lambda>a. m_then (f a) g)"
  by (rule ext) (simp add: m_then_apply split: prod.splits sum.splits)

lemma m_then_ret_right [simp]: "m_then m ret = m"
  by (rule ext) (simp add: m_then_apply ret_apply split: prod.splits sum.splits)

text \<open>\<open>for x in xs { body }\<close> with \<open>?\<close> in the body.\<close>

fun for_each :: "('a \<Rightarrow> ('w, 'e, unit) io) \<Rightarrow> 'a list \<Rightarrow> ('w, 'e, unit) io" where
  "for_each f [] = ret ()"
| "for_each f (x # xs) = m_then (f x) (\<lambda>_. for_each f xs)"

text \<open>
  \<open>ensures P m Q\<close>: the effect \<open>m\<close> keeps the property \<open>P\<close> of the world on every path, also when it
  fails, and a value it returns satisfies \<open>Q\<close>.
\<close>

definition ensures :: "('w \<Rightarrow> bool) \<Rightarrow> ('w, 'e, 'a) io \<Rightarrow> ('a \<Rightarrow> bool) \<Rightarrow> bool" where
  "ensures P m Q \<longleftrightarrow> (\<forall>w. P w \<longrightarrow> P (snd (m w)) \<and> (\<forall>a. fst (m w) = Inr a \<longrightarrow> Q a))"

abbreviation keeps :: "('w \<Rightarrow> bool) \<Rightarrow> ('w, 'e, 'a) io \<Rightarrow> bool" where
  "keeps P m \<equiv> ensures P m (\<lambda>_. True)"

named_theorems ensures_intros \<open>rules for properties of sequenced effects\<close>

lemma ensuresI:
  "(\<And>w. P w \<Longrightarrow> P (snd (m w))) \<Longrightarrow> (\<And>w a. P w \<Longrightarrow> fst (m w) = Inr a \<Longrightarrow> Q a) \<Longrightarrow> ensures P m Q"
  by (simp add: ensures_def)

lemma ensures_world: "ensures P m Q \<Longrightarrow> P w \<Longrightarrow> P (snd (m w))"
  by (simp add: ensures_def)

lemma ensures_value: "ensures P m Q \<Longrightarrow> P w \<Longrightarrow> fst (m w) = Inr a \<Longrightarrow> Q a"
  by (simp add: ensures_def)

lemma ensures_ret [ensures_intros]: "Q a \<Longrightarrow> ensures P (ret a) Q"
  by (simp add: ensures_def io_simps)

lemma ensures_lift_r [ensures_intros]: "(\<And>a. r = Inr a \<Longrightarrow> Q a) \<Longrightarrow> ensures P (lift_r r) Q"
  by (cases r) (simp_all add: ensures_def io_simps)

lemma ensures_stop [ensures_intros]:
  "ensures P (throw e) Q" "ensures P panic Q" "ensures P out_of_fuel Q" "ensures P undefined_behaviour Q"
  by (simp_all add: ensures_def io_simps)

lemma ensures_then:
  assumes "ensures P m Q" "\<And>a. Q a \<Longrightarrow> ensures P (f a) R"
  shows "ensures P (m_then m f) R"
proof (rule ensuresI)
  fix w assume w: "P w"
  have next_step: "ensures P (f a) R \<and> P w'" if "m w = (Inr a, w')" for a w'
    using ensures_world [OF assms(1) w] ensures_value [OF assms(1) w] assms(2) that by simp
  show "P (snd (m_then m f w))"
    using ensures_world [OF assms(1) w] next_step
    by (auto simp: m_then_apply split: prod.splits sum.splits dest: ensures_world)
  show "R b" if "fst (m_then m f w) = Inr b" for b
    using next_step that
    by (auto simp: m_then_apply split: prod.splits sum.splits dest: ensures_value)
qed

lemma ensures_lift_then [ensures_intros]:
  "(\<And>a. r = Inr a \<Longrightarrow> ensures P (f a) R) \<Longrightarrow> ensures P (m_then (lift_r r) f) R"
  by (cases r) (auto intro: ensures_intros)

lemma ensures_if [ensures_intros]:
  "(b \<Longrightarrow> ensures P m Q) \<Longrightarrow> (\<not> b \<Longrightarrow> ensures P n Q) \<Longrightarrow> ensures P (if b then m else n) Q"
  by simp

lemma ensures_weaken: "ensures P m Q \<Longrightarrow> (\<And>a. Q a \<Longrightarrow> R a) \<Longrightarrow> ensures P m R"
  by (auto simp: ensures_def)

lemma keeps_call: "(\<And>w. P w \<Longrightarrow> P (snd (c w))) \<Longrightarrow> keeps P (call f c)"
  by (simp add: ensures_def io_simps)

section \<open>Locks\<close>

text \<open>
  A \<open>RwLock\<close> is its content and the poison flag, which is set when a thread panicked while holding
  the lock; \<open>read\<close> and \<open>write\<close> fail exactly on a poisoned lock.
\<close>

datatype 'a rwlock = RwLock (poisoned: bool) (content: 'a)

definition lock :: "'e \<Rightarrow> 'a rwlock \<Rightarrow> 'e + 'a" where
  "lock e l = (if poisoned l then Inl e else Inr (content l))"

lemma lock_simps [simp]: "lock e (RwLock False x) = Inr x" "lock e (RwLock True x) = Inl e"
  by (simp_all add: lock_def)

section \<open>Machine words as bytes\<close>

definition USIZE_SIZE :: nat where
  "USIZE_SIZE = 8"

definition to_ne_bytes :: "usize \<Rightarrow> u8 list" where
  "to_ne_bytes w = map (\<lambda>i. ucast (drop_bit (8 * i) w)) [0..<8]"

fun from_ne_bytes :: "u8 list \<Rightarrow> usize" where
  "from_ne_bytes [] = 0"
| "from_ne_bytes (b # bs) = ucast b OR push_bit 8 (from_ne_bytes bs)"

lemma length_to_ne_bytes [simp]: "length (to_ne_bytes w) = 8"
  by (simp add: to_ne_bytes_def)

lemma bit_from_ne_bytes:
  "bit (from_ne_bytes bs) n \<longleftrightarrow> n < 64 \<and> n div 8 < length bs \<and> bit (bs ! (n div 8)) (n mod 8)"
proof (induction bs arbitrary: n)
  case (Cons b bs)
  show ?case
  proof (cases "n < 8")
    case True
    then show ?thesis by (simp add: bit_or_iff bit_push_bit_iff bit_ucast_iff)
  next
    case False
    then obtain m where n: "n = m + 8" by (metis add.commute le_add_diff_inverse not_less)
    have b: "\<not> bit b (m + 8)"
      using bit_imp_le_length [of b "m + 8"] by auto
    have "bit (from_ne_bytes (b # bs)) n \<longleftrightarrow> m + 8 < 64 \<and> bit (from_ne_bytes bs) m"
      using b by (simp add: n bit_or_iff bit_push_bit_iff bit_ucast_iff)
    moreover have "(m + 8) div 8 = Suc (m div 8)" "(m + 8) mod 8 = m mod 8" by simp_all
    ultimately show ?thesis
      unfolding Cons.IH n by (auto simp only: nth_Cons_Suc length_Cons Suc_less_eq)
  qed
qed simp

lemma from_to_ne_bytes [simp]: "from_ne_bytes (to_ne_bytes w) = w"
proof (rule bit_word_eqI)
  fix n assume "n < LENGTH(64)"
  then have n: "n < 64" and q: "n div 8 < 8" by simp_all
  show "bit (from_ne_bytes (to_ne_bytes w)) n = bit w n"
    unfolding bit_from_ne_bytes using n q
    by (simp add: to_ne_bytes_def bit_ucast_iff bit_drop_bit_eq)
qed

lemma to_from_ne_bytes:
  assumes "length bs = 8"
  shows "to_ne_bytes (from_ne_bytes bs) = bs"
proof (rule nth_equalityI)
  fix i assume "i < length (to_ne_bytes (from_ne_bytes bs))"
  then have i: "i < 8" by simp
  show "to_ne_bytes (from_ne_bytes bs) ! i = bs ! i"
  proof (rule bit_word_eqI)
    fix n assume "n < LENGTH(8)"
    then have "n < 8" by simp
    then show "bit (to_ne_bytes (from_ne_bytes bs) ! i) n = bit (bs ! i) n"
      using i assms
      by (simp add: to_ne_bytes_def bit_ucast_iff bit_drop_bit_eq bit_from_ne_bytes)
  qed
qed (simp add: assms)

lemma zero_word_bytes: "to_ne_bytes 0 = replicate 8 0"
  by (simp add: to_ne_bytes_def numeral_eq_Suc)

lemma to_ne_bytes_inject [simp]: "to_ne_bytes v = to_ne_bytes w \<longleftrightarrow> v = w"
  by (metis from_to_ne_bytes)

end
