(* ===== verification/Ptrace_Common.thy ===== *)
theory Ptrace_Common
  imports Effects
begin

text \<open>
  The shared part of the \<open>ptrace\<close> crate (\<open>ptrace/src/common.rs\<close> and the predicates and wrappers of
  \<open>ptrace/src/lib.rs\<close>): constants, errors, the registers, checked arithmetic, the conversion of byte
  strings to machine words, and the transfer of C structures from and to the memory of a tracee.

  The kernel is not part of the repository.  The calls the crate makes through \<open>nix\<close> and \<open>libc\<close> are
  the fields of the parameter \<open>ptrace_api\<close>, functions on a world of any type; what the theorems rely on is stated
  with \<open>peek_law\<close> and \<open>poke_law\<close>.
\<close>

section \<open>Constants and errors\<close>

type_synonym pid = int
type_synonym errno = int

definition STACK_SAFE_ZONE_SIZE :: usize where
  "STACK_SAFE_ZONE_SIZE = 16 * 1024"

definition MAX_NUM_TRACEES :: nat where
  "MAX_NUM_TRACEES = 8192"

definition MAX_STRUCT_SIZE :: usize where
  "MAX_STRUCT_SIZE = 2048"

definition SHARED_MMAP_SIZE :: usize where
  "SHARED_MMAP_SIZE = of_nat MAX_NUM_TRACEES * STACK_SAFE_ZONE_SIZE"

definition usize_size :: usize where
  "usize_size = 8"

datatype ptrace_error =
    StartInitCmd errno
  | InitCmdFailed errno
  | ParsePid usize
  | ParseUsize isize
  | ParseUsizeFromString string
  | GetEventMsg errno
  | GetRegs errno
  | SetRegs errno
  | ReadE errno
  | ReadStdIoError errno
  | ReadMmapNotFound
  | ReadItemNotAligned usize
  | ReadItemTooBig usize usize
  | ReadInvalidItemSize1 usize usize
  | BufferOverflow usize usize usize
  | BufferUnderflow usize usize
  | HeaderTooBig usize usize
  | PointerE
  | WriteE errno
  | WriteOffsetNotAligned usize
  | Waitpid errno
  | IntOverflow usize string usize
  | IntIsZero string
  | IntTooBigEqual usize usize
  | IntoInt string
  | CreateMemoryFile errno
  | LockGlobalMmap
  | MmapUninitialized
  | Unmap errno
  | MaxTracee

section \<open>Checked arithmetic\<close>

definition checked_add :: "usize \<Rightarrow> usize \<Rightarrow> ptrace_error + usize" where
  "checked_add a b = (if unat a + unat b < 2 ^ 64 then Inr (a + b) else Inl (IntOverflow a ''+'' b))"

definition checked_sub :: "usize \<Rightarrow> usize \<Rightarrow> ptrace_error + usize" where
  "checked_sub a b = (if b \<le> a then Inr (a - b) else Inl (IntOverflow a ''-'' b))"

definition checked_mul :: "usize \<Rightarrow> usize \<Rightarrow> ptrace_error + usize" where
  "checked_mul a b = (if unat a * unat b < 2 ^ 64 then Inr (a * b) else Inl (IntOverflow a ''*'' b))"

definition checked_div :: "usize \<Rightarrow> usize \<Rightarrow> ptrace_error + usize" where
  "checked_div a b = (if b \<noteq> 0 then Inr (a div b) else Inl (IntOverflow a ''*'' b))"

text \<open>\<open>aligned\<close> rounds up to a multiple of the word size.\<close>

definition aligned :: "usize \<Rightarrow> ptrace_error + usize" where
  "aligned val =
     r_then (checked_add val usize_size) (\<lambda>a.
     r_then (checked_sub a 1) (\<lambda>b.
     r_then (checked_div b usize_size) (\<lambda>num_usizes.
     checked_mul num_usizes usize_size)))"

lemma checked_add_Inr:
  "checked_add a b = Inr c \<longleftrightarrow> unat a + unat b < 2 ^ 64 \<and> c = a + b"
  by (auto simp: checked_add_def)

lemma unat_add_no_overflow:
  fixes a b :: usize
  shows "unat a + unat b < 2 ^ 64 \<Longrightarrow> unat (a + b) = unat a + unat b"
  by (simp add: unat_word_ariths)

lemma checked_add_unat: "checked_add a b = Inr c \<Longrightarrow> unat c = unat a + unat b"
  by (auto simp: checked_add_Inr unat_add_no_overflow)

lemma checked_sub_Inr: "checked_sub a b = Inr c \<longleftrightarrow> b \<le> a \<and> c = a - b"
  by (auto simp: checked_sub_def)

lemma unat_sub_no_underflow:
  fixes a b :: usize
  shows "b \<le> a \<Longrightarrow> unat (a - b) = unat a - unat b"
  by (simp add: unat_sub)

lemma checked_mul_unat: "checked_mul a b = Inr c \<Longrightarrow> unat c = unat a * unat b"
  by (auto simp: checked_mul_def unat_word_ariths split: if_splits)

lemma unat_8 [simp]: "unat (8 :: usize) = 8" by simp

lemma unat_less_64: "unat (a :: usize) < 2 ^ 64"
  using unsigned_less [of a] by simp

lemma unat_of_nat_64: "n < 2 ^ 64 \<Longrightarrow> unat (of_nat n :: usize) = n"
  by (simp add: unat_of_nat take_bit_nat_eq_self)

lemma unat_add_of_nat:
  fixes a :: usize
  shows "unat a + n < 2 ^ 64 \<Longrightarrow> unat (a + of_nat n) = unat a + n"
  using unat_add_no_overflow [of a "of_nat n"] unat_of_nat_64 [of n] by simp

lemma dvd_8_unat: "(n :: usize) mod 8 = 0 \<longleftrightarrow> 8 dvd unat n"
proof -
  have "unat (n mod 8) = unat n mod 8" by (simp add: unat_mod_distrib)
  then show ?thesis by (metis dvd_eq_mod_eq_0 unsigned_0 unat_eq_zero)
qed

section \<open>Registers\<close>

text \<open>The general purpose registers of \<open>x86_64\<close>, in the order of the kernel's register set.\<close>

record generic_purpose_regs =
  unknown_x1 :: usize
  unknown_x2 :: usize
  unknown_x3 :: usize
  unknown_x4 :: usize
  unknown_x5 :: usize
  unknown_x6 :: usize
  unknown_x7 :: usize
  arg3 :: usize
  arg5 :: usize
  arg4 :: usize
  rax :: usize
  unknown_x12 :: usize
  arg2 :: usize
  arg1 :: usize
  arg0 :: usize
  syscall_num :: usize
  pc :: usize
  unknown_x18 :: usize
  unknown_x19 :: usize
  sp :: usize
  unknown_x21 :: usize
  unknown_x22 :: usize
  unknown_x23 :: usize
  unknown_x24 :: usize
  unknown_x25 :: usize
  unknown_x26 :: usize
  unknown_x27 :: usize

definition syscall_retval :: "generic_purpose_regs \<Rightarrow> usize" where
  "syscall_retval regs = rax regs"

definition set_syscall_retval :: "usize \<Rightarrow> generic_purpose_regs \<Rightarrow> generic_purpose_regs" where
  "set_syscall_retval val regs = regs\<lparr>rax := val\<rparr>"

text \<open>The record as the words of the \<open>repr(C)\<close> structure, and back.\<close>

definition regs_words :: "generic_purpose_regs \<Rightarrow> usize list" where
  "regs_words r =
     [unknown_x1 r, unknown_x2 r, unknown_x3 r, unknown_x4 r, unknown_x5 r, unknown_x6 r,
      unknown_x7 r, arg3 r, arg5 r, arg4 r, rax r, unknown_x12 r, arg2 r, arg1 r, arg0 r,
      syscall_num r, pc r, unknown_x18 r, unknown_x19 r, sp r, unknown_x21 r, unknown_x22 r,
      unknown_x23 r, unknown_x24 r, unknown_x25 r, unknown_x26 r, unknown_x27 r]"

definition words_regs :: "usize list \<Rightarrow> generic_purpose_regs" where
  "words_regs ws = \<lparr>unknown_x1 = ws ! 0, unknown_x2 = ws ! 1, unknown_x3 = ws ! 2,
     unknown_x4 = ws ! 3, unknown_x5 = ws ! 4, unknown_x6 = ws ! 5, unknown_x7 = ws ! 6,
     arg3 = ws ! 7, arg5 = ws ! 8, arg4 = ws ! 9, rax = ws ! 10, unknown_x12 = ws ! 11,
     arg2 = ws ! 12, arg1 = ws ! 13, arg0 = ws ! 14, syscall_num = ws ! 15, pc = ws ! 16,
     unknown_x18 = ws ! 17, unknown_x19 = ws ! 18, sp = ws ! 19, unknown_x21 = ws ! 20,
     unknown_x22 = ws ! 21, unknown_x23 = ws ! 22, unknown_x24 = ws ! 23, unknown_x25 = ws ! 24,
     unknown_x26 = ws ! 25, unknown_x27 = ws ! 26\<rparr>"

lemma words_regs_words [simp]: "words_regs (regs_words r) = r"
  by (simp add: words_regs_def regs_words_def)

lemma length_regs_words [simp]: "length (regs_words r) = 27"
  by (simp add: regs_words_def)

section \<open>Calls of the kernel\<close>

text \<open>\<open>nix::sys::wait::WaitStatus\<close>; signals are their numbers.\<close>

type_synonym signal = int

definition SIGTRAP :: signal where "SIGTRAP = 5"

datatype wait_status =
    Exited pid int
  | Signaled pid signal bool
  | Stopped pid signal
  | PtraceEvent pid signal int
  | PtraceSyscall pid
  | Continued pid
  | StillAlive

record 'w ptrace_api =
  sys_ptrace_read :: "pid \<Rightarrow> usize \<Rightarrow> 'w \<Rightarrow> (errno + usize) \<times> 'w"
  sys_ptrace_write :: "pid \<Rightarrow> usize \<Rightarrow> usize \<Rightarrow> 'w \<Rightarrow> (errno + unit) \<times> 'w"
  sys_getregset :: "pid \<Rightarrow> 'w \<Rightarrow> (errno + usize list) \<times> 'w"
  sys_setregset :: "pid \<Rightarrow> usize list \<Rightarrow> 'w \<Rightarrow> (errno + unit) \<times> 'w"
  sys_geteventmsg :: "pid \<Rightarrow> 'w \<Rightarrow> (errno + usize) \<times> 'w"
  sys_waitpid :: "pid \<Rightarrow> bool \<Rightarrow> 'w \<Rightarrow> (errno + wait_status) \<times> 'w"

definition write_word :: "('w, 'x) ptrace_api_scheme \<Rightarrow> pid \<Rightarrow> usize \<Rightarrow> usize \<Rightarrow> ('w, ptrace_error, unit) io" where
  "write_word k pid addr value = call WriteE (sys_ptrace_write k pid addr value)"

definition checked_write ::
  "('w, 'x) ptrace_api_scheme \<Rightarrow> pid \<Rightarrow> usize \<Rightarrow> usize \<Rightarrow> usize \<Rightarrow> ('w, ptrace_error, unit) io" where
  "checked_write k pid addr overflow_addr value =
     (if addr \<ge> overflow_addr then throw (BufferOverflow 0 addr overflow_addr)
      else write_word k pid addr value)"

definition getregs :: "('w, 'x) ptrace_api_scheme \<Rightarrow> pid \<Rightarrow> ('w, ptrace_error, generic_purpose_regs) io" where
  "getregs k pid = m_then (call GetRegs (sys_getregset k pid)) (\<lambda>data. ret (words_regs data))"

definition setregs ::
  "('w, 'x) ptrace_api_scheme \<Rightarrow> pid \<Rightarrow> generic_purpose_regs \<Rightarrow> ('w, ptrace_error, unit) io" where
  "setregs k pid data = call SetRegs (sys_setregset k pid (regs_words data))"

text \<open>\<open>ptrace/src/lib.rs\<close>.\<close>

fun is_trace_stop :: "wait_status \<Rightarrow> bool" where
  "is_trace_stop (PtraceEvent _ _ _) = True"
| "is_trace_stop (Stopped _ sig) = (sig = SIGTRAP)"
| "is_trace_stop _ = False"

fun is_syscall_stop :: "wait_status \<Rightarrow> bool" where
  "is_syscall_stop (PtraceSyscall _) = True"
| "is_syscall_stop _ = False"

fun is_still_alive :: "wait_status \<Rightarrow> bool" where
  "is_still_alive (Exited _ _) = False"
| "is_still_alive _ = True"

definition pid_of_child :: "usize \<Rightarrow> ptrace_error + pid" where
  "pid_of_child raw_id = (if unat raw_id < 2 ^ 31 then Inr (uint raw_id) else Inl (ParsePid raw_id))"

definition waitpid :: "('w, 'x) ptrace_api_scheme \<Rightarrow> pid \<Rightarrow> ('w, ptrace_error, wait_status) io" where
  "waitpid k pid = call Waitpid (sys_waitpid k pid True)"

definition wait :: "('w, 'x) ptrace_api_scheme \<Rightarrow> usize \<Rightarrow> ('w, ptrace_error, wait_status) io" where
  "wait k child = m_then (lift_r (pid_of_child child)) (waitpid k)"

definition waitpid_hang :: "('w, 'x) ptrace_api_scheme \<Rightarrow> pid \<Rightarrow> ('w, ptrace_error, wait_status) io" where
  "waitpid_hang k pid = call Waitpid (sys_waitpid k pid False)"

definition wait_hang :: "('w, 'x) ptrace_api_scheme \<Rightarrow> usize \<Rightarrow> ('w, ptrace_error, wait_status) io" where
  "wait_hang k child = m_then (lift_r (pid_of_child child)) (waitpid_hang k)"

definition getevent :: "('w, 'x) ptrace_api_scheme \<Rightarrow> pid \<Rightarrow> ('w, ptrace_error, usize) io" where
  "getevent k pid = call GetEventMsg (sys_geteventmsg k pid)"

definition set_syscall_num :: "('w, 'x) ptrace_api_scheme \<Rightarrow> pid \<Rightarrow> usize \<Rightarrow> ('w, ptrace_error, unit) io" where
  "set_syscall_num k pid val =
     m_then (getregs k pid) (\<lambda>regs.
     m_then (setregs k pid (regs\<lparr>syscall_num := val\<rparr>)) (\<lambda>_.
     m_then (getregs k pid) (\<lambda>regs2.
     ret ())))"

section \<open>Memory access\<close>

text \<open>\<open>MemHelpers\<close>: the functions through which the rest of the program accesses tracee memory.  A
  buffer \<open>&mut [u8]\<close> is passed as a list and returned.\<close>

record 'w mem_helpers =
  mh_close_tracee :: "pid \<Rightarrow> ('w, ptrace_error, unit) io"
  mh_read :: "pid \<Rightarrow> usize \<Rightarrow> ('w, ptrace_error, usize) io"
  mh_read_bytes :: "pid \<Rightarrow> usize \<Rightarrow> usize \<Rightarrow> u8 list \<Rightarrow> ('w, ptrace_error, u8 list) io"
  mh_read_bytes_until_num_zeroes :: "pid \<Rightarrow> usize \<Rightarrow> usize \<Rightarrow> ('w, ptrace_error, u8 list) io"
  mh_read_bytes_until_zero :: "pid \<Rightarrow> usize \<Rightarrow> ('w, ptrace_error, u8 list) io"
  mh_write_bytes_to_tracee :: "pid \<Rightarrow> usize \<Rightarrow> u8 list \<Rightarrow> ('w, ptrace_error, usize \<times> usize) io"

text \<open>
  What \<open>ptrace(2)\<close> promises of a stopped tracee whose memory is \<open>view\<close>: peeking a mapped word returns
  its bytes and changes nothing, poking a mapped word succeeds, and a poke that succeeds changes exactly
  the bytes of its word.
\<close>

type_synonym 'w view = "'w \<Rightarrow> pid \<Rightarrow> usize \<Rightarrow> u8 option"

definition peek_law :: "('w, 'x) ptrace_api_scheme \<Rightarrow> 'w view \<Rightarrow> bool" where
  "peek_law k view \<longleftrightarrow>
     (\<forall>w pid addr bs. length bs = 8 \<and> (\<forall>i < 8. view w pid (addr + of_nat i) = Some (bs ! i)) \<longrightarrow>
        sys_ptrace_read k pid addr w = (Inr (from_ne_bytes bs), w))"

definition poke_view :: "usize \<Rightarrow> usize \<Rightarrow> (usize \<Rightarrow> u8 option) \<Rightarrow> usize \<Rightarrow> u8 option" where
  "poke_view addr value m = (\<lambda>a. if unat (a - addr) < 8 then Some (to_ne_bytes value ! unat (a - addr)) else m a)"

definition poke_law :: "('w, 'x) ptrace_api_scheme \<Rightarrow> 'w view \<Rightarrow> bool" where
  "poke_law k view \<longleftrightarrow>
     (\<forall>w pid addr v. (\<forall>i < 8. view w pid (addr + of_nat i) \<noteq> None) \<longrightarrow>
        (\<exists>w'. sys_ptrace_write k pid addr v w = (Inr (), w'))) \<and>
     (\<forall>w pid addr v w'. sys_ptrace_write k pid addr v w = (Inr (), w') \<longrightarrow>
        view w' = (view w)(pid := poke_view addr v (view w pid)))"

text \<open>Reading registers changes nothing, and poking memory does not change registers.\<close>

definition regs_law :: "('w, 'x) ptrace_api_scheme \<Rightarrow> bool" where
  "regs_law k \<longleftrightarrow>
     (\<forall>w pid. snd (sys_getregset k pid w) = w) \<and>
     (\<forall>w pid addr v p. fst (sys_getregset k p (snd (sys_ptrace_write k pid addr v w))) =
        fst (sys_getregset k p w))"

section \<open>Bytes to machine words\<close>

text \<open>\<open>bytes.chunks_exact(USIZE_SIZE)\<close>, each chunk read with \<open>from_ne_bytes\<close>.\<close>

function chunk_words :: "u8 list \<Rightarrow> usize list" where
  "chunk_words bs =
     (if length bs < USIZE_SIZE then []
      else from_ne_bytes (take USIZE_SIZE bs) # chunk_words (drop USIZE_SIZE bs))"
  by pat_completeness auto
termination
  by (relation "measure length") (auto simp: USIZE_SIZE_def)

declare chunk_words.simps [simp del]

definition bytes_to_usizes :: "u8 list \<Rightarrow> ptrace_error + usize list" where
  "bytes_to_usizes bytes =
     (let result = chunk_words bytes
      in r_then (checked_mul (of_nat (length result)) usize_size) (\<lambda>remainder_pos.
         let rest = drop (unat remainder_pos) bytes;
             remainder_vec = rest @ replicate (USIZE_SIZE - length rest) 0
         in Inr (result @ [from_ne_bytes remainder_vec])))"

definition words_bytes :: "usize list \<Rightarrow> u8 list" where
  "words_bytes ws = concat (map to_ne_bytes ws)"

lemma words_bytes_simps [simp]:
  "words_bytes [] = []" "words_bytes (w # ws) = to_ne_bytes w @ words_bytes ws"
  "words_bytes (ws @ vs) = words_bytes ws @ words_bytes vs"
  by (simp_all add: words_bytes_def)

lemma length_words_bytes [simp]: "length (words_bytes ws) = 8 * length ws"
  by (induction ws) simp_all

lemma chunk_words_exact:
  "words_bytes (chunk_words bs) = take (8 * length (chunk_words bs)) bs \<and>
   length (chunk_words bs) = length bs div 8"
proof (induction bs rule: chunk_words.induct)
  case (1 bs)
  show ?case
  proof (cases "length bs < 8")
    case True
    then show ?thesis by (simp add: chunk_words.simps [of bs] USIZE_SIZE_def)
  next
    case False
    let ?cs = "chunk_words (drop 8 bs)"
    have cw: "chunk_words bs = from_ne_bytes (take 8 bs) # ?cs"
      using False by (simp add: chunk_words.simps [of bs] USIZE_SIZE_def)
    have IH: "words_bytes ?cs = take (8 * length ?cs) (drop 8 bs)" "length ?cs = length (drop 8 bs) div 8"
      using 1 False by (simp_all add: USIZE_SIZE_def)
    have "to_ne_bytes (from_ne_bytes (take 8 bs)) = take 8 bs"
      using False by (intro to_from_ne_bytes) simp
    moreover have "take (8 * Suc (length ?cs)) bs = take 8 bs @ take (8 * length ?cs) (drop 8 bs)"
      by (metis mult_Suc_right take_add)
    moreover have "length bs div 8 = Suc ((length bs - 8) div 8)"
      using False by (simp add: le_div_geq)
    ultimately show ?thesis using IH by (simp add: cw)
  qed
qed

lemma chunk_words_words_bytes [simp]: "chunk_words (words_bytes ws) = ws"
  by (induction ws) (simp_all add: chunk_words.simps [of "[]"] chunk_words.simps [of "_ @ _"] USIZE_SIZE_def)

lemma bytes_to_usizes_eq:
  assumes "length bytes < 2 ^ 64"
  shows "bytes_to_usizes bytes = Inr (chunk_words bytes @
    [from_ne_bytes (drop (8 * (length bytes div 8)) bytes @ replicate (8 - length bytes mod 8) 0)])"
proof -
  have len: "length (chunk_words bytes) = length bytes div 8" using chunk_words_exact by blast
  have small: "length bytes div 8 < 2 ^ 61" using assms by simp
  then have u: "unat (of_nat (length bytes div 8) :: usize) = length bytes div 8"
    by (intro unat_of_nat_64) simp
  have "unat (of_nat (length bytes div 8) * 8 :: usize) = length bytes div 8 * 8"
    using small by (simp add: unat_word_ariths u)
  moreover have "length bytes div 8 * 8 < 2 ^ 64" using small by simp
  moreover have "length bytes - length bytes div 8 * 8 = length bytes mod 8"
    by (simp add: minus_div_mult_eq_mod)
  ultimately show ?thesis
    by (simp add: bytes_to_usizes_def len checked_mul_def u usize_size_def USIZE_SIZE_def Let_def
        mult.commute)
qed

lemma bytes_to_usizes_words:
  assumes "length bytes < 2 ^ 64"
  shows "\<exists>ws. bytes_to_usizes bytes = Inr ws \<and> length ws = length bytes div 8 + 1 \<and>
    words_bytes ws = bytes @ replicate (8 - length bytes mod 8) 0"
proof -
  let ?tail = "drop (8 * (length bytes div 8)) bytes @ replicate (8 - length bytes mod 8) (0 :: u8)"
  have len: "length (chunk_words bytes) = length bytes div 8"
    and wb: "words_bytes (chunk_words bytes) = take (8 * (length bytes div 8)) bytes"
    using chunk_words_exact [of bytes] by simp_all
  have "length ?tail = 8"
    by (simp add: minus_mult_div_eq_mod less_imp_le)
  then have "to_ne_bytes (from_ne_bytes ?tail) = ?tail" by (rule to_from_ne_bytes)
  then have "words_bytes (chunk_words bytes @ [from_ne_bytes ?tail]) =
      bytes @ replicate (8 - length bytes mod 8) 0"
    by (simp only: words_bytes_simps wb append_Nil2) (simp only: append_assoc [symmetric] append_take_drop_id)
  then show ?thesis using bytes_to_usizes_eq [OF assms] len by simp
qed

lemma aligned_eq:
  "aligned val =
     (if unat val + 8 < 2 ^ 64 then Inr (of_nat (8 * ((unat val + 7) div 8)))
      else Inl (IntOverflow val ''+'' 8))"
proof (cases "unat val + 8 < 2 ^ 64")
  case True
  then have a: "unat (val + 8) = unat val + 8" by (simp add: unat_word_ariths)
  then have one: "1 \<le> val + 8" by (simp add: word_le_nat_alt)
  then have b: "unat (val + 8 - 1) = unat val + 7"
    by (simp only: unat_sub_no_underflow a) simp
  have c: "unat ((val + 8 - 1) div 8) = (unat val + 7) div 8"
    by (simp only: unat_div_distrib b) simp
  have d: "(unat val + 7) div 8 * 8 < 2 ^ 64" using True by linarith
  have "(val + 8 - 1) div 8 = of_nat ((unat val + 7) div 8)"
    using c by (metis of_nat_unat ucast_id)
  then have "(val + 8 - 1) div 8 * 8 = of_nat (8 * ((unat val + 7) div 8))" by simp
  moreover have "unat ((val + 8 - 1) div 8) * unat (8 :: usize) < 2 ^ 64" using c d by simp
  ultimately show ?thesis
    using True one
    by (simp add: aligned_def checked_add_def checked_sub_def checked_div_def checked_mul_def
        usize_size_def del: diff_add_eq_diff_diff_swap add_diff_eq)
next
  case False
  then show ?thesis by (simp add: aligned_def checked_add_def usize_size_def)
qed

text \<open>
  \<open>aligned\<close> returns the least multiple of the word size that is not below its argument, and
  reports an overflow exactly for arguments to which the word size cannot be added.
\<close>

theorem aligned_least:
  "(aligned val = Inl (IntOverflow val ''+'' 8) \<longleftrightarrow> 2 ^ 64 \<le> unat val + 8) \<and>
   (unat val + 8 < 2 ^ 64 \<longrightarrow>
      (\<exists>r. aligned val = Inr r \<and> 8 dvd unat r \<and> val \<le> r \<and> unat r < unat val + 8))"
proof (cases "unat val + 8 < 2 ^ 64")
  case True
  let ?n = "8 * ((unat val + 7) div 8)"
  have "?n < 2 ^ 64" "unat val \<le> ?n" "?n < unat val + 8" using True by linarith+
  moreover from this have "unat (of_nat ?n :: usize) = ?n" by (intro unat_of_nat_64)
  moreover have "aligned val = Inr (of_nat ?n)" using True by (simp only: aligned_eq if_True)
  ultimately show ?thesis using True by (simp add: word_le_nat_alt del: of_nat_mult)
qed (simp add: aligned_eq)

theorem aligned_least_witness: "\<exists>r. aligned 19 = Inr r \<and> 8 dvd unat r \<and> 19 \<le> r \<and> unat r < 27"
  using aligned_least [of 19] by simp

end
