(* ===== verification/Tracee_Memory.thy ===== *)
theory Tracee_Memory
  imports Ptrace_Common
begin

text \<open>
  Access to tracee memory above the level of machine words: the scan for a run of zero bytes that
  both implementations of \<open>MemHelpers\<close> use, the contract of the reading half of \<open>MemHelpers\<close> as the
  locale \<open>mem_reader\<close> and of the writing half as \<open>mem_writer\<close>, and the transfer of C structures
  (\<open>read_bytes_to_structs\<close>, \<open>write_structs_to_tracee\<close> and their fixed-size variants of
  \<open>ptrace/src/common.rs\<close>), which is a client of the contracts.
\<close>

section \<open>Scanning for zeroes\<close>

text \<open>
  The loop over the bytes of one chunk: \<open>Inl\<close> is the early return with the collected bytes, \<open>Inr\<close> the
  number of consecutive zeroes so far and the collected bytes.
\<close>

fun scan_zeroes :: "usize \<Rightarrow> u8 list \<Rightarrow> usize \<times> u8 list \<Rightarrow> u8 list + usize \<times> u8 list" where
  "scan_zeroes n0 [] st = Inr st"
| "scan_zeroes n0 (byte # bytes) (total_zeroes, result) =
     (if byte = 0
      then if total_zeroes + 1 \<ge> n0 then Inl result
           else scan_zeroes n0 bytes (total_zeroes + 1, result @ [byte])
      else scan_zeroes n0 bytes (0, result @ [byte]))"

lemma scan_zeroes_append:
  "scan_zeroes n0 (xs @ ys) st =
     (case scan_zeroes n0 xs st of Inl r \<Rightarrow> Inl r | Inr st' \<Rightarrow> scan_zeroes n0 ys st')"
  by (induction n0 xs st rule: scan_zeroes.induct) auto

lemma scan_zeroes_first:
  "0 \<notin> set bs \<Longrightarrow> scan_zeroes 1 (bs @ 0 # rest) (0, acc) = Inl (acc @ bs)"
  by (induction bs arbitrary: acc) auto

section \<open>Byte ranges of the tracee\<close>

definition mapped_at :: "'w view \<Rightarrow> 'w \<Rightarrow> pid \<Rightarrow> usize \<Rightarrow> u8 list \<Rightarrow> bool" where
  "mapped_at view w pid a bs \<longleftrightarrow> unat a + length bs < 2 ^ 64 \<and>
     (\<forall>i < length bs. view w pid (a + of_nat i) = Some (bs ! i))"

lemma mapped_at_append:
  "mapped_at view w pid a (xs @ ys) \<longleftrightarrow>
     mapped_at view w pid a xs \<and> mapped_at view w pid (a + of_nat (length xs)) ys"
proof (cases "unat a + length (xs @ ys) < 2 ^ 64")
  case True
  then have u: "unat (a + of_nat (length xs)) = unat a + length xs"
    by (simp add: unat_word_ariths unat_of_nat_64)
  have "(\<forall>i < length (xs @ ys). view w pid (a + of_nat i) = Some ((xs @ ys) ! i)) \<longleftrightarrow>
      (\<forall>i < length xs. view w pid (a + of_nat i) = Some (xs ! i)) \<and>
      (\<forall>i < length ys. view w pid (a + of_nat (length xs) + of_nat i) = Some (ys ! i))"
    (is "?L \<longleftrightarrow> ?R")
  proof
    assume L: ?L
    have "view w pid (a + of_nat (length xs) + of_nat i) = Some (ys ! i)" if "i < length ys" for i
      using L [rule_format, of "length xs + i"] that by (simp add: add.assoc)
    moreover have "view w pid (a + of_nat i) = Some (xs ! i)" if "i < length xs" for i
      using L [rule_format, of i] that by (simp add: nth_append)
    ultimately show ?R by blast
  next
    assume R: ?R
    show ?L
    proof (intro allI impI)
      fix i assume i: "i < length (xs @ ys)"
      show "view w pid (a + of_nat i) = Some ((xs @ ys) ! i)"
      proof (cases "i < length xs")
        case False
        then show ?thesis
          using conjunct2 [OF R, rule_format, of "i - length xs"] i
          by (simp add: nth_append add.assoc flip: of_nat_add)
      qed (use R in \<open>simp add: nth_append\<close>)
    qed
  qed
  then show ?thesis using True u by (simp add: mapped_at_def)
next
  case False
  then have "\<not> mapped_at view w pid a (xs @ ys)" by (simp add: mapped_at_def)
  moreover have False if xs: "unat a + length xs < 2 ^ 64"
      and ys: "unat (a + of_nat (length xs)) + length ys < 2 ^ 64"
  proof -
    have "unat (a + of_nat (length xs)) = unat a + length xs"
      using xs by (simp add: unat_word_ariths unat_of_nat_64)
    then show False using ys False by simp
  qed
  ultimately show ?thesis unfolding mapped_at_def by blast
qed

lemma mapped_at_drop:
  "mapped_at view w pid a cs \<Longrightarrow> n \<le> length cs \<Longrightarrow> mapped_at view w pid (a + of_nat n) (drop n cs)"
  using mapped_at_append [of view w pid a "take n cs" "drop n cs"] by simp

lemma mapped_at_take: "mapped_at view w pid a cs \<Longrightarrow> mapped_at view w pid a (take n cs)"
  using mapped_at_append [of view w pid a "take n cs" "drop n cs"] by simp

lemma mapped_at_bound: "mapped_at view w pid a bs \<Longrightarrow> unat a + length bs < 2 ^ 64"
  by (simp add: mapped_at_def)

text \<open>Changing a word inside a mapped range.\<close>

lemma mapped_at_cong:
  assumes "\<And>i. i < length bs \<Longrightarrow> view w' pid (a + of_nat i) = view w pid (a + of_nat i)"
    and "mapped_at view w pid a bs"
  shows "mapped_at view w' pid a bs"
  using assms by (simp add: mapped_at_def)

section \<open>Transfer of C structures\<close>

text \<open>
  A type \<open>T: CStruct\<close> with its header \<open>T::H: CHeader\<close>: the two sizes and the methods of the header, as
  functions on its bytes.  A value of \<open>T\<close> is the list of its bytes.
\<close>

record cstruct =
  t_size :: usize
  header_size :: usize
  item_size_deducer :: "u8 list \<Rightarrow> usize"
  item_size_updater :: "usize \<Rightarrow> u8 list \<Rightarrow> u8 list"

text \<open>The checks of the type that all four functions start with.\<close>

definition check_item_type :: "usize \<Rightarrow> ptrace_error + unit" where
  "check_item_type obj_size =
     (if obj_size mod usize_size \<noteq> 0 then Inl (ReadItemNotAligned obj_size)
      else if obj_size > MAX_STRUCT_SIZE then Inl (ReadItemTooBig obj_size MAX_STRUCT_SIZE)
      else Inr ())"

definition check_header_size :: "cstruct \<Rightarrow> ptrace_error + unit" where
  "check_header_size T =
     (if t_size T < header_size T then Inl (HeaderTooBig (header_size T) (t_size T)) else Inr ())"

text \<open>One iteration of \<open>read_bytes_to_structs\<close>: the item and the address after it.\<close>

definition read_struct :: "'w mem_helpers \<Rightarrow> cstruct \<Rightarrow> pid \<Rightarrow> usize \<Rightarrow> usize \<Rightarrow>
    ('w, ptrace_error, u8 list \<times> usize) io" where
  "read_struct h T pid final_addr curr_addr =
     (let buffer = replicate (unat MAX_STRUCT_SIZE) 0; hs = unat (header_size T)
      in m_then (lift_r (checked_add curr_addr (header_size T))) (\<lambda>header_end.
         if header_end > final_addr
         then throw (BufferOverflow (header_size T) curr_addr final_addr)
         else
         m_then (mh_read_bytes h pid curr_addr (header_size T) buffer) (\<lambda>buffer.
         m_then (lift_r (checked_add curr_addr (header_size T))) (\<lambda>curr_addr.
         let item_size = item_size_deducer T (take hs buffer);
             remainder_size = item_size - header_size T
         in if item_size < header_size T
            then throw (ReadInvalidItemSize1 item_size (header_size T))
            else if item_size > t_size T then throw (ReadItemTooBig item_size (t_size T))
            else
            m_then (lift_r (checked_add curr_addr remainder_size)) (\<lambda>item_end.
            if item_end > final_addr
            then throw (BufferOverflow remainder_size curr_addr final_addr)
            else
            m_then (mh_read_bytes h pid curr_addr remainder_size (drop hs buffer)) (\<lambda>rest.
            m_then (lift_r (checked_add curr_addr remainder_size)) (\<lambda>curr_addr.
            ret (take (unat (t_size T)) (take hs buffer @ rest), curr_addr))))))))"

fun read_structs_loop :: "'w mem_helpers \<Rightarrow> cstruct \<Rightarrow> pid \<Rightarrow> usize \<Rightarrow> nat \<Rightarrow> usize \<Rightarrow> u8 list list \<Rightarrow>
    ('w, ptrace_error, u8 list list) io" where
  "read_structs_loop h T pid final_addr 0 curr_addr result =
     (if curr_addr < final_addr then out_of_fuel else ret result)"
| "read_structs_loop h T pid final_addr (Suc fuel) curr_addr result =
     (if curr_addr < final_addr
      then m_then (read_struct h T pid final_addr curr_addr) (\<lambda>(item, next).
           read_structs_loop h T pid final_addr fuel next (result @ [item]))
      else ret result)"

definition read_bytes_to_structs :: "cstruct \<Rightarrow> nat \<Rightarrow> pid \<Rightarrow> usize \<Rightarrow> usize \<Rightarrow> 'w mem_helpers \<Rightarrow>
    ('w, ptrace_error, u8 list list) io" where
  "read_bytes_to_structs T fuel pid addr total_size h =
     m_then (lift_r (checked_add addr total_size)) (\<lambda>final_addr.
     m_then (lift_r (check_item_type (t_size T))) (\<lambda>_.
     m_then (lift_r (check_header_size T)) (\<lambda>_.
     read_structs_loop h T pid final_addr fuel addr [])))"

fun read_objs_loop :: "'w mem_helpers \<Rightarrow> usize \<Rightarrow> pid \<Rightarrow> usize \<Rightarrow> nat \<Rightarrow> usize \<Rightarrow> u8 list list \<Rightarrow>
    ('w, ptrace_error, u8 list list) io" where
  "read_objs_loop h obj_size pid final_addr 0 curr_addr result =
     (if curr_addr < final_addr then out_of_fuel else ret result)"
| "read_objs_loop h obj_size pid final_addr (Suc fuel) curr_addr result =
     (if curr_addr < final_addr
      then m_then (mh_read_bytes h pid curr_addr obj_size (replicate (unat MAX_STRUCT_SIZE) 0)) (\<lambda>buffer.
           m_then (lift_r (checked_add curr_addr obj_size)) (\<lambda>next.
           read_objs_loop h obj_size pid final_addr fuel next (result @ [take (unat obj_size) buffer])))
      else ret result)"

definition read_bytes_to_fixed_sized_objs :: "usize \<Rightarrow> nat \<Rightarrow> pid \<Rightarrow> usize \<Rightarrow> usize \<Rightarrow> 'w mem_helpers \<Rightarrow>
    ('w, ptrace_error, u8 list list) io" where
  "read_bytes_to_fixed_sized_objs obj_size fuel pid addr num_objs h =
     m_then (lift_r (checked_mul obj_size num_objs)) (\<lambda>total_size.
     m_then (lift_r (checked_add addr total_size)) (\<lambda>final_addr.
     m_then (lift_r (check_item_type obj_size)) (\<lambda>_.
     read_objs_loop h obj_size pid final_addr fuel addr [])))"

text \<open>
  \<open>write_structs_to_tracee\<close>.  The words after the header are written first, without the zeroes that
  exceed the criteria; then the header, with the size of the item when words were skipped.
\<close>

fun write_remainder :: "('w, 'x) ptrace_api_scheme \<Rightarrow> pid \<Rightarrow> usize \<Rightarrow> usize \<Rightarrow> usize \<Rightarrow> usize \<Rightarrow> usize \<Rightarrow> usize list \<Rightarrow>
    ('w, ptrace_error, usize \<times> usize) io" where
  "write_remainder k pid max_addr shrink_criteria count_zeroes skipped_zeroes addr [] =
     ret (skipped_zeroes, addr)"
| "write_remainder k pid max_addr shrink_criteria count_zeroes skipped_zeroes addr (machine_word # words) =
     (if machine_word = 0
      then m_then (lift_r (checked_add count_zeroes 1)) (\<lambda>count_zeroes.
           if count_zeroes > shrink_criteria
           then m_then (lift_r (checked_add skipped_zeroes 1)) (\<lambda>skipped_zeroes.
                write_remainder k pid max_addr shrink_criteria count_zeroes skipped_zeroes addr words)
           else m_then (checked_write k pid addr max_addr machine_word) (\<lambda>_.
                m_then (lift_r (checked_add addr usize_size)) (\<lambda>addr.
                write_remainder k pid max_addr shrink_criteria count_zeroes skipped_zeroes addr words)))
      else m_then (checked_write k pid addr max_addr machine_word) (\<lambda>_.
           m_then (lift_r (checked_add addr usize_size)) (\<lambda>addr.
           write_remainder k pid max_addr shrink_criteria 0 skipped_zeroes addr words)))"

fun write_words :: "('w, 'x) ptrace_api_scheme \<Rightarrow> pid \<Rightarrow> usize \<Rightarrow> usize list \<Rightarrow> ('w, ptrace_error, usize) io" where
  "write_words k pid addr [] = ret addr"
| "write_words k pid addr (machine_word # words) =
     m_then (write_word k pid addr machine_word) (\<lambda>_.
     m_then (lift_r (checked_add addr usize_size)) (\<lambda>addr.
     write_words k pid addr words))"

definition write_struct :: "('w, 'x) ptrace_api_scheme \<Rightarrow> cstruct \<Rightarrow> pid \<Rightarrow> usize \<Rightarrow> usize \<Rightarrow> usize \<Rightarrow> usize \<Rightarrow>
    usize \<Rightarrow> u8 list \<Rightarrow> ('w, ptrace_error, usize) io" where
  "write_struct k T pid max_addr shrink_criteria skip_header skip_header_bytes curr_addr item =
     m_then (lift_r (checked_add curr_addr skip_header_bytes)) (\<lambda>curr_remainder_addr.
     if curr_remainder_addr > max_addr
     then throw (BufferOverflow skip_header_bytes curr_addr max_addr)
     else
     m_then (write_remainder k pid max_addr shrink_criteria 0 0 curr_remainder_addr
               (drop (unat skip_header) (chunk_words item))) (\<lambda>(skipped_zeroes, curr_remainder_addr).
     m_then (if skipped_zeroes > 0
             then m_then (lift_r (checked_sub (t_size T) (skipped_zeroes * usize_size))) (\<lambda>obj_size.
                  ret (item_size_updater T obj_size (take (unat (header_size T)) item) @
                       drop (unat (header_size T)) item))
             else ret item) (\<lambda>item.
     m_then (write_words k pid curr_addr (take (unat skip_header) (chunk_words item))) (\<lambda>_.
     ret curr_remainder_addr))))"

fun write_structs_loop :: "('w, 'x) ptrace_api_scheme \<Rightarrow> cstruct \<Rightarrow> pid \<Rightarrow> usize \<Rightarrow> usize \<Rightarrow> usize \<Rightarrow> usize \<Rightarrow>
    usize \<Rightarrow> u8 list list \<Rightarrow> ('w, ptrace_error, usize) io" where
  "write_structs_loop k T pid max_addr shrink skip_header skip_header_bytes curr_addr [] = ret curr_addr"
| "write_structs_loop k T pid max_addr shrink skip_header skip_header_bytes curr_addr (item # items) =
     m_then (write_struct k T pid max_addr shrink skip_header skip_header_bytes curr_addr item) (\<lambda>next.
     write_structs_loop k T pid max_addr shrink skip_header skip_header_bytes next items)"

definition write_structs_to_tracee :: "('w, 'x) ptrace_api_scheme \<Rightarrow> cstruct \<Rightarrow> pid \<Rightarrow> usize \<Rightarrow> usize \<Rightarrow>
    u8 list list \<Rightarrow> usize \<Rightarrow> ('w, ptrace_error, usize) io" where
  "write_structs_to_tracee k T pid addr buffer_size items shrink_criteria =
     m_then (lift_r (checked_add addr buffer_size)) (\<lambda>max_addr.
     m_then (lift_r (check_item_type (t_size T))) (\<lambda>_.
     m_then (lift_r (check_header_size T)) (\<lambda>_.
     m_then (lift_r (r_then (aligned (header_size T)) (\<lambda>a. checked_div a usize_size))) (\<lambda>skip_header.
     m_then (lift_r (checked_mul skip_header usize_size)) (\<lambda>skip_header_bytes.
     m_then (write_structs_loop k T pid max_addr shrink_criteria skip_header skip_header_bytes addr items)
       (\<lambda>curr_addr. ret (curr_addr - addr)))))))"

fun write_objs_loop :: "('w, 'x) ptrace_api_scheme \<Rightarrow> usize \<Rightarrow> pid \<Rightarrow> usize \<Rightarrow> usize \<Rightarrow> u8 list list \<Rightarrow>
    ('w, ptrace_error, usize) io" where
  "write_objs_loop k obj_size pid max_addr curr_addr [] = ret curr_addr"
| "write_objs_loop k obj_size pid max_addr curr_addr (item # items) =
     (if curr_addr + obj_size > max_addr then throw (BufferOverflow obj_size curr_addr max_addr)
      else m_then (write_words k pid curr_addr (chunk_words item)) (\<lambda>next.
           write_objs_loop k obj_size pid max_addr next items))"

definition write_fixed_sized_objs_to_tracee :: "('w, 'x) ptrace_api_scheme \<Rightarrow> usize \<Rightarrow> pid \<Rightarrow> usize \<Rightarrow> usize \<Rightarrow>
    u8 list list \<Rightarrow> ('w, ptrace_error, usize) io" where
  "write_fixed_sized_objs_to_tracee k obj_size pid addr buffer_size items =
     m_then (lift_r (checked_add addr buffer_size)) (\<lambda>max_addr.
     m_then (lift_r (check_item_type obj_size)) (\<lambda>_.
     m_then (write_objs_loop k obj_size pid max_addr addr items) (\<lambda>curr_addr.
     ret (curr_addr - addr))))"

section \<open>A machine that keeps the laws\<close>

text \<open>
  The laws assumed of the kernel can be met: a machine whose state is the mapped bytes and the
  registers of its processes.  It is used for the concrete instances of the theorems only.
\<close>

record machine =
  m_bytes :: "pid \<Rightarrow> usize \<Rightarrow> u8 option"
  m_regs :: "pid \<Rightarrow> usize list"

definition machine_mapped :: "machine \<Rightarrow> pid \<Rightarrow> usize \<Rightarrow> bool" where
  "machine_mapped w pid addr \<longleftrightarrow> (\<forall>i \<in> set [0..<8]. m_bytes w pid (addr + of_nat i) \<noteq> None)"

definition machine_api :: "machine ptrace_api" where
  "machine_api = \<lparr>
     sys_ptrace_read = (\<lambda>pid addr w.
       (if machine_mapped w pid addr
        then Inr (from_ne_bytes (map (\<lambda>i. the (m_bytes w pid (addr + of_nat i))) [0..<8]))
        else Inl 5, w)),
     sys_ptrace_write = (\<lambda>pid addr v w.
       if machine_mapped w pid addr
       then (Inr (), w\<lparr>m_bytes := (m_bytes w)(pid := poke_view addr v (m_bytes w pid))\<rparr>)
       else (Inl 5, w)),
     sys_getregset = (\<lambda>pid w. (Inr (m_regs w pid), w)),
     sys_setregset = (\<lambda>pid ws w. (Inr (), w\<lparr>m_regs := (m_regs w)(pid := ws)\<rparr>)),
     sys_geteventmsg = (\<lambda>pid w. (Inl 3, w)),
     sys_waitpid = (\<lambda>pid nohang w. (Inr StillAlive, w))\<rparr>"

lemma machine_peek_law: "peek_law machine_api m_bytes"
  unfolding peek_law_def
proof (intro allI impI, elim conjE)
  fix w :: machine and pid addr and bs :: "u8 list"
  assume len: "length bs = 8" and view: "\<forall>i < 8. m_bytes w pid (addr + of_nat i) = Some (bs ! i)"
  have "map (\<lambda>i. the (m_bytes w pid (addr + of_nat i))) [0..<8] = map ((!) bs) [0..<8]"
    using view by (intro map_cong) auto
  also have "\<dots> = bs" using len by (metis map_nth)
  finally show "sys_ptrace_read machine_api pid addr w = (Inr (from_ne_bytes bs), w)"
    using view by (simp add: machine_api_def machine_mapped_def del: upt_Suc)
qed

lemma machine_poke_law: "poke_law machine_api m_bytes"
  by (auto simp: poke_law_def machine_api_def machine_mapped_def split: if_splits)

lemma machine_regs_law: "regs_law machine_api"
  by (simp add: regs_law_def machine_api_def)

section \<open>Writes stay inside the buffer\<close>

text \<open>What \<open>ptrace(2)\<close> promises of every poke, also of one that fails: no other byte changes.\<close>

definition poke_frame_law :: "('w, 'x) ptrace_api_scheme \<Rightarrow> 'w view \<Rightarrow> bool" where
  "poke_frame_law k view \<longleftrightarrow>
     (\<forall>w pid addr value p a. p \<noteq> pid \<or> 8 \<le> unat (a - addr) \<longrightarrow>
        view (snd (sys_ptrace_write k pid addr value w)) p a = view w p a)"

lemma machine_poke_frame_law: "poke_frame_law machine_api m_bytes"
  by (auto simp: poke_frame_law_def machine_api_def poke_view_def)

text \<open>A byte \<open>a\<close> of process \<open>p\<close> outside the range from \<open>lo\<close> to \<open>hi\<close> of \<open>pid\<close>.\<close>

definition outside :: "pid \<Rightarrow> nat \<Rightarrow> nat \<Rightarrow> pid \<Rightarrow> usize \<Rightarrow> bool" where
  "outside pid lo hi p a \<longleftrightarrow> p \<noteq> pid \<or> unat a < lo \<or> hi \<le> unat a"

lemma near_word:
  fixes a x :: usize
  assumes "unat (a - x) < 8" "unat x + 8 \<le> 2 ^ 64"
  shows "unat x \<le> unat a \<and> unat a < unat x + 8"
proof -
  have "unat (x + (a - x)) = unat x + unat (a - x)"
    using assms by (intro unat_add_no_overflow) linarith
  then show ?thesis using assms(1) by simp
qed

lemma write_word_frame:
  assumes "poke_frame_law k view" "outside pid lo hi p a" "lo \<le> unat x" "unat x + 8 \<le> hi" "hi \<le> 2 ^ 64"
  shows "keeps (\<lambda>w. view w p a = v) (write_word k pid x value)"
  unfolding write_word_def
proof (rule keeps_call)
  fix w assume "view w p a = v"
  moreover have "p \<noteq> pid \<or> 8 \<le> unat (a - x)"
    using assms(2-5) near_word [of a x] by (auto simp: outside_def not_less [symmetric])
  ultimately show "view (snd (sys_ptrace_write k pid x value w)) p a = v"
    using assms(1) unfolding poke_frame_law_def by metis
qed

text \<open>Addresses that are reached from \<open>lo\<close> in steps of a word and are at most \<open>hi\<close>.\<close>

definition on_grid :: "nat \<Rightarrow> nat \<Rightarrow> usize \<Rightarrow> bool" where
  "on_grid lo hi x \<longleftrightarrow> lo \<le> unat x \<and> unat x \<le> hi \<and> 8 dvd (unat x - lo)"

lemma on_grid_next:
  assumes "on_grid lo hi x" "unat x < hi" "8 dvd (hi - lo)"
  shows "unat x + 8 \<le> hi"
proof -
  obtain m where m: "unat x - lo = 8 * m" using assms(1) by (auto simp: on_grid_def)
  obtain n where n: "hi - lo = 8 * n" using assms(3) by auto
  have "lo \<le> unat x" using assms(1) by (simp add: on_grid_def)
  then have "m < n" using m n assms(2) by linarith
  then have "8 * m + 8 \<le> 8 * n" by linarith
  then show ?thesis using m n assms(2) \<open>lo \<le> unat x\<close> by linarith
qed

lemma on_grid_step:
  assumes "on_grid lo hi x" "unat x + 8 \<le> hi" "checked_add x usize_size = Inr y"
  shows "on_grid lo hi y"
proof -
  have "unat y = unat x + 8" using checked_add_unat [OF assms(3)] by (simp add: usize_size_def)
  moreover from this have "unat y - lo = (unat x - lo) + 8" using assms(1) by (simp add: on_grid_def)
  then have "8 dvd unat y - lo"
    using assms(1) by (simp only: on_grid_def) (intro dvd_add, simp_all)
  ultimately show ?thesis using assms(1,2) by (simp add: on_grid_def)
qed

lemma write_words_frame:
  assumes "poke_frame_law k view" "outside pid lo hi p a" "8 dvd (hi - lo)" "hi \<le> 2 ^ 64"
    and "on_grid lo hi x" "unat x + 8 * length ws \<le> hi"
  shows "ensures (\<lambda>w. view w p a = v) (write_words k pid x ws) (on_grid lo hi)"
  using assms(5,6)
proof (induction ws arbitrary: x)
  case (Cons mw ws)
  have x8: "unat x + 8 \<le> hi" "lo \<le> unat x" using Cons.prems by (simp_all add: on_grid_def)
  have "ensures (\<lambda>w. view w p a = v) (write_words k pid y ws) (on_grid lo hi)"
    if y: "checked_add x usize_size = Inr y" for y
    using Cons.prems on_grid_step [OF Cons.prems(1) x8(1) y] checked_add_unat [OF y]
    by (intro Cons.IH) (simp_all add: usize_size_def)
  then show ?case
    unfolding write_words.simps
    by (intro ensures_then [OF write_word_frame [OF assms(1,2) x8(2) x8(1) assms(4)]]
        ensures_lift_then)
qed (auto intro: ensures_intros)

lemma checked_write_frame:
  assumes "poke_frame_law k view" "outside pid lo hi p a" "8 dvd (hi - lo)" "hi \<le> 2 ^ 64"
    and "on_grid lo hi x" "unat max_addr \<le> hi"
  shows "ensures (\<lambda>w. view w p a = v) (checked_write k pid x max_addr value) (\<lambda>_. unat x + 8 \<le> hi)"
proof (cases "x \<ge> max_addr")
  case False
  then have "unat x < hi" using assms(6) by (simp add: word_le_nat_alt)
  then have x8: "unat x + 8 \<le> hi" by (rule on_grid_next [OF assms(5) _ assms(3)])
  have "keeps (\<lambda>w. view w p a = v) (write_word k pid x value)"
    using assms(5) by (intro write_word_frame [OF assms(1,2) _ x8 assms(4)]) (simp add: on_grid_def)
  then show ?thesis using False x8 by (simp add: checked_write_def ensures_weaken)
qed (simp add: checked_write_def ensures_intros)

lemma write_remainder_frame:
  assumes "poke_frame_law k view" "outside pid lo hi p a" "8 dvd (hi - lo)" "hi \<le> 2 ^ 64"
    and "unat max_addr \<le> hi" "on_grid lo hi x"
  shows "ensures (\<lambda>w. view w p a = v) (write_remainder k pid max_addr shrink c s x ws)
    (\<lambda>(_, y). on_grid lo hi y)"
  using assms(6)
proof (induction ws arbitrary: c s x)
  case (Cons mw ws)
  note cw = checked_write_frame [OF assms(1-4) Cons.prems assms(5)]
  have step: "ensures (\<lambda>w. view w p a = v)
      (m_then (checked_write k pid x max_addr mw) (\<lambda>_.
       m_then (lift_r (checked_add x usize_size)) (\<lambda>y. write_remainder k pid max_addr shrink c' s' y ws)))
      (\<lambda>(_, y). on_grid lo hi y)" for c' s'
    by (intro ensures_then [OF cw] ensures_lift_then Cons.IH)
      (auto intro: on_grid_step [OF Cons.prems])
  show ?case
    using step Cons.IH [OF Cons.prems] by (auto intro!: ensures_lift_then)
qed (auto intro: ensures_intros)

lemma length_chunk_words: "length (chunk_words bs) = length bs div 8"
  using chunk_words_exact [of bs] by blast

lemma write_struct_frame:
  assumes "poke_frame_law k view" "outside pid lo hi p a" "8 dvd (hi - lo)" "hi \<le> 2 ^ 64"
    and "unat max_addr \<le> hi" "on_grid lo hi x" "unat skip_header_bytes = 8 * unat skip_header"
  shows "ensures (\<lambda>w. view w p a = v)
    (write_struct k T pid max_addr shrink skip_header skip_header_bytes x item) (on_grid lo hi)"
proof -
  have header: "ensures (\<lambda>w. view w p a = v)
      (m_then (write_words k pid x (take (unat skip_header) (chunk_words it))) (\<lambda>_. ret z)) (on_grid lo hi)"
    if y: "checked_add x skip_header_bytes = Inr y" "\<not> y > max_addr" "on_grid lo hi z" for y z it
  proof -
    have "unat y = unat x + 8 * unat skip_header" using checked_add_unat [OF y(1)] assms(7) by simp
    then have "unat x + 8 * length (take (unat skip_header) (chunk_words it)) \<le> hi"
      using y(2) assms(5) by (simp add: word_le_nat_alt not_less)
    then show ?thesis
      using y(3) by (intro ensures_then [OF write_words_frame [OF assms(1-4) assms(6)]]) (auto intro: ensures_intros)
  qed
  have grid: "on_grid lo hi y" if y: "checked_add x skip_header_bytes = Inr y" "\<not> y > max_addr" for y
  proof -
    have u: "unat y = unat x + 8 * unat skip_header" using checked_add_unat [OF y(1)] assms(7) by simp
    then have "unat y - lo = (unat x - lo) + 8 * unat skip_header" using assms(6) by (simp add: on_grid_def)
    then have "8 dvd unat y - lo" using assms(6) by (simp only: on_grid_def) (intro dvd_add, simp_all)
    then show ?thesis using u y(2) assms(5,6) by (simp add: on_grid_def word_le_nat_alt not_less)
  qed
  show ?thesis
    unfolding write_struct_def
    by (intro ensures_lift_then ensures_if ensures_stop ensures_then [OF write_remainder_frame [OF assms(1-5)]])
      (auto intro!: ensures_intros grid header intro: ensures_then [where Q = "\<lambda>_. True"])
qed

lemma write_structs_loop_frame:
  assumes "poke_frame_law k view" "outside pid lo hi p a" "8 dvd (hi - lo)" "hi \<le> 2 ^ 64"
    and "unat max_addr \<le> hi" "on_grid lo hi x" "unat skip_header_bytes = 8 * unat skip_header"
  shows "ensures (\<lambda>w. view w p a = v)
    (write_structs_loop k T pid max_addr shrink skip_header skip_header_bytes x items) (on_grid lo hi)"
  using assms(6)
  by (induction items arbitrary: x)
    (auto intro!: ensures_intros ensures_then [OF write_struct_frame [OF assms(1-5) _ assms(7)]])

text \<open>
  C21.  \<open>write_structs_to_tracee\<close> never changes a byte of the tracee outside the given buffer, rounded
  up to whole machine words, and no byte of another process, whether it succeeds or fails.
\<close>

theorem write_structs_inside_buffer:
  assumes "poke_frame_law k view"
    and "unat addr + 8 * ((unat buffer_size + 7) div 8) \<le> 2 ^ 64"
    and "p \<noteq> pid \<or> unat a < unat addr \<or> unat addr + 8 * ((unat buffer_size + 7) div 8) \<le> unat a"
  shows "view (snd (write_structs_to_tracee k T pid addr buffer_size items shrink w)) p a = view w p a"
proof -
  let ?hi = "unat addr + 8 * ((unat buffer_size + 7) div 8)"
  have out: "outside pid (unat addr) ?hi p a" using assms(3) by (simp add: outside_def)
  have "ensures (\<lambda>w'. view w' p a = view w p a)
      (write_structs_to_tracee k T pid addr buffer_size items shrink) (\<lambda>_. True)"
    unfolding write_structs_to_tracee_def
  proof (intro ensures_lift_then)
    fix max_addr skip_header skip_header_bytes
    assume m: "checked_add addr buffer_size = Inr max_addr"
      and s: "checked_mul skip_header usize_size = Inr skip_header_bytes"
    have "unat max_addr \<le> ?hi" using checked_add_unat [OF m] by simp
    moreover have "unat skip_header_bytes = 8 * unat skip_header"
      using checked_mul_unat [OF s] by (simp add: usize_size_def)
    ultimately show "ensures (\<lambda>w'. view w' p a = view w p a)
        (m_then (write_structs_loop k T pid max_addr shrink skip_header skip_header_bytes addr items)
          (\<lambda>curr_addr. ret (curr_addr - addr))) (\<lambda>_. True)"
      by (intro ensures_then [OF write_structs_loop_frame [OF assms(1) out _ assms(2)]] ensures_ret)
        (simp_all add: on_grid_def)
  qed
  then show ?thesis by (rule ensures_world) simp
qed

definition example_cstruct :: cstruct where
  "example_cstruct = \<lparr>t_size = 16, header_size = 8, item_size_deducer = from_ne_bytes,
     item_size_updater = (\<lambda>n _. to_ne_bytes n)\<rparr>"

definition example_machine :: machine where
  "example_machine = \<lparr>m_bytes = (\<lambda>pid a. if pid = 1 \<and> 4096 \<le> a \<and> a < 65536 then Some 0 else None),
     m_regs = (\<lambda>pid. replicate 27 65536)\<rparr>"

theorem write_structs_inside_buffer_witness:
  "m_bytes (snd (write_structs_to_tracee machine_api example_cstruct 1 4096 16
     [to_ne_bytes 16 @ to_ne_bytes 7] 1 example_machine)) 1 4112 = Some 0"
proof -
  have "m_bytes (snd (write_structs_to_tracee machine_api example_cstruct 1 4096 16
     [to_ne_bytes 16 @ to_ne_bytes 7] 1 example_machine)) 1 4112 = m_bytes example_machine 1 4112"
    by (rule write_structs_inside_buffer [OF machine_poke_frame_law]) simp_all
  also have "\<dots> = Some 0" by (simp add: example_machine_def)
  finally show ?thesis .
qed

section \<open>What a successful write stores\<close>

text \<open>The memory with the bytes \<open>bs\<close> stored at \<open>addr\<close>.\<close>

definition overlay :: "usize \<Rightarrow> u8 list \<Rightarrow> (usize \<Rightarrow> u8 option) \<Rightarrow> usize \<Rightarrow> u8 option" where
  "overlay addr bs m = (\<lambda>a. if unat (a - addr) < length bs then Some (bs ! unat (a - addr)) else m a)"

lemma poke_view_overlay: "poke_view addr v = overlay addr (to_ne_bytes v)"
  by (simp add: poke_view_def overlay_def fun_eq_iff)

lemma overlay_Nil [simp]: "overlay addr [] m = m"
  by (simp add: overlay_def)

lemma overlay_append:
  assumes "length (xs @ ys) < 2 ^ 64"
  shows "overlay (addr + of_nat (length xs)) ys (overlay addr xs m) = overlay addr (xs @ ys) m"
proof
  fix a
  let ?d = "unat (a - addr)"
  have xs: "unat (of_nat (length xs) :: usize) = length xs"
    using assms by (intro unat_of_nat_64) simp
  have d: "a - (addr + of_nat (length xs)) = (a - addr) - of_nat (length xs)" by simp
  show "overlay (addr + of_nat (length xs)) ys (overlay addr xs m) a = overlay addr (xs @ ys) m a"
  proof (cases "?d < length xs")
    case True
    then have "(a - addr) < of_nat (length xs)" by (simp add: word_less_nat_alt xs)
    then have "unat ((a - addr) - of_nat (length xs)) = 2 ^ 64 + ?d - length xs"
      using True xs by (simp add: unat_sub_if' word_less_nat_alt)
    then have "\<not> unat (a - (addr + of_nat (length xs))) < length ys"
      unfolding d using assms by simp
    then show ?thesis using True by (simp add: overlay_def nth_append)
  next
    case False
    then have "unat ((a - addr) - of_nat (length xs)) = ?d - length xs"
      using xs by (simp add: unat_sub word_le_nat_alt)
    then have e: "unat (a - (addr + of_nat (length xs))) = ?d - length xs" by (simp only: d)
    have "?d - length xs < length ys \<longleftrightarrow> ?d < length (xs @ ys)" using False by auto
    then show ?thesis unfolding overlay_def e using False by (simp add: nth_append)
  qed
qed

lemma offset_within:
  fixes a :: usize
  assumes "i < n" "n < 2 ^ 64"
  shows "unat (a + of_nat i - a) = i"
  using assms by (simp add: unat_of_nat_64)

lemma overlay_same:
  assumes "view w' = (view w)(pid := overlay a bs (view w pid))" "unat a + length bs < 2 ^ 64"
  shows "mapped_at view w' pid a bs"
  using assms by (auto simp: mapped_at_def overlay_def unat_of_nat_64)

text \<open>Storing words in a mapped range.\<close>

definition writable :: "'w view \<Rightarrow> 'w \<Rightarrow> pid \<Rightarrow> usize \<Rightarrow> nat \<Rightarrow> bool" where
  "writable view w pid a n \<longleftrightarrow> unat a + n < 2 ^ 64 \<and> (\<forall>i < n. view w pid (a + of_nat i) \<noteq> None)"

lemma writable_overlay:
  assumes "writable view w pid a n" "view w' = (view w)(pid := overlay b bs (view w pid))"
  shows "writable view w' pid a n"
  using assms by (auto simp: writable_def overlay_def)

lemma writable_drop:
  assumes "writable view w pid a (m + n)"
  shows "writable view w pid (a + of_nat m) n"
proof -
  have "unat (a + of_nat m) = unat a + m"
    using assms by (simp add: writable_def unat_word_ariths unat_of_nat_64)
  moreover have "view w pid (a + of_nat m + of_nat i) \<noteq> None" if "i < n" for i
    using assms that by (auto simp: writable_def add.assoc simp flip: of_nat_add)
  ultimately show ?thesis using assms by (simp add: writable_def)
qed

lemma write_words_success:
  assumes "poke_law k view" "write_words k pid a ws w = (Inr a', w')"
  shows "a' = a + of_nat (8 * length ws) \<and> unat a + 8 * length ws < 2 ^ 64 \<and>
    view w' = (view w)(pid := overlay a (words_bytes ws) (view w pid))"
  using assms(2)
proof (induction ws arbitrary: a w)
  case (Cons v ws)
  obtain w1 where w1: "sys_ptrace_write k pid a v w = (Inr (), w1)"
      and add: "checked_add a usize_size = Inr (a + 8)" and rest: "write_words k pid (a + 8) ws w1 = (Inr a', w')"
    using Cons.prems
    by (auto simp: m_then_eq_Inr write_word_def call_def lift_r_def throw_def ret_def checked_add_def
        usize_size_def split: prod.splits sum.splits if_splits)
  have u: "unat (a + 8) = unat a + 8" using checked_add_unat [OF add] by (simp add: usize_size_def)
  have v: "view w1 = (view w)(pid := overlay a (to_ne_bytes v) (view w pid))"
    using assms(1) w1 unfolding poke_law_def poke_view_overlay by blast
  note IH = Cons.IH [OF rest]
  have "length (to_ne_bytes v @ words_bytes ws) < 2 ^ 64" using IH u by simp
  from overlay_append [OF this, of a "view w pid"]
  have "view w' = (view w)(pid := overlay a (words_bytes (v # ws)) (view w pid))"
    using v IH by (auto simp: fun_eq_iff)
  then show ?case using IH u by (simp add: add.assoc)
qed (simp add: ret_apply unat_less_64 [simplified])

lemma write_words_returns:
  assumes "poke_law k view" "writable view w pid a (8 * length ws)"
  shows "\<exists>a' w'. write_words k pid a ws w = (Inr a', w')"
  using assms(2)
proof (induction ws arbitrary: a w)
  case (Cons v ws)
  have "\<forall>i < 8. view w pid (a + of_nat i) \<noteq> None" using Cons.prems by (simp add: writable_def)
  then obtain w1 where w1: "sys_ptrace_write k pid a v w = (Inr (), w1)"
      "view w1 = (view w)(pid := overlay a (to_ne_bytes v) (view w pid))"
    using assms(1) unfolding poke_law_def poke_view_overlay by blast
  have add: "checked_add a usize_size = Inr (a + 8)"
    using Cons.prems by (simp add: checked_add_def usize_size_def writable_def)
  have "writable view w pid a (8 + 8 * length ws)" using Cons.prems by simp
  from writable_drop [OF writable_overlay [OF this w1(2)]]
  have "writable view w1 pid (a + 8) (8 * length ws)" by simp
  from Cons.IH [OF this] show ?case
    using w1(1) by (auto simp: write_word_def call_apply m_then_apply add ret_def)
qed (simp add: ret_apply)

lemma write_words_stores:
  assumes "poke_law k view" "writable view w pid a (8 * length ws)"
  shows "\<exists>w'. write_words k pid a ws w = (Inr (a + of_nat (8 * length ws)), w') \<and>
    view w' = (view w)(pid := overlay a (words_bytes ws) (view w pid))"
  using write_words_returns [OF assms] write_words_success [OF assms(1)] by metis

lemma write_objs_loop_stores:
  assumes "poke_law k view" "8 dvd unat n" "\<forall>c \<in> set cs. length c = unat n"
    and "writable view w pid a (length cs * unat n)" "unat a + length cs * unat n \<le> unat max_addr"
  shows "\<exists>w'. write_objs_loop k n pid max_addr a cs w = (Inr (a + of_nat (length (concat cs))), w') \<and>
    view w' = (view w)(pid := overlay a (concat cs) (view w pid))"
  using assms(3-)
proof (induction cs arbitrary: a w)
  case (Cons c cs)
  have c: "length c = unat n" and len: "8 * (length c div 8) = length c" using Cons.prems(1) assms(2) by simp_all
  have "words_bytes (chunk_words c) = c"
    using chunk_words_exact [of c] len by simp
  moreover have wr: "writable view w pid a (length c + length cs * unat n)"
    using Cons.prems(2) c by simp
  then have "writable view w pid a (8 * length (chunk_words c))"
    by (auto simp: length_chunk_words len writable_def)
  ultimately obtain w1 where w1: "write_words k pid a (chunk_words c) w = (Inr (a + of_nat (length c)), w1)"
      "view w1 = (view w)(pid := overlay a c (view w pid))"
    using write_words_stores [OF assms(1), of w pid a "chunk_words c"]
    by (metis length_chunk_words len)
  have u: "unat (a + of_nat (length c)) = unat a + length c"
    using wr by (simp add: writable_def unat_add_no_overflow unat_of_nat_64)
  have "of_nat (length c) = n" using c by simp
  then have guard: "\<not> a + n > max_addr"
    using Cons.prems(3) c u by (simp add: word_less_nat_alt)
  have "unat (a + of_nat (length c)) + length cs * unat n \<le> unat max_addr"
    using Cons.prems(3) u c by simp
  moreover have "\<forall>c \<in> set cs. length c = unat n" using Cons.prems(1) by simp
  ultimately obtain w2 where w2: "write_objs_loop k n pid max_addr (a + of_nat (length c)) cs w1 =
      (Inr (a + of_nat (length c) + of_nat (length (concat cs))), w2)"
      "view w2 = (view w1)(pid := overlay (a + of_nat (length c)) (concat cs) (view w1 pid))"
    using Cons.IH [OF _ writable_drop [OF writable_overlay [OF wr w1(2)]]] by blast
  have "length (concat cs) = length cs * unat n" using Cons.prems(1) by (induction cs) simp_all
  then have "length (c @ concat cs) < 2 ^ 64" using wr by (simp add: writable_def)
  from overlay_append [OF this, of a "view w pid"]
  have "view w2 = (view w)(pid := overlay a (concat (c # cs)) (view w pid))"
    using w1(2) w2(2) by simp
  then show ?case using w1(1) w2(1) guard by (auto simp: m_then_apply add.assoc)
qed (simp add: ret_apply)

section \<open>Items\<close>

text \<open>
  The types that pass the checks, the items of a type as they are stored by the kernel (their header
  announces their length), and the Rust value that represents such an item: the rest of the fixed-size
  structure is zero.
\<close>

definition type_ok :: "cstruct \<Rightarrow> bool" where
  "type_ok T \<longleftrightarrow> check_item_type (t_size T) = Inr () \<and> check_header_size T = Inr ()"

definition item_ok :: "cstruct \<Rightarrow> u8 list \<Rightarrow> bool" where
  "item_ok T c \<longleftrightarrow> 0 < length c \<and> unat (header_size T) \<le> length c \<and> length c \<le> unat (t_size T) \<and>
     item_size_deducer T (take (unat (header_size T)) c) = of_nat (length c) \<and>
     unat (t_size T) \<le> unat MAX_STRUCT_SIZE"

definition padded :: "cstruct \<Rightarrow> u8 list \<Rightarrow> u8 list" where
  "padded T c = c @ replicate (unat (t_size T) - length c) 0"

lemma item_okD:
  assumes "item_ok T c"
  shows "unat (header_size T) \<le> length c" "length c \<le> unat (t_size T)"
    "item_size_deducer T (take (unat (header_size T)) c) = of_nat (length c)"
    "unat (t_size T) \<le> unat MAX_STRUCT_SIZE"
  using assms by (simp_all add: item_ok_def)

section \<open>The contract of reading\<close>

text \<open>
  \<open>holds w pid a bs\<close>: in world \<open>w\<close> the bytes \<open>bs\<close> can be read at address \<open>a\<close> of the tracee.
\<close>

locale mem_reader =
  fixes h :: "'w mem_helpers"
    and holds :: "'w \<Rightarrow> pid \<Rightarrow> usize \<Rightarrow> u8 list \<Rightarrow> bool"
  assumes read_bytes_law: "holds w pid a bs \<Longrightarrow> length bs \<le> length buf \<Longrightarrow>
      \<exists>w'. mh_read_bytes h pid a (of_nat (length bs)) buf w = (Inr (bs @ drop (length bs) buf), w') \<and>
        (\<forall>p a' cs. holds w p a' cs \<longrightarrow> holds w' p a' cs)"
    and until_law: "holds w pid a bs \<Longrightarrow> scan_zeroes n0 bs (0, []) = Inl r \<Longrightarrow>
      \<exists>w'. mh_read_bytes_until_num_zeroes h pid a n0 w = (Inr r, w') \<and>
        (\<forall>p a' cs. holds w p a' cs \<longrightarrow> holds w' p a' cs)"
    and until_zero_law: "mh_read_bytes_until_zero h pid a = mh_read_bytes_until_num_zeroes h pid a 1"
    and holds_bound: "holds w pid a bs \<Longrightarrow> unat a + length bs < 2 ^ 64"
    and holds_split: "holds w pid a (xs @ ys) \<Longrightarrow>
      holds w pid a xs \<and> holds w pid (a + of_nat (length xs)) ys"
begin

text \<open>Reading a C string.\<close>

lemma read_c_string:
  assumes "holds w pid a (bs @ [0])" "0 \<notin> set bs"
  shows "\<exists>w'. mh_read_bytes_until_zero h pid a w = (Inr bs, w') \<and>
    (\<forall>p a' cs. holds w p a' cs \<longrightarrow> holds w' p a' cs)"
  unfolding until_zero_law
  using until_law [OF assms(1), of 1 bs] scan_zeroes_first [OF assms(2), of "[]" "[]"] by simp

text \<open>Reading one C structure that is at the front of what can be read.\<close>

lemma read_struct_item:
  assumes "holds w pid a (c @ rest)" "item_ok T c" "unat a + length c \<le> unat final_addr"
  shows "\<exists>w'. read_struct h T pid final_addr a w = (Inr (padded T c, a + of_nat (length c)), w') \<and>
    (\<forall>p a' cs. holds w p a' cs \<longrightarrow> holds w' p a' cs)"
proof -
  let ?hs = "unat (header_size T)"
  let ?buf = "replicate (unat MAX_STRUCT_SIZE) (0 :: u8)"
  let ?rem = "of_nat (length c) - header_size T"
  note ok = item_okD [OF assms(2)]
  have split: "c = take ?hs c @ drop ?hs c" by simp
  have c: "holds w pid a c" using holds_split [OF assms(1)] by simp
  then have h1: "holds w pid a (take ?hs c)" and h2: "holds w pid (a + header_size T) (drop ?hs c)"
    using holds_split [of w pid a "take ?hs c" "drop ?hs c"] ok(1) by simp_all
  have b1: "unat a + ?hs < 2 ^ 64" and b2: "unat a + length c < 2 ^ 64"
    using holds_bound [OF c] ok(1) by simp_all
  have u1: "unat (a + header_size T) = unat a + ?hs" by (rule unat_add_no_overflow [OF b1])
  have len: "unat (of_nat (length c) :: usize) = length c" using b2 by (intro unat_of_nat_64) simp
  have le: "header_size T \<le> of_nat (length c)" using ok(1) by (simp add: word_le_nat_alt len)
  have rem: "unat ?rem = length c - ?hs" using unat_sub_no_underflow [OF le] len by simp
  have rem_eq: "?rem = of_nat (length (drop ?hs c))" using rem by (metis length_drop of_nat_unat ucast_id)
  have small: "length c \<le> unat MAX_STRUCT_SIZE" using ok(2,4) by simp
  have "length (take ?hs c) = ?hs" using ok(1) by simp
  then obtain w1 where w1: "mh_read_bytes h pid a (header_size T) ?buf w =
        (Inr (take ?hs c @ drop ?hs ?buf), w1)"
      "\<And>p a' cs. holds w p a' cs \<Longrightarrow> holds w1 p a' cs"
    using read_bytes_law [OF h1, of ?buf] small ok(1) by auto
  have "length (drop ?hs c) \<le> length (drop ?hs ?buf)" using small by simp
  then obtain w2 where w2: "mh_read_bytes h pid (a + header_size T) ?rem (drop ?hs ?buf) w1 =
        (Inr (drop ?hs c @ drop (length c) ?buf), w2)"
      "\<And>p a' cs. holds w1 p a' cs \<Longrightarrow> holds w2 p a' cs"
    using read_bytes_law [OF w1(2) [OF h2], of "drop ?hs ?buf"] ok(1) unfolding rem_eq by auto
  have sum: "a + header_size T + ?rem = a + of_nat (length c)" by simp
  have b3: "unat (a + header_size T) + unat ?rem < 2 ^ 64" using b2 u1 rem ok(1) by simp
  have u3: "unat (a + of_nat (length c)) = unat a + length c"
    using b2 len by (simp add: unat_add_no_overflow)
  have e1: "\<not> a + header_size T > final_addr" "\<not> a + of_nat (length c) > final_addr"
    using assms(3) ok(1) u1 u3 by (simp_all add: word_less_nat_alt)
  have e2: "\<not> of_nat (length c) < header_size T" "\<not> of_nat (length c) > t_size T"
    using ok(1,2) len by (simp_all add: word_less_nat_alt)
  have header: "take ?hs (take ?hs c @ drop ?hs ?buf) = take ?hs c"
    "drop ?hs (take ?hs c @ drop ?hs ?buf) = drop ?hs ?buf"
    using ok(1) by simp_all
  have result: "take (unat (t_size T)) (take ?hs c @ drop ?hs c @ drop (length c) ?buf) = padded T c"
    using ok(2,4) by (simp only: append_assoc [symmetric] split [symmetric]) (simp add: padded_def)
  have "read_struct h T pid final_addr a w = (Inr (padded T c, a + of_nat (length c)), w2)"
    using w1(1) w2(1) b1 b3 e1 e2 header ok(3) result
    by (simp add: read_struct_def Let_def checked_add_def io_simps sum)
  then show ?thesis using w1(2) w2(2) by blast
qed

lemma read_structs_loop_items:
  assumes "holds w pid a (concat cs)" "\<forall>c \<in> set cs. item_ok T c"
    "unat a + length (concat cs) = unat final_addr" "length cs \<le> fuel"
  shows "\<exists>w'. read_structs_loop h T pid final_addr fuel a acc w = (Inr (acc @ map (padded T) cs), w') \<and>
    (\<forall>p a' cs. holds w p a' cs \<longrightarrow> holds w' p a' cs)"
  using assms
proof (induction cs arbitrary: a acc w fuel)
  case Nil
  then have "\<not> a < final_addr" by (simp add: word_less_nat_alt)
  then show ?case by (cases fuel) (auto simp: ret_apply)
next
  case (Cons c cs)
  then obtain fuel' where fuel: "fuel = Suc fuel'" by (cases fuel) auto
  have "item_ok T c" using Cons.prems(2) by simp
  then have "0 < length c" by (simp add: item_ok_def)
  then have "unat a < unat final_addr"
    using Cons.prems(3) by (simp only: concat.simps length_append)
  then have lt: "a < final_addr" by (simp add: word_less_nat_alt)
  obtain w1 where w1: "read_struct h T pid final_addr a w = (Inr (padded T c, a + of_nat (length c)), w1)"
      "\<And>p a' cs. holds w p a' cs \<Longrightarrow> holds w1 p a' cs"
    using read_struct_item [of w pid a c "concat cs" T final_addr] Cons.prems \<open>item_ok T c\<close> by auto
  have "holds w1 pid (a + of_nat (length c)) (concat cs)"
    using holds_split [of w pid a c "concat cs"] Cons.prems(1) w1(2) by simp
  moreover have "unat (a + of_nat (length c)) = unat a + length c"
    using holds_bound [OF Cons.prems(1)] by (simp add: unat_add_no_overflow unat_of_nat_64)
  ultimately obtain w2 where "read_structs_loop h T pid final_addr fuel' (a + of_nat (length c))
        (acc @ [padded T c]) w1 = (Inr ((acc @ [padded T c]) @ map (padded T) cs), w2)"
      "\<And>p a' cs. holds w1 p a' cs \<Longrightarrow> holds w2 p a' cs"
    using Cons.IH [of w1 "a + of_nat (length c)" fuel' "acc @ [padded T c]"] Cons.prems fuel by auto
  then show ?case using w1 lt fuel by (auto simp: m_then_apply)
qed

lemma read_structs:
  assumes "holds w pid a (concat cs)" "\<forall>c \<in> set cs. item_ok T c" "type_ok T"
    "n = of_nat (length (concat cs))" "length cs \<le> fuel"
  shows "\<exists>w'. read_bytes_to_structs T fuel pid a n h w = (Inr (map (padded T) cs), w') \<and>
    (\<forall>p a' cs. holds w p a' cs \<longrightarrow> holds w' p a' cs)"
proof -
  have b: "unat a + length (concat cs) < 2 ^ 64" by (rule holds_bound [OF assms(1)])
  then have n: "unat n = length (concat cs)" using assms(4) by (simp add: unat_of_nat_64)
  then have "checked_add a n = Inr (a + n)" "unat (a + n) = unat a + length (concat cs)"
    using b by (simp_all add: checked_add_def unat_add_no_overflow)
  then show ?thesis
    using read_structs_loop_items [OF assms(1,2) _ assms(5), of "a + n" "[]"] assms(3)
    by (auto simp: read_bytes_to_structs_def type_ok_def lift_r_def ret_def m_then_def)
qed

lemma read_objs_loop_items:
  assumes "holds w pid a (concat cs)" "\<forall>c \<in> set cs. length c = unat n" "0 < n" "n \<le> MAX_STRUCT_SIZE"
    "unat a + length (concat cs) = unat final_addr" "length cs \<le> fuel"
  shows "\<exists>w'. read_objs_loop h n pid final_addr fuel a acc w = (Inr (acc @ cs), w')"
  using assms
proof (induction cs arbitrary: a acc w fuel)
  case Nil
  then have "\<not> a < final_addr" by (simp add: word_less_nat_alt)
  then show ?case by (cases fuel) (auto simp: ret_apply)
next
  case (Cons c cs)
  then obtain fuel' where fuel: "fuel = Suc fuel'" by (cases fuel) auto
  have c: "length c = unat n" and n: "0 < unat n"
    using Cons.prems(2,3) by (simp_all add: word_less_nat_alt)
  then have len: "of_nat (length c) = n" by simp
  have lt: "a < final_addr"
    using Cons.prems(5) c n by (simp add: word_less_nat_alt)
  have hs: "holds w pid a c" "holds w pid (a + n) (concat cs)"
    using holds_split [of w pid a c "concat cs"] Cons.prems(1) len by simp_all
  have add: "checked_add a n = Inr (a + n)" "unat (a + n) = unat a + length c"
    using holds_bound [OF hs(1)] c by (simp_all add: checked_add_def unat_add_no_overflow)
  let ?buf = "replicate (unat MAX_STRUCT_SIZE) (0 :: u8)"
  obtain w1 where w1: "mh_read_bytes h pid a n ?buf w = (Inr (c @ drop (length c) ?buf), w1)"
      "\<And>p a' cs. holds w p a' cs \<Longrightarrow> holds w1 p a' cs"
    using read_bytes_law [OF hs(1), of ?buf] Cons.prems(4) c len by (auto simp: word_le_nat_alt)
  obtain w2 where "read_objs_loop h n pid final_addr fuel' (a + n) (acc @ [c]) w1 =
      (Inr ((acc @ [c]) @ cs), w2)"
    using Cons.IH [of w1 "a + n" fuel' "acc @ [c]"] w1(2) hs(2) Cons.prems add fuel by auto
  then show ?case using w1(1) lt fuel add c by (auto simp: m_then_apply lift_r_apply)
qed

lemma read_fixed_sized_objs:
  assumes "holds w pid a (concat cs)" "\<forall>c \<in> set cs. length c = unat n" "0 < n"
    "check_item_type n = Inr ()" "length cs \<le> fuel"
  shows "\<exists>w'. read_bytes_to_fixed_sized_objs n fuel pid a (of_nat (length cs)) h w = (Inr cs, w')"
proof -
  have total: "length (concat cs) = length cs * unat n"
    using assms(2) by (induction cs) simp_all
  have b: "unat a + length cs * unat n < 2 ^ 64" using holds_bound [OF assms(1)] total by simp
  have "length cs * 1 \<le> length cs * unat n"
    using assms(3) by (intro mult_le_mono) (simp_all add: word_less_nat_alt Suc_le_eq)
  then have u: "unat (of_nat (length cs) :: usize) = length cs" using b by (intro unat_of_nat_64) linarith
  have mul: "checked_mul n (of_nat (length cs)) = Inr (n * of_nat (length cs))"
      "unat (n * of_nat (length cs)) = length (concat cs)"
    using b u total by (simp_all add: checked_mul_def unat_word_ariths mult.commute)
  then have "checked_add a (n * of_nat (length cs)) = Inr (a + n * of_nat (length cs))"
      "unat (a + n * of_nat (length cs)) = unat a + length (concat cs)"
    using b total by (simp_all add: checked_add_def unat_add_no_overflow)
  moreover have "n \<le> MAX_STRUCT_SIZE"
    using assms(4) by (auto simp: check_item_type_def not_less split: if_splits)
  ultimately show ?thesis
    using read_objs_loop_items [OF assms(1-3), of "a + n * of_nat (length cs)" fuel "[]"] assms(4,5) mul(1)
    by (auto simp: read_bytes_to_fixed_sized_objs_def lift_r_def ret_def m_then_def)
qed

end

section \<open>The contract of writing\<close>

text \<open>
  \<open>write_bytes_to_tracee\<close> of one tracee.  \<open>placed w off start bs\<close>: in world \<open>w\<close> the tracee sees the bytes
  \<open>bs\<close> at \<open>start\<close>, in the part of the scratch area that offsets below \<open>off\<close> use.  A write returns a
  place and the offset to use next; what was placed before stays in place.  A Rust slice has at most
  \<open>isize::MAX\<close> bytes.
\<close>

locale mem_writer =
  fixes wr :: "usize \<Rightarrow> u8 list \<Rightarrow> ('w, ptrace_error, usize \<times> usize) io"
    and ready :: "'w \<Rightarrow> bool"
    and placed :: "'w \<Rightarrow> usize \<Rightarrow> usize \<Rightarrow> u8 list \<Rightarrow> bool"
  assumes write_ready: "ready w \<Longrightarrow> length bs < 2 ^ 63 \<Longrightarrow> wr off bs w = (Inr (start, off'), w') \<Longrightarrow> ready w'"
    and write_placed: "ready w \<Longrightarrow> length bs < 2 ^ 63 \<Longrightarrow> wr off bs w = (Inr (start, off'), w') \<Longrightarrow> placed w' off' start bs"
    and write_keeps: "ready w \<Longrightarrow> length bs < 2 ^ 63 \<Longrightarrow> placed w off s cs \<Longrightarrow> wr off bs w = (Inr (start, off'), w') \<Longrightarrow>
      placed w' off' s cs"
begin

text \<open>Several writes, each at the offset the one before returned.\<close>

fun write_all :: "usize \<Rightarrow> u8 list list \<Rightarrow> ('w, ptrace_error, usize list \<times> usize) io" where
  "write_all off [] = ret ([], off)"
| "write_all off (bs # rest) =
     m_then (wr off bs) (\<lambda>(start, off').
     m_then (write_all off' rest) (\<lambda>(starts, off''). ret (start # starts, off'')))"

lemma write_all_placed:
  assumes "ready w" "\<forall>bs \<in> set bss. length bs < 2 ^ 63" "write_all off bss w = (Inr (starts, off'), w')"
  shows "length starts = length bss \<and>
    (\<forall>i < length bss. placed w' off' (starts ! i) (bss ! i)) \<and>
    (\<forall>s cs. placed w off s cs \<longrightarrow> placed w' off' s cs) \<and> ready w'"
  using assms
proof (induction bss arbitrary: off w starts)
  case (Cons bs bss)
  from Cons.prems(3) obtain start off1 w1 starts1 where
    h: "wr off bs w = (Inr (start, off1), w1)" "write_all off1 bss w1 = (Inr (starts1, off'), w')"
      "starts = start # starts1"
    by (auto simp: m_then_eq_Inr ret_def split: prod.splits)
  have len: "length bs < 2 ^ 63" "\<forall>bs \<in> set bss. length bs < 2 ^ 63" using Cons.prems(2) by simp_all
  note IH = Cons.IH [OF write_ready [OF Cons.prems(1) len(1) h(1)] len(2) h(2)]
  have "placed w' off' start bs" using IH write_placed [OF Cons.prems(1) len(1) h(1)] by blast
  then have "\<forall>i < length (bs # bss). placed w' off' (starts ! i) ((bs # bss) ! i)"
    using IH h(3) by (auto simp: nth_Cons split: nat.split)
  moreover have "\<forall>s cs. placed w off s cs \<longrightarrow> placed w' off' s cs"
    using IH write_keeps [OF Cons.prems(1) len(1) _ h(1)] by blast
  ultimately show ?case using IH h(3) by simp
qed (simp add: ret_def)

end

end
