(* ===== verification/Mem_Slow.thy ===== *)
theory Mem_Slow
  imports Tracee_Memory
begin

text \<open>
  The implementation of \<open>MemHelpers\<close> that peeks and pokes the memory of the tracee word by word
  (\<open>ptrace/src/mem_slow.rs\<close>).  It keeps the contracts of \<open>mem_reader\<close> and \<open>mem_writer\<close> on every kernel
  that keeps the laws of \<open>ptrace(2)\<close>; writes go to the stack of the tracee, below its red zone.
\<close>

definition slow_read :: "('w, 'x) ptrace_api_scheme \<Rightarrow> pid \<Rightarrow> usize \<Rightarrow> ('w, ptrace_error, usize) io" where
  "slow_read k pid addr = call ReadE (sys_ptrace_read k pid addr)"

definition slow_close_tracee :: "pid \<Rightarrow> ('w, ptrace_error, unit) io" where
  "slow_close_tracee pid = ret ()"

definition slow_write_bytes_to_tracee :: "('w, 'x) ptrace_api_scheme \<Rightarrow> pid \<Rightarrow> usize \<Rightarrow> u8 list \<Rightarrow>
    ('w, ptrace_error, usize \<times> usize) io" where
  "slow_write_bytes_to_tracee k pid offset bytes =
     (if offset mod usize_size \<noteq> 0 then throw (WriteOffsetNotAligned offset)
      else
      m_then (lift_r (bytes_to_usizes bytes)) (\<lambda>usizes.
      m_then (lift_r (checked_mul (of_nat (length usizes)) usize_size)) (\<lambda>sz.
      m_then (getregs k pid) (\<lambda>regs.
      m_then (lift_r (r_then (checked_add STACK_SAFE_ZONE_SIZE sz) (checked_add offset))) (\<lambda>total_offset.
      m_then (lift_r (checked_sub (sp regs) total_offset)) (\<lambda>start.
      m_then (write_words k pid start usizes) (\<lambda>_.
      m_then (lift_r (checked_add offset sz)) (\<lambda>new_offset.
      ret (start, new_offset)))))))))"

text \<open>
  One round of \<open>read_bytes\<close>: the last, partial word is stored byte by byte with bounds checks, a full
  word through a raw pointer to the first of its bytes, of which only that byte is checked.
\<close>

definition store_word :: "('w, 'x) ptrace_api_scheme \<Rightarrow> pid \<Rightarrow> usize \<Rightarrow> usize \<Rightarrow> usize \<Rightarrow> u8 list \<Rightarrow>
    ('w, ptrace_error, u8 list) io" where
  "store_word k pid addr sz n_bytes_read result =
     (let n = unat n_bytes_read; left = unat (sz - n_bytes_read)
      in if left < USIZE_SIZE
         then m_then (slow_read k pid addr) (\<lambda>machine_word.
              if n + left \<le> length result
              then ret (take n result @ take left (to_ne_bytes machine_word) @ drop (n + left) result)
              else panic)
         else if n < length result
         then m_then (slow_read k pid addr) (\<lambda>machine_word.
              if n + USIZE_SIZE \<le> length result
              then ret (take n result @ to_ne_bytes machine_word @ drop (n + USIZE_SIZE) result)
              else undefined_behaviour)
         else panic)"

function slow_read_loop :: "('w, 'x) ptrace_api_scheme \<Rightarrow> pid \<Rightarrow> usize \<Rightarrow> usize \<Rightarrow> usize \<Rightarrow> u8 list \<Rightarrow>
    ('w, ptrace_error, u8 list) io" where
  "slow_read_loop k pid sz curr_addr n_bytes_read result w =
     (if n_bytes_read < sz
      then case checked_add n_bytes_read usize_size of
             Inl e \<Rightarrow> (Inl (Err e), w)
           | Inr new_n_bytes_read \<Rightarrow>
               (case store_word k pid curr_addr sz n_bytes_read result w of
                  (Inl f, w') \<Rightarrow> (Inl f, w')
                | (Inr result', w') \<Rightarrow>
                    (case checked_add curr_addr usize_size of
                       Inl e \<Rightarrow> (Inl (Err e), w')
                     | Inr curr_addr' \<Rightarrow> slow_read_loop k pid sz curr_addr' new_n_bytes_read result' w'))
      else (Inr result, w))"
  by pat_completeness auto
termination
proof (relation "measure (\<lambda>(k, pid, sz, curr_addr, n, result, w). unat sz - unat n)", simp)
  fix sz n n' :: usize
  assume "n < sz" "checked_add n usize_size = Inr n'"
  then show "((k, pid, sz, a, n', r', w'), k, pid, sz, b, n, r, w)
      \<in> measure (\<lambda>(k, pid, sz, curr_addr, n, result, w). unat sz - unat n)"
    for k :: "('w, 'x) ptrace_api_scheme" and pid :: pid and a b and r r' :: "u8 list" and w w' :: 'w
    using checked_add_unat [of n usize_size n'] by (simp add: word_less_nat_alt usize_size_def)
qed

declare slow_read_loop.simps [simp del]

definition slow_read_bytes :: "('w, 'x) ptrace_api_scheme \<Rightarrow> pid \<Rightarrow> usize \<Rightarrow> usize \<Rightarrow> u8 list \<Rightarrow>
    ('w, ptrace_error, u8 list) io" where
  "slow_read_bytes k pid addr sz result = slow_read_loop k pid sz addr 0 result"

function slow_until_loop :: "('w, 'x) ptrace_api_scheme \<Rightarrow> pid \<Rightarrow> usize \<Rightarrow> usize \<Rightarrow> usize \<times> u8 list \<Rightarrow>
    ('w, ptrace_error, u8 list) io" where
  "slow_until_loop k pid n0 curr_addr st w =
     (case slow_read k pid curr_addr w of
        (Inl f, w') \<Rightarrow> (Inl f, w')
      | (Inr machine_word, w') \<Rightarrow>
          (case scan_zeroes n0 (to_ne_bytes machine_word) st of
             Inl result \<Rightarrow> (Inr result, w')
           | Inr st' \<Rightarrow>
               (case checked_add curr_addr usize_size of
                  Inl e \<Rightarrow> (Inl (Err e), w')
                | Inr curr_addr' \<Rightarrow> slow_until_loop k pid n0 curr_addr' st' w')))"
  by pat_completeness auto
termination
proof (relation "measure (\<lambda>(k, pid, n0, curr_addr, st, w). 2 ^ 64 - unat curr_addr)", simp)
  fix a a' :: usize
  assume "checked_add a usize_size = Inr a'"
  then show "((k, pid, n0, a', st', w'), k, pid, n0, a, st, w)
      \<in> measure (\<lambda>(k, pid, n0, curr_addr, st, w). 2 ^ 64 - unat curr_addr)"
    for k :: "('w, 'x) ptrace_api_scheme" and pid :: pid and n0 :: usize and st st' :: "usize \<times> u8 list" and w w' :: 'w
    using checked_add_unat [of a usize_size a'] unat_less_64 [of a'] by (simp add: usize_size_def)
qed

declare slow_until_loop.simps [simp del]

definition slow_read_bytes_until_num_zeroes ::
  "('w, 'x) ptrace_api_scheme \<Rightarrow> pid \<Rightarrow> usize \<Rightarrow> usize \<Rightarrow> ('w, ptrace_error, u8 list) io" where
  "slow_read_bytes_until_num_zeroes k pid addr n0 = slow_until_loop k pid n0 addr (0, [])"

definition slow_read_bytes_until_zero :: "('w, 'x) ptrace_api_scheme \<Rightarrow> pid \<Rightarrow> usize \<Rightarrow> ('w, ptrace_error, u8 list) io" where
  "slow_read_bytes_until_zero k pid addr = slow_read_bytes_until_num_zeroes k pid addr 1"

definition SLOW_MEM_HELPERS :: "('w, 'x) ptrace_api_scheme \<Rightarrow> 'w mem_helpers" where
  "SLOW_MEM_HELPERS k = \<lparr>
     mh_close_tracee = slow_close_tracee,
     mh_read = slow_read k,
     mh_read_bytes = slow_read_bytes k,
     mh_read_bytes_until_num_zeroes = slow_read_bytes_until_num_zeroes k,
     mh_read_bytes_until_zero = slow_read_bytes_until_zero k,
     mh_write_bytes_to_tracee = slow_write_bytes_to_tracee k\<rparr>"

text \<open>\<open>MemHelpers::default\<close>\<close>

definition default_mem_helpers :: "('w, 'x) ptrace_api_scheme \<Rightarrow> 'w mem_helpers" where
  "default_mem_helpers k = SLOW_MEM_HELPERS k"

section \<open>Reading\<close>

definition slow_holds :: "('w, 'x) ptrace_api_scheme \<Rightarrow> 'w view \<Rightarrow> 'w \<Rightarrow> pid \<Rightarrow> usize \<Rightarrow> u8 list \<Rightarrow> bool" where
  "slow_holds k view w pid a bs \<longleftrightarrow> peek_law k view \<and>
     (\<exists>tail. length tail = 8 \<and> mapped_at view w pid a (bs @ tail))"

lemma slow_read_word:
  assumes "peek_law k view" "mapped_at view w pid a cs" "8 \<le> length cs"
  shows "slow_read k pid a w = (Inr (from_ne_bytes (take 8 cs)), w)"
proof -
  have "length (take 8 cs) = 8 \<and> (\<forall>i < 8. view w pid (a + of_nat i) = Some (take 8 cs ! i))"
    using assms(2,3) by (simp add: mapped_at_def)
  then have "sys_ptrace_read k pid a w = (Inr (from_ne_bytes (take 8 cs)), w)"
    using assms(1) unfolding peek_law_def by blast
  then show ?thesis by (simp add: slow_read_def call_apply)
qed

lemma slow_read_word_bytes:
  assumes "peek_law k view" "mapped_at view w pid a cs" "8 \<le> length cs"
  obtains v where "slow_read k pid a w = (Inr v, w)" "to_ne_bytes v = take 8 cs"
  using slow_read_word [OF assms] to_from_ne_bytes [of "take 8 cs"] assms(3) by auto

lemma store_word_bytes:
  assumes "peek_law k view" "mapped_at view w pid a (rest @ tail)" "8 \<le> length (rest @ tail)" "rest \<noteq> []"
    and "unat n + length rest = unat sz" "length pre = unat n" "length rest \<le> length old"
  shows "store_word k pid a sz n (pre @ old) w =
    (Inr (pre @ take 8 rest @ drop (length (take 8 rest)) old), w)"
proof -
  obtain v where v: "slow_read k pid a w = (Inr v, w)" "to_ne_bytes v = take 8 (rest @ tail)"
    using slow_read_word_bytes [OF assms(1,2)] assms(3) by auto
  have "n \<le> sz" using assms(5) by (simp add: word_le_nat_alt)
  then have left: "unat (sz - n) = length rest" using assms(5) by (simp add: unat_sub_no_underflow)
  show ?thesis
  proof (cases "length rest < 8")
    case True
    then show ?thesis
      using v assms(6,7) by (simp add: store_word_def Let_def left USIZE_SIZE_def io_simps)
  next
    case False
    then have "old \<noteq> []" using assms(7) by auto
    with False show ?thesis
      using v assms(4,6,7) by (simp add: store_word_def Let_def left USIZE_SIZE_def io_simps)
  qed
qed

lemma slow_read_loop_bytes:
  assumes "peek_law k view" "length tail = 8" "unat sz + 8 < 2 ^ 64"
    and "mapped_at view w pid a (rest @ tail)" "unat n + length rest = unat sz"
    and "length pre = unat n" "length rest \<le> length old"
  shows "slow_read_loop k pid sz a n (pre @ old) w = (Inr (pre @ rest @ drop (length rest) old), w)"
  using assms(4-)
proof (induction "length rest" arbitrary: a n rest pre old rule: less_induct)
  case less
  show ?case
  proof (cases "rest = []")
    case True
    then have "\<not> n < sz" using less.prems by (simp add: word_less_nat_alt)
    then show ?thesis using True by (simp add: slow_read_loop.simps [of k pid sz a n])
  next
    case False
    have "0 < length rest" using False by simp
    then have "unat n < unat sz" using less.prems(2) by linarith
    then have lt: "n < sz" by (simp add: word_less_nat_alt)
    have n8: "checked_add n usize_size = Inr (n + 8)" "unat (n + 8) = unat n + 8"
      using lt assms(3) by (simp_all add: checked_add_def usize_size_def word_less_nat_alt unat_add_no_overflow)
    have a8: "checked_add a usize_size = Inr (a + 8)"
      using mapped_at_bound [OF less.prems(1)] assms(2) by (simp add: checked_add_def usize_size_def)
    have "8 \<le> length (rest @ tail)" using assms(2) by simp
    note step = store_word_bytes [OF assms(1) less.prems(1) this False less.prems(2-4)]
    show ?thesis
    proof (cases "length rest < 8")
      case True
      have "\<not> n + 8 < sz" using True n8(2) less.prems(2) by (simp add: word_less_nat_alt)
      then show ?thesis
        using lt n8 a8 step True by (simp add: slow_read_loop.simps [of k pid sz a n] slow_read_loop.simps [of k pid sz "a + 8"])
    next
      case False
      then have split: "rest @ tail = take 8 rest @ drop 8 rest @ tail" "length (take 8 rest) = 8" by simp_all
      have m: "mapped_at view w pid (a + 8) (drop 8 rest @ tail)"
        using mapped_at_drop [OF less.prems(1), of 8] False by simp
      have "slow_read_loop k pid sz (a + 8) (n + 8) ((pre @ take 8 rest) @ drop 8 old) w =
          (Inr ((pre @ take 8 rest) @ drop 8 rest @ drop (length (drop 8 rest)) (drop 8 old)), w)"
        using False n8 less.prems m by (intro less.hyps) auto
      moreover have "(pre @ take 8 rest) @ drop 8 rest @ xs = pre @ rest @ xs" for xs
        by (metis append_assoc append_take_drop_id)
      ultimately show ?thesis
        using lt n8 a8 step False by (simp add: slow_read_loop.simps [of k pid sz a n])
    qed
  qed
qed

text \<open>A number of bytes that is not a multiple of the word size needs the whole last word: without it the read fails.\<close>

lemma slow_read_loop_end:
  assumes "peek_law k view" "unat sz + 8 < 2 ^ 64"
    and "mapped_at view w pid a rest" "unat n + length rest = unat sz" "length pre = unat n" "length rest \<le> length old"
    and "length rest mod 8 \<noteq> 0" "sys_ptrace_read k pid (a + of_nat (8 * (length rest div 8))) w = (Inl errno, w')"
  shows "slow_read_loop k pid sz a n (pre @ old) w = (Inl (Err (ReadE errno)), w')"
  using assms(3-)
proof (induction "length rest" arbitrary: a n rest pre old rule: less_induct)
  case less
  have "0 < length rest" using less.prems(5) by (cases rest) simp_all
  then have "unat n < unat sz" using less.prems(2) by linarith
  then have lt: "n < sz" by (simp add: word_less_nat_alt)
  have n8: "checked_add n usize_size = Inr (n + 8)" "unat (n + 8) = unat n + 8"
    using lt assms(2) by (simp_all add: checked_add_def usize_size_def word_less_nat_alt unat_add_no_overflow)
  have "n \<le> sz" using lt by simp
  then have left: "unat (sz - n) = length rest" using less.prems(2) by (simp add: unat_sub_no_underflow)
  show ?case
  proof (cases "length rest < 8")
    case True
    then have "sys_ptrace_read k pid a w = (Inl errno, w')" using less.prems(6) by simp
    then show ?thesis
      using True lt n8(1) left
      by (simp add: slow_read_loop.simps [of k pid sz a n] store_word_def Let_def USIZE_SIZE_def m_then_apply slow_read_def call_apply)
  next
    case False
    then have ge: "8 \<le> length rest" by simp
    have ne: "rest \<noteq> []" using ge by auto
    have "store_word k pid a sz n (pre @ old) w = (Inr (pre @ take 8 rest @ drop 8 old), w)"
      using store_word_bytes [OF assms(1) _ _ ne less.prems(2-4), of w pid a "[]"] less.prems(1) ge by simp
    moreover have "unat a + length rest < 2 ^ 64" by (rule mapped_at_bound [OF less.prems(1)])
    then have "checked_add a usize_size = Inr (a + 8)" using ge by (simp add: checked_add_def usize_size_def)
    moreover have "slow_read_loop k pid sz (a + 8) (n + 8) ((pre @ take 8 rest) @ drop 8 old) w = (Inl (Err (ReadE errno)), w')"
    proof (rule less.hyps [where rest = "drop 8 rest"])
      show "mapped_at view w pid (a + 8) (drop 8 rest)" using mapped_at_drop [OF less.prems(1), of 8] ge by simp
      have "length rest div 8 = Suc (length (drop 8 rest) div 8)" using ge by (simp add: le_div_geq)
      then show "sys_ptrace_read k pid (a + 8 + of_nat (8 * (length (drop 8 rest) div 8))) w = (Inl errno, w')"
        using less.prems(6) by (simp add: add.assoc)
      show "length (drop 8 rest) mod 8 \<noteq> 0" using less.prems(5) ge by (simp add: le_mod_geq)
    qed (use ge n8(2) less.prems in auto)
    ultimately show ?thesis using lt n8(1) by (simp add: slow_read_loop.simps [of k pid sz a n])
  qed
qed

lemma slow_read_bytes_end:
  assumes "peek_law k view" "mapped_at view w pid a bs" "length bs mod 8 \<noteq> 0" "length bs + 8 < 2 ^ 64" "length bs \<le> length buf"
    and "sys_ptrace_read k pid (a + of_nat (8 * (length bs div 8))) w = (Inl errno, w')"
  shows "slow_read_bytes k pid a (of_nat (length bs)) buf w = (Inl (Err (ReadE errno)), w')"
proof -
  have "unat (of_nat (length bs) :: usize) = length bs" using assms(4) by (intro unat_of_nat_64) simp
  then show ?thesis
    using slow_read_loop_end [OF assms(1) _ assms(2) _ _ assms(5,3,6), of "of_nat (length bs)" 0 "[]"] assms(4)
    by (simp add: slow_read_bytes_def)
qed

lemma slow_until_loop_bytes:
  assumes "peek_law k view" "length tail = 8"
    and "mapped_at view w pid a (bs @ tail)" "scan_zeroes n0 bs st = Inl r"
  shows "slow_until_loop k pid n0 a st w = (Inr r, w)"
  using assms(3-)
proof (induction "length bs" arbitrary: a bs st rule: less_induct)
  case less
  obtain v where v: "slow_read k pid a w = (Inr v, w)" "to_ne_bytes v = take 8 (bs @ tail)"
    using slow_read_word_bytes [OF assms(1) less.prems(1)] assms(2) by auto
  have a8: "checked_add a usize_size = Inr (a + 8)"
    using mapped_at_bound [OF less.prems(1)] assms(2) by (simp add: checked_add_def usize_size_def)
  show ?case
  proof (cases "length bs < 8")
    case True
    then have "scan_zeroes n0 (take 8 (bs @ tail)) st = Inl r"
      using less.prems(2) by (simp add: scan_zeroes_append)
    then show ?thesis using v by (simp add: slow_until_loop.simps [of k pid n0 a])
  next
    case False
    have scan: "scan_zeroes n0 (take 8 bs @ drop 8 bs) st = Inl r" using less.prems(2) by simp
    have v8: "to_ne_bytes v = take 8 bs" "length (take 8 bs) = 8" using v(2) False by simp_all
    have m: "mapped_at view w pid (a + 8) (drop 8 bs @ tail)"
      using mapped_at_drop [OF less.prems(1), of 8] False by simp
    show ?thesis
      using v(1) v8(1) a8 False scan less.hyps [OF _ m] unfolding scan_zeroes_append
      by (cases "scan_zeroes n0 (take 8 bs) st") (auto simp: slow_until_loop.simps [of k pid n0 a])
  qed
qed

lemma slow_holds_split:
  assumes "slow_holds k view w pid a (xs @ ys)"
  shows "slow_holds k view w pid a xs \<and> slow_holds k view w pid (a + of_nat (length xs)) ys"
proof -
  obtain tail where peek: "peek_law k view" and t: "length tail = 8" "mapped_at view w pid a ((xs @ ys) @ tail)"
    using assms by (auto simp: slow_holds_def)
  have m: "mapped_at view w pid a (xs @ (ys @ tail))"
    "mapped_at view w pid (a + of_nat (length xs)) (ys @ tail)"
    using t(2) mapped_at_append [of view w pid a xs "ys @ tail"] by simp_all
  have "mapped_at view w pid a (xs @ take 8 (ys @ tail))"
    using mapped_at_take [OF m(1), of "length xs + 8"] by simp
  moreover have "length (take 8 (ys @ tail)) = 8" using t(1) by simp
  ultimately show ?thesis using peek t(1) m(2) unfolding slow_holds_def by blast
qed

interpretation slow_reader: mem_reader "SLOW_MEM_HELPERS k" "slow_holds k view"
  for k :: "('w, 'x) ptrace_api_scheme" and view
proof
  fix w pid a bs and buf :: "u8 list"
  assume h: "slow_holds k view w pid a bs"
  then obtain tail where peek: "peek_law k view" and t: "length tail = 8" "mapped_at view w pid a (bs @ tail)"
    by (auto simp: slow_holds_def)
  have b: "unat a + length bs + 8 < 2 ^ 64" using mapped_at_bound [OF t(2)] t(1) by simp
  then have len: "unat (of_nat (length bs) :: usize) = length bs" by (intro unat_of_nat_64) simp
  show "unat a + length bs < 2 ^ 64" using b by simp
  show "\<exists>w'. mh_read_bytes (SLOW_MEM_HELPERS k) pid a (of_nat (length bs)) buf w =
        (Inr (bs @ drop (length bs) buf), w') \<and>
      (\<forall>p a' cs. slow_holds k view w p a' cs \<longrightarrow> slow_holds k view w' p a' cs)"
    if "length bs \<le> length buf"
    using slow_read_loop_bytes [OF peek t(1) _ t(2), of "of_nat (length bs)" 0 "[]" buf] that b len
    by (simp add: SLOW_MEM_HELPERS_def slow_read_bytes_def)
  show "\<exists>w'. mh_read_bytes_until_num_zeroes (SLOW_MEM_HELPERS k) pid a n0 w = (Inr r, w') \<and>
      (\<forall>p a' cs. slow_holds k view w p a' cs \<longrightarrow> slow_holds k view w' p a' cs)"
    if "scan_zeroes n0 bs (0, []) = Inl r" for n0 r
    using slow_until_loop_bytes [OF peek t(1) t(2) that]
    by (simp add: SLOW_MEM_HELPERS_def slow_read_bytes_until_num_zeroes_def)
next
  show "mh_read_bytes_until_zero (SLOW_MEM_HELPERS k) pid a =
      mh_read_bytes_until_num_zeroes (SLOW_MEM_HELPERS k) pid a 1" for pid a
    by (simp add: SLOW_MEM_HELPERS_def slow_read_bytes_until_zero_def)
qed (rule slow_holds_split)

section \<open>Writing\<close>

text \<open>The tracee is stopped with stack pointer \<open>stack_top\<close> and the kernel keeps its promises.\<close>

definition slow_ready :: "('w, 'x) ptrace_api_scheme \<Rightarrow> 'w view \<Rightarrow> pid \<Rightarrow> usize \<Rightarrow> 'w \<Rightarrow> bool" where
  "slow_ready k view pid stack_top w \<longleftrightarrow> poke_law k view \<and> regs_law k \<and>
     (\<exists>ws. fst (sys_getregset k pid w) = Inr ws \<and> sp (words_regs ws) = stack_top)"

text \<open>
  The bytes and a terminating zero are on the stack, below the safe zone and above what offsets
  from \<open>off\<close> on use.
\<close>

definition slow_placed :: "'w view \<Rightarrow> pid \<Rightarrow> usize \<Rightarrow> 'w \<Rightarrow> usize \<Rightarrow> usize \<Rightarrow> u8 list \<Rightarrow> bool" where
  "slow_placed view pid stack_top w off start bs \<longleftrightarrow>
     unat start + length bs + 1 + unat STACK_SAFE_ZONE_SIZE \<le> unat stack_top \<and>
     unat stack_top \<le> unat start + unat STACK_SAFE_ZONE_SIZE + unat off \<and>
     mapped_at view w pid start (bs @ [0])"

lemma slow_write_success:
  assumes "slow_ready k view pid stack_top w" "length bs < 2 ^ 63"
    and "slow_write_bytes_to_tracee k pid off bs w = (Inr (start, off'), w')"
  shows "unat start + 8 * (length bs div 8 + 1) + unat STACK_SAFE_ZONE_SIZE + unat off = unat stack_top"
    and "unat off' = unat off + 8 * (length bs div 8 + 1)"
    and "view w' = (view w)(pid := overlay start (bs @ replicate (8 - length bs mod 8) 0) (view w pid))"
    and "\<exists>ws a. write_words k pid start ws w = (Inr a, w')"
proof -
  obtain ws where ws: "bytes_to_usizes bs = Inr ws" "length ws = length bs div 8 + 1"
      "words_bytes ws = bs @ replicate (8 - length bs mod 8) 0"
    using bytes_to_usizes_words [of bs] assms(2) by auto
  obtain rs where rs: "getregs k pid w = (Inr (words_regs rs), w)" "sp (words_regs rs) = stack_top"
    using assms(1) by (auto simp: slow_ready_def regs_law_def getregs_def io_simps)
  have small: "length ws < 2 ^ 61" using ws(2) assms(2) by simp
  then have u: "unat (of_nat (length ws) :: usize) = length ws" by (intro unat_of_nat_64) simp
  then have mul: "checked_mul (of_nat (length ws)) usize_size = Inr (of_nat (length ws) * 8)"
    using small by (simp add: checked_mul_def usize_size_def)
  define sz :: usize where "sz = of_nat (length ws) * 8"
  have sz: "unat sz = 8 * length ws" using checked_mul_unat [OF mul] u by (simp add: sz_def usize_size_def)
  obtain zsz total a where h:
      "checked_add STACK_SAFE_ZONE_SIZE sz = Inr zsz" "checked_add off zsz = Inr total"
      "checked_sub stack_top total = Inr start" "write_words k pid start ws w = (Inr a, w')"
      "checked_add off sz = Inr off'"
    using assms(3) ws(1) rs mul
    by (auto simp: slow_write_bytes_to_tracee_def m_then_apply lift_r_apply throw_apply ret_apply
        r_then_def map_err_def sz_def split: if_splits sum.splits prod.splits)
  have "unat total = unat off + unat STACK_SAFE_ZONE_SIZE + unat sz"
    using checked_add_unat [OF h(1)] checked_add_unat [OF h(2)] by simp
  moreover have "unat start = unat stack_top - unat total" "unat total \<le> unat stack_top"
    using h(3) by (auto simp: checked_sub_Inr unat_sub_no_underflow word_le_nat_alt)
  ultimately show "unat start + 8 * (length bs div 8 + 1) + unat STACK_SAFE_ZONE_SIZE + unat off = unat stack_top"
    using sz ws(2) by simp
  show "unat off' = unat off + 8 * (length bs div 8 + 1)"
    using checked_add_unat [OF h(5)] sz ws(2) by simp
  show "view w' = (view w)(pid := overlay start (bs @ replicate (8 - length bs mod 8) 0) (view w pid))"
    using write_words_success [OF _ h(4)] assms(1) ws(3) by (auto simp: slow_ready_def)
  show "\<exists>ws a. write_words k pid start ws w = (Inr a, w')" using h(4) by blast
qed

lemma write_words_regs:
  assumes "regs_law k"
  shows "fst (sys_getregset k p (snd (write_words k pid a ws w))) = fst (sys_getregset k p w)"
proof -
  have wr: "keeps (\<lambda>w'. fst (sys_getregset k p w') = r) (write_word k pid x v)" for r x v
    using assms unfolding write_word_def by (intro keeps_call) (simp add: regs_law_def)
  have "keeps (\<lambda>w'. fst (sys_getregset k p w') = r) (write_words k pid a ws)" for r
    by (induction ws arbitrary: a) (auto intro!: ensures_intros ensures_then [OF wr])
  from ensures_world [OF this [of "fst (sys_getregset k p w)"], of w] show ?thesis by simp
qed

interpretation slow_writer: mem_writer "slow_write_bytes_to_tracee k pid" "slow_ready k view pid stack_top"
    "slow_placed view pid stack_top"
  for k :: "('w, 'x) ptrace_api_scheme" and view pid stack_top
proof
  fix w off bs start off' w'
  assume ready: "slow_ready k view pid stack_top w" and len: "length bs < 2 ^ 63"
    and wr: "slow_write_bytes_to_tracee k pid off bs w = (Inr (start, off'), w')"
  note ok = slow_write_success [OF ready len wr]
  let ?out = "bs @ replicate (8 - length bs mod 8) (0 :: u8)"
  have out: "length ?out = 8 * (length bs div 8 + 1)" by simp presburger
  obtain ws a where "write_words k pid start ws w = (Inr a, w')" using ok(4) by blast
  then have "fst (sys_getregset k p w') = fst (sys_getregset k p w)" for p
    using write_words_regs [of k p pid start ws w] ready by (simp add: slow_ready_def)
  then show "slow_ready k view pid stack_top w'" using ready by (simp add: slow_ready_def)
  have "mapped_at view w' pid start ?out"
    using ok(1) out unat_less_64 [of stack_top] by (intro overlay_same [OF ok(3)]) linarith
  from mapped_at_take [OF this, of "length bs + 1"]
  have "mapped_at view w' pid start (bs @ [0])" by simp
  then show "slow_placed view pid stack_top w' off' start bs"
    using ok(1,2) by (simp add: slow_placed_def)
  show "slow_placed view pid stack_top w' off' s cs" if s: "slow_placed view pid stack_top w off s cs" for s cs
  proof -
    have b: "unat start + length ?out \<le> unat s" "unat s + length (cs @ [0]) < 2 ^ 64"
      using s ok(1) out by (auto simp: slow_placed_def mapped_at_def)
    have "view w' pid (s + of_nat i) = view w pid (s + of_nat i)" if "i < length (cs @ [0])" for i
    proof -
      have "unat (s + of_nat i) = unat s + i"
        using that b(2) by (simp add: unat_add_no_overflow unat_of_nat_64)
      then have "start \<le> s + of_nat i" "unat (s + of_nat i) - unat start \<ge> length ?out"
        using b(1) by (simp_all add: word_le_nat_alt)
      then have "\<not> unat (s + of_nat i - start) < length ?out" by (simp add: unat_sub_no_underflow)
      then show ?thesis unfolding ok(3) by (simp add: overlay_def)
    qed
    moreover have "mapped_at view w pid s (cs @ [0])" using s by (simp add: slow_placed_def)
    ultimately have "mapped_at view w' pid s (cs @ [0])" by (rule mapped_at_cong)
    then show ?thesis using s ok(2) by (simp add: slow_placed_def)
  qed
qed

section \<open>Properties\<close>

lemma slow_placed_holds:
  assumes "peek_law k view" "slow_placed view pid stack_top w off start bs"
    and "\<forall>a. unat start \<le> unat a \<and> unat a < unat stack_top \<longrightarrow> view w pid a \<noteq> None"
  shows "slow_holds k view w pid start (bs @ [0])"
proof -
  let ?stop = "start + of_nat (length (bs @ [0]))"
  define tail where "tail = map (\<lambda>i. the (view w pid (?stop + of_nat i))) [0..<8]"
  have b: "unat start + length (bs @ [0]) + unat STACK_SAFE_ZONE_SIZE \<le> unat stack_top"
    using assms(2) by (simp add: slow_placed_def)
  have zone: "unat STACK_SAFE_ZONE_SIZE = 16384" by (simp add: STACK_SAFE_ZONE_SIZE_def)
  have e: "unat ?stop = unat start + length (bs @ [0])"
    using b zone unat_less_64 [of stack_top] by (intro unat_add_of_nat) linarith
  have "view w pid (?stop + of_nat i) = Some (tail ! i)" if "i < 8" for i
  proof -
    have "unat (?stop + of_nat i) = unat ?stop + i"
      using that e b zone unat_less_64 [of stack_top] by (intro unat_add_of_nat) linarith
    then have "view w pid (?stop + of_nat i) \<noteq> None" using assms(3) e b zone that by simp
    then show ?thesis using that by (simp add: tail_def del: upt_Suc)
  qed
  then have "mapped_at view w pid ?stop tail"
    using e b zone unat_less_64 [of stack_top] by (simp add: mapped_at_def tail_def)
  moreover have "mapped_at view w pid start (bs @ [0])" using assms(2) by (simp add: slow_placed_def)
  ultimately have "mapped_at view w pid start ((bs @ [0]) @ tail)" unfolding mapped_at_append [of _ _ _ _ "bs @ [0]"] by simp
  moreover have "length tail = 8" by (simp add: tail_def)
  ultimately show ?thesis using assms(1) unfolding slow_holds_def by blast
qed

text \<open>The stack below \<open>stack_top\<close> is mapped for \<open>n\<close> bytes.\<close>

definition stack_mapped :: "'w view \<Rightarrow> 'w \<Rightarrow> pid \<Rightarrow> usize \<Rightarrow> nat \<Rightarrow> bool" where
  "stack_mapped view w pid stack_top n \<longleftrightarrow> n \<le> unat stack_top \<and>
     (\<forall>a. unat stack_top \<le> unat a + n \<and> unat a < unat stack_top \<longrightarrow> view w pid a \<noteq> None)"

lemma slow_write_returns:
  assumes "slow_ready k view pid stack_top w" "length bs < 2 ^ 63" "8 dvd unat off"
    and "stack_mapped view w pid stack_top n" "unat off + 8 * (length bs div 8 + 1) + 16384 \<le> n"
  shows "\<exists>start off' w'. slow_write_bytes_to_tracee k pid off bs w = (Inr (start, off'), w')"
proof -
  obtain ws where ws: "bytes_to_usizes bs = Inr ws" "length ws = length bs div 8 + 1"
    using bytes_to_usizes_words [of bs] assms(2) by auto
  obtain rs where rs: "getregs k pid w = (Inr (words_regs rs), w)" "sp (words_regs rs) = stack_top"
    using assms(1) by (auto simp: slow_ready_def regs_law_def getregs_def io_simps)
  have zone: "unat STACK_SAFE_ZONE_SIZE = 16384" by (simp add: STACK_SAFE_ZONE_SIZE_def)
  have top: "n \<le> unat stack_top" "unat stack_top < 2 ^ 64"
    using assms(4) unat_less_64 [of stack_top] by (simp_all add: stack_mapped_def)
  have small: "length ws < 2 ^ 61" using ws(2) assms(2) by simp
  then have u: "unat (of_nat (length ws) :: usize) = length ws" by (intro unat_of_nat_64) simp
  then have mul: "checked_mul (of_nat (length ws)) usize_size = Inr (of_nat (length ws) * 8)"
    using small by (simp add: checked_mul_def usize_size_def)
  define sz :: usize where "sz = of_nat (length ws) * 8"
  have sz: "unat sz = 8 * length ws" using checked_mul_unat [OF mul] u by (simp add: sz_def usize_size_def)
  have b: "unat off + (16384 + unat sz) \<le> unat stack_top" using assms(5) top sz ws(2) by simp
  have zsz: "checked_add STACK_SAFE_ZONE_SIZE sz = Inr (STACK_SAFE_ZONE_SIZE + sz)"
      "unat (STACK_SAFE_ZONE_SIZE + sz) = 16384 + unat sz"
    using b top zone by (simp_all add: checked_add_def unat_add_no_overflow)
  define total where "total = off + (STACK_SAFE_ZONE_SIZE + sz)"
  have total: "checked_add off (STACK_SAFE_ZONE_SIZE + sz) = Inr total" "unat total = unat off + (16384 + unat sz)"
    using b top zsz(2) by (simp_all add: checked_add_def unat_add_no_overflow total_def)
  have start: "checked_sub stack_top total = Inr (stack_top - total)" "unat (stack_top - total) = unat stack_top - unat total"
    using b total(2) by (simp_all add: checked_sub_def word_le_nat_alt unat_sub_no_underflow)
  have "writable view w pid (stack_top - total) (8 * length ws)"
    unfolding writable_def
  proof (intro conjI allI impI)
    show "unat (stack_top - total) + 8 * length ws < 2 ^ 64" using start(2) total(2) sz b top by linarith
    fix i assume i: "i < 8 * length ws"
    then have "unat (stack_top - total + of_nat i) = unat (stack_top - total) + i"
      using start(2) total(2) sz b top by (intro unat_add_of_nat) linarith
    then have "unat stack_top \<le> unat (stack_top - total + of_nat i) + n"
        "unat (stack_top - total + of_nat i) < unat stack_top"
      using i assms(5) start(2) total(2) sz b unfolding ws(2) [symmetric] by linarith+
    then show "view w pid (stack_top - total + of_nat i) \<noteq> None"
      using assms(4) by (simp add: stack_mapped_def)
  qed
  then obtain a w' where "write_words k pid (stack_top - total) ws w = (Inr a, w')"
    using write_words_returns [of k view w pid "stack_top - total" ws] assms(1)
    by (auto simp: slow_ready_def)
  moreover have "checked_add off sz = Inr (off + sz)" using b top by (simp add: checked_add_def)
  moreover have "off mod usize_size = 0" using assms(3) by (simp add: usize_size_def dvd_8_unat)
  ultimately show ?thesis
    using ws(1) mul rs zsz(1) total(1) start(1)
    by (simp add: slow_write_bytes_to_tracee_def io_simps flip: sz_def)
qed

lemma slow_write_stack_mapped:
  assumes "slow_ready k view pid stack_top w" "length bs < 2 ^ 63"
    and "slow_write_bytes_to_tracee k pid off bs w = (Inr (start, off'), w')"
    and "stack_mapped view w pid stack_top n"
  shows "stack_mapped view w' pid stack_top n"
  using assms(4) unfolding stack_mapped_def slow_write_success(3) [OF assms(1-3)] by (simp add: overlay_def)

text \<open>
  C29.  Two strings can be written to the mapped stack of the tracee one after the other, the second at
  the offset that the first write returned, and afterwards both are there at the returned addresses:
  reading up to the first zero byte gives back exactly each string.  They do not overlap and lie below
  the safe zone.
\<close>

theorem slow_write_then_read:
  assumes "slow_ready k view pid stack_top w" "peek_law k view"
    and "length bs < 2 ^ 63" "0 \<notin> set bs" "length cs < 2 ^ 63" "0 \<notin> set cs" "8 dvd unat off"
    and "stack_mapped view w pid stack_top n" "unat off + length bs + length cs + 16 + 16384 \<le> n"
  shows "\<exists>s1 off1 w1 s2 off2 w2.
    slow_write_bytes_to_tracee k pid off bs w = (Inr (s1, off1), w1) \<and>
    slow_write_bytes_to_tracee k pid off1 cs w1 = (Inr (s2, off2), w2) \<and>
    fst (slow_read_bytes_until_zero k pid s1 w2) = Inr bs \<and>
    fst (slow_read_bytes_until_zero k pid s2 w2) = Inr cs \<and>
    unat s2 + length cs < unat s1 \<and> unat s1 + length bs + 16384 < unat stack_top"
proof -
  have zone: "unat STACK_SAFE_ZONE_SIZE = 16384" by (simp add: STACK_SAFE_ZONE_SIZE_def)
  have div_le: "8 * (length xs div 8) \<le> length xs" for xs :: "u8 list" by simp
  define qb qc where qb_def: "qb = length bs div 8" and qc_def: "qc = length cs div 8"
  obtain s1 off1 w1 where wr1: "slow_write_bytes_to_tracee k pid off bs w = (Inr (s1, off1), w1)"
    using slow_write_returns [OF assms(1,3,7,8)] assms(9) div_le [of bs] by fastforce
  note ready1 = slow_writer.write_ready [OF assms(1,3) wr1]
  note map1 = slow_write_stack_mapped [OF assms(1,3) wr1 assms(8)]
  note s1 = slow_write_success(1,2) [OF assms(1,3) wr1]
  have "8 dvd unat off1" using s1(2) assms(7) by simp
  then obtain s2 off2 w2 where wr2: "slow_write_bytes_to_tracee k pid off1 cs w1 = (Inr (s2, off2), w2)"
    using slow_write_returns [OF ready1 assms(5) _ map1] assms(9) s1(2) div_le [of bs] div_le [of cs] by fastforce
  note map2 = slow_write_stack_mapped [OF ready1 assms(5) wr2 map1]
  note s2 = slow_write_success(1,2) [OF ready1 assms(5) wr2]
  have p1: "slow_placed view pid stack_top w2 off2 s1 bs"
    by (rule slow_writer.write_keeps [OF ready1 assms(5) slow_writer.write_placed [OF assms(1,3) wr1] wr2])
  have p2: "slow_placed view pid stack_top w2 off2 s2 cs"
    by (rule slow_writer.write_placed [OF ready1 assms(5) wr2])
  have "length bs < 8 * (length bs div 8 + 1)" "length cs < 8 * (length cs div 8 + 1)" by simp_all
  then have order: "unat s2 + length cs < unat s1" "unat s1 + length bs + 16384 < unat stack_top"
    using s1 s2 zone by linarith+
  have "unat stack_top \<le> unat s2 + n" 
    using s1 s2 zone assms(9) div_le [of bs] div_le [of cs]
    unfolding qb_def [symmetric] qc_def [symmetric] by simp
  then have mapped: "view w2 pid a \<noteq> None" if "unat s2 \<le> unat a \<and> unat a < unat stack_top" for a
    using map2 that by (simp add: stack_mapped_def)
  have "slow_holds k view w2 pid s1 (bs @ [0])" "slow_holds k view w2 pid s2 (cs @ [0])"
    using slow_placed_holds [OF assms(2) p1] slow_placed_holds [OF assms(2) p2] mapped order by simp_all
  then have "fst (slow_read_bytes_until_zero k pid s1 w2) = Inr bs"
      "fst (slow_read_bytes_until_zero k pid s2 w2) = Inr cs"
    using slow_reader.read_c_string [of k view w2 pid s1 bs] slow_reader.read_c_string [of k view w2 pid s2 cs]
      assms(4,6) by (auto simp: SLOW_MEM_HELPERS_def)
  then show ?thesis using wr1 wr2 order by blast
qed

lemma example_slow_ready: "slow_ready machine_api m_bytes 1 65536 example_machine"
proof -
  have "fst (sys_getregset machine_api 1 example_machine) = Inr (replicate 27 65536)"
    by (simp add: machine_api_def example_machine_def)
  moreover have "sp (words_regs (replicate 27 65536)) = 65536" by (simp add: words_regs_def)
  ultimately show ?thesis by (simp add: slow_ready_def machine_poke_law machine_regs_law)
qed

theorem slow_write_then_read_witness:
  "\<exists>s1 w2. fst (slow_read_bytes_until_zero machine_api 1 s1 w2) = Inr [104, 105] \<and>
     unat s1 + 16386 < 65536"
proof -
  have "stack_mapped m_bytes example_machine 1 65536 20000"
    by (auto simp: stack_mapped_def example_machine_def word_le_nat_alt word_less_nat_alt)
  then show ?thesis
    using slow_write_then_read [OF example_slow_ready machine_peek_law, of "[104, 105]" "[120]" 0 20000] by auto
qed

text \<open>What was written is read: the reader needs a word after it.\<close>

lemma slow_holds_written:
  assumes "peek_law k view" "writable view w pid addr (length bs + 8)" "view w' = (view w)(pid := overlay addr bs (view w pid))"
  shows "slow_holds k view w' pid addr bs"
proof -
  have wr: "writable view w' pid addr (length bs + 8)" by (rule writable_overlay [OF assms(2,3)])
  define tail where "tail = map (\<lambda>i. the (view w' pid (addr + of_nat (length bs) + of_nat i))) [0..<8]"
  have "mapped_at view w' pid addr bs" using wr by (intro overlay_same [OF assms(3)]) (simp add: writable_def)
  moreover have "mapped_at view w' pid (addr + of_nat (length bs)) tail"
    using writable_drop [OF wr] by (auto simp: mapped_at_def writable_def tail_def simp del: upt_Suc)
  ultimately have "mapped_at view w' pid addr (bs @ tail)" by (simp only: mapped_at_append)
  then show ?thesis
    using assms(1) unfolding slow_holds_def by (intro conjI exI [of _ tail]) (simp_all add: tail_def)
qed

text \<open>
  Fixed-size objects that were written to a mapped buffer of sufficient size with
  \<open>write_fixed_sized_objs_to_tracee\<close> are read back unchanged by \<open>read_bytes_to_fixed_sized_objs\<close>.
\<close>

theorem fixed_sized_objs_round_trip:
  assumes "poke_law k view" "peek_law k view"
    and "check_item_type n = Inr ()" "0 < n" "\<forall>c \<in> set cs. length c = unat n"
    and "writable view w pid addr (length cs * unat n + 8)" "length cs * unat n \<le> unat buffer_size"
    and "unat addr + unat buffer_size < 2 ^ 64"
  shows "\<exists>w' w''.
    write_fixed_sized_objs_to_tracee k n pid addr buffer_size cs w = (Inr (of_nat (length cs * unat n)), w') \<and>
    read_bytes_to_fixed_sized_objs n (length cs) pid addr (of_nat (length cs)) (SLOW_MEM_HELPERS k) w' =
      (Inr cs, w'')"
proof -
  have "n mod 8 = 0" using assms(3) by (auto simp: check_item_type_def usize_size_def split: if_splits)
  then have n8: "8 dvd unat n" by (simp only: dvd_8_unat)
  have total: "length (concat cs) = length cs * unat n" using assms(5) by (induction cs) simp_all
  have add: "checked_add addr buffer_size = Inr (addr + buffer_size)"
      "unat (addr + buffer_size) = unat addr + unat buffer_size"
    using assms(8) by (simp_all add: checked_add_def unat_add_no_overflow)
  have "writable view w pid addr (length cs * unat n)" using assms(6) by (auto simp: writable_def)
  then obtain w' where w': "write_objs_loop k n pid (addr + buffer_size) addr cs w =
        (Inr (addr + of_nat (length (concat cs))), w')"
      "view w' = (view w)(pid := overlay addr (concat cs) (view w pid))"
    using write_objs_loop_stores [OF assms(1) n8 assms(5), of w pid addr "addr + buffer_size"] add(2) assms(7)
    by auto
  have "slow_holds k view w' pid addr (concat cs)"
    using assms(6) total by (intro slow_holds_written [OF assms(2) _ w'(2)]) simp
  from slow_reader.read_fixed_sized_objs [OF this assms(5,4,3), of "length cs"]
  show ?thesis
    using w'(1) assms(3) add(1) total
    by (simp add: write_fixed_sized_objs_to_tracee_def io_simps)
qed

theorem fixed_sized_objs_round_trip_witness:
  "\<exists>w' w''. read_bytes_to_fixed_sized_objs 8 2 1 4096 2 (SLOW_MEM_HELPERS machine_api) w' =
     (Inr [to_ne_bytes 3, to_ne_bytes 5], w'')"
proof -
  have "check_item_type 8 = Inr ()"
    by (simp add: check_item_type_def usize_size_def MAX_STRUCT_SIZE_def)
  moreover have "writable m_bytes example_machine 1 4096 24"
    by (auto simp: writable_def example_machine_def word_le_nat_alt word_less_nat_alt unat_word_ariths unat_of_nat)
  moreover have "length [to_ne_bytes 3, to_ne_bytes 5] = 2" by simp
  ultimately show ?thesis
    using fixed_sized_objs_round_trip [OF machine_poke_law machine_peek_law, of 8 "[to_ne_bytes 3, to_ne_bytes 5]"
        example_machine 1 4096 16]
    by (simp only: of_nat_numeral) auto
qed

end
