(* ===== verification/Mem_Direct.thy ===== *)
theory Mem_Direct
  imports Tracee_Memory
begin

text \<open>
  The implementation of \<open>MemHelpers\<close> over memory shared with the tracees (\<open>ptrace/src/mem_direct.rs\<close>, and
  the set-up of the regions in \<open>start\<close> of \<open>ptrace/src/lib.rs\<close>).  128 MB are divided into 8192 regions;
  every tracee that is alive owns one.  The tracer writes to its own mapping of the region, the tracee
  reads the region through a mapping of its own.  Reads go through \<open>/proc/<pid>/mem\<close>.

  There is one thread per tracee; the thread-local variables are a function of the thread.  The calls of
  \<open>nix\<close> that are used here extend the parameter \<open>ptrace_api\<close>.
\<close>

section \<open>State\<close>

type_synonym tid = nat
type_synonym fd = int

record thread_locals =
  TRACEE_READ_FD :: "fd option"
  TRACEE_WRITE_REGION_ADDR :: "usize option"
  TRACEE_WRITE_REGION_ID :: "nat option"

record 'k direct_world =
  kern :: 'k
  SHARED_REGIONS :: "u8 list option rwlock list"
  AVAILABLE_REGION_IDS :: "nat list rwlock"
  REGION_IDS_BY_PID :: "(pid \<rightharpoonup> nat) rwlock"
  thread_local :: "tid \<Rightarrow> thread_locals"

record 'k direct_api = "'k ptrace_api" +
  sys_open_mem :: "pid \<Rightarrow> 'k \<Rightarrow> (errno + fd) \<times> 'k"
  sys_lseek :: "fd \<Rightarrow> usize \<Rightarrow> 'k \<Rightarrow> (errno + unit) \<times> 'k"
  sys_fd_read :: "fd \<Rightarrow> usize \<Rightarrow> 'k \<Rightarrow> (errno + u8 list) \<times> 'k"

definition on_kern :: "('k \<Rightarrow> ('n + 'a) \<times> 'k) \<Rightarrow> 'k direct_world \<Rightarrow> ('n + 'a) \<times> 'k direct_world" where
  "on_kern c w = (case c (kern w) of (r, k') \<Rightarrow> (r, w\<lparr>kern := k'\<rparr>))"

definition set_local :: "tid \<Rightarrow> (thread_locals \<Rightarrow> thread_locals) \<Rightarrow> 'k direct_world \<Rightarrow> 'k direct_world" where
  "set_local t f w = w\<lparr>thread_local := (thread_local w)(t := f (thread_local w t))\<rparr>"

text \<open>The regions before \<open>start\<close>, and the loop of \<open>start\<close> that puts the shared mapping into them.\<close>

definition initial_globals :: "'k \<Rightarrow> 'k direct_world" where
  "initial_globals k = \<lparr>
     kern = k,
     SHARED_REGIONS = replicate MAX_NUM_TRACEES (RwLock False None),
     AVAILABLE_REGION_IDS = RwLock False [0..<MAX_NUM_TRACEES],
     REGION_IDS_BY_PID = RwLock False Map.empty,
     thread_local = (\<lambda>_. \<lparr>TRACEE_READ_FD = None, TRACEE_WRITE_REGION_ADDR = None,
       TRACEE_WRITE_REGION_ID = None\<rparr>)\<rparr>"

fun start_regions :: "nat list \<Rightarrow> ('k direct_world, ptrace_error, unit) io" where
  "start_regions [] = ret ()"
| "start_regions (i # is) =
     m_then get_w (\<lambda>w.
     m_then (lift_r (lock LockGlobalMmap (SHARED_REGIONS w ! i))) (\<lambda>_.
     m_then (put_w (w\<lparr>SHARED_REGIONS :=
       (SHARED_REGIONS w)[i := RwLock False (Some (replicate (unat STACK_SAFE_ZONE_SIZE) 0))]\<rparr>)) (\<lambda>_.
     start_regions is)))"

section \<open>Operations\<close>

definition set_tracee_write_region_addr :: "tid \<Rightarrow> usize \<Rightarrow> ('k direct_world, ptrace_error, unit) io" where
  "set_tracee_write_region_addr t addr =
     (if addr = 0 then throw (IntIsZero ''set_tracee_write_region_addr/addr'')
      else m_then get_w (\<lambda>w. put_w (set_local t (\<lambda>l. l\<lparr>TRACEE_WRITE_REGION_ADDR := Some addr\<rparr>) w)))"

definition get_own_region_id :: "tid \<Rightarrow> pid \<Rightarrow> ('k direct_world, ptrace_error, nat) io" where
  "get_own_region_id t pid =
     m_then get_w (\<lambda>w.
     case TRACEE_WRITE_REGION_ID (thread_local w t) of
       Some cached \<Rightarrow> ret cached
     | None \<Rightarrow>
         m_then (lift_r (lock LockGlobalMmap (AVAILABLE_REGION_IDS w))) (\<lambda>region_ids.
         m_then (lift_r (lock LockGlobalMmap (REGION_IDS_BY_PID w))) (\<lambda>by_pid.
         if region_ids = [] then throw MaxTracee
         else let result = last region_ids
              in m_then (put_w (set_local t (\<lambda>l. l\<lparr>TRACEE_WRITE_REGION_ID := Some result\<rparr>)
                   (w\<lparr>AVAILABLE_REGION_IDS := RwLock False (butlast region_ids),
                      REGION_IDS_BY_PID := RwLock False (by_pid(pid \<mapsto> result))\<rparr>))) (\<lambda>_.
                 ret result))))"

definition get_region_id :: "pid \<Rightarrow> ('k direct_world, ptrace_error, nat option) io" where
  "get_region_id pid =
     m_then get_w (\<lambda>w.
     m_then (lift_r (lock LockGlobalMmap (REGION_IDS_BY_PID w))) (\<lambda>region_ids.
     ret (region_ids pid)))"

text \<open>The locked content of a region; indexing the array out of its bounds panics.\<close>

definition region_box :: "nat \<Rightarrow> ('k direct_world, ptrace_error, u8 list) io" where
  "region_box region_id =
     m_then get_w (\<lambda>w.
     if region_id < length (SHARED_REGIONS w)
     then m_then (lift_r (lock LockGlobalMmap (SHARED_REGIONS w ! region_id))) (\<lambda>maybe_region_box.
          lift_r (ok_or LockGlobalMmap maybe_region_box))
     else panic)"

definition store_region :: "nat \<Rightarrow> u8 list \<Rightarrow> ('k direct_world, ptrace_error, unit) io" where
  "store_region region_id bytes =
     m_then get_w (\<lambda>w. put_w (w\<lparr>SHARED_REGIONS := (SHARED_REGIONS w)[region_id := RwLock False (Some bytes)]\<rparr>))"

definition direct_close_tracee :: "pid \<Rightarrow> ('k direct_world, ptrace_error, unit) io" where
  "direct_close_tracee pid =
     m_then get_w (\<lambda>w.
     m_then (lift_r (lock LockGlobalMmap (AVAILABLE_REGION_IDS w))) (\<lambda>region_ids.
     m_then (lift_r (lock LockGlobalMmap (REGION_IDS_BY_PID w))) (\<lambda>by_pid.
     m_then (lift_r (ok_or LockGlobalMmap (by_pid pid))) (\<lambda>region_id.
     m_then (put_w (w\<lparr>REGION_IDS_BY_PID := RwLock False (by_pid(pid := None))\<rparr>)) (\<lambda>_.
     m_then (region_box region_id) (\<lambda>bytes.
     m_then (store_region region_id (replicate (length bytes) 0)) (\<lambda>_.
     m_then get_w (\<lambda>w.
     put_w (w\<lparr>AVAILABLE_REGION_IDS := RwLock False (region_ids @ [region_id])\<rparr>)))))))))"

definition direct_write_bytes_to_tracee :: "tid \<Rightarrow> pid \<Rightarrow> usize \<Rightarrow> u8 list \<Rightarrow>
    ('k direct_world, ptrace_error, usize \<times> usize) io" where
  "direct_write_bytes_to_tracee t pid offset bytes =
     m_then get_w (\<lambda>w.
     m_then (lift_r (ok_or MmapUninitialized (TRACEE_WRITE_REGION_ADDR (thread_local w t)))) (\<lambda>tracee_base.
     m_then (lift_r (checked_add tracee_base offset)) (\<lambda>tracee_start.
     m_then (lift_r (checked_add offset (of_nat (length bytes)))) (\<lambda>new_offset.
     if offset \<ge> STACK_SAFE_ZONE_SIZE then throw (IntTooBigEqual offset STACK_SAFE_ZONE_SIZE)
     else if new_offset > STACK_SAFE_ZONE_SIZE
     then throw (BufferOverflow offset (of_nat (length bytes)) STACK_SAFE_ZONE_SIZE)
     else
     m_then (get_own_region_id t pid) (\<lambda>region_id.
     if region_id > MAX_NUM_TRACEES
     then throw (BufferOverflow 0 (of_nat region_id) (of_nat MAX_NUM_TRACEES))
     else
     m_then (region_box region_id) (\<lambda>region.
     m_then (store_region region_id
       (take (unat offset) region @ bytes @ drop (unat offset + length bytes) region)) (\<lambda>_.
     ret (tracee_start, new_offset))))))))"

definition seek_read :: "('k, 'x) direct_api_scheme \<Rightarrow> fd \<Rightarrow> usize \<Rightarrow> usize \<Rightarrow> u8 list \<Rightarrow>
    ('k direct_world, ptrace_error, u8 list) io" where
  "seek_read k fd addr sz result =
     m_then (call ReadE (on_kern (sys_lseek k fd addr))) (\<lambda>_.
     if unat sz \<le> length result
     then m_then (call ReadE (on_kern (sys_fd_read k fd sz))) (\<lambda>bytes.
          ret (bytes @ drop (length bytes) result))
     else panic)"

definition direct_read_bytes :: "('k, 'x) direct_api_scheme \<Rightarrow> tid \<Rightarrow> pid \<Rightarrow> usize \<Rightarrow> usize \<Rightarrow> u8 list \<Rightarrow>
    ('k direct_world, ptrace_error, u8 list) io" where
  "direct_read_bytes k t pid addr sz result =
     m_then get_w (\<lambda>w.
     case TRACEE_READ_FD (thread_local w t) of
       Some fd \<Rightarrow> seek_read k fd addr sz result
     | None \<Rightarrow>
         m_then (call ReadE (on_kern (sys_open_mem k pid))) (\<lambda>fd.
         m_then (seek_read k fd addr sz result) (\<lambda>result.
         m_then get_w (\<lambda>w.
         m_then (put_w (set_local t (\<lambda>l. l\<lparr>TRACEE_READ_FD := Some fd\<rparr>) w)) (\<lambda>_.
         ret result)))))"

definition READ_BUFFER_SIZE :: usize where
  "READ_BUFFER_SIZE = 1024"

function direct_until_loop :: "('k, 'x) direct_api_scheme \<Rightarrow> tid \<Rightarrow> pid \<Rightarrow> usize \<Rightarrow> usize \<Rightarrow> u8 list \<Rightarrow> usize \<times> u8 list \<Rightarrow>
    ('k direct_world, ptrace_error, u8 list) io" where
  "direct_until_loop k t pid n0 curr_addr buffer st w =
     (case direct_read_bytes k t pid curr_addr READ_BUFFER_SIZE buffer w of
        (Inl f, w') \<Rightarrow> (Inl f, w')
      | (Inr buffer', w') \<Rightarrow>
          (case scan_zeroes n0 buffer' st of
             Inl result \<Rightarrow> (Inr result, w')
           | Inr st' \<Rightarrow>
               (case checked_add curr_addr READ_BUFFER_SIZE of
                  Inl e \<Rightarrow> (Inl (Err e), w')
                | Inr curr_addr' \<Rightarrow> direct_until_loop k t pid n0 curr_addr' buffer' st' w')))"
  by pat_completeness auto
termination
proof (relation "measure (\<lambda>(k, t, pid, n0, curr_addr, buffer, st, w). 2 ^ 64 - unat curr_addr)", simp)
  fix a a' :: usize
  assume "checked_add a READ_BUFFER_SIZE = Inr a'"
  then show "((k, t, pid, n0, a', b', st', w'), k, t, pid, n0, a, b, st, w)
      \<in> measure (\<lambda>(k, t, pid, n0, curr_addr, buffer, st, w). 2 ^ 64 - unat curr_addr)"
    for k :: "('k, 'x) direct_api_scheme" and t :: tid and pid :: pid and n0 :: usize
      and b b' :: "u8 list" and st st' :: "usize \<times> u8 list" and w w' :: "'k direct_world"
    using checked_add_unat [of a READ_BUFFER_SIZE a'] unat_less_64 [of a'] by (simp add: READ_BUFFER_SIZE_def)
qed

declare direct_until_loop.simps [simp del]

definition direct_read_bytes_until_num_zeroes :: "('k, 'x) direct_api_scheme \<Rightarrow> tid \<Rightarrow> pid \<Rightarrow> usize \<Rightarrow> usize \<Rightarrow>
    ('k direct_world, ptrace_error, u8 list) io" where
  "direct_read_bytes_until_num_zeroes k t pid addr n0 =
     direct_until_loop k t pid n0 addr (replicate (unat READ_BUFFER_SIZE) 0) (0, [])"

definition direct_read_bytes_until_zero :: "('k, 'x) direct_api_scheme \<Rightarrow> tid \<Rightarrow> pid \<Rightarrow> usize \<Rightarrow>
    ('k direct_world, ptrace_error, u8 list) io" where
  "direct_read_bytes_until_zero k t pid addr = direct_read_bytes_until_num_zeroes k t pid addr 1"

definition direct_read :: "('k, 'x) direct_api_scheme \<Rightarrow> pid \<Rightarrow> usize \<Rightarrow> ('k direct_world, ptrace_error, usize) io" where
  "direct_read k pid addr = call ReadE (on_kern (sys_ptrace_read k pid addr))"

text \<open>The functions are called on the thread of the tracee.\<close>

definition DIRECT_MEM_HELPERS :: "('k, 'x) direct_api_scheme \<Rightarrow> tid \<Rightarrow> 'k direct_world mem_helpers" where
  "DIRECT_MEM_HELPERS k t = \<lparr>
     mh_close_tracee = direct_close_tracee,
     mh_read = direct_read k,
     mh_read_bytes = direct_read_bytes k t,
     mh_read_bytes_until_num_zeroes = direct_read_bytes_until_num_zeroes k t,
     mh_read_bytes_until_zero = direct_read_bytes_until_zero k t,
     mh_write_bytes_to_tracee = direct_write_bytes_to_tracee t\<rparr>"

section \<open>The pool of regions\<close>

abbreviation available :: "'k direct_world \<Rightarrow> nat list" where
  "available w \<equiv> content (AVAILABLE_REGION_IDS w)"

abbreviation by_pid :: "'k direct_world \<Rightarrow> pid \<rightharpoonup> nat" where
  "by_pid w \<equiv> content (REGION_IDS_BY_PID w)"

abbreviation cached :: "'k direct_world \<Rightarrow> tid \<Rightarrow> nat option" where
  "cached w t \<equiv> TRACEE_WRITE_REGION_ID (thread_local w t)"

definition zone :: nat where
  "zone = unat STACK_SAFE_ZONE_SIZE"

definition region :: "'k direct_world \<Rightarrow> nat \<Rightarrow> u8 list option" where
  "region w i = content (SHARED_REGIONS w ! i)"

text \<open>
  No lock is poisoned, every region is mapped, no region is available twice or owned twice or available
  and owned, and a region that is available is filled with zeroes.
\<close>

definition locks_ok :: "'k direct_world \<Rightarrow> bool" where
  "locks_ok w \<longleftrightarrow> \<not> poisoned (AVAILABLE_REGION_IDS w) \<and> \<not> poisoned (REGION_IDS_BY_PID w) \<and>
     length (SHARED_REGIONS w) = MAX_NUM_TRACEES \<and>
     (\<forall>i < MAX_NUM_TRACEES. \<not> poisoned (SHARED_REGIONS w ! i) \<and>
        (\<exists>bs. region w i = Some bs \<and> length bs = zone))"

definition ids_ok :: "'k direct_world \<Rightarrow> bool" where
  "ids_ok w \<longleftrightarrow> distinct (available w) \<and> set (available w) \<subseteq> {..<MAX_NUM_TRACEES} \<and>
     ran (by_pid w) \<subseteq> {..<MAX_NUM_TRACEES} - set (available w) \<and> inj_on (by_pid w) (dom (by_pid w))"

definition zeroed :: "'k direct_world \<Rightarrow> bool" where
  "zeroed w \<longleftrightarrow> (\<forall>i \<in> set (available w). region w i = Some (replicate zone 0))"

definition pool_ok :: "'k direct_world \<Rightarrow> bool" where
  "pool_ok w \<longleftrightarrow> locks_ok w \<and> ids_ok w \<and> zeroed w"

named_theorems pool_defs \<open>the parts of the pool invariant\<close>
lemmas [pool_defs] = locks_ok_def ids_ok_def zeroed_def region_def set_local_def

text \<open>What the operations do on a pool in good order.\<close>

lemma get_own_region_id_eq:
  assumes "pool_ok w"
  shows "get_own_region_id t pid w =
    (case cached w t of
       Some r \<Rightarrow> (Inr r, w)
     | None \<Rightarrow> if available w = [] then (Inl (Err MaxTracee), w)
               else (Inr (last (available w)),
                 set_local t (\<lambda>l. l\<lparr>TRACEE_WRITE_REGION_ID := Some (last (available w))\<rparr>)
                   (w\<lparr>AVAILABLE_REGION_IDS := RwLock False (butlast (available w)),
                      REGION_IDS_BY_PID := RwLock False ((by_pid w)(pid \<mapsto> last (available w)))\<rparr>)))"
  using assms
  by (simp add: get_own_region_id_def io_simps lock_def pool_ok_def locks_ok_def Let_def split: option.split)

lemma region_box_eq:
  assumes "locks_ok w" "i < MAX_NUM_TRACEES"
  shows "region_box i w = (Inr (the (region w i)), w)"
  using assms by (auto simp: region_box_def io_simps lock_def locks_ok_def region_def)

lemma direct_close_tracee_eq:
  assumes "pool_ok w" "by_pid w pid = Some r"
  shows "direct_close_tracee pid w = (Inr (),
    w\<lparr>REGION_IDS_BY_PID := RwLock False ((by_pid w)(pid := None)),
      SHARED_REGIONS := (SHARED_REGIONS w)[r := RwLock False (Some (replicate zone 0))],
      AVAILABLE_REGION_IDS := RwLock False (available w @ [r])\<rparr>)"
proof -
  let ?w = "w\<lparr>REGION_IDS_BY_PID := RwLock False ((by_pid w)(pid := None))\<rparr>"
  have r: "r < MAX_NUM_TRACEES" using assms by (auto simp: pool_ok_def ids_ok_def ran_def)
  have "locks_ok ?w" using assms(1) by (simp add: pool_ok_def locks_ok_def region_def)
  from region_box_eq [OF this r] have "region_box r ?w = (Inr (the (region w r)), ?w)"
    by (simp add: region_def)
  moreover have "length (the (region w r)) = zone" using assms(1) r by (auto simp: pool_ok_def locks_ok_def)
  ultimately show ?thesis
    using assms by (simp add: direct_close_tracee_def io_simps lock_def pool_ok_def locks_ok_def store_region_def)
qed

lemma pool_ok_alloc:
  assumes "pool_ok w" "available w \<noteq> []"
  shows "pool_ok (set_local t f (w\<lparr>AVAILABLE_REGION_IDS := RwLock False (butlast (available w)),
    REGION_IDS_BY_PID := RwLock False ((by_pid w)(pid \<mapsto> last (available w)))\<rparr>))"
proof -
  obtain av r where av: "available w = av @ [r]" using assms(2) by (metis append_butlast_last_id)
  have ok: "ids_ok w" using assms(1) by (simp add: pool_ok_def)
  have "r \<notin> ran (by_pid w)" "r \<notin> set av" "r < MAX_NUM_TRACEES"
    using ok av by (auto simp: ids_ok_def)
  moreover have "inj_on ((by_pid w)(pid \<mapsto> r)) (insert pid (dom (by_pid w)))"
    using ok \<open>r \<notin> ran (by_pid w)\<close> by (auto simp: ids_ok_def inj_on_def ran_def)
  moreover have "ran ((by_pid w)(pid \<mapsto> r)) \<subseteq> insert r (ran (by_pid w))" by (auto simp: ran_def)
  ultimately show ?thesis
    using assms(1) av by (auto simp: pool_ok_def pool_defs)
qed

lemma pool_ok_release:
  assumes "pool_ok w" "by_pid w pid = Some r"
  shows "pool_ok (w\<lparr>REGION_IDS_BY_PID := RwLock False ((by_pid w)(pid := None)),
      SHARED_REGIONS := (SHARED_REGIONS w)[r := RwLock False (Some (replicate zone 0))],
      AVAILABLE_REGION_IDS := RwLock False (available w @ [r])\<rparr>)"
proof -
  have ok: "ids_ok w" "locks_ok w" "zeroed w" using assms(1) by (simp_all add: pool_ok_def)
  have r: "r < MAX_NUM_TRACEES" "r \<notin> set (available w)" using ok(1) assms(2) by (auto simp: ids_ok_def ran_def)
  have "ran ((by_pid w)(pid := None)) \<subseteq> ran (by_pid w) - {r}"
    using ok(1) assms(2) by (auto simp: ids_ok_def ran_def inj_on_def dom_def split: if_splits)
  moreover have "inj_on ((by_pid w)(pid := None)) (dom (by_pid w) - {pid})"
    using ok(1) by (auto simp: ids_ok_def inj_on_def)
  ultimately show ?thesis
    using ok r by (auto simp: pool_ok_def pool_defs nth_list_update)
qed

text \<open>Storing a region that is not available, of the right size.\<close>

definition put_region :: "nat \<Rightarrow> u8 list \<Rightarrow> 'k direct_world \<Rightarrow> 'k direct_world" where
  "put_region r bs w = w\<lparr>SHARED_REGIONS := (SHARED_REGIONS w)[r := RwLock False (Some bs)]\<rparr>"

lemma put_region_simps [simp]:
  "AVAILABLE_REGION_IDS (put_region r bs w) = AVAILABLE_REGION_IDS w"
  "REGION_IDS_BY_PID (put_region r bs w) = REGION_IDS_BY_PID w"
  "thread_local (put_region r bs w) = thread_local w"
  "kern (put_region r bs w) = kern w"
  by (simp_all add: put_region_def)

lemma region_put_region:
  "r < length (SHARED_REGIONS w) \<Longrightarrow> region (put_region r bs w) i = (if i = r then Some bs else region w i)"
  by (auto simp: put_region_def region_def)

lemma pool_ok_put_region:
  assumes "pool_ok w" "r \<notin> set (available w)" "r < MAX_NUM_TRACEES" "length bs = zone"
  shows "pool_ok (put_region r bs w)"
proof -
  have len: "length (SHARED_REGIONS w) = MAX_NUM_TRACEES" using assms(1) by (simp add: pool_ok_def locks_ok_def)
  then have reg: "region (put_region r bs w) i = (if i = r then Some bs else region w i)" for i
    using assms(3) by (simp add: region_put_region)
  have "locks_ok (put_region r bs w)"
    using assms(1,4) len unfolding locks_ok_def reg by (auto simp: pool_ok_def locks_ok_def put_region_def nth_list_update)
  moreover have "zeroed (put_region r bs w)"
    using assms(1,2) unfolding zeroed_def reg by (auto simp: pool_ok_def zeroed_def)
  ultimately show ?thesis using assms(1) by (simp add: pool_ok_def ids_ok_def)
qed

lemma set_local_simps [simp]:
  "AVAILABLE_REGION_IDS (set_local t f w) = AVAILABLE_REGION_IDS w"
  "REGION_IDS_BY_PID (set_local t f w) = REGION_IDS_BY_PID w"
  "SHARED_REGIONS (set_local t f w) = SHARED_REGIONS w"
  "thread_local (set_local t f w) t' = (if t' = t then f (thread_local w t) else thread_local w t')"
  "kern (set_local t f w) = kern w"
  by (simp_all add: set_local_def)

lemma pool_ok_set_local [simp]: "pool_ok (set_local t f w) = pool_ok w"
  by (simp add: pool_ok_def locks_ok_def ids_ok_def zeroed_def region_def)

section \<open>Runs of the tracer\<close>

text \<open>
  The threads that are alive and the tracee of each.  A new tracee has a process id that no live
  tracee has; its thread starts with empty thread-local variables.  A thread ends by closing the tracee
  or by crashing.  Every other step is an operation of a live thread, with any result.
\<close>

type_synonym 'k tracer = "'k direct_world \<times> (tid \<rightharpoonup> pid)"

definition fresh_locals :: thread_locals where
  "fresh_locals = \<lparr>TRACEE_READ_FD = None, TRACEE_WRITE_REGION_ADDR = None, TRACEE_WRITE_REGION_ID = None\<rparr>"

inductive region_step :: "'k tracer \<Rightarrow> 'k tracer \<Rightarrow> bool" where
  spawn: "live t = None \<Longrightarrow> pid \<notin> ran live \<Longrightarrow>
    region_step (w, live) (set_local t (\<lambda>_. fresh_locals) w, live(t \<mapsto> pid))"
| alloc: "live t = Some pid \<Longrightarrow> get_own_region_id t pid w = (res, w') \<Longrightarrow> region_step (w, live) (w', live)"
| set_addr: "live t = Some pid \<Longrightarrow> set_tracee_write_region_addr t addr w = (res, w') \<Longrightarrow>
    region_step (w, live) (w', live)"
| write_bytes: "live t = Some pid \<Longrightarrow> length bs < 2 ^ 63 \<Longrightarrow> direct_write_bytes_to_tracee t pid off bs w = (res, w') \<Longrightarrow>
    region_step (w, live) (w', live)"
| close: "live t = Some pid \<Longrightarrow> direct_close_tracee pid w = (res, w') \<Longrightarrow>
    region_step (w, live) (w', live(t := None))"
| crash: "region_step (w, live) (w, live(t := None))"

inductive tracer_reachable :: "'k \<Rightarrow> 'k tracer \<Rightarrow> bool" for k where
  start: "start_regions [0..<MAX_NUM_TRACEES] (initial_globals k) = (Inr (), w) \<Longrightarrow>
    tracer_reachable k (w, Map.empty)"
| step: "tracer_reachable k s \<Longrightarrow> region_step s s' \<Longrightarrow> tracer_reachable k s'"

text \<open>The invariant: the pool is in order, and a live thread that has a region owns it.\<close>

definition tracer_inv :: "'k tracer \<Rightarrow> bool" where
  "tracer_inv s \<longleftrightarrow> (case s of (w, live) \<Rightarrow> pool_ok w \<and> inj_on live (dom live) \<and>
     (\<forall>t pid r. live t = Some pid \<and> cached w t = Some r \<longrightarrow> by_pid w pid = Some r))"

lemma tracer_invD:
  assumes "tracer_inv (w, live)"
  shows "pool_ok w" "inj_on live (dom live)"
    "live t = Some pid \<Longrightarrow> cached w t = Some r \<Longrightarrow> by_pid w pid = Some r"
  using assms by (auto simp: tracer_inv_def)

lemma tracer_invI:
  "pool_ok w \<Longrightarrow> inj_on live (dom live) \<Longrightarrow>
   (\<And>t pid r. live t = Some pid \<Longrightarrow> cached w t = Some r \<Longrightarrow> by_pid w pid = Some r) \<Longrightarrow> tracer_inv (w, live)"
  by (auto simp: tracer_inv_def)

lemma live_inj: "inj_on live (dom live) \<Longrightarrow> live t = Some pid \<Longrightarrow> live t' = Some pid \<Longrightarrow> t' = t"
  by (auto simp: inj_on_def dom_def)

lemma owned_region:
  assumes "tracer_inv (w, live)" "live t = Some pid" "cached w t = Some r"
  shows "r < MAX_NUM_TRACEES" "r \<notin> set (available w)"
proof -
  have "r \<in> ran (by_pid w)" using tracer_invD(3) [OF assms] by (auto simp: ran_def)
  then show "r < MAX_NUM_TRACEES" "r \<notin> set (available w)"
    using tracer_invD(1) [OF assms(1)] by (auto simp: pool_ok_def ids_ok_def)
qed

lemma alloc_inv:
  assumes "tracer_inv (w, live)" "live t = Some pid" "get_own_region_id t pid w = (res, w')"
  shows "tracer_inv (w', live)"
    and "res = Inr r \<Longrightarrow> cached w' t = Some r"
    and "SHARED_REGIONS w' = SHARED_REGIONS w"
    and "TRACEE_WRITE_REGION_ADDR (thread_local w' t) = TRACEE_WRITE_REGION_ADDR (thread_local w t)"
proof -
  note inv = tracer_invD [OF assms(1)]
  note eq = get_own_region_id_eq [OF inv(1), of t pid]
  let ?r = "last (available w)"
  let ?w' = "set_local t (\<lambda>l. l\<lparr>TRACEE_WRITE_REGION_ID := Some ?r\<rparr>)
    (w\<lparr>AVAILABLE_REGION_IDS := RwLock False (butlast (available w)),
       REGION_IDS_BY_PID := RwLock False ((by_pid w)(pid \<mapsto> ?r))\<rparr>)"
  have new: "tracer_inv (?w', live)" if av: "available w \<noteq> []"
  proof (rule tracer_invI)
    show "pool_ok ?w'" by (rule pool_ok_alloc [OF inv(1) av])
    show "by_pid ?w' q = Some r" if "live t' = Some q" "cached ?w' t' = Some r" for t' q r
    proof (cases "t' = t")
      case False
      then have "q \<noteq> pid" using live_inj [OF inv(2) assms(2), of t'] that(1) by blast
      then show ?thesis using inv(3) [of t' q r] that False by simp
    qed (use that assms(2) in simp)
  qed (rule inv(2))
  show "tracer_inv (w', live)" "SHARED_REGIONS w' = SHARED_REGIONS w"
    "TRACEE_WRITE_REGION_ADDR (thread_local w' t) = TRACEE_WRITE_REGION_ADDR (thread_local w t)"
    using eq assms(1,3) new by (auto split: option.splits if_splits)
  show "cached w' t = Some r" if "res = Inr r"
    using eq assms(3) that by (auto split: option.splits if_splits)
qed

lemma direct_write_cases:
  assumes "tracer_inv (w, live)" "live t = Some pid"
    and "direct_write_bytes_to_tracee t pid off bs w = (res, w')" "length bs < 2 ^ 64"
  obtains (same) "w' = w" "isl res"
  | (alloc) r' where "get_own_region_id t pid w = (r', w')" "isl res"
  | (stored) r w1 bytes base where "get_own_region_id t pid w = (Inr r, w1)" "region w1 r = Some bytes"
      "length bytes = zone" "unat off + length bs \<le> zone" "r < MAX_NUM_TRACEES"
      "w' = put_region r (take (unat off) bytes @ bs @ drop (unat off + length bs) bytes) w1"
      "TRACEE_WRITE_REGION_ADDR (thread_local w t) = Some base" "checked_add base off = Inr (base + off)"
      "res = Inr (base + off, off + of_nat (length bs))"
proof -
  show thesis
  proof (cases "\<exists>base. TRACEE_WRITE_REGION_ADDR (thread_local w t) = Some base \<and>
      checked_add base off = Inr (base + off) \<and>
      checked_add off (of_nat (length bs)) = Inr (off + of_nat (length bs)) \<and>
      off < STACK_SAFE_ZONE_SIZE \<and> off + of_nat (length bs) \<le> STACK_SAFE_ZONE_SIZE")
    case False
    then have "w' = w \<and> isl res"
      using assms(3)
      by (auto simp: direct_write_bytes_to_tracee_def io_simps ok_or_def map_err_def checked_add_def not_le not_less
          split: option.splits if_splits sum.splits prod.splits)
    then show thesis using same by blast
  next
    case True
    then obtain base where base: "TRACEE_WRITE_REGION_ADDR (thread_local w t) = Some base"
        "checked_add base off = Inr (base + off)"
        "checked_add off (of_nat (length bs)) = Inr (off + of_nat (length bs))"
        "off < STACK_SAFE_ZONE_SIZE" "off + of_nat (length bs) \<le> STACK_SAFE_ZONE_SIZE" by blast
    obtain r1 w1 where own: "get_own_region_id t pid w = (r1, w1)" by (cases "get_own_region_id t pid w")
    note al = alloc_inv [OF assms(1,2) own]
    show thesis
    proof (cases r1)
      case (Inl f)
      then have "w' = w1 \<and> isl res"
        using assms(3) base own by (auto simp: direct_write_bytes_to_tracee_def io_simps not_le [symmetric])
      then show thesis using alloc own by blast
    next
      case (Inr r)
      have r: "r < MAX_NUM_TRACEES" using owned_region(1) [OF al(1) assms(2) al(2) [OF Inr]] .
      have locks: "locks_ok w1" using tracer_invD(1) [OF al(1)] by (simp add: pool_ok_def)
      then obtain bytes where bytes: "region w1 r = Some bytes" "length bytes = zone"
        using r by (auto simp: locks_ok_def)
      have "unat off + length bs \<le> zone"
        using base(3,5) assms(4) checked_add_unat [OF base(3)]
        by (simp add: zone_def word_le_nat_alt unat_of_nat_64)
      moreover have "w' = put_region r (take (unat off) bytes @ bs @ drop (unat off + length bs) bytes) w1 \<and>
          res = Inr (base + off, off + of_nat (length bs))"
        using assms(3) base own Inr r region_box_eq [OF locks r] bytes
        by (auto simp: direct_write_bytes_to_tracee_def io_simps not_le [symmetric] store_region_def put_region_def)
      ultimately show thesis using stored own Inr bytes r base(1,2) by blast
    qed
  qed
qed

lemma write_inv:
  assumes "tracer_inv (w, live)" "live t = Some pid" "length bs < 2 ^ 64"
    and "direct_write_bytes_to_tracee t pid off bs w = (res, w')"
  shows "tracer_inv (w', live)"
  using assms(1,2,4,3)
proof (cases rule: direct_write_cases)
  case same
  then show ?thesis using assms(1) by simp
next
  case (alloc r')
  then show ?thesis using alloc_inv(1) [OF assms(1,2)] by blast
next
  case (stored r w1 bytes base)
  note inv1 = alloc_inv(1,2) [OF assms(1,2) stored(1)]
  let ?bytes = "take (unat off) bytes @ bs @ drop (unat off + length bs) bytes"
  have "length ?bytes = zone" using stored(3,4) by simp
  then have "pool_ok (put_region r ?bytes w1)"
    using owned_region [OF inv1(1) assms(2) inv1(2)]
    by (intro pool_ok_put_region tracer_invD(1) [OF inv1(1)]) simp_all
  then show ?thesis
    using tracer_invD(2,3) [OF inv1(1)] unfolding stored(6) by (intro tracer_invI) simp_all
qed

lemma close_inv:
  assumes "tracer_inv (w, live)" "live t = Some pid" "direct_close_tracee pid w = (res, w')"
  shows "tracer_inv (w', live(t := None))"
proof (cases "by_pid w pid")
  case None
  then have "w' = w"
    using assms(3) tracer_invD(1) [OF assms(1)]
    by (simp add: direct_close_tracee_def io_simps lock_def pool_ok_def locks_ok_def)
  then show ?thesis
    using tracer_invD [OF assms(1)] by (intro tracer_invI) (auto simp: inj_on_def split: if_splits)
next
  case (Some r)
  note inv = tracer_invD [OF assms(1)]
  have w': "w' = w\<lparr>REGION_IDS_BY_PID := RwLock False ((by_pid w)(pid := None)),
      SHARED_REGIONS := (SHARED_REGIONS w)[r := RwLock False (Some (replicate zone 0))],
      AVAILABLE_REGION_IDS := RwLock False (available w @ [r])\<rparr>"
    using direct_close_tracee_eq [OF inv(1) Some] assms(3) by simp
  show ?thesis
  proof (rule tracer_invI)
    show "pool_ok w'" unfolding w' by (rule pool_ok_release [OF inv(1) Some])
    show "inj_on (live(t := None)) (dom (live(t := None)))" using inv(2) by (auto simp: inj_on_def)
    show "by_pid w' q = Some s" if "(live(t := None)) t' = Some q" "cached w' t' = Some s" for t' q s
    proof -
      have t': "t' \<noteq> t" "live t' = Some q" using that(1) by (auto split: if_splits)
      then have "q \<noteq> pid" using live_inj [OF inv(2) assms(2), of t'] by blast
      then show ?thesis using inv(3) [OF t'(2)] that(2) unfolding w' by simp
    qed
  qed
qed

lemma region_step_inv:
  assumes "region_step s s'" "tracer_inv s"
  shows "tracer_inv s'"
  using assms(1,2)
proof cases
  case (spawn live t pid w)
  then show ?thesis
    using assms(2) by (auto simp: tracer_inv_def fresh_locals_def inj_on_def ran_def split: if_splits)
next
  case (alloc live t pid w res w')
  then show ?thesis using assms(2) alloc_inv(1) by blast
next
  case (set_addr live t pid addr w res w')
  then show ?thesis
    using assms(2)
    by (auto simp: set_tracee_write_region_addr_def io_simps tracer_inv_def split: if_splits)
next
  case (write_bytes live t pid bs off w res w')
  then have "length bs < 2 ^ 64" by simp
  with write_bytes show ?thesis using assms(2) write_inv by blast
next
  case (close live t pid w res w')
  then show ?thesis using assms(2) close_inv by blast
next
  case (crash w live t)
  then show ?thesis using assms(2) by (auto simp: tracer_inv_def inj_on_def split: if_splits)
qed

text \<open>\<open>start\<close> maps all regions.\<close>

lemma start_regions_eq:
  assumes "\<forall>i < length (SHARED_REGIONS w). \<not> poisoned (SHARED_REGIONS w ! i)"
    "set is \<subseteq> {..<length (SHARED_REGIONS w)}"
  shows "\<exists>rs. start_regions is w = (Inr (), w\<lparr>SHARED_REGIONS := rs\<rparr>) \<and> length rs = length (SHARED_REGIONS w) \<and>
    (\<forall>i < length rs. \<not> poisoned (rs ! i) \<and>
       (content (rs ! i) = (if i \<in> set is then Some (replicate zone 0) else content (SHARED_REGIONS w ! i))))"
  using assms
proof (induction "is" arbitrary: w)
  case (Cons i "is")
  let ?w = "w\<lparr>SHARED_REGIONS := (SHARED_REGIONS w)[i := RwLock False (Some (replicate zone 0))]\<rparr>"
  have i: "i < length (SHARED_REGIONS w)" "\<not> poisoned (SHARED_REGIONS w ! i)" using Cons.prems by auto
  have "start_regions (i # is) w = start_regions is ?w"
    using i(2) by (simp add: io_simps lock_def zone_def)
  moreover have "\<forall>j < length (SHARED_REGIONS ?w). \<not> poisoned (SHARED_REGIONS ?w ! j)"
    using Cons.prems(1) i(1) by (auto simp: nth_list_update)
  ultimately show ?case
    using Cons.IH [of ?w] Cons.prems(2) i(1) by (auto simp: nth_list_update)
next
  case Nil
  then show ?case by (intro exI [of _ "SHARED_REGIONS w"]) (simp add: ret_apply)
qed

lemma start_regions_initial:
  "\<exists>w. start_regions [0..<MAX_NUM_TRACEES] (initial_globals k) = (Inr (), w) \<and> pool_ok w \<and>
    available w = [0..<MAX_NUM_TRACEES] \<and> by_pid w = Map.empty"
proof -
  have init: "length (SHARED_REGIONS (initial_globals k)) = MAX_NUM_TRACEES"
      "\<forall>i < MAX_NUM_TRACEES. \<not> poisoned (SHARED_REGIONS (initial_globals k) ! i)"
    by (simp_all add: initial_globals_def)
  obtain rs where rs: "start_regions [0..<MAX_NUM_TRACEES] (initial_globals k) =
        (Inr (), (initial_globals k)\<lparr>SHARED_REGIONS := rs\<rparr>)" "length rs = MAX_NUM_TRACEES"
      "\<forall>i < MAX_NUM_TRACEES. \<not> poisoned (rs ! i) \<and> content (rs ! i) = Some (replicate zone 0)"
    using start_regions_eq [of "initial_globals k" "[0..<MAX_NUM_TRACEES]"] unfolding init(1)
    using init(2) by (auto simp: atLeast0LessThan)
  have "pool_ok ((initial_globals k)\<lparr>SHARED_REGIONS := rs\<rparr>)"
    using rs(2,3) by (auto simp: pool_ok_def pool_defs initial_globals_def)
  then show ?thesis using rs(1) by (auto simp: initial_globals_def)
qed

lemma start_reachable:
  obtains w where "tracer_reachable k (w, Map.empty)" "pool_ok w"
    "available w = [0..<MAX_NUM_TRACEES]" "by_pid w = Map.empty"
proof -
  obtain w where w: "start_regions [0..<MAX_NUM_TRACEES] (initial_globals k) = (Inr (), w)" "pool_ok w"
      "available w = [0..<MAX_NUM_TRACEES]" "by_pid w = Map.empty"
    using start_regions_initial [of k] by (elim exE conjE)
  show thesis by (rule that [OF tracer_reachable.start [OF w(1)] w(2-4)])
qed

lemma tracer_reachable_inv: "tracer_reachable k s \<Longrightarrow> tracer_inv s"
proof (induction rule: tracer_reachable.induct)
  case (start w)
  then have "pool_ok w" using start_regions_initial [of k] by simp
  then show ?case by (intro tracer_invI) simp_all
next
  case (step s s')
  then show ?case by (blast intro: region_step_inv)
qed

section \<open>Writing\<close>

definition direct_ready :: "tid \<Rightarrow> pid \<Rightarrow> (tid \<rightharpoonup> pid) \<Rightarrow> usize \<Rightarrow> 'k direct_world \<Rightarrow> bool" where
  "direct_ready t pid live base w \<longleftrightarrow> tracer_inv (w, live) \<and> live t = Some pid \<and>
     TRACEE_WRITE_REGION_ADDR (thread_local w t) = Some base"

text \<open>The tracee has mapped its region at \<open>base\<close>.\<close>

definition direct_placed :: "tid \<Rightarrow> usize \<Rightarrow> 'k direct_world \<Rightarrow> usize \<Rightarrow> usize \<Rightarrow> u8 list \<Rightarrow> bool" where
  "direct_placed t base w off start bs \<longleftrightarrow>
     (\<exists>r bytes n. cached w t = Some r \<and> region w r = Some bytes \<and> start = base + of_nat n \<and>
        n + length bs \<le> unat off \<and> unat off \<le> zone \<and> take (length bs) (drop n bytes) = bs)"

lemma zone_eq: "zone = 16384"
  by (simp add: zone_def STACK_SAFE_ZONE_SIZE_def)

interpretation direct_writer: mem_writer "direct_write_bytes_to_tracee t pid" "direct_ready t pid live base"
    "direct_placed t base"
  for t pid live base
proof
  fix w :: "'k direct_world" and off bs start off' w'
  assume ready: "direct_ready t pid live base w" and len: "length bs < 2 ^ 63"
    and wr: "direct_write_bytes_to_tracee t pid off bs w = (Inr (start, off'), w')"
  have inv: "tracer_inv (w, live)" "live t = Some pid" using ready by (simp_all add: direct_ready_def)
  have len64: "length bs < 2 ^ 64" using len by simp
  obtain r w1 bytes where st: "get_own_region_id t pid w = (Inr r, w1)" "region w1 r = Some bytes"
      "length bytes = zone" "unat off + length bs \<le> zone" "r < MAX_NUM_TRACEES"
      "w' = put_region r (take (unat off) bytes @ bs @ drop (unat off + length bs) bytes) w1"
      "start = base + off" "off' = off + of_nat (length bs)"
    using inv wr len64 ready by (cases rule: direct_write_cases) (auto simp: direct_ready_def)
  note al = alloc_inv [OF inv st(1)]
  have "length (SHARED_REGIONS w1) = MAX_NUM_TRACEES"
    using tracer_invD(1) [OF al(1)] by (simp add: pool_ok_def locks_ok_def)
  then have reg: "region w' r = Some (take (unat off) bytes @ bs @ drop (unat off + length bs) bytes)"
    using st(5,6) by (simp add: region_put_region)
  have cached: "cached w' t = Some r" using al(2) st(6) by simp
  have "unat off + length bs < 2 ^ 64" using st(4) zone_eq by simp
  then have off': "unat off' = unat off + length bs" using st(8) by (simp add: unat_add_of_nat)
  show "direct_ready t pid live base w'"
    using write_inv [OF inv len64 wr] inv(2) al(4) ready st(6) by (simp add: direct_ready_def)
  let ?bytes = "take (unat off) bytes @ bs @ drop (unat off + length bs) bytes"
  have "take (length bs) (drop (unat off) ?bytes) = bs" using st(3,4) by simp
  moreover have "start = base + of_nat (unat off)" using st(7) by simp
  ultimately show "direct_placed t base w' off' start bs"
    using reg cached off' st(4) unfolding direct_placed_def by (metis order_refl)
  show "direct_placed t base w' off' s cs" if s: "direct_placed t base w off s cs" for s cs
  proof -
    obtain r' bytes' n where h: "cached w t = Some r'" "region w r' = Some bytes'" "s = base + of_nat n"
        "n + length cs \<le> unat off" "take (length cs) (drop n bytes') = cs"
      using s by (auto simp: direct_placed_def)
    have "r' = r \<and> w1 = w" using get_own_region_id_eq [OF tracer_invD(1) [OF inv(1)], of t pid] h(1) st(1) by simp
    then have "bytes' = bytes" using h(2) st(2) by simp
    moreover have "unat off \<le> length bytes" using st(3,4) by simp
    ultimately have "take (length cs) (drop n (take (unat off) bytes @ bs @ drop (unat off + length bs) bytes)) = cs"
      using h(5) by (simp only: take_drop_prefix [OF h(4)])
    moreover have "n + length cs \<le> unat off'" "unat off' \<le> zone" using h(4) off' st(4) by simp_all
    ultimately show ?thesis
      using reg cached h(3) unfolding direct_placed_def by metis
  qed
qed

section \<open>Reading\<close>

text \<open>
  What \<open>proc(5)\<close> promises of \<open>/proc/<pid>/mem\<close>: it can be opened for a tracee, and reading at an address
  returns all the bytes that are mapped from there on, up to the requested number, and changes nothing.
  \<open>is_mem k fd pid\<close> says that \<open>fd\<close> is open on the memory of \<open>pid\<close>.
\<close>

definition proc_mem_law :: "('k, 'x) direct_api_scheme \<Rightarrow> 'k view \<Rightarrow> ('k \<Rightarrow> fd \<Rightarrow> pid \<Rightarrow> bool) \<Rightarrow> bool" where
  "proc_mem_law k view is_mem \<longleftrightarrow>
     (\<forall>w pid. \<exists>fd w'. sys_open_mem k pid w = (Inr fd, w') \<and> is_mem w' fd pid \<and> view w' = view w) \<and>
     (\<forall>w fd pid a cs n. is_mem w fd pid \<and> mapped_at view w pid a cs \<and> length cs \<le> unat n \<longrightarrow>
        (\<exists>w1 w2 out. sys_lseek k fd a w = (Inr (), w1) \<and> sys_fd_read k fd n w1 = (Inr out, w2) \<and>
           take (length cs) out = cs \<and> length out \<le> unat n \<and> view w2 = view w \<and> is_mem w2 fd pid))"

definition direct_holds :: "('k, 'x) direct_api_scheme \<Rightarrow> 'k view \<Rightarrow> ('k \<Rightarrow> fd \<Rightarrow> pid \<Rightarrow> bool) \<Rightarrow> tid \<Rightarrow> pid \<Rightarrow>
    'k direct_world \<Rightarrow> pid \<Rightarrow> usize \<Rightarrow> u8 list \<Rightarrow> bool" where
  "direct_holds k view is_mem t me w pid a bs \<longleftrightarrow> pid = me \<and> proc_mem_law k view is_mem \<and>
     (\<forall>fd. TRACEE_READ_FD (thread_local w t) = Some fd \<longrightarrow> is_mem (kern w) fd me) \<and>
     mapped_at view (kern w) me a bs"

lemma mapped_at_view_cong: "view w' = view w \<Longrightarrow> mapped_at view w' pid a bs = mapped_at view w pid a bs"
  by (simp add: mapped_at_def)

lemma seek_read_bytes:
  assumes "proc_mem_law k view is_mem" "is_mem (kern w) fd pid" "mapped_at view (kern w) pid a cs"
    and "length cs \<le> unat n" "unat n \<le> length buf"
  shows "\<exists>out w'. seek_read k fd a n buf w = (Inr (out @ drop (length out) buf), w') \<and>
    take (length cs) out = cs \<and> length out \<le> unat n \<and>
    view (kern w') = view (kern w) \<and> is_mem (kern w') fd pid \<and> thread_local w' = thread_local w"
proof -
  have "\<forall>w fd pid a cs n. is_mem w fd pid \<and> mapped_at view w pid a cs \<and> length cs \<le> unat n \<longrightarrow>
        (\<exists>w1 w2 out. sys_lseek k fd a w = (Inr (), w1) \<and> sys_fd_read k fd n w1 = (Inr out, w2) \<and>
           take (length cs) out = cs \<and> length out \<le> unat n \<and> view w2 = view w \<and> is_mem w2 fd pid)"
    using assms(1) unfolding proc_mem_law_def by (rule conjunct2)
  then obtain w1 w2 out where h: "sys_lseek k fd a (kern w) = (Inr (), w1)" "sys_fd_read k fd n w1 = (Inr out, w2)"
      "take (length cs) out = cs" "length out \<le> unat n" "view w2 = view (kern w)" "is_mem w2 fd pid"
    using assms(2-4) by blast
  then show ?thesis
    using assms(5) by (auto simp: seek_read_def io_simps on_kern_def)
qed

lemma direct_read_bytes_prefix:
  assumes "direct_holds k view is_mem t me w pid a cs" "length cs \<le> unat n" "unat n \<le> length buf"
  shows "\<exists>out w'. direct_read_bytes k t pid a n buf w = (Inr (out @ drop (length out) buf), w') \<and>
    take (length cs) out = cs \<and> length out \<le> unat n \<and>
    (\<forall>p a' ds. direct_holds k view is_mem t me w p a' ds \<longrightarrow> direct_holds k view is_mem t me w' p a' ds)"
proof (cases "TRACEE_READ_FD (thread_local w t)")
  case (Some fd)
  have law: "proc_mem_law k view is_mem" "is_mem (kern w) fd me" "mapped_at view (kern w) me a cs"
    using assms(1) Some by (simp_all add: direct_holds_def)
  from seek_read_bytes [OF this assms(2,3)] obtain out w' where
    h: "seek_read k fd a n buf w = (Inr (out @ drop (length out) buf), w')"
      "take (length cs) out = cs" "length out \<le> unat n" "view (kern w') = view (kern w)"
      "is_mem (kern w') fd me" "thread_local w' = thread_local w" by blast
  have "direct_read_bytes k t pid a n buf w = (Inr (out @ drop (length out) buf), w')"
    using h(1) Some by (simp add: direct_read_bytes_def io_simps)
  moreover have "direct_holds k view is_mem t me w' p a' ds"
    if "direct_holds k view is_mem t me w p a' ds" for p a' ds
    using that h(4-6) Some by (simp add: direct_holds_def mapped_at_view_cong [of view "kern w'" "kern w"])
  ultimately show ?thesis using h(2,3) by blast
next
  case None
  have law: "proc_mem_law k view is_mem" "mapped_at view (kern w) me a cs" "pid = me"
    using assms(1) by (simp_all add: direct_holds_def)
  then obtain fd k1 where op: "sys_open_mem k me (kern w) = (Inr fd, k1)" "is_mem k1 fd me" "view k1 = view (kern w)"
    unfolding proc_mem_law_def by metis
  let ?w1 = "w\<lparr>kern := k1\<rparr>"
  have "is_mem (kern ?w1) fd me" "mapped_at view (kern ?w1) me a cs"
    using op law(2) by (simp_all add: mapped_at_view_cong [of view k1 "kern w"])
  from seek_read_bytes [OF law(1) this assms(2,3)] obtain out w' where
    h: "seek_read k fd a n buf ?w1 = (Inr (out @ drop (length out) buf), w')"
      "take (length cs) out = cs" "length out \<le> unat n" "view (kern w') = view (kern ?w1)"
      "is_mem (kern w') fd me" "thread_local w' = thread_local ?w1" by blast
  let ?w2 = "set_local t (\<lambda>l. l\<lparr>TRACEE_READ_FD := Some fd\<rparr>) w'"
  have "direct_read_bytes k t pid a n buf w = (Inr (out @ drop (length out) buf), ?w2)"
    using h(1) None op(1) law(3) by (simp add: direct_read_bytes_def io_simps on_kern_def)
  moreover have "direct_holds k view is_mem t me ?w2 p a' ds"
    if "direct_holds k view is_mem t me w p a' ds" for p a' ds
    using that h(4,5) op(3) mapped_at_view_cong [of view "kern w'" "kern w"] by (simp add: direct_holds_def)
  ultimately show ?thesis using h(2,3) by blast
qed

lemma direct_until_loop_bytes:
  assumes "direct_holds k view is_mem t me w pid a bs" "scan_zeroes n0 bs st = Inl r" "length buf = 1024"
  shows "\<exists>w'. direct_until_loop k t pid n0 a buf st w = (Inr r, w') \<and>
    (\<forall>p a' ds. direct_holds k view is_mem t me w p a' ds \<longrightarrow> direct_holds k view is_mem t me w' p a' ds)"
  using assms
proof (induction "length bs" arbitrary: a bs st w buf rule: less_induct)
  case less
  have n: "unat READ_BUFFER_SIZE = 1024" by (simp add: READ_BUFFER_SIZE_def)
  let ?cs = "take 1024 bs"
  have m: "mapped_at view (kern w) me a bs" using less.prems(1) by (simp add: direct_holds_def)
  have "direct_holds k view is_mem t me w pid a ?cs"
    using less.prems(1) mapped_at_take [OF m] by (simp add: direct_holds_def)
  from direct_read_bytes_prefix [OF this, of READ_BUFFER_SIZE buf] n less.prems(3)
  obtain out w1 where h: "direct_read_bytes k t pid a READ_BUFFER_SIZE buf w = (Inr (out @ drop (length out) buf), w1)"
      "take (length ?cs) out = ?cs" "length out \<le> 1024"
      "\<And>p a' ds. direct_holds k view is_mem t me w p a' ds \<Longrightarrow> direct_holds k view is_mem t me w1 p a' ds"
    by auto
  let ?buf = "out @ drop (length out) buf"
  have buf: "?buf = ?cs @ drop (length ?cs) ?buf" "length ?buf = 1024"
  proof -
    have "take (length ?cs) ?buf = ?cs" by (rule take_prefix_append [OF h(2)])
    then show "?buf = ?cs @ drop (length ?cs) ?buf" by (metis append_take_drop_id)
    show "length ?buf = 1024" using h(3) less.prems(3) by simp
  qed
  show ?case
  proof (cases "scan_zeroes n0 ?cs st")
    case (Inl r')
    have "scan_zeroes n0 (?cs @ drop 1024 bs) st = Inl r" using less.prems(2) by simp
    then have "r' = r" using Inl unfolding scan_zeroes_append by simp
    moreover have "scan_zeroes n0 ?buf st = Inl r'"
      by (subst buf(1), subst scan_zeroes_append) (simp add: Inl)
    ultimately show ?thesis using h(1,4) by (auto simp: direct_until_loop.simps [of k t pid n0 a])
  next
    case (Inr st')
    have scan: "scan_zeroes n0 (?cs @ drop 1024 bs) st = Inl r" using less.prems(2) by simp
    have long: "1024 < length bs" using Inr less.prems(2) by (metis Inl_Inr_False take_all not_less)
    then have full: "length ?cs = 1024" by simp
    then have eq: "?buf = ?cs" using buf by (metis append_eq_conv_conj append.right_neutral drop_all le_refl)
    have add: "checked_add a READ_BUFFER_SIZE = Inr (a + 1024)"
      using mapped_at_bound [OF m] long n by (simp add: checked_add_def READ_BUFFER_SIZE_def)
    have "direct_holds k view is_mem t me w1 pid (a + 1024) (drop 1024 bs)"
      using h(4) less.prems(1) mapped_at_drop [OF m, of 1024] long by (simp add: direct_holds_def)
    moreover have "length (drop 1024 bs) < length bs" using long by simp
    ultimately obtain w2 where
      "direct_until_loop k t pid n0 (a + 1024) ?buf st' w1 = (Inr r, w2)"
      "\<And>p a' ds. direct_holds k view is_mem t me w1 p a' ds \<Longrightarrow> direct_holds k view is_mem t me w2 p a' ds"
      using less.hyps [of "drop 1024 bs" w1 "a + 1024" st' ?buf] scan Inr buf(2) unfolding scan_zeroes_append by auto
    then show ?thesis
      using eq add h(1,4) Inr by (auto simp: direct_until_loop.simps [of k t pid n0 a])
  qed
qed

interpretation direct_reader: mem_reader "DIRECT_MEM_HELPERS k t" "direct_holds k view is_mem t me"
  for k :: "('k, 'x) direct_api_scheme" and t view is_mem me
proof
  fix w pid a bs and buf :: "u8 list"
  assume h: "direct_holds k view is_mem t me w pid a bs"
  then have m: "mapped_at view (kern w) me a bs" by (simp add: direct_holds_def)
  show "unat a + length bs < 2 ^ 64" using mapped_at_bound [OF m] .
  then have len: "unat (of_nat (length bs) :: usize) = length bs" by (intro unat_of_nat_64) simp
  show "\<exists>w'. mh_read_bytes (DIRECT_MEM_HELPERS k t) pid a (of_nat (length bs)) buf w =
        (Inr (bs @ drop (length bs) buf), w') \<and>
      (\<forall>p a' cs. direct_holds k view is_mem t me w p a' cs \<longrightarrow> direct_holds k view is_mem t me w' p a' cs)"
    if le: "length bs \<le> length buf"
  proof -
    obtain out w' where o: "direct_read_bytes k t pid a (of_nat (length bs)) buf w = (Inr (out @ drop (length out) buf), w')"
        "take (length bs) out = bs" "length out \<le> length bs"
        "\<forall>p a' cs. direct_holds k view is_mem t me w p a' cs \<longrightarrow> direct_holds k view is_mem t me w' p a' cs"
      using direct_read_bytes_prefix [OF h, of "of_nat (length bs)" buf] le len by auto
    then have "out = bs" by simp
    then show ?thesis using o(1,4) by (auto simp: DIRECT_MEM_HELPERS_def)
  qed
  show "\<exists>w'. mh_read_bytes_until_num_zeroes (DIRECT_MEM_HELPERS k t) pid a n0 w = (Inr r, w') \<and>
      (\<forall>p a' cs. direct_holds k view is_mem t me w p a' cs \<longrightarrow> direct_holds k view is_mem t me w' p a' cs)"
    if "scan_zeroes n0 bs (0, []) = Inl r" for n0 r
    using direct_until_loop_bytes [OF h that, of "replicate (unat READ_BUFFER_SIZE) 0"]
    by (simp add: DIRECT_MEM_HELPERS_def direct_read_bytes_until_num_zeroes_def READ_BUFFER_SIZE_def)
next
  show "mh_read_bytes_until_zero (DIRECT_MEM_HELPERS k t) pid a =
      mh_read_bytes_until_num_zeroes (DIRECT_MEM_HELPERS k t) pid a 1" for pid a
    by (simp add: DIRECT_MEM_HELPERS_def direct_read_bytes_until_zero_def)
next
  show "direct_holds k view is_mem t me w pid a xs \<and>
      direct_holds k view is_mem t me w pid (a + of_nat (length xs)) ys"
    if "direct_holds k view is_mem t me w pid a (xs @ ys)" for w pid a xs ys
    using that by (simp add: direct_holds_def mapped_at_append)
qed

lemma direct_write_returns:
  assumes "direct_ready t pid live base w" "available w \<noteq> [] \<or> cached w t \<noteq> None"
    and "unat base + zone < 2 ^ 64" "unat off < zone" "unat off + length bs \<le> zone"
  shows "\<exists>start off' w'. direct_write_bytes_to_tracee t pid off bs w = (Inr (start, off'), w') \<and>
    unat off' = unat off + length bs \<and> start = base + off \<and> cached w' t \<noteq> None"
proof -
  have inv: "tracer_inv (w, live)" "live t = Some pid" "TRACEE_WRITE_REGION_ADDR (thread_local w t) = Some base"
    using assms(1) by (simp_all add: direct_ready_def)
  have z: "zone = 16384" "unat STACK_SAFE_ZONE_SIZE = 16384" by (simp_all add: zone_eq flip: zone_def)
  obtain r w1 where own: "get_own_region_id t pid w = (Inr r, w1)"
    using get_own_region_id_eq [OF tracer_invD(1) [OF inv(1)], of t pid] assms(2) by (auto split: option.splits)
  note al = alloc_inv(1,2) [OF inv(1,2) own]
  have r: "r < MAX_NUM_TRACEES" using owned_region(1) [OF al(1) inv(2) al(2)] by simp
  have box: "region_box r w1 = (Inr (the (region w1 r)), w1)"
    using tracer_invD(1) [OF al(1)] by (intro region_box_eq r) (simp add: pool_ok_def)
  have u: "unat (of_nat (length bs) :: usize) = length bs" using assms(5) z by (intro unat_of_nat_64) simp
  have adds: "checked_add base off = Inr (base + off)"
      "checked_add off (of_nat (length bs)) = Inr (off + of_nat (length bs))"
      "unat (off + of_nat (length bs)) = unat off + length bs"
    using assms(3-5) z u by (simp_all add: checked_add_def unat_add_no_overflow)
  have guards: "\<not> off \<ge> STACK_SAFE_ZONE_SIZE" "\<not> off + of_nat (length bs) > STACK_SAFE_ZONE_SIZE"
    using assms(4,5) z adds(3) by (simp_all add: word_le_nat_alt word_less_nat_alt)
  show ?thesis
    using inv(3) own box adds guards r al(2)
    by (simp add: direct_write_bytes_to_tracee_def io_simps store_region_def)
qed

section \<open>Properties\<close>

text \<open>
  C6.  Tracees are isolated: in every reachable state of the tracer two live tracees own different
  regions, and a write for one of them, whatever its result, does not change the region of the other.
\<close>

theorem regions_isolated:
  assumes "tracer_reachable k (w, live)" "live t = Some pid" "live t' = Some pid'" "t \<noteq> t'"
    and "cached w t' = Some r'" "length bs < 2 ^ 63"
    and "direct_write_bytes_to_tracee t pid off bs w = (res, w')"
  shows "cached w t \<noteq> Some r' \<and> region w' r' = region w r'"
proof -
  note inv = tracer_reachable_inv [OF assms(1)]
  have len: "length bs < 2 ^ 64" using assms(6) by simp
  have pids: "pid \<noteq> pid'" using live_inj [OF tracer_invD(2) [OF inv] assms(2), of t'] assms(3,4) by auto
  have other: "r \<noteq> r'" if "tracer_inv (w1, live)" "cached w1 t = Some r" "cached w1 t' = Some r'" for w1 r
  proof
    assume "r = r'"
    then have "by_pid w1 pid = Some r'" "by_pid w1 pid' = Some r'"
      using tracer_invD(3) [OF that(1) assms(2) that(2)] tracer_invD(3) [OF that(1) assms(3) that(3)] by simp_all
    then show False
      using tracer_invD(1) [OF that(1)] pids by (auto simp: pool_ok_def ids_ok_def inj_on_def dom_def)
  qed
  have "region w' r' = region w r'"
    using inv assms(2,7) len
  proof (cases rule: direct_write_cases)
    case (alloc r')
    then show ?thesis using alloc_inv(3) [OF inv assms(2)] by (simp add: region_def)
  next
    case (stored r w1 bytes base)
    note inv1 = alloc_inv(1-3) [OF inv assms(2) stored(1)]
    have "cached w1 t' = cached w t'"
      using get_own_region_id_eq [OF tracer_invD(1) [OF inv], of t pid] stored(1) assms(4)
      by (auto split: option.splits if_splits)
    then have "r \<noteq> r'" using other [OF inv1(1) inv1(2)] assms(5) by simp
    moreover have "length (SHARED_REGIONS w1) = MAX_NUM_TRACEES"
      using tracer_invD(1) [OF inv1(1)] by (simp add: pool_ok_def locks_ok_def)
    ultimately show ?thesis
      unfolding stored(6) using stored(5) inv1(3) by (simp add: region_put_region) (simp add: region_def)
  qed simp
  then show ?thesis using other [OF inv] assms(5) by blast
qed

text \<open>
  C30.  A tracee that gets a region gets one that no live tracee owns and that is filled with zeroes: it
  sees nothing of what was written for another tracee.
\<close>

theorem fresh_region_zeroed:
  assumes "tracer_reachable k (w, live)" "live t = Some pid" "cached w t = None"
    and "get_own_region_id t pid w = (Inr r, w')"
  shows "r < MAX_NUM_TRACEES \<and> region w' r = Some (replicate zone 0) \<and>
    (\<forall>t' pid'. live t' = Some pid' \<longrightarrow> cached w t' \<noteq> Some r) \<and> by_pid w' pid = Some r"
proof -
  note inv = tracer_reachable_inv [OF assms(1)]
  have av: "available w \<noteq> []" "r = last (available w)"
    using get_own_region_id_eq [OF tracer_invD(1) [OF inv], of t pid] assms(3,4) by (auto split: if_splits)
  then have "r \<in> set (available w)" by simp
  then have "r < MAX_NUM_TRACEES" "region w r = Some (replicate zone 0)"
    using tracer_invD(1) [OF inv] by (auto simp: pool_ok_def ids_ok_def zeroed_def)
  moreover have "region w' r = region w r"
    using alloc_inv(3) [OF inv assms(2,4)] by (simp add: region_def)
  moreover have "cached w t' \<noteq> Some r" if "live t' = Some pid'" for t' pid'
    using owned_region(2) [OF inv that] \<open>r \<in> set (available w)\<close> by blast
  moreover have "by_pid w' pid = Some r"
    using tracer_invD(3) [OF alloc_inv(1) [OF inv assms(2,4)] assms(2) alloc_inv(2) [OF inv assms(2,4)]] by simp
  ultimately show ?thesis by auto
qed

text \<open>
  Two byte strings that fit into the region can be written one after the other, the second at the
  offset the first write returned, and afterwards the tracee sees both, each at the returned address of
  its own mapping of the region.
\<close>

theorem direct_write_then_see:
  assumes "tracer_reachable k (w, live)" "live t = Some pid"
    and "TRACEE_WRITE_REGION_ADDR (thread_local w t) = Some base" "available w \<noteq> [] \<or> cached w t \<noteq> None"
    and "unat base + zone < 2 ^ 64" "unat off + length bs < zone" "unat off + length bs + length cs \<le> zone"
  shows "\<exists>off1 w1 off2 w2 r bytes.
    direct_write_bytes_to_tracee t pid off bs w = (Inr (base + off, off1), w1) \<and>
    direct_write_bytes_to_tracee t pid off1 cs w1 = (Inr (base + off1, off2), w2) \<and>
    cached w2 t = Some r \<and> region w2 r = Some bytes \<and>
    take (length bs) (drop (unat off) bytes) = bs \<and> take (length cs) (drop (unat off1) bytes) = cs"
proof -
  have ready: "direct_ready t pid live base w"
    using assms(2,3) tracer_reachable_inv [OF assms(1)] by (simp add: direct_ready_def)
  have len: "length bs < 2 ^ 63" "length cs < 2 ^ 63" using assms(6,7) zone_eq by simp_all
  obtain off1 w1 where wr1: "direct_write_bytes_to_tracee t pid off bs w = (Inr (base + off, off1), w1)"
      "unat off1 = unat off + length bs" "cached w1 t \<noteq> None"
    using direct_write_returns [OF ready assms(4,5), of off bs] assms(6) by auto
  note ready1 = direct_writer.write_ready [OF ready len(1) wr1(1)]
  obtain off2 w2 where wr2: "direct_write_bytes_to_tracee t pid off1 cs w1 = (Inr (base + off1, off2), w2)"
      "unat off2 = unat off1 + length cs"
    using direct_write_returns [OF ready1 _ assms(5), of off1 cs] wr1(2,3) assms(6,7) by auto
  have placed: "direct_placed t base w2 off2 (base + off) bs" "direct_placed t base w2 off2 (base + off1) cs"
    using direct_writer.write_keeps [OF ready1 len(2) direct_writer.write_placed [OF ready len(1) wr1(1)] wr2(1)]
      direct_writer.write_placed [OF ready1 len(2) wr2(1)] by blast+
  have offset: "n = unat x" if "base + x = base + of_nat n" "n + m \<le> unat off2" "unat off2 \<le> zone" for n m and x :: usize
    using that zone_eq by (simp add: unat_of_nat_64)
  obtain r bytes where r: "cached w2 t = Some r" "region w2 r = Some bytes"
    using placed(1) by (auto simp: direct_placed_def)
  have "take (length bs) (drop (unat off) bytes) = bs" "take (length cs) (drop (unat off1) bytes) = cs"
    using placed r offset unfolding direct_placed_def by (metis option.inject)+
  then show ?thesis using wr1(1) wr2(1) r by blast
qed

text \<open>A run with two tracees, the second with a region.\<close>

lemma example_tracer:
  obtains w live where "tracer_reachable () (w, live)" "live 1 = Some 100" "live 2 = Some 200"
    "cached w 1 = None" "cached w 2 = Some 8191" "available w \<noteq> []"
    "TRACEE_WRITE_REGION_ADDR (thread_local w 2) = Some 4096"
proof -
  obtain w where w: "tracer_reachable () (w, Map.empty)" "pool_ok w" "available w = [0..<MAX_NUM_TRACEES]"
    by (rule start_reachable)
  let ?w1 = "set_local 1 (\<lambda>_. fresh_locals) w" and ?l1 = "[1 \<mapsto> 100]"
  have s1: "tracer_reachable () (?w1, ?l1)" 
    by (rule tracer_reachable.step [OF w(1) region_step.spawn]) simp_all
  let ?w2 = "set_local 2 (\<lambda>_. fresh_locals) ?w1" and ?l2 = "[1 \<mapsto> 100, 2 \<mapsto> 200] :: tid \<rightharpoonup> pid"
  have s2: "tracer_reachable () (?w2, ?l2)" 
    by (rule tracer_reachable.step [OF s1 region_step.spawn]) (simp_all add: ran_def)
  let ?w3 = "set_local 2 (\<lambda>l. l\<lparr>TRACEE_WRITE_REGION_ADDR := Some 4096\<rparr>) ?w2"
  have "set_tracee_write_region_addr 2 4096 ?w2 = (Inr (), ?w3)"
    by (simp add: set_tracee_write_region_addr_def io_simps)
  then have s3: "tracer_reachable () (?w3, ?l2)"
    by (rule tracer_reachable.step [OF s2 region_step.set_addr [where t = 2 and pid = 200], rotated]) simp
  have av: "available ?w3 \<noteq> []" "last (available ?w3) = 8191" "butlast (available ?w3) = [0..<8191]"
    using w(3) upt_Suc_append [of 0 8191] by (simp_all add: MAX_NUM_TRACEES_def)
  obtain w4 where w4: "get_own_region_id 2 200 ?w3 = (Inr 8191, w4)" "cached w4 1 = None"
      "cached w4 2 = Some 8191" "available w4 = [0..<8191]" "TRACEE_WRITE_REGION_ADDR (thread_local w4 2) = Some 4096"
    using get_own_region_id_eq [of ?w3 2 200] w(2) av by (auto simp: fresh_locals_def)
  have "tracer_reachable () (w4, ?l2)"
    by (rule tracer_reachable.step [OF s3 region_step.alloc [OF _ w4(1)]]) simp
  then show thesis using that [of w4 ?l2] w4 by simp
qed

theorem regions_isolated_witness:
  "\<exists>(w :: unit direct_world) live w'. tracer_reachable () (w, live) \<and>
     w' = snd (direct_write_bytes_to_tracee 1 100 0 [1, 2] w) \<and> region w' 8191 = region w 8191"
proof -
  obtain w live where "tracer_reachable () (w, live)" "live 1 = Some 100" "live 2 = Some 200" "cached w 2 = Some 8191"
    by (rule example_tracer)
  moreover obtain res w' where "direct_write_bytes_to_tracee 1 100 0 [1, 2] w = (res, w')" by fastforce
  ultimately show ?thesis
    using regions_isolated [of "()" w live 1 100 2 200 8191 "[1, 2]" 0 res w'] by auto
qed

theorem fresh_region_zeroed_witness:
  "\<exists>(w' :: unit direct_world) r. region w' r = Some (replicate zone 0) \<and> r < MAX_NUM_TRACEES"
proof -
  obtain w live where w: "tracer_reachable () (w, live)" "live 1 = Some 100" "cached w 1 = None" "available w \<noteq> []"
    by (rule example_tracer)
  moreover obtain r w' where "get_own_region_id 1 100 w = (Inr r, w')"
    using get_own_region_id_eq [OF tracer_invD(1) [OF tracer_reachable_inv [OF w(1)]], of 1 100] w(3,4) by auto
  ultimately show ?thesis using fresh_region_zeroed [of "()" w live 1 100 r w'] by blast
qed

theorem direct_write_then_see_witness:
  "\<exists>(w2 :: unit direct_world) r bytes. cached w2 2 = Some r \<and> region w2 r = Some bytes \<and> take (Suc (Suc 0)) bytes = [104, 105]"
proof -
  obtain w live where w: "tracer_reachable () (w, live)" "live 2 = Some 200" "available w \<noteq> []"
      "TRACEE_WRITE_REGION_ADDR (thread_local w 2) = Some 4096"
    by (rule example_tracer)
  then show ?thesis
    using direct_write_then_see [of "()" w live 2 200 4096 0 "[104, 105]" "[120]"] zone_eq by auto
qed

end
