(* ===== verification/Executor.thy ===== *)
theory Executor
  imports Krsm Mem_Slow Mem_Direct
begin

text \<open>
  The \<open>executor\<close> crate: the kinds of futures a tracee handler waits for (\<open>executor/src/futures.rs\<close>), the
  errors (\<open>executor/src/common.rs\<close>), and the clients of \<open>executor/src/lib.rs\<close>: \<open>LocalPtraceClient\<close>, which makes its
  ptrace calls on the calling thread (the default of \<open>main\<close>), and \<open>MainThreadClient\<close>, which sends them to the
  main thread (option \<open>--fix-attach\<close>).  The \<open>execute\<close> of the first runs the closure at once, so it does not appear in the
  handlers; the theory \<open>Main_Thread_Executor\<close> shows that the second gives the same results.

  The calls of the kernel that the handlers need beyond memory access extend the parameter \<open>direct_api\<close>.
\<close>

section \<open>Kinds of futures\<close>

datatype ptrace_future_type = WaitForPtraceSeccomp | WaitForPtraceSyscall | WaitForPtraceEvent | WaitForSignal

text \<open>The derived order is the order of declaration.\<close>

fun future_rank :: "ptrace_future_type \<Rightarrow> nat" where
  "future_rank WaitForPtraceSeccomp = 0"
| "future_rank WaitForPtraceSyscall = 1"
| "future_rank WaitForPtraceEvent = 2"
| "future_rank WaitForSignal = 3"

lemma future_rank_inject [simp]: "future_rank a = future_rank b \<longleftrightarrow> a = b"
  by (cases a; cases b) simp_all

instantiation ptrace_future_type :: linorder
begin

definition less_eq_ptrace_future_type :: "ptrace_future_type \<Rightarrow> ptrace_future_type \<Rightarrow> bool" where
  "a \<le> b \<longleftrightarrow> future_rank a \<le> future_rank b"

definition less_ptrace_future_type :: "ptrace_future_type \<Rightarrow> ptrace_future_type \<Rightarrow> bool" where
  "a < b \<longleftrightarrow> future_rank a < future_rank b"

instance
proof
  show "a = b" if "a \<le> b" "b \<le> a" for a b :: ptrace_future_type
    using that by (simp add: less_eq_ptrace_future_type_def flip: future_rank_inject)
qed (auto simp: less_eq_ptrace_future_type_def less_ptrace_future_type_def)

end

section \<open>Errors\<close>

datatype executor_error =
    TaskEnqueue
  | TaskDequeue
  | ResultDequeue
  | ResultEnqueue string
  | Attach errno
  | PtraceE ptrace_error
  | TransferDetach errno
  | TransferLock
  | TransferWaitpid wait_status
  | AsyncBanOfExternalCode

section \<open>Calls of the kernel\<close>

definition SIGSTOP :: signal where "SIGSTOP = 19"
definition SIGKILL :: signal where "SIGKILL = 9"
definition SIGSEGV :: signal where "SIGSEGV = 11"
definition SIGSYS :: signal where "SIGSYS = 31"
definition EINVAL :: errno where "EINVAL = 22"
definition EINTR :: errno where "EINTR = 4"
definition ENOSYS :: errno where "ENOSYS = 38"
definition WNOHANG :: usize where "WNOHANG = 1"
definition CLONE_PTRACE :: usize where "CLONE_PTRACE = 0x2000"
definition CLONE_UNTRACED :: usize where "CLONE_UNTRACED = 0x800000"
definition PTRACE_EVENT_FORK :: int where "PTRACE_EVENT_FORK = 1"
definition PTRACE_EVENT_VFORK :: int where "PTRACE_EVENT_VFORK = 2"
definition PTRACE_EVENT_CLONE :: int where "PTRACE_EVENT_CLONE = 3"
definition PTRACE_EVENT_EXIT :: int where "PTRACE_EVENT_EXIT = 6"
definition PTRACE_EVENT_SECCOMP :: int where "PTRACE_EVENT_SECCOMP = 7"

datatype ptrace_option = TRACESYSGOOD | TRACEEXIT | TRACECLONE | TRACEFORK | TRACEVFORK | TRACESECCOMP

text \<open>
  \<open>sys_getsiginfo\<close> gives the field \<open>si_code\<close>; \<open>sys_gdb\<close> runs \<open>gdb -p <pid>\<close> and gives its exit code;
  \<open>sys_spawn\<close> starts the thread of a new tracee with its callback.
\<close>

record 'k tracer_api = "'k direct_api" +
  sys_getsiginfo :: "pid \<Rightarrow> 'k \<Rightarrow> (errno + int) \<times> 'k"
  sys_detach :: "pid \<Rightarrow> signal option \<Rightarrow> 'k \<Rightarrow> (errno + unit) \<times> 'k"
  sys_cont :: "pid \<Rightarrow> signal option \<Rightarrow> 'k \<Rightarrow> (errno + unit) \<times> 'k"
  sys_syscall :: "pid \<Rightarrow> signal option \<Rightarrow> 'k \<Rightarrow> (errno + unit) \<times> 'k"
  sys_setoptions :: "pid \<Rightarrow> ptrace_option list \<Rightarrow> 'k \<Rightarrow> (errno + unit) \<times> 'k"
  sys_attach :: "pid \<Rightarrow> 'k \<Rightarrow> (errno + unit) \<times> 'k"
  sys_kill :: "pid \<Rightarrow> signal \<Rightarrow> 'k \<Rightarrow> (errno + unit) \<times> 'k"
  sys_uname :: "'k \<Rightarrow> (errno + string) \<times> 'k"
  sys_gdb :: "pid \<Rightarrow> 'k \<Rightarrow> (errno + int option) \<times> 'k"
  sys_spawn :: "pid \<Rightarrow> 'k \<Rightarrow> 'k"

section \<open>The clients\<close>

datatype ptrace_client = LocalPtraceClient | MainThreadClient

text \<open>Tracees of the main thread are attached by \<open>PTRACE_TRACEME\<close>: that client keeps the defaults of the trait.\<close>

definition attach_to :: "ptrace_client \<Rightarrow> ('k, 'x) tracer_api_scheme \<Rightarrow> pid \<Rightarrow> ('k, executor_error, unit) io" where
  "attach_to cl k pid = (case cl of MainThreadClient \<Rightarrow> ret () | LocalPtraceClient \<Rightarrow> call Attach (sys_attach k pid))"

text \<open>
  \<open>prep_attach_to\<close> hands a new child over to the thread that will trace it: wait for its first stop,
  remember that its \<open>SIGSTOP\<close> is to be ignored, and detach with that signal.  The locked set is passed
  and returned.
\<close>

definition on_err :: "('e \<Rightarrow> 'f) \<Rightarrow> ('w, 'e, 'a) io \<Rightarrow> ('w, 'f, 'a) io" where
  "on_err f m = (\<lambda>w. case m w of
     (Inl (Err e), w') \<Rightarrow> (Inl (Err (f e)), w')
   | (Inl Panic, w') \<Rightarrow> (Inl Panic, w')
   | (Inl UndefinedBehaviour, w') \<Rightarrow> (Inl UndefinedBehaviour, w')
   | (Inl OutOfFuel, w') \<Rightarrow> (Inl OutOfFuel, w')
   | (Inr a, w') \<Rightarrow> (Inr a, w'))"

definition prep_attach_to ::
  "ptrace_client \<Rightarrow> ('k, 'x) tracer_api_scheme \<Rightarrow> pid \<Rightarrow> pid set rwlock \<Rightarrow> 'k \<Rightarrow>
     (executor_error fault + unit) \<times> pid set rwlock \<times> 'k" where
  "prep_attach_to cl k pid locked_ignores w =
     (case cl of MainThreadClient \<Rightarrow> (Inr (), locked_ignores, w) | LocalPtraceClient \<Rightarrow>
      case on_err PtraceE (waitpid_hang k pid) w of
        (Inl f, w) \<Rightarrow> (Inl f, locked_ignores, w)
      | (Inr status, w) \<Rightarrow>
          if \<not> is_trace_stop status \<and> \<not> is_still_alive status
          then (Inl (Err (TransferWaitpid status)), locked_ignores, w)
          else case lock TransferLock locked_ignores of
                 Inl e \<Rightarrow> (Inl (Err e), locked_ignores, w)
               | Inr ignore_sigstops \<Rightarrow>
                   let locked_ignores = RwLock False (insert pid ignore_sigstops);
                       (r, w) = call TransferDetach (sys_detach k pid (Some SIGSTOP)) w
                   in (r, locked_ignores, w))"

lemma on_err_apply [io_simps]:
  "on_err f m w = (case m w of (r, w') \<Rightarrow>
     (case r of Inl (Err e) \<Rightarrow> Inl (Err (f e)) | Inl Panic \<Rightarrow> Inl Panic
        | Inl UndefinedBehaviour \<Rightarrow> Inl UndefinedBehaviour | Inl OutOfFuel \<Rightarrow> Inl OutOfFuel
        | Inr a \<Rightarrow> Inr a, w'))"
  by (simp add: on_err_def split: prod.splits sum.splits fault.splits)

lemma on_err_Inr: "m w = (Inr a, w') \<Longrightarrow> on_err f m w = (Inr a, w')"
  by (simp add: on_err_def)

end
