(* ===== verification/Rust_Path.thy ===== *)
theory Rust_Path
  imports Effects
begin

text \<open>
  The parts of Rust's standard library on paths and strings that the crates use.

  A path is the list of its bytes, as \<open>std::path::Path\<close> has it on Unix.  Most methods of \<open>Path\<close> look at it
  through \<open>components\<close>: the path is cut at the slashes, empty and \<open>.\<close> segments are skipped (a leading_match
  \<open>.\<close> is kept), and two paths are equal if their components are.  \<open>strip_prefix\<close> and \<open>parent\<close> give a part
  of the original bytes, without skipped segments at their ends.

  The second part has UTF-8 validation, searching and replacing in strings and trimming of whitespace.
\<close>

type_synonym path = "u8 list"

section \<open>Segments\<close>

fun split_on :: "'a \<Rightarrow> 'a list \<Rightarrow> 'a list list" where
  "split_on c [] = [[]]"
| "split_on c (x # xs) =
     (if x = c then [] # split_on c xs else (x # hd (split_on c xs)) # tl (split_on c xs))"

fun join_with :: "'a \<Rightarrow> 'a list list \<Rightarrow> 'a list" where
  "join_with c [] = []"
| "join_with c [s] = s"
| "join_with c (s # ss) = s @ c # join_with c ss"

definition SLASH :: u8 where "SLASH = 47"
definition DOT :: u8 where "DOT = 46"

abbreviation segments :: "path \<Rightarrow> path list" where
  "segments \<equiv> split_on SLASH"

abbreviation join_segments :: "path list \<Rightarrow> path" where
  "join_segments \<equiv> join_with SLASH"

definition skipped_segment :: "path \<Rightarrow> bool" where
  "skipped_segment s \<longleftrightarrow> s = [] \<or> s = [DOT]"

definition trim_segments :: "path list \<Rightarrow> path list" where
  "trim_segments ss = rev (dropWhile skipped_segment (rev ss))"

fun drop_segments :: "nat \<Rightarrow> path list \<Rightarrow> path list" where
  "drop_segments 0 ss = ss"
| "drop_segments (Suc n) [] = []"
| "drop_segments (Suc n) (s # ss) =
     (if skipped_segment s then drop_segments (Suc n) ss else drop_segments n ss)"

section \<open>Paths\<close>

datatype path_component = RootDir | CurDir | ParentDir | NormalDir path

definition segment_component :: "path \<Rightarrow> path_component" where
  "segment_component s = (if s = [DOT, DOT] then ParentDir else NormalDir s)"

definition comps :: "path list \<Rightarrow> path_component list" where
  "comps ss = map segment_component (filter (\<lambda>s. \<not> skipped_segment s) ss)"

definition is_absolute :: "path \<Rightarrow> bool" where
  "is_absolute p \<longleftrightarrow> (case p of [] \<Rightarrow> False | c # _ \<Rightarrow> c = SLASH)"

definition starts_with_dot :: "path \<Rightarrow> bool" where
  "starts_with_dot p \<longleftrightarrow> hd (segments p) = [DOT]"

definition components :: "path \<Rightarrow> path_component list" where
  "components p =
     (if is_absolute p then RootDir # comps (segments (tl p))
      else if starts_with_dot p then CurDir # comps (segments (tl p))
      else comps (segments p))"

definition path_eq :: "path \<Rightarrow> path \<Rightarrow> bool" where
  "path_eq p q \<longleftrightarrow> components p = components q"

definition starts_with :: "path \<Rightarrow> path \<Rightarrow> bool" where
  "starts_with p base \<longleftrightarrow> take (length (components base)) (components p) = components base"

text \<open>The bytes that are left when \<open>n\<close> components were taken from the front (\<open>Components::as_path\<close>).\<close>

fun rest_path :: "nat \<Rightarrow> path \<Rightarrow> path" where
  "rest_path 0 p =
     (if is_absolute p \<or> starts_with_dot p then hd p # join_segments (trim_segments (segments (tl p)))
      else join_segments (trim_segments (segments p)))"
| "rest_path (Suc n) p =
     join_segments (dropWhile skipped_segment (trim_segments
       (if is_absolute p \<or> starts_with_dot p then drop_segments n (segments (tl p))
        else drop_segments (Suc n) (segments p))))"

definition strip_prefix :: "path \<Rightarrow> path \<Rightarrow> path option" where
  "strip_prefix p base = (if starts_with p base then Some (rest_path (length (components base)) p) else None)"

definition path_push :: "path \<Rightarrow> path \<Rightarrow> path" where
  "path_push p q =
     (if is_absolute q then q
      else if p \<noteq> [] \<and> last p \<noteq> SLASH then p @ [SLASH] @ q
      else p @ q)"

abbreviation path_join :: "path \<Rightarrow> path \<Rightarrow> path" where
  "path_join \<equiv> path_push"

definition path_parent :: "path \<Rightarrow> path option" where
  "path_parent p =
     (if is_absolute p then
        (let ss = trim_segments (segments (tl p)) in
         if ss = [] then None else Some (SLASH # join_segments (trim_segments (butlast ss))))
      else if starts_with_dot p then
        (let ss = trim_segments (segments (tl p)) in
         if ss = [] then Some [] else Some (DOT # join_segments (trim_segments (butlast ss))))
      else
        (let ss = trim_segments (segments p) in
         if ss = [] then None else Some (join_segments (trim_segments (butlast ss)))))"

definition path_pop :: "path \<Rightarrow> path" where
  "path_pop p = (case path_parent p of None \<Rightarrow> p | Some q \<Rightarrow> q)"

definition file_name :: "path \<Rightarrow> path option" where
  "file_name p = (if components p = [] then None
     else case last (components p) of NormalDir s \<Rightarrow> Some s | _ \<Rightarrow> None)"

definition with_file_name :: "path \<Rightarrow> path \<Rightarrow> path" where
  "with_file_name p name = path_push (if file_name p = None then p else path_pop p) name"

fun component_bytes :: "path_component \<Rightarrow> path" where
  "component_bytes RootDir = [SLASH]"
| "component_bytes CurDir = [DOT]"
| "component_bytes ParentDir = [DOT, DOT]"
| "component_bytes (NormalDir s) = s"

text \<open>\<open>std::path::absolute\<close>, for a path that is not empty; the current directory is given.\<close>

definition make_absolute :: "path \<Rightarrow> path \<Rightarrow> path" where
  "make_absolute cwd p =
     (let rest = (case strip_prefix p [DOT] of None \<Rightarrow> p | Some q \<Rightarrow> q);
          two = (take 2 p = [SLASH, SLASH] \<and> take 3 p \<noteq> [SLASH, SLASH, SLASH]);
          start = (if is_absolute p then if two then [SLASH, SLASH] else [] else cwd);
          cs = (if is_absolute p \<and> two then tl (components rest) else components rest);
          normalized = fold (\<lambda>c q. path_push q (component_bytes c)) cs start
      in if last p = SLASH then path_push normalized [] else normalized)"

section \<open>Strings\<close>

definition is_cont :: "u8 \<Rightarrow> bool" where
  "is_cont b \<longleftrightarrow> 0x80 \<le> b \<and> b \<le> 0xBF"

text \<open>\<open>core::str::from_utf8\<close>: well-formed byte sequences of one to four bytes.\<close>

function utf8_valid :: "u8 list \<Rightarrow> bool" where
  "utf8_valid [] = True"
| "utf8_valid (a # bs) =
     (if a < 0x80 then utf8_valid bs
      else if 0xC2 \<le> a \<and> a \<le> 0xDF then
        (case bs of b # bs \<Rightarrow> is_cont b \<and> utf8_valid bs | _ \<Rightarrow> False)
      else if 0xE0 \<le> a \<and> a \<le> 0xEF then
        (case bs of b # c # bs \<Rightarrow>
           (if a = 0xE0 then 0xA0 \<le> b \<and> b \<le> 0xBF else if a = 0xED then 0x80 \<le> b \<and> b \<le> 0x9F else is_cont b) \<and>
           is_cont c \<and> utf8_valid bs
         | _ \<Rightarrow> False)
      else if 0xF0 \<le> a \<and> a \<le> 0xF4 then
        (case bs of b # c # d # bs \<Rightarrow>
           (if a = 0xF0 then 0x90 \<le> b \<and> b \<le> 0xBF else if a = 0xF4 then 0x80 \<le> b \<and> b \<le> 0x8F else is_cont b) \<and>
           is_cont c \<and> is_cont d \<and> utf8_valid bs
         | _ \<Rightarrow> False)
      else False)"
  by pat_completeness auto
termination
  by (relation "measure length") auto

text \<open>\<open>str::contains\<close> and \<open>str::replace\<close>, for a pattern that is not empty.\<close>

fun str_contains :: "'a list \<Rightarrow> 'a list \<Rightarrow> bool" where
  "str_contains pat [] = (pat = [])"
| "str_contains pat (x # xs) = (take (length pat) (x # xs) = pat \<or> str_contains pat xs)"

function replace_str :: "'a list \<Rightarrow> 'a list \<Rightarrow> 'a list \<Rightarrow> 'a list" where
  "replace_str pat new [] = []"
| "replace_str pat new (x # xs) =
     (if pat \<noteq> [] \<and> take (length pat) (x # xs) = pat
      then new @ replace_str pat new (drop (length pat) (x # xs))
      else x # replace_str pat new xs)"
  by pat_completeness auto
termination
  by (relation "measure (\<lambda>(pat, new, xs). length xs)") (auto simp: neq_Nil_conv)

definition bytes_of_string :: "string \<Rightarrow> u8 list" where
  "bytes_of_string s = map of_char s"

text \<open>\<open>i32::to_string\<close>, and its like for other integers.\<close>

function decimal_nat :: "nat \<Rightarrow> u8 list" where
  "decimal_nat n = (if n < 10 then [48 + of_nat n] else decimal_nat (n div 10) @ [48 + of_nat (n mod 10)])"
  by pat_completeness auto
termination
  by (relation "measure id") auto

declare decimal_nat.simps [simp del]

definition decimal :: "int \<Rightarrow> u8 list" where
  "decimal i = (if i < 0 then 45 # decimal_nat (nat (- i)) else decimal_nat (nat i))"

text \<open>\<open>str::trim\<close>: the encodings of the characters with the property \<open>White_Space\<close>.\<close>

definition white_spaces :: "u8 list list" where
  "white_spaces =
     map (\<lambda>c. [c]) [9, 10, 11, 12, 13, 32] @ [[0xC2, 0x85], [0xC2, 0xA0], [0xE1, 0x9A, 0x80]] @
     map (\<lambda>c. [0xE2, 0x80, c]) ([0x80, 0x81, 0x82, 0x83, 0x84, 0x85, 0x86, 0x87, 0x88, 0x89, 0x8A] @ [0xA8, 0xA9, 0xAF]) @
     [[0xE2, 0x81, 0x9F], [0xE3, 0x80, 0x80]]"

definition leading_match :: "u8 list list \<Rightarrow> u8 list \<Rightarrow> nat" where
  "leading_match ws s = (case find (\<lambda>w. take (length w) s = w) ws of None \<Rightarrow> 0 | Some w \<Rightarrow> length w)"

function trim_with :: "u8 list list \<Rightarrow> u8 list \<Rightarrow> u8 list" where
  "trim_with ws s = (if s = [] \<or> leading_match ws s = 0 then s else trim_with ws (drop (leading_match ws s) s))"
  by pat_completeness auto
termination
  by (relation "measure (\<lambda>(ws, s). length s)") auto

declare trim_with.simps [simp del]

definition str_trim :: "u8 list \<Rightarrow> u8 list" where
  "str_trim s = rev (trim_with (map rev white_spaces) (rev (trim_with white_spaces s)))"

section \<open>Lemmas\<close>

lemma split_on_ne [simp]: "split_on c p \<noteq> []"
  by (cases p) simp_all

lemma split_on_append [simp]: "split_on c (xs @ c # ys) = split_on c xs @ split_on c ys"
  by (induction xs) (simp_all add: hd_append tl_append split: list.split)

lemma split_on_notin: "c \<notin> set s \<Longrightarrow> split_on c s = [s]"
  by (induction s) auto

lemma split_on_seg: "s \<in> set (split_on c p) \<Longrightarrow> c \<notin> set s"
proof (induction p arbitrary: s)
  case (Cons x p)
  then show ?case
    by (cases "split_on c p") (auto split: if_splits)
qed simp

lemma split_join [simp]:
  "ss \<noteq> [] \<Longrightarrow> (\<And>s. s \<in> set ss \<Longrightarrow> c \<notin> set s) \<Longrightarrow> split_on c (join_with c ss) = ss"
  by (induction c ss rule: join_with.induct) (simp_all add: split_on_notin)

lemma comps_append [simp]: "comps (xs @ ys) = comps xs @ comps ys"
  by (simp add: comps_def)

lemma comps_skipped [simp]: "comps [] = []" "skipped_segment s \<Longrightarrow> comps (s # ss) = comps ss"
  by (simp_all add: comps_def)

lemma skipped_simps [simp]: "skipped_segment []" "skipped_segment [DOT]"
  by (simp_all add: skipped_segment_def)

lemma comps_dropWhile [simp]: "comps (dropWhile skipped_segment ss) = comps ss"
  by (induction ss) simp_all

lemma trim_segments_split: "\<exists>ts. ss = trim_segments ss @ ts \<and> (\<forall>t \<in> set ts. skipped_segment t)"
proof -
  have "ss = rev (dropWhile skipped_segment (rev ss)) @ rev (takeWhile skipped_segment (rev ss))"
    by (metis rev_append rev_rev_ident takeWhile_dropWhile_id)
  then show ?thesis unfolding trim_segments_def using set_takeWhileD by fastforce
qed

lemma comps_all_skipped: "\<forall>t \<in> set ts. skipped_segment t \<Longrightarrow> comps ts = []"
  by (induction ts) simp_all

lemma comps_trim [simp]: "comps (trim_segments ss) = comps ss"
  by (metis append_Nil2 comps_all_skipped comps_append trim_segments_split)

lemma set_trim: "s \<in> set (trim_segments ss) \<Longrightarrow> s \<in> set ss"
  using trim_segments_split [of ss] by (metis Un_iff set_append)

lemma is_absolute_simps [simp]: "\<not> is_absolute []" "is_absolute (c # p) \<longleftrightarrow> c = SLASH"
  by (simp_all add: is_absolute_def)

lemma comps_tl_dot: "hd (split_on c p) = [] \<or> hd (split_on c p) = [DOT] \<Longrightarrow> comps (tl (split_on c p)) = comps (split_on c p)"
  by (cases "split_on c p") auto

lemma starts_with_dotD:
  assumes "starts_with_dot p"
  shows "p = DOT # tl p \<and> hd (segments (tl p)) = [] \<and> comps (segments (tl p)) = comps (segments p)"
proof (cases p)
  case (Cons x q)
  have ne: "x \<noteq> SLASH" using assms Cons by (auto simp: starts_with_dot_def)
  then have x: "x = DOT" and hd_q: "hd (segments q) = []"
    using assms Cons by (auto simp: starts_with_dot_def split: if_splits)
  have "segments p = [DOT] # tl (segments q)" using Cons ne x hd_q by simp
  moreover have "segments q = [] # tl (segments q)" using hd_q by (metis list.collapse split_on_ne)
  ultimately show ?thesis using Cons x hd_q by (metis comps_skipped(2) list.sel(3) skipped_simps)
qed (use assms in \<open>simp add: starts_with_dot_def\<close>)

text \<open>Components by the bytes: a path that is not absolute has the components of its segments, after \<open>CurDir\<close>.\<close>

lemma components_relative:
  "\<not> is_absolute p \<Longrightarrow> components p = (if starts_with_dot p then [CurDir] else []) @ comps (segments p)"
  using starts_with_dotD by (auto simp: components_def)

lemma components_absolute: "is_absolute p \<Longrightarrow> components p = RootDir # comps (segments p)"
  by (cases p) (simp_all add: components_def)

lemma components_bytes:
  "components p = (if is_absolute p then [RootDir] else if starts_with_dot p then [CurDir] else []) @ comps (segments p)"
  by (cases "is_absolute p") (simp_all add: components_relative components_absolute)

lemma hd_segments_append: "hd (segments (p @ SLASH # q)) = hd (segments p)"
  by (simp add: hd_append)

lemma starts_with_dot_push: "starts_with_dot (p @ SLASH # q) = starts_with_dot p"
  by (simp add: starts_with_dot_def hd_append)

lemma is_absolute_append [simp]: "p \<noteq> [] \<Longrightarrow> is_absolute (p @ q) = is_absolute p"
  by (cases p) simp_all

lemma components_slash:
  "p \<noteq> [] \<Longrightarrow> components (p @ SLASH # q) = components p @ comps (segments q)"
  by (simp add: components_bytes starts_with_dot_push)

lemma components_root_slash: "components (SLASH # q) = RootDir # comps (segments q)"
  by (simp add: components_def)

lemma path_push_slash:
  assumes "p \<noteq> []" "\<not> is_absolute q"
  obtains p' where "path_push p q = p' @ SLASH # q" "components (p' @ [SLASH]) = components p"
proof (cases "last p = SLASH")
  case True
  then have "p = butlast p @ [SLASH]" using assms(1) by (metis append_butlast_last_id)
  then show ?thesis using that [of "butlast p"] True assms by (metis append.assoc append_Cons append_Nil path_push_def)
next
  case False
  then show ?thesis using that [of p] assms components_slash [of p "[]"] by (simp add: path_push_def)
qed

lemma components_path_push:
  assumes "p \<noteq> []" "\<not> is_absolute q"
  shows "components (path_push p q) = components p @ comps (segments q)"
proof -
  obtain p' where p': "path_push p q = p' @ SLASH # q" "components (p' @ [SLASH]) = components p"
    using path_push_slash [OF assms] by blast
  have "components (p' @ SLASH # q) = components (p' @ [SLASH]) @ comps (segments q)"
    using components_slash [of p'] components_root_slash by (cases "p' = []") simp_all
  then show ?thesis using p' by simp
qed

lemma comps_drop_segments: "comps (drop_segments n ss) = drop n (comps ss)"
  by (induction n ss rule: drop_segments.induct) (simp_all add: comps_def)

lemma set_drop_segments: "s \<in> set (drop_segments n ss) \<Longrightarrow> s \<in> set ss"
  by (induction n ss rule: drop_segments.induct) (auto split: if_splits)

text \<open>What is left after the root is a relative path with the rest of the components.\<close>

lemma components_rest:
  assumes "is_absolute p"
  shows "\<not> is_absolute (rest_path (Suc n) p)" "comps (segments (rest_path (Suc n) p)) = drop (Suc n) (components p)"
    "components (rest_path (Suc n) p) = drop (Suc n) (components p)"
proof -
  define ss where "ss = dropWhile skipped_segment (trim_segments (drop_segments n (segments (tl p))))"
  have r: "rest_path (Suc n) p = join_segments ss" using assms by (simp add: ss_def)
  have b: "comps ss = drop (Suc n) (components p)" using assms by (simp add: ss_def components_def comps_drop_segments)
  have seg: "SLASH \<notin> set s" if "s \<in> set ss" for s
    using that set_trim set_dropWhileD set_drop_segments split_on_seg unfolding ss_def by metis
  have segs: "segments (join_segments ss) = (if ss = [] then [[]] else ss)" using seg by simp
  have first: "\<not> skipped_segment (hd ss)" if "ss \<noteq> []" using that hd_dropWhile unfolding ss_def by blast
  have abs: "\<not> is_absolute (join_segments ss)"
  proof (cases ss)
    case (Cons s ts)
    have "join_segments ss = s @ (if ts = [] then [] else SLASH # join_segments ts)" using Cons by (cases ts) simp_all
    then show ?thesis using first seg [of s] Cons by (cases s) auto
  qed simp
  have "\<not> starts_with_dot (join_segments ss)"
    using first segs unfolding starts_with_dot_def by (cases "ss = []") auto
  then show "\<not> is_absolute (rest_path (Suc n) p)" "comps (segments (rest_path (Suc n) p)) = drop (Suc n) (components p)"
    "components (rest_path (Suc n) p) = drop (Suc n) (components p)"
    using abs b segs unfolding r by (simp_all add: components_relative split: if_splits)
qed

lemma components_root [simp]: "components [SLASH] = [RootDir]"
  by (simp add: components_def)

lemma strip_root: "is_absolute p \<Longrightarrow> strip_prefix p [SLASH] = Some (rest_path (Suc 0) p)"
  by (simp add: strip_prefix_def starts_with_def components_def [of p])

text \<open>The name of a normal component is one segment, which is not skipped.\<close>

definition normal_name :: "path \<Rightarrow> bool" where
  "normal_name s \<longleftrightarrow> SLASH \<notin> set s \<and> \<not> skipped_segment s \<and> s \<noteq> [DOT, DOT]"

lemma normal_component: "NormalDir s \<in> set (components p) \<Longrightarrow> normal_name s"
  using split_on_seg [of s SLASH] split_on_seg
  by (auto simp: components_bytes comps_def segment_component_def normal_name_def split: if_splits)

lemma normal_name_simps:
  "normal_name s \<Longrightarrow> \<not> is_absolute s" "normal_name s \<Longrightarrow> comps (segments s) = [NormalDir s]" "normal_name s \<Longrightarrow> s \<noteq> []"
  by (auto simp: normal_name_def is_absolute_def split_on_notin comps_def segment_component_def split: list.split)

lemma components_push_name:
  "p \<noteq> [] \<Longrightarrow> normal_name s \<Longrightarrow> components (path_push p s) = components p @ [NormalDir s]"
  by (simp add: components_path_push normal_name_simps)

lemma push_name_props: "p \<noteq> [] \<Longrightarrow> normal_name s \<Longrightarrow> path_push p s \<noteq> [] \<and> is_absolute (path_push p s) = is_absolute p"
  by (simp add: path_push_def normal_name_simps)

lemma trim_snoc: "\<not> skipped_segment s \<Longrightarrow> trim_segments (ss @ [s]) = ss @ [s]"
  by (simp add: trim_segments_def)

lemma trim_last: "trim_segments ss \<noteq> [] \<Longrightarrow> \<not> skipped_segment (last (trim_segments ss))"
  unfolding trim_segments_def by (simp add: last_rev hd_dropWhile)

lemma components_pop:
  assumes "is_absolute p"
  shows "is_absolute (path_pop p) \<and> (components p \<noteq> [RootDir] \<longrightarrow> components (path_pop p) = butlast (components p))"
proof -
  define ss where "ss = trim_segments (segments (tl p))"
  have cp: "components p = RootDir # comps ss" using assms by (simp add: ss_def components_def)
  show ?thesis
  proof (cases "ss = []")
    case True
    then show ?thesis using assms cp by (simp add: path_pop_def path_parent_def ss_def Let_def)
  next
    case False
    define ts where "ts = trim_segments (butlast ss)"
    have pop: "path_pop p = SLASH # join_segments ts"
      using assms False by (simp add: path_pop_def path_parent_def ss_def ts_def Let_def)
    have seg: "SLASH \<notin> set s" if "s \<in> set ts" for s
      using that set_trim [of s] split_on_seg in_set_butlastD unfolding ts_def ss_def by metis
    have "comps (segments (join_segments ts)) = comps ts" using seg by (cases "ts = []") simp_all
    moreover have "comps ss = comps (butlast ss) @ [segment_component (last ss)]"
      using False trim_last [of "segments (tl p)"] append_butlast_last_id [of ss] comps_append [of "butlast ss" "[last ss]"]
      by (simp add: ss_def comps_def)
    ultimately show ?thesis using pop cp by (simp add: components_root_slash ts_def)
  qed
qed

end
