(* ===== verification/Procfs.thy ===== *)
theory Procfs
  imports Rust_Path Ptrace_Common
begin

text \<open>
  The \<open>procfs\<close> crate: the working directory and the open files of a process through \<open>/proc\<close>
  (\<open>procfs/src/pids.rs\<close>), and the configuration of the kernel in \<open>/proc/config.gz\<close>
  (\<open>procfs/src/config_gz.rs\<close>).  Reading a symbolic link and decompression are parameters; the
  decompressed stream is its bytes and the error that ends it, if one does.
\<close>

section \<open>Errors\<close>

datatype procfs_error = InvalidGzip errno | NoGzip errno | IO errno

definition ENOENT :: errno where "ENOENT = 2"

section \<open>Processes\<close>

type_synonym 'k read_link = "path \<Rightarrow> 'k \<Rightarrow> (errno + path) \<times> 'k"

definition pid_path :: "pid \<Rightarrow> path" where
  "pid_path pid = path_push (path_push [] (bytes_of_string ''/proc'')) (decimal pid)"

definition getcwd :: "'k read_link \<Rightarrow> pid \<Rightarrow> ('k, procfs_error, path) io" where
  "getcwd read_link pid = call IO (read_link (path_push (pid_path pid) (bytes_of_string ''cwd'')))"

definition getfd_path :: "'k read_link \<Rightarrow> pid \<Rightarrow> int \<Rightarrow> ('k, procfs_error, path option) io" where
  "getfd_path read_link pid fd = (\<lambda>k.
     case read_link (path_push (path_push (pid_path pid) (bytes_of_string ''fd'')) (decimal fd)) k of
       (Inr ans, k) \<Rightarrow> (Inr (Some ans), k)
     | (Inl x, k) \<Rightarrow> if x = ENOENT then (Inr None, k) else (Inl (Err (IO x)), k))"

section \<open>Configuration of the kernel\<close>

record config_gz_line =
  line_content :: "u8 list"

record config_gz =
  cg_lines :: "config_gz_line list"
  override_lines :: "config_gz_line list"

definition default_config_gz :: config_gz where
  "default_config_gz = \<lparr>cg_lines = [], override_lines = []\<rparr>"

definition WHITESPACES :: "u8 list" where
  "WHITESPACES = [32, 9, 10, 13]"

text \<open>\<open>Iterator::position\<close> and \<open>rposition\<close>.\<close>

fun position_of :: "('a \<Rightarrow> bool) \<Rightarrow> 'a list \<Rightarrow> nat option" where
  "position_of P [] = None"
| "position_of P (x # xs) = (if P x then Some 0 else map_option Suc (position_of P xs))"

definition rposition_of :: "('a \<Rightarrow> bool) \<Rightarrow> 'a list \<Rightarrow> nat option" where
  "rposition_of P xs = map_option (\<lambda>i. length xs - 1 - i) (position_of P (rev xs))"

definition strip_slice :: "u8 list \<Rightarrow> u8 list" where
  "strip_slice input =
     (case position_of (\<lambda>x. x \<notin> set WHITESPACES) input of
        Some left \<Rightarrow>
          (let right = the (rposition_of (\<lambda>x. x \<notin> set WHITESPACES) input)
           in drop left (take (right + 1) input))
      | None \<Rightarrow> take 0 input)"

definition preproc :: "config_gz_line \<Rightarrow> (u8 list \<times> nat) option" where
  "preproc l =
     (let bytes = line_content l;
          bytes = (case position_of (\<lambda>x. x = 35) bytes of
                       Some ignore_idx \<Rightarrow> take ignore_idx bytes
                     | None \<Rightarrow> bytes)
      in case position_of (\<lambda>x. x = 61) bytes of
           None \<Rightarrow> None
         | Some eq_idx \<Rightarrow> Some (bytes, eq_idx))"

definition maybe_value :: "config_gz_line \<Rightarrow> (u8 list \<times> nat) option" where
  "maybe_value l =
     (case preproc l of
        None \<Rightarrow> None
      | Some (bytes, idx) \<Rightarrow>
          Some (strip_slice (if idx + 1 \<le> length bytes then drop (idx + 1) bytes else []), idx))"

definition maybe_name :: "config_gz_line \<Rightarrow> (u8 list \<times> nat) option" where
  "maybe_name l =
     (case preproc l of
        None \<Rightarrow> None
      | Some (bytes, idx) \<Rightarrow>
          Some (strip_slice (if idx \<le> length bytes then take idx bytes else []), idx))"

text \<open>
  The loop over \<open>read_until\<close>: a line ends with a newline or with the stream; an error of the stream ends
  the loop and loses the line it is in, the lines before it are kept.
\<close>

definition NEWLINE :: u8 where "NEWLINE = 10"

function read_lines :: "u8 list \<Rightarrow> errno option \<Rightarrow> config_gz_line list \<Rightarrow> (procfs_error + unit) \<times> config_gz_line list" where
  "read_lines stream err lines =
     (case position_of (\<lambda>x. x = NEWLINE) stream of
        Some i \<Rightarrow> read_lines (drop (i + 1) stream) err (lines @ [\<lparr>line_content = take (i + 1) stream\<rparr>])
      | None \<Rightarrow>
          (case err of
             Some x \<Rightarrow> (Inl (InvalidGzip x), lines)
           | None \<Rightarrow> (Inr (), if stream = [] then lines else lines @ [\<lparr>line_content = stream\<rparr>])))"
  by pat_completeness auto
termination
  by (relation "measure (\<lambda>(stream, err, lines). length stream)")
     (auto simp: neq_Nil_conv split: if_splits elim!: position_of.elims)

declare read_lines.simps [simp del]

definition init_from_host_os ::
  "('k \<Rightarrow> (errno + u8 list \<times> errno option) \<times> 'k) \<Rightarrow> config_gz \<Rightarrow> 'k \<Rightarrow> (procfs_error + unit) \<times> config_gz \<times> 'k" where
  "init_from_host_os open_config_gz c k =
     (case open_config_gz k of
        (Inl x, k) \<Rightarrow> (Inl (NoGzip x), c, k)
      | (Inr (stream, err), k) \<Rightarrow>
          (case read_lines stream err [] of (r, lines) \<Rightarrow> (r, c\<lparr>cg_lines := lines\<rparr>, k)))"

section \<open>Lemmas\<close>

lemma position_of_None: "position_of P xs = None \<longleftrightarrow> (\<forall>x \<in> set xs. \<not> P x)"
  by (induction xs) auto

lemma position_of_append: "(\<And>x. x \<in> set xs \<Longrightarrow> \<not> P x) \<Longrightarrow> P y \<Longrightarrow> position_of P (xs @ y # ys) = Some (length xs)"
  by (induction xs) auto

lemma rposition_of_append:
  assumes "\<And>x. x \<in> set ys \<Longrightarrow> \<not> P x" "P y"
  shows "rposition_of P (xs @ y # ys) = Some (length xs)"
proof -
  have "position_of P (rev ys @ y # rev xs) = Some (length (rev ys))"
    using assms by (intro position_of_append) auto
  then show ?thesis by (simp add: rposition_of_def)
qed

lemma position_of_less: "position_of P xs = Some i \<Longrightarrow> i < length xs"
  by (induction xs arbitrary: i) (auto split: if_splits)

abbreviation white :: "u8 list \<Rightarrow> bool" where
  "white ws \<equiv> set ws \<subseteq> set WHITESPACES"

text \<open>Text without white space at its ends.\<close>

definition stripped :: "u8 list \<Rightarrow> bool" where
  "stripped s \<longleftrightarrow> s = [] \<or> (hd s \<notin> set WHITESPACES \<and> last s \<notin> set WHITESPACES)"

lemma strip_slice_white: "white ws \<Longrightarrow> strip_slice ws = []"
  using position_of_None [of "\<lambda>x. x \<notin> set WHITESPACES" ws] by (auto simp: strip_slice_def)

lemma strip_slice_stripped:
  assumes "white ws" "white ws'" "stripped s"
  shows "strip_slice (ws @ s @ ws') = s"
proof (cases "s = []")
  case True
  then show ?thesis using assms strip_slice_white [of "ws @ ws'"] by simp
next
  case False
  then obtain x xs ys y where s: "s = x # xs" "s = ys @ [y]" by (metis append_butlast_last_id list.exhaust)
  have x: "x \<notin> set WHITESPACES" "y \<notin> set WHITESPACES" using assms(3) s False unfolding stripped_def by (metis list.sel(1), metis last_snoc)
  have "position_of (\<lambda>x. x \<notin> set WHITESPACES) (ws @ s @ ws') = Some (length ws)"
    using position_of_append [where P = "\<lambda>x. x \<notin> set WHITESPACES" and xs = ws and y = x and ys = "xs @ ws'"] assms(1) x s by auto
  moreover have "rposition_of (\<lambda>x. x \<notin> set WHITESPACES) (ws @ s @ ws') = Some (length (ws @ ys))"
    using rposition_of_append [where P = "\<lambda>x. x \<notin> set WHITESPACES" and xs = "ws @ ys" and y = y and ys = ws'] assms(2) x(2)
    unfolding s(2) by auto
  moreover have "length ys + 1 = length s" using s(2) by simp
  ultimately show ?thesis by (simp add: strip_slice_def)
qed

text \<open>What the parser sees of a line \<open>name = value # comment\<close> with any white space.\<close>

lemma preproc_line:
  assumes "35 \<notin> set (key @ val)" "61 \<notin> set key" "comment = [] \<or> hd comment = 35"
  shows "preproc \<lparr>line_content = key @ 61 # val @ comment\<rparr> = Some (key @ 61 # val, length key)"
proof -
  have "position_of (\<lambda>x. x = 61) (key @ 61 # val) = Some (length key)"
    using assms(2) by (intro position_of_append) auto
  moreover have "(case position_of (\<lambda>x. x = 35) (key @ 61 # val @ comment) of
      Some i \<Rightarrow> take i (key @ 61 # val @ comment) | None \<Rightarrow> key @ 61 # val @ comment) = key @ 61 # val"
  proof (cases comment)
    case Nil
    then have "position_of (\<lambda>x. x = 35) (key @ 61 # val @ comment) = None" using assms(1) by (auto simp: position_of_None)
    then show ?thesis using Nil by simp
  next
    case (Cons c cs)
    then have "position_of (\<lambda>x. x = 35) ((key @ 61 # val) @ c # cs) = Some (length (key @ 61 # val))"
      using assms(1,3) by (intro position_of_append) auto
    then show ?thesis using Cons by simp
  qed
  ultimately show ?thesis by (simp add: preproc_def Let_def del: One_nat_def)
qed

text \<open>The lines are the stream, cut after the newlines.\<close>

lemma read_lines_ok:
  "\<exists>ls. read_lines stream None lines = (Inr (), lines @ ls) \<and> concat (map line_content ls) = stream \<and>
     (\<forall>l \<in> set ls. line_content l \<noteq> [] \<and> NEWLINE \<notin> set (butlast (line_content l)))"
proof (induction stream arbitrary: lines rule: length_induct)
  case (1 stream)
  show ?case
  proof (cases "position_of (\<lambda>x. x = NEWLINE) stream")
    case None
    then have "NEWLINE \<notin> set stream" by (auto simp: position_of_None)
    then show ?thesis using None
      by (intro exI [of _ "if stream = [] then [] else [\<lparr>line_content = stream\<rparr>]"])
         (auto simp: read_lines.simps [of stream] dest: in_set_butlastD)
  next
    case (Some i)
    then have i: "i < length stream" by (rule position_of_less)
    then have "length (drop (i + 1) stream) < length stream" by simp
    then obtain ls where ls: "read_lines (drop (i + 1) stream) None (lines @ [\<lparr>line_content = take (i + 1) stream\<rparr>]) =
        (Inr (), (lines @ [\<lparr>line_content = take (i + 1) stream\<rparr>]) @ ls)"
      "concat (map line_content ls) = drop (i + 1) stream"
      "\<forall>l \<in> set ls. line_content l \<noteq> [] \<and> NEWLINE \<notin> set (butlast (line_content l))"
      using 1 [rule_format, of "drop (i + 1) stream" "lines @ [\<lparr>line_content = take (i + 1) stream\<rparr>]"] by blast
    have "NEWLINE \<notin> set (take i stream)" using Some
    proof (induction stream arbitrary: i)
      case (Cons x xs)
      then show ?case by (cases i) (auto split: if_splits)
    qed simp
    then have "NEWLINE \<notin> set (butlast (take (i + 1) stream))" using i by (simp add: butlast_take)
    moreover have "take (i + 1) stream \<noteq> []" using i by auto
    ultimately show ?thesis using Some ls
      by (intro exI [of _ "\<lparr>line_content = take (i + 1) stream\<rparr> # ls"]) (simp add: read_lines.simps [of stream])
  qed
qed

section \<open>Properties\<close>

text \<open>
  A line of the form \<open>name = value # comment\<close> is taken apart: \<open>maybe_name\<close> and \<open>maybe_value\<close> give name
  and value without the white space around them, and the place of the equals sign.  The name has no \<open>=\<close>,
  neither has a \<open>#\<close>.
\<close>

theorem config_line_parsed:
  assumes "white a" "white b" "white c" "white d" "stripped name" "stripped val"
    and "35 \<notin> set name" "61 \<notin> set name" "35 \<notin> set val" "comment = [] \<or> hd comment = 35"
    and "l = \<lparr>line_content = a @ name @ b @ [61] @ c @ val @ d @ comment\<rparr>"
  shows "maybe_name l = Some (name, length (a @ name @ b)) \<and> maybe_value l = Some (val, length (a @ name @ b))"
proof -
  have ws: "35 \<notin> set ws" "61 \<notin> set ws" if "white ws" for ws using that by (auto simp: WHITESPACES_def)
  have "preproc \<lparr>line_content = (a @ name @ b) @ 61 # (c @ val @ d) @ comment\<rparr> =
      Some ((a @ name @ b) @ 61 # (c @ val @ d), length (a @ name @ b))"
    using assms ws by (intro preproc_line) auto
  then have "preproc l = Some ((a @ name @ b) @ 61 # (c @ val @ d), length (a @ name @ b))"
    unfolding assms(11) by simp
  then show ?thesis
    using strip_slice_stripped [of a b name] strip_slice_stripped [of c d val] assms
    by (simp add: maybe_name_def maybe_value_def)
qed

theorem config_line_parsed_witness:
  "maybe_name \<lparr>line_content = [32, 65, 66, 32, 61, 9, 121, 10]\<rparr> = Some ([65, 66], 4) \<and>
   maybe_value \<lparr>line_content = [32, 65, 66, 32, 61, 9, 121, 10]\<rparr> = Some ([121], 4)"
  using config_line_parsed [of "[32]" "[32]" "[9]" "[10]" "[65, 66]" "[121]" "[]"
      "\<lparr>line_content = [32, 65, 66, 32, 61, 9, 121, 10]\<rparr>"]
  by (simp add: WHITESPACES_def stripped_def)

text \<open>
  Reading the configuration terminates and, on a stream without an error, gives the lines of the
  stream: each ends at a newline or at the end of the stream, none is empty, and together they are the
  stream.  What was there before is replaced.
\<close>

theorem config_lines_are_stream:
  assumes "open_config_gz k = (Inr (stream, None), k')"
  shows "\<exists>c'. init_from_host_os open_config_gz c k = (Inr (), c', k') \<and>
    concat (map line_content (cg_lines c')) = stream \<and>
    (\<forall>l \<in> set (cg_lines c'). line_content l \<noteq> [] \<and> NEWLINE \<notin> set (butlast (line_content l))) \<and>
    override_lines c' = override_lines c"
  using read_lines_ok [of stream "[]"] assms by (auto simp: init_from_host_os_def)

theorem config_lines_are_stream_witness:
  "\<exists>c'. init_from_host_os (\<lambda>k. (Inr ([65, 10, 66], None), k)) default_config_gz () = (Inr (), c', ()) \<and>
    concat (map line_content (cg_lines c')) = [65, 10, 66]"
  using config_lines_are_stream [of "\<lambda>k. (Inr ([65, 10, 66], None), k)" "()" "[65, 10, 66]" "()" default_config_gz]
  by blast

end
