(* ===== verification/Syscall_Info.thy ===== *)
theory Syscall_Info
  imports Executor Procfs
begin

text \<open>
  The types that the modules of the \<open>sysaug\<close> crate share (\<open>sysaug/src/common.rs\<close>): errors, command line
  arguments, the kinds of augmentation, the description of a system call, and the helpers for locks.
  Paths are byte strings.  Errors of libraries are represented by their number or message.
\<close>

section \<open>Errors and arguments\<close>

datatype sysaug_error =
    InternalExecutor executor_error
  | ParseWaitStatus errno
  | Procfs procfs_error
  | Ptrace ptrace_error
  | PtraceDetach errno
  | PtraceGetSigInfo
  | PtraceGetSigInfo2 errno
  | PtraceRead errno
  | PtraceSetOptions errno
  | PtraceSyscallE errno
  | PtraceContinue errno
  | ReadKernelVersion errno
  | ParseKernelVersion string
  | AbsolutePath path
  | ConvertAbsolutePath errno
  | ConvertAbsolutePathPrefix
  | DirfdReg
  | GDBDetach errno
  | GDB errno
  | IntoIntE
  | ListMetadata errno
  | LockTraceeHandler
  | TraceeCrashed
  | WriteMetadata string
  | MetadataDir errno
  | DeleteMetadata errno
  | NullValue string
  | UnimplementedAugment
  | ReadBin errno
  | ReadSymlink errno
  | ModE string string string
  | InitMissingSavedRegs
  | AsyncMismatch ptrace_future_type wait_status
  | AsyncMisMatchSyscall string wait_status
  | AsyncRuntime async_runtime_error
  | WeakReference
  | SeccompInit
  | ParseRootFsMetadata string
  | WriteRootFsMetadata errno
  | WriteRootFsMetadata2 string
  | LockRootFsMetadata
  | CheckRootFsMetadata errno
  | SyscallMissingField string

datatype perms_mode = Passthrough | RootOnly | SudoOnly

record sysaug_args =
  args_chroot :: "path option"
  args_rootfs :: "path option"
  args_perms_mode :: perms_mode
  args_fail_fast :: bool
  args_fix_sigsys :: bool
  args_fix_mmap :: bool
  args_gdb :: bool
  args_gdb_at :: "usize option"
  args_use_native_loader :: bool

section \<open>Augments\<close>

datatype augments =
    AugClone | AugExec | AugPaths | AugPerms | AugSeccomp | AugWaitpid | AugNone | AugUnimplemented

definition default_augments :: augments where
  "default_augments = AugNone"

datatype path_action = ELOOP | NoAction | HidePath | Override path

record rootfs_metadata =
  md_chmod :: "usize option"
  md_chown_owner :: "usize option"
  md_chown_group :: "usize option"

definition default_rootfs_metadata :: rootfs_metadata where
  "default_rootfs_metadata = \<lparr>md_chmod = None, md_chown_owner = None, md_chown_group = None\<rparr>"

section \<open>System calls\<close>

datatype del_type = DelFile | DelDir

datatype perm_type = Chmod | ChmodOnCreation | Chown

record syscall_info =
  augment :: augments
  flags :: "nat option"
  path_positions :: usize
  dirfd_position :: "nat option"
  filefd_position :: "nat option"
  dirfd_precedes_path :: bool
  getdents_bits :: "nat option"
  stat_buf_position :: "nat option"
  stat_legacy_buf_position :: "nat option"
  stat64_buf_position :: "nat option"
  statx_buf_position :: "nat option"
  sets_file_perms :: "perm_type option"
  file_perms_position :: "nat option"
  deletion_type :: "del_type option"
  dont_follow_symlink :: bool
  flag_dont_follow_symlink :: "usize option"
  is_setter :: bool
  res_bits :: u8
  resf_bit :: "nat option"
  seccomp_position :: "nat option"
  num :: int
  full_name :: string

definition default_syscall_info :: syscall_info where
  "default_syscall_info = \<lparr>
     augment = AugNone,
     flags = None,
     path_positions = 0,
     dirfd_position = None,
     filefd_position = None,
     dirfd_precedes_path = False,
     getdents_bits = None,
     stat_buf_position = None,
     stat_legacy_buf_position = None,
     stat64_buf_position = None,
     statx_buf_position = None,
     sets_file_perms = None,
     file_perms_position = None,
     deletion_type = None,
     dont_follow_symlink = False,
     flag_dont_follow_symlink = None,
     is_setter = False,
     res_bits = 0,
     resf_bit = None,
     seccomp_position = None,
     num = 0,
     full_name = ''''\<rparr>"

text \<open>\<open>&self.name[10..]\<close>, which panics on a shorter string.\<close>

definition syscall_name :: "syscall_info \<Rightarrow> string option" where
  "syscall_name info = (if 10 \<le> length (full_name info) then Some (drop 10 (full_name info)) else None)"

text \<open>Constants that \<open>libc\<close> does not define.\<close>

definition PR_SET_SECCOMP :: usize where "PR_SET_SECCOMP = 22"
definition PR_SET_NO_NEW_PRIVS :: usize where "PR_SET_NO_NEW_PRIVS = 38"
definition SECCOMP_SET_MODE_FILTER :: usize where "SECCOMP_SET_MODE_FILTER = 1"
definition SECCOMP_FILTER_FLAG_TSYNC :: usize where "SECCOMP_FILTER_FLAG_TSYNC = 1"
definition SYS_MMAP_PGOFFSET_BLOCK :: usize where "SYS_MMAP_PGOFFSET_BLOCK = 1"

section \<open>Locks\<close>

definition rwlock_read :: "'a rwlock \<Rightarrow> sysaug_error + 'a" where
  "rwlock_read l = lock LockTraceeHandler l"

definition rwlock_write :: "'a rwlock \<Rightarrow> sysaug_error + 'a" where
  "rwlock_write l = lock LockTraceeHandler l"

definition rwlock_replace :: "'a rwlock \<Rightarrow> 'a \<Rightarrow> sysaug_error + 'a rwlock" where
  "rwlock_replace l v = r_then (rwlock_write l) (\<lambda>_. Inr (RwLock False v))"

definition rwoption_replace :: "'a option rwlock \<Rightarrow> 'a \<Rightarrow> sysaug_error + 'a option \<times> 'a option rwlock" where
  "rwoption_replace l v = r_then (rwlock_write l) (\<lambda>old. Inr (old, RwLock False (Some v)))"

definition rwoption_setdefault :: "'a option rwlock \<Rightarrow> 'a \<Rightarrow> sysaug_error + 'a option rwlock" where
  "rwoption_setdefault l v =
     r_then (rwlock_write l) (\<lambda>old. Inr (if old = None then RwLock False (Some v) else l))"

definition rwoption_take :: "'a option rwlock \<Rightarrow> sysaug_error + 'a option \<times> 'a option rwlock" where
  "rwoption_take l = r_then (rwlock_write l) (\<lambda>old. Inr (old, RwLock False None))"

end
