(* ===== verification/Config.thy ===== *)
theory Config
  imports Syscall_Info
begin

text \<open>
  The configuration of the tracee handlers (\<open>sysaug/src/config.rs\<close>): defaults, the paths that are passed
  through to the host, the eight emulated user and group ids and the walk over the ids that a system
  call reads or writes.  Regular expressions are of a library type, the parameter \<open>'regex\<close>.  The
  \<open>HashMap\<close> of ids is the list of its entries in the order of its iteration.
\<close>

section \<open>Paths\<close>

record 'regex rename_config =
  rename_regex :: 'regex
  replacement :: "string option"
  should_replace_all :: bool

record 'regex rootfs_config =
  passthroughs :: "string list"
  host_file_perms :: usize
  host_uid :: usize
  host_gid :: usize
  rename_guest_paths :: "'regex rename_config list"
  rename_host_paths :: "'regex rename_config list"

definition default_should_replace_all :: bool where
  "default_should_replace_all = False"

definition default_passthroughs :: "string list" where
  "default_passthroughs = [''/dev'', ''/proc'', ''/sys'', ''/system/lib64'', ''/system/lib'']"

definition default_host_file_perms :: usize where
  "default_host_file_perms = 448"

text \<open>The user and group of the tracer come from the kernel.\<close>

definition default_rootfs_config :: "u32 \<Rightarrow> u32 \<Rightarrow> 'regex rootfs_config" where
  "default_rootfs_config getuid getgid = \<lparr>
     passthroughs = default_passthroughs,
     host_file_perms = default_host_file_perms,
     host_uid = ucast getuid,
     host_gid = ucast getgid,
     rename_guest_paths = [],
     rename_host_paths = []\<rparr>"

definition path_of_string :: "string \<Rightarrow> path" where
  "path_of_string s = map of_char s"

definition init_passthroughs_from_config :: "path list \<Rightarrow> 'regex rootfs_config \<Rightarrow> path list" where
  "init_passthroughs_from_config old config = map path_of_string (passthroughs config)"

section \<open>Emulated ids\<close>

definition PERMS_IDBIT_UG :: u8 where "PERMS_IDBIT_UG = 4"
definition PERMS_IDS_SIZE :: nat where "PERMS_IDS_SIZE = 8"

type_synonym perms_ids = "usize option list"

text \<open>
  The callback gets the register index and the slot, and gives the new content of the slot.  The world is
  paired with the slots, so that what was written before an error stays.
\<close>

type_synonym ('s, 'e) slot_callback = "nat option \<Rightarrow> usize option \<Rightarrow> ('s, 'e, usize option) io"

definition call_slot :: "('s, 'e) slot_callback \<Rightarrow> nat option \<Rightarrow> nat \<Rightarrow> (perms_ids \<times> 's, 'e, unit) io" where
  "call_slot callback i idx = (\<lambda>(ids, s).
     if idx < length ids
     then case callback i (ids ! idx) s of
            (Inl f, s') \<Rightarrow> (Inl f, ids, s')
          | (Inr v, s') \<Rightarrow> (Inr (), ids[idx := v], s')
     else (Inl Panic, ids, s))"

definition walk_register :: "syscall_info \<Rightarrow> ('s, 'e) slot_callback \<Rightarrow> nat \<Rightarrow> (perms_ids \<times> 's, 'e, unit) io" where
  "walk_register info callback i =
     (let ug_bit = res_bits info AND PERMS_IDBIT_UG;
          mask = push_bit i (1 :: u8)
      in if res_bits info AND mask = 0 then ret ()
         else call_slot callback (Some i) (unat (ug_bit OR of_nat i)))"

definition walk_resf_syscall ::
  "syscall_info \<Rightarrow> bool \<Rightarrow> ('s, 'e) slot_callback \<Rightarrow> (perms_ids \<times> 's, 'e, bool) io" where
  "walk_resf_syscall info multi_getter_is_success callback =
     (case resf_bit info of
        Some slot \<Rightarrow> m_then (call_slot callback None slot) (\<lambda>_. ret True)
      | None \<Rightarrow>
          if multi_getter_is_success
          then m_then (for_each (walk_register info callback) [0..<2]) (\<lambda>_. ret True)
          else ret False)"

datatype resf_ug_type =
    RealUid | EffectiveUid | SavedSetUid | FileSystemUid
  | RealGid | EffectiveGid | SavedSetGid | FileSystemGid

fun resf_discriminant :: "resf_ug_type \<Rightarrow> u8" where
  "resf_discriminant RealUid = 0"
| "resf_discriminant EffectiveUid = 1"
| "resf_discriminant SavedSetUid = 2"
| "resf_discriminant FileSystemUid = 3"
| "resf_discriminant RealGid = PERMS_IDBIT_UG OR 0"
| "resf_discriminant EffectiveGid = PERMS_IDBIT_UG OR 1"
| "resf_discriminant SavedSetGid = PERMS_IDBIT_UG OR 2"
| "resf_discriminant FileSystemGid = PERMS_IDBIT_UG OR 3"

definition resf_index :: "resf_ug_type \<Rightarrow> nat" where
  "resf_index t = unat (resf_discriminant t)"

definition resf_from_str :: "string \<Rightarrow> string + resf_ug_type" where
  "resf_from_str s =
     (if s = ''realUid'' then Inr RealUid
      else if s = ''effectiveUid'' then Inr EffectiveUid
      else if s = ''savedSetUid'' then Inr SavedSetUid
      else if s = ''fileSystemUid'' then Inr FileSystemUid
      else if s = ''realGid'' then Inr RealGid
      else if s = ''effectiveGid'' then Inr EffectiveGid
      else if s = ''savedSetGid'' then Inr SavedSetGid
      else if s = ''fileSystemGid'' then Inr FileSystemGid
      else Inl (''Invalid ResfUgType: '' @ s))"

record perms_config =
  root_ids :: "(resf_ug_type \<times> usize) list"

fun init_ids_loop :: "(resf_ug_type \<times> usize) list \<Rightarrow> perms_ids \<Rightarrow> perms_ids" where
  "init_ids_loop [] ids = ids"
| "init_ids_loop ((ty, i) # es) ids = init_ids_loop es (ids[resf_index ty := Some i])"

definition init_perms_ids_from_config :: "perms_ids \<Rightarrow> perms_config \<Rightarrow> perms_ids" where
  "init_perms_ids_from_config ids config = init_ids_loop (root_ids config) ids"

definition default_root_ids :: "(resf_ug_type \<times> usize) list" where
  "default_root_ids = [(RealUid, 0), (EffectiveUid, 0), (SavedSetUid, 0), (FileSystemUid, 0),
     (RealGid, 0), (EffectiveGid, 0), (SavedSetGid, 0), (FileSystemGid, 0)]"

definition default_perms_config :: perms_config where
  "default_perms_config = \<lparr>root_ids = default_root_ids\<rparr>"

record 'regex sysaug_config =
  cfg_rootfs :: "'regex rootfs_config"
  cfg_perms :: perms_config

definition default_sysaug_config :: "u32 \<Rightarrow> u32 \<Rightarrow> 'regex sysaug_config" where
  "default_sysaug_config getuid getgid =
     \<lparr>cfg_rootfs = default_rootfs_config getuid getgid, cfg_perms = default_perms_config\<rparr>"

section \<open>Lemmas\<close>

lemma resf_index_simps [simp]:
  "resf_index RealUid = 0" "resf_index EffectiveUid = 1" "resf_index SavedSetUid = 2"
  "resf_index FileSystemUid = 3" "resf_index RealGid = 4" "resf_index EffectiveGid = 5"
  "resf_index SavedSetGid = 6" "resf_index FileSystemGid = 7"
  by (simp_all add: resf_index_def PERMS_IDBIT_UG_def)

lemma resf_index_inject [simp]: "resf_index a = resf_index b \<longleftrightarrow> a = b"
  by (cases a; cases b) simp_all

lemma resf_index_bound [simp]: "resf_index t < 8"
  by (cases t) simp_all

lemma length_init_ids_loop [simp]: "length (init_ids_loop es ids) = length ids"
  by (induction es ids rule: init_ids_loop.induct) simp_all

lemma init_ids_loop_nth:
  assumes "length ids = PERMS_IDS_SIZE" "distinct (map fst es)"
  shows "init_ids_loop es ids ! resf_index t =
    (case map_of es t of Some i \<Rightarrow> Some i | None \<Rightarrow> ids ! resf_index t)"
  using assms
proof (induction es ids rule: init_ids_loop.induct)
  case (2 ty i es ids)
  then have "map_of es ty = None" by (simp add: map_of_eq_None_iff)
  with 2 show ?case
    by (cases "t = ty") (simp_all add: PERMS_IDS_SIZE_def nth_list_update split: option.split)
qed simp

lemma walk_resf_slot:
  "resf_bit info = Some b \<Longrightarrow> walk_resf_syscall info ok callback = m_then (call_slot callback None b) (\<lambda>_. ret True)"
  by (simp add: walk_resf_syscall_def)

lemma call_slot_Inr:
  "idx < length ids \<Longrightarrow> callback i (ids ! idx) s = (Inr v, s') \<Longrightarrow>
     call_slot callback i idx (ids, s) = (Inr (), ids[idx := v], s')"
  by (simp add: call_slot_def)

lemma call_slot_Inl:
  "idx < length ids \<Longrightarrow> callback i (ids ! idx) s = (Inl f, s') \<Longrightarrow>
     call_slot callback i idx (ids, s) = (Inl f, ids, s')"
  by (simp add: call_slot_def)

text \<open>The walk writes at most the slots it names; the others are kept on every path.\<close>

definition walk_slots :: "syscall_info \<Rightarrow> nat set" where
  "walk_slots info = (case resf_bit info of
     Some b \<Rightarrow> {b}
   | None \<Rightarrow> {unat ((res_bits info AND PERMS_IDBIT_UG) OR of_nat i) | i. i < 2 \<and> bit (res_bits info) i})"

definition ids_unchanged :: "nat set \<Rightarrow> perms_ids \<Rightarrow> perms_ids \<times> 's \<Rightarrow> bool" where
  "ids_unchanged A ids w \<longleftrightarrow> length (fst w) = length ids \<and> (\<forall>j. j \<notin> A \<longrightarrow> fst w ! j = ids ! j)"

lemma keeps_call_slot: "idx \<in> A \<Longrightarrow> keeps (ids_unchanged A ids) (call_slot callback i idx)"
  by (auto simp: ensures_def ids_unchanged_def call_slot_def nth_list_update split: prod.splits sum.splits)

lemma and_push_bit_1: "((w :: u8) AND push_bit i 1 = 0) \<longleftrightarrow> \<not> bit w i"
  using bit_iff_and_push_bit_not_eq_0 [of w i] by simp

lemma keeps_for_each: "(\<And>x. x \<in> set xs \<Longrightarrow> keeps P (f x)) \<Longrightarrow> keeps P (for_each f xs)"
proof (induction xs)
  case (Cons x xs)
  then show ?case by (auto intro!: ensures_then [where Q = "\<lambda>_. True"])
qed (simp add: ensures_intros)

lemma keeps_walk: "keeps (ids_unchanged (walk_slots info) ids) (walk_resf_syscall info ok callback)"
proof (cases "resf_bit info")
  case None
  have "keeps (ids_unchanged (walk_slots info) ids) (walk_register info callback i)" if "i < 2" for i
  proof (cases "bit (res_bits info) i")
    case True
    then have "unat ((res_bits info AND PERMS_IDBIT_UG) OR of_nat i) \<in> walk_slots info"
      using None that unfolding walk_slots_def by auto
    then show ?thesis
      using True unfolding walk_register_def Let_def and_push_bit_1 by (simp add: keeps_call_slot)
  next
    case False
    then show ?thesis unfolding walk_register_def Let_def and_push_bit_1 by (simp add: ensures_intros)
  qed
  then have "keeps (ids_unchanged (walk_slots info) ids) (for_each (walk_register info callback) [0..<2])"
    by (intro keeps_for_each) simp
  with None show ?thesis
    by (auto simp: walk_resf_syscall_def intro!: ensures_then [where Q = "\<lambda>_. True"] ensures_intros)
next
  case (Some b)
  then have "keeps (ids_unchanged (walk_slots info) ids) (call_slot callback None b)"
    by (intro keeps_call_slot) (simp add: walk_slots_def)
  then show ?thesis
    using Some by (auto simp: walk_resf_slot intro!: ensures_then [where Q = "\<lambda>_. True"] ensures_intros)
qed

end
