(* ===== verification/Syscalls.thy ===== *)
theory Syscalls
  imports Syscall_Info
begin

text \<open>
  The table of the system calls that are intercepted, and the seccomp program that is made from it
  (\<open>sysaug/src/syscalls.rs\<close>, for \<open>x86_64\<close>).  The numbers of the system calls are constants of the \<open>libc\<close>
  crate; they are the parameter \<open>libc\<close>, with the hypothesis \<open>libc_ok\<close>.  The macros write an array of 512 entries at
  compile time; a panic of the constant evaluation is \<open>None\<close>.
\<close>

section \<open>Definition of the table\<close>

record libc =
  SYS :: "string \<Rightarrow> int"
  AT_SYMLINK_NOFOLLOW :: usize

definition MAX_RAW_SYSCALL_INFOS :: nat where "MAX_RAW_SYSCALL_INFOS = 512"
definition MAX_SYSCALL_NUMBER :: nat where "MAX_SYSCALL_NUMBER = 1024"

text \<open>The conversion \<open>as usize\<close> of a system call number.\<close>

definition as_usize :: "int \<Rightarrow> usize" where
  "as_usize n = of_int n"

definition NO_MOD_SYSCALL :: "libc \<Rightarrow> usize" where
  "NO_MOD_SYSCALL L = as_usize (SYS L ''getpid'')"

text \<open>
  The array and the last index written.  \<open>Define\<close> is what all the \<open>define_..._syscall!\<close> macros do with the
  entry they build; \<open>Modify\<close> is the \<open>if let Some(val) = iter[next].as_mut()\<close> that may follow.
\<close>

type_synonym builder = "syscall_info option list \<times> nat"

datatype define_step = Define syscall_info | Modify "syscall_info \<Rightarrow> syscall_info"

fun run_step :: "libc \<Rightarrow> define_step \<Rightarrow> builder \<Rightarrow> builder option" where
  "run_step L (Define info) (iter, next) =
     (let next = next + 1
      in if next \<ge> MAX_RAW_SYSCALL_INFOS then None
         else if as_usize (num info) = NO_MOD_SYSCALL L then None
         else Some (iter[next := Some info], next))"
| "run_step L (Modify f) (iter, next) = Some (iter[next := map_option f (iter ! next)], next)"

fun run_steps :: "libc \<Rightarrow> define_step list \<Rightarrow> builder \<Rightarrow> builder option" where
  "run_steps L [] b = Some b"
| "run_steps L (s # ss) b = (case run_step L s b of None \<Rightarrow> None | Some b' \<Rightarrow> run_steps L ss b')"

text \<open>The name of a system call as the macros take it: the stringified expression and its value.\<close>

definition libc_SYS :: "libc \<Rightarrow> string \<Rightarrow> string \<times> int" where
  "libc_SYS L n = (''libc::SYS_'' @ n, SYS L n)"

definition define_syscall :: "string \<times> int \<Rightarrow> augments \<Rightarrow> define_step" where
  "define_syscall name aug = Define (default_syscall_info\<lparr>augment := aug,
     full_name := fst name, num := snd name\<rparr>)"

definition define_seccomp_syscall :: "string \<times> int \<Rightarrow> nat \<Rightarrow> define_step" where
  "define_seccomp_syscall name position = Define (default_syscall_info\<lparr>augment := AugSeccomp, seccomp_position := Some position,
     full_name := fst name, num := snd name\<rparr>)"

definition define_fileperms_syscall :: "string \<times> int \<Rightarrow> perm_type \<Rightarrow> nat \<Rightarrow> define_step" where
  "define_fileperms_syscall name perm perms_pos = Define (default_syscall_info\<lparr>augment := AugPaths, sets_file_perms := Some perm,
     file_perms_position := Some perms_pos,
     full_name := fst name, num := snd name\<rparr>)"

definition define_perms_syscall :: "string \<times> int \<Rightarrow> bool \<Rightarrow> u8 \<Rightarrow> nat option \<Rightarrow> define_step" where
  "define_perms_syscall name setter res resf = Define (default_syscall_info\<lparr>augment := AugPerms, is_setter := setter,
     res_bits := res, resf_bit := resf,
     full_name := fst name, num := snd name\<rparr>)"

definition define_paths_syscall :: "string \<times> int \<Rightarrow> usize \<Rightarrow> define_step" where
  "define_paths_syscall name paths = Define (default_syscall_info\<lparr>augment := AugPaths, path_positions := paths,
     getdents_bits := None,
     full_name := fst name, num := snd name\<rparr>)"

definition define_paths_deletion_syscall :: "string \<times> int \<Rightarrow> usize \<Rightarrow> del_type \<Rightarrow> define_step" where
  "define_paths_deletion_syscall name paths del = Define (default_syscall_info\<lparr>augment := AugPaths, path_positions := paths,
     getdents_bits := None, deletion_type := Some del,
     full_name := fst name, num := snd name\<rparr>)"

definition define_paths_fileperms_syscall :: "string \<times> int \<Rightarrow> usize \<Rightarrow> perm_type \<Rightarrow> nat \<Rightarrow> define_step" where
  "define_paths_fileperms_syscall name paths perm perms_pos = Define (default_syscall_info\<lparr>augment := AugPaths, path_positions := paths,
     getdents_bits := None, sets_file_perms := Some perm, file_perms_position := Some perms_pos,
     full_name := fst name, num := snd name\<rparr>)"

definition define_dirfd_syscall :: "string \<times> int \<Rightarrow> usize \<Rightarrow> nat \<Rightarrow> define_step" where
  "define_dirfd_syscall name paths dirfd = Define (default_syscall_info\<lparr>augment := AugPaths, path_positions := paths,
     dirfd_position := Some dirfd, getdents_bits := None,
     full_name := fst name, num := snd name\<rparr>)"

definition define_filefd_syscall :: "string \<times> int \<Rightarrow> nat \<Rightarrow> define_step" where
  "define_filefd_syscall name filefd = Define (default_syscall_info\<lparr>augment := AugPaths, filefd_position := Some filefd,
     getdents_bits := None,
     full_name := fst name, num := snd name\<rparr>)"

definition define_dirfd2_syscall :: "string \<times> int \<Rightarrow> usize \<Rightarrow> define_step" where
  "define_dirfd2_syscall name paths = Define (default_syscall_info\<lparr>augment := AugPaths, path_positions := paths,
     dirfd_precedes_path := True, dirfd_position := None, getdents_bits := None,
     full_name := fst name, num := snd name\<rparr>)"

definition define_dirfd_deletion_syscall :: "string \<times> int \<Rightarrow> usize \<Rightarrow> nat \<Rightarrow> del_type \<Rightarrow> define_step" where
  "define_dirfd_deletion_syscall name paths dirfd del = Define (default_syscall_info\<lparr>augment := AugPaths, path_positions := paths,
     dirfd_position := Some dirfd, getdents_bits := None, deletion_type := Some del,
     full_name := fst name, num := snd name\<rparr>)"

definition define_dirfd_fileperms_syscall :: "string \<times> int \<Rightarrow> usize \<Rightarrow> nat \<Rightarrow> perm_type \<Rightarrow> nat \<Rightarrow> define_step" where
  "define_dirfd_fileperms_syscall name paths dirfd perm perms_pos = Define (default_syscall_info\<lparr>augment := AugPaths, path_positions := paths,
     dirfd_position := Some dirfd, getdents_bits := None, sets_file_perms := Some perm,
     file_perms_position := Some perms_pos,
     full_name := fst name, num := snd name\<rparr>)"

definition define_getdents_syscall :: "string \<times> int \<Rightarrow> nat \<Rightarrow> define_step" where
  "define_getdents_syscall name bits = Define (default_syscall_info\<lparr>augment := AugPaths, path_positions := 0,
     getdents_bits := Some bits,
     full_name := fst name, num := snd name\<rparr>)"

section \<open>The system calls\<close>

definition perms_syscalls :: "libc \<Rightarrow> define_step list" where
  "perms_syscalls L = [
     define_syscall (libc_SYS L ''clone'') AugClone,
     define_syscall (libc_SYS L ''wait4'') AugWaitpid,
     define_perms_syscall (libc_SYS L ''getuid'') False 0 (Some 4),
     define_perms_syscall (libc_SYS L ''geteuid'') False 0 (Some 5),
     define_perms_syscall (libc_SYS L ''getgid'') False 0 (Some 0),
     define_perms_syscall (libc_SYS L ''getegid'') False 0 (Some 1),
     define_perms_syscall (libc_SYS L ''getgroups'') False 0 None,
     define_perms_syscall (libc_SYS L ''setuid'') True 0 (Some 4),
     define_perms_syscall (libc_SYS L ''setgid'') True 0 (Some 0),
     define_perms_syscall (libc_SYS L ''setgroups'') True 0 None,
     define_perms_syscall (libc_SYS L ''setregid'') True 3 None,
     define_perms_syscall (libc_SYS L ''setreuid'') True 19 None,
     define_perms_syscall (libc_SYS L ''setresgid'') True 7 None,
     define_perms_syscall (libc_SYS L ''setresuid'') True 23 None,
     define_perms_syscall (libc_SYS L ''setfsgid'') True 0 (Some 3),
     define_perms_syscall (libc_SYS L ''setfsuid'') True 0 (Some 7)]"

definition seccomp_syscalls :: "libc \<Rightarrow> define_step list" where
  "seccomp_syscalls L = [
     define_seccomp_syscall (libc_SYS L ''prctl'') 1,
     define_seccomp_syscall (libc_SYS L ''seccomp'') 0]"

definition path_syscalls :: "libc \<Rightarrow> define_step list" where
  "path_syscalls L = [
     define_paths_syscall (libc_SYS L ''acct'') 1,
     define_paths_syscall (libc_SYS L ''chdir'') 1,
     define_paths_syscall (libc_SYS L ''chroot'') 1,
     define_paths_syscall (libc_SYS L ''getxattr'') 1,
     define_paths_syscall (libc_SYS L ''listxattr'') 1,
     define_paths_syscall (libc_SYS L ''removexattr'') 1,
     define_paths_syscall (libc_SYS L ''setxattr'') 1,
     define_paths_syscall (libc_SYS L ''swapoff'') 1,
     define_paths_syscall (libc_SYS L ''swapon'') 1,
     define_paths_syscall (libc_SYS L ''umount2'') 1,
     define_syscall (libc_SYS L ''execve'') AugExec]"

definition dirfd_syscalls :: "libc \<Rightarrow> define_step list" where
  "dirfd_syscalls L = [
     define_dirfd_syscall (libc_SYS L ''name_to_handle_at'') 2 0,
     define_dirfd_syscall (libc_SYS L ''faccessat'') 2 0,
     define_dirfd2_syscall (libc_SYS L ''linkat'') 10,
     define_dirfd_fileperms_syscall (libc_SYS L ''fchmodat'') 2 0 Chmod 2,
     define_dirfd_fileperms_syscall (libc_SYS L ''fchownat'') 2 0 Chown 2,
     define_dirfd_fileperms_syscall (libc_SYS L ''mkdirat'') 2 0 Chmod 2,
     define_dirfd_fileperms_syscall (libc_SYS L ''mknodat'') 2 0 Chmod 2,
     define_dirfd_syscall (libc_SYS L ''openat'') 2 0,
     Modify (\<lambda>val. val\<lparr>sets_file_perms := Some ChmodOnCreation, file_perms_position := Some 3, flags := Some 2\<rparr>),
     define_dirfd_syscall (libc_SYS L ''readlinkat'') 2 0,
     Modify (\<lambda>val. val\<lparr>dont_follow_symlink := True\<rparr>),
     define_dirfd2_syscall (libc_SYS L ''renameat'') 10,
     Modify (\<lambda>val. val\<lparr>dont_follow_symlink := True\<rparr>),
     define_dirfd2_syscall (libc_SYS L ''renameat2'') 10,
     Modify (\<lambda>val. val\<lparr>dont_follow_symlink := True\<rparr>),
     define_dirfd_syscall (libc_SYS L ''symlinkat'') 4 1,
     Modify (\<lambda>val. val\<lparr>dont_follow_symlink := True\<rparr>),
     define_dirfd_deletion_syscall (libc_SYS L ''unlinkat'') 2 0 DelFile,
     Modify (\<lambda>val. val\<lparr>dont_follow_symlink := True\<rparr>)]"

definition xattr_stat_syscalls :: "libc \<Rightarrow> define_step list" where
  "xattr_stat_syscalls L = [
     define_paths_syscall (libc_SYS L ''lgetxattr'') 1,
     Modify (\<lambda>val. val\<lparr>dont_follow_symlink := True\<rparr>),
     define_paths_syscall (libc_SYS L ''llistxattr'') 1,
     Modify (\<lambda>val. val\<lparr>dont_follow_symlink := True\<rparr>),
     define_filefd_syscall (libc_SYS L ''fstat'') 0,
     Modify (\<lambda>val. val\<lparr>stat_legacy_buf_position := Some 1\<rparr>),
     define_dirfd_syscall (libc_SYS L ''statx'') 2 0,
     Modify (\<lambda>val. val\<lparr>flags := Some 2, flag_dont_follow_symlink := Some (AT_SYMLINK_NOFOLLOW L), statx_buf_position := Some 4\<rparr>),
     define_paths_syscall (libc_SYS L ''truncate'') 1,
     define_paths_syscall (libc_SYS L ''statfs'') 1]"

definition time_and_dir_syscalls :: "libc \<Rightarrow> define_step list" where
  "time_and_dir_syscalls L = [
     define_dirfd_syscall (libc_SYS L ''utimensat'') 2 0,
     Modify (\<lambda>val. val\<lparr>flags := Some 3, flag_dont_follow_symlink := Some (AT_SYMLINK_NOFOLLOW L)\<rparr>),
     define_getdents_syscall (libc_SYS L ''getdents64'') 64,
     define_fileperms_syscall (libc_SYS L ''fchmod'') Chmod 1,
     Modify (\<lambda>val. val\<lparr>filefd_position := Some 0\<rparr>),
     define_fileperms_syscall (libc_SYS L ''fchown'') Chown 1,
     Modify (\<lambda>val. val\<lparr>filefd_position := Some 0\<rparr>)]"

definition x86_64_syscalls :: "libc \<Rightarrow> define_step list" where
  "x86_64_syscalls L = [
     define_dirfd_syscall (libc_SYS L ''faccessat2'') 2 0,
     define_paths_syscall (libc_SYS L ''rename'') 3,
     Modify (\<lambda>val. val\<lparr>dont_follow_symlink := True\<rparr>),
     define_paths_syscall (libc_SYS L ''utime'') 1,
     define_getdents_syscall (libc_SYS L ''getdents'') 32,
     define_dirfd_fileperms_syscall (''libc__SYS_fchmodat2'', 452) 2 0 Chmod 2,
     Modify (\<lambda>val. val\<lparr>flags := Some 3\<rparr>),
     define_dirfd_syscall (''libc__SYS_newfstatat'', SYS L ''newfstatat'') 2 0,
     Modify (\<lambda>val. val\<lparr>flags := Some 3, flag_dont_follow_symlink := Some (AT_SYMLINK_NOFOLLOW L), stat_buf_position := Some 2\<rparr>)]"

definition legacy_path_syscalls :: "libc \<Rightarrow> define_step list" where
  "legacy_path_syscalls L = [
     define_paths_syscall (libc_SYS L ''access'') 1,
     define_paths_fileperms_syscall (libc_SYS L ''chmod'') 1 Chmod 1,
     define_paths_fileperms_syscall (libc_SYS L ''chown'') 1 Chown 1,
     define_paths_fileperms_syscall (libc_SYS L ''mknod'') 1 Chown 1,
     define_paths_fileperms_syscall (libc_SYS L ''creat'') 1 Chown 1,
     define_paths_syscall (libc_SYS L ''uselib'') 1,
     define_paths_syscall (libc_SYS L ''utimes'') 1,
     define_dirfd_syscall (libc_SYS L ''futimesat'') 2 0,
     define_paths_syscall (libc_SYS L ''link'') 3,
     define_paths_syscall (libc_SYS L ''open'') 1,
     Modify (\<lambda>val. val\<lparr>sets_file_perms := Some ChmodOnCreation, file_perms_position := Some 2, flags := Some 1\<rparr>)]"

definition legacy_link_syscalls :: "libc \<Rightarrow> define_step list" where
  "legacy_link_syscalls L = [
     define_paths_syscall (libc_SYS L ''readlink'') 1,
     Modify (\<lambda>val. val\<lparr>dont_follow_symlink := True\<rparr>),
     define_paths_fileperms_syscall (libc_SYS L ''lchown'') 1 Chown 1,
     Modify (\<lambda>val. val\<lparr>dont_follow_symlink := True\<rparr>),
     define_paths_syscall (libc_SYS L ''stat'') 1,
     Modify (\<lambda>val. val\<lparr>dont_follow_symlink := True, stat_legacy_buf_position := Some 1\<rparr>),
     define_paths_syscall (libc_SYS L ''lstat'') 1,
     Modify (\<lambda>val. val\<lparr>dont_follow_symlink := True, stat_legacy_buf_position := Some 1\<rparr>),
     define_paths_syscall (libc_SYS L ''symlink'') 2,
     Modify (\<lambda>val. val\<lparr>dont_follow_symlink := True\<rparr>),
     define_paths_deletion_syscall (libc_SYS L ''unlink'') 1 DelFile,
     Modify (\<lambda>val. val\<lparr>dont_follow_symlink := True\<rparr>),
     define_paths_deletion_syscall (libc_SYS L ''rmdir'') 1 DelDir,
     define_paths_fileperms_syscall (libc_SYS L ''mkdir'') 1 Chmod 1]"

definition all_syscalls :: "libc \<Rightarrow> define_step list" where
  "all_syscalls L = perms_syscalls L @ seccomp_syscalls L @ path_syscalls L @ dirfd_syscalls L @
     xattr_stat_syscalls L @ time_and_dir_syscalls L @ x86_64_syscalls L @ legacy_path_syscalls L @
     legacy_link_syscalls L"

definition RAW_SYSCALL_INFOS :: "libc \<Rightarrow> syscall_info option list option" where
  "RAW_SYSCALL_INFOS L =
     map_option fst (run_steps L (all_syscalls L) (replicate MAX_RAW_SYSCALL_INFOS None, 0))"

section \<open>Lookup\<close>

text \<open>
  \<open>SyscallInfos::new\<close> fills an array of 1024 indices; a later entry of the same number replaces an
  earlier one.  \<open>SyscallInfos::get\<close> checks the bound and follows the index.
\<close>

fun index_loop :: "syscall_info option list \<Rightarrow> nat \<Rightarrow> nat option list \<Rightarrow> nat option list option" where
  "index_loop [] index tbl = Some tbl"
| "index_loop (None # infos) index tbl = index_loop infos (index + 1) tbl"
| "index_loop (Some val # infos) index tbl =
     (if unat (as_usize (num val)) \<ge> MAX_SYSCALL_NUMBER then None
      else index_loop infos (index + 1) (tbl[unat (as_usize (num val)) := Some index]))"

definition syscall_infos_new :: "libc \<Rightarrow> nat option list option" where
  "syscall_infos_new L =
     (case RAW_SYSCALL_INFOS L of
        None \<Rightarrow> None
      | Some infos \<Rightarrow> index_loop infos 0 (replicate MAX_SYSCALL_NUMBER None))"

definition syscall_infos_get :: "syscall_info option list \<Rightarrow> nat option list \<Rightarrow> usize \<Rightarrow> syscall_info option" where
  "syscall_infos_get infos syscall_to_index number =
     (if unat number \<ge> MAX_SYSCALL_NUMBER then None
      else case syscall_to_index ! unat number of
             None \<Rightarrow> None
           | Some idx \<Rightarrow> infos ! idx)"

text \<open>\<open>get_syscall\<close> without the text for the log: \<open>None\<close> when the constants do not compile.\<close>

definition get_syscall :: "libc \<Rightarrow> usize \<Rightarrow> syscall_info option option" where
  "get_syscall L number =
     (case RAW_SYSCALL_INFOS L of
        None \<Rightarrow> None
      | Some infos \<Rightarrow> map_option (\<lambda>tbl. syscall_infos_get infos tbl number) (syscall_infos_new L))"

section \<open>The seccomp program\<close>

record bpf_filter =
  bpf_code :: u16
  bpf_jt :: u8
  bpf_jf :: u8
  bpf_k :: u32

definition BPF_LD :: u16 where "BPF_LD = 0"
definition BPF_ABS :: u16 where "BPF_ABS = 0x20"
definition BPF_W :: u16 where "BPF_W = 0"
definition BPF_K :: u16 where "BPF_K = 0"
definition BPF_JMP :: u16 where "BPF_JMP = 0x05"
definition BPF_JEQ :: u16 where "BPF_JEQ = 0x10"
definition BPF_RET :: u16 where "BPF_RET = 0x06"
definition SECCOMP_SYSCALL_OFFSET :: u32 where "SECCOMP_SYSCALL_OFFSET = 0"
definition SECCOMP_RET_TRACE :: u32 where "SECCOMP_RET_TRACE = 0x7ff00000"
definition SECCOMP_RET_ALLOW :: u32 where "SECCOMP_RET_ALLOW = 0x7fff0000"

definition DEFAULT_FILTER :: bpf_filter where
  "DEFAULT_FILTER = \<lparr>bpf_code = BPF_RET, bpf_jt = 0, bpf_jf = 0, bpf_k = SECCOMP_RET_ALLOW\<rparr>"

text \<open>The loop over the table; the array has room for two instructions per entry and two more.\<close>

fun bpf_loop :: "syscall_info option list \<Rightarrow> bpf_filter list \<Rightarrow> nat \<Rightarrow> bpf_filter list \<times> nat" where
  "bpf_loop [] filters write_idx = (filters, write_idx)"
| "bpf_loop (None # infos) filters write_idx = bpf_loop infos filters write_idx"
| "bpf_loop (Some info # infos) filters write_idx =
     (let filters = filters[write_idx :=
            \<lparr>bpf_code = BPF_JMP + BPF_JEQ + BPF_K, bpf_jt = 0, bpf_jf = 1, bpf_k = of_int (num info)\<rparr>];
          write_idx = write_idx + 1;
          filters = filters[write_idx := \<lparr>bpf_code = BPF_RET + BPF_K, bpf_jt = 0, bpf_jf = 0, bpf_k = SECCOMP_RET_TRACE\<rparr>];
          write_idx = write_idx + 1
      in bpf_loop infos filters write_idx)"

text \<open>\<open>SECCOMP_FILTERS\<close>: the array and the number of instructions in use.\<close>

definition seccomp_filters :: "syscall_info option list \<Rightarrow> bpf_filter list \<times> nat" where
  "seccomp_filters infos =
     (let filters = replicate (2 * MAX_RAW_SYSCALL_INFOS + 2) DEFAULT_FILTER;
          filters = filters[0 := \<lparr>bpf_code = BPF_LD + BPF_W + BPF_ABS, bpf_jt = 0, bpf_jf = 0, bpf_k = SECCOMP_SYSCALL_OFFSET\<rparr>];
          (filters, write_idx) = bpf_loop infos filters 1;
          filters = filters[write_idx := \<lparr>bpf_code = BPF_RET + BPF_K, bpf_jt = 0, bpf_jf = 0, bpf_k = SECCOMP_RET_ALLOW\<rparr>]
      in (filters, write_idx + 1))"

definition SECCOMP_FILTERS :: "libc \<Rightarrow> (bpf_filter list \<times> nat) option" where
  "SECCOMP_FILTERS L =
     (case RAW_SYSCALL_INFOS L of
        None \<Rightarrow> None
      | Some infos \<Rightarrow> if length infos > MAX_RAW_SYSCALL_INFOS then None else Some (seccomp_filters infos))"

section \<open>The table as a list\<close>

text \<open>The entries that a sequence of definitions leaves, in order.\<close>

fun entries_of :: "define_step list \<Rightarrow> syscall_info list \<Rightarrow> syscall_info list" where
  "entries_of [] acc = acc"
| "entries_of (Define info # ss) acc = entries_of ss (acc @ [info])"
| "entries_of (Modify f # ss) acc =
     entries_of ss (if acc = [] then [] else butlast acc @ [f (last acc)])"

fun step_nums :: "define_step list \<Rightarrow> int list" where
  "step_nums [] = []"
| "step_nums (Define info # ss) = num info # step_nums ss"
| "step_nums (Modify f # ss) = step_nums ss"

fun keeps_num :: "define_step \<Rightarrow> bool" where
  "keeps_num (Define info) = True"
| "keeps_num (Modify f) = (\<forall>v. num (f v) = num v)"

definition as_table :: "syscall_info list \<Rightarrow> syscall_info option list" where
  "as_table infos = None # map Some infos @ replicate (MAX_RAW_SYSCALL_INFOS - 1 - length infos) None"

lemma as_table_push:
  assumes "length infos + 1 < MAX_RAW_SYSCALL_INFOS"
  shows "(as_table infos)[length infos + 1 := Some i] = as_table (infos @ [i])"
proof -
  define n where "n = MAX_RAW_SYSCALL_INFOS - Suc (Suc (length infos))"
  have "MAX_RAW_SYSCALL_INFOS - 1 - length infos = Suc n" using assms by (simp add: n_def)
  moreover have "MAX_RAW_SYSCALL_INFOS - 1 - length (infos @ [i]) = n" by (simp add: n_def)
  ultimately show ?thesis by (simp add: as_table_def list_update_append del: diff_diff_left)
qed

lemma as_table_modify:
  "(as_table (infos @ [i]))[length infos + 1 := Some j] = as_table (infos @ [j])"
  by (simp add: as_table_def list_update_append)

lemma run_steps_entries:
  assumes "\<forall>n \<in> set (step_nums ss). as_usize n \<noteq> NO_MOD_SYSCALL L"
    and "length acc + length (step_nums ss) < MAX_RAW_SYSCALL_INFOS"
  shows "run_steps L ss (as_table acc, length acc) = Some (as_table (entries_of ss acc), length (entries_of ss acc))"
  using assms
proof (induction ss arbitrary: acc)
  case (Cons s ss)
  show ?case
  proof (cases s)
    case (Define info)
    have "(as_table acc)[Suc (length acc) := Some info] = as_table (acc @ [info])"
      using Cons.prems(2) Define as_table_push [of acc info] by simp
    then show ?thesis using Cons.IH [of "acc @ [info]"] Cons.prems Define by simp
  next
    case (Modify f)
    show ?thesis
    proof (cases acc rule: rev_cases)
      case Nil
      then show ?thesis
        using Cons.IH [of "[]"] Cons.prems Modify by (simp add: as_table_def)
    next
      case (snoc pre i)
      then show ?thesis
        using Cons.IH [of "pre @ [f i]"] Cons.prems Modify as_table_modify [of pre i "f i"]
        by (simp add: as_table_def nth_append)
    qed
  qed
qed simp

lemma entries_of_nums:
  assumes "\<forall>s \<in> set ss. keeps_num s"
  shows "map num (entries_of ss acc) = map num acc @ step_nums ss"
  using assms
proof (induction ss acc rule: entries_of.induct)
  case (3 f ss acc)
  then show ?case by (cases acc rule: rev_cases) simp_all
qed simp_all

text \<open>The names of the system calls of the table, in order, without \<open>fchmodat2\<close>.\<close>

definition intercepted :: "string list" where
  "intercepted = [''clone'', ''wait4'', ''getuid'', ''geteuid'', ''getgid'', ''getegid'', ''getgroups'',
     ''setuid'', ''setgid'', ''setgroups'', ''setregid'', ''setreuid'', ''setresgid'', ''setresuid'',
     ''setfsgid'', ''setfsuid'', ''prctl'', ''seccomp'', ''acct'', ''chdir'', ''chroot'', ''getxattr'',
     ''listxattr'', ''removexattr'', ''setxattr'', ''swapoff'', ''swapon'', ''umount2'', ''execve'',
     ''name_to_handle_at'', ''faccessat'', ''linkat'', ''fchmodat'', ''fchownat'', ''mkdirat'',
     ''mknodat'', ''openat'', ''readlinkat'', ''renameat'', ''renameat2'', ''symlinkat'', ''unlinkat'',
     ''lgetxattr'', ''llistxattr'', ''fstat'', ''statx'', ''truncate'', ''statfs'', ''utimensat'',
     ''getdents64'', ''fchmod'', ''fchown'', ''faccessat2'', ''rename'', ''utime'', ''getdents'',
     ''newfstatat'', ''access'', ''chmod'', ''chown'', ''mknod'', ''creat'', ''uselib'', ''utimes'',
     ''futimesat'', ''link'', ''open'', ''readlink'', ''lchown'', ''stat'', ''lstat'', ''symlink'',
     ''unlink'', ''rmdir'', ''mkdir'']"

text \<open>
  What is known of the constants of \<open>libc\<close>: the numbers of different system calls are different, none is
  the number of \<open>getpid\<close> or of \<open>fchmodat2\<close>, and all are below 1024.
\<close>

definition libc_ok :: "libc \<Rightarrow> bool" where
  "libc_ok L \<longleftrightarrow> distinct (452 # map (SYS L) (''getpid'' # intercepted)) \<and>
     (\<forall>n \<in> set (''getpid'' # intercepted). 0 \<le> SYS L n \<and> SYS L n < 1024)"

lemmas syscall_blocks = perms_syscalls_def seccomp_syscalls_def path_syscalls_def dirfd_syscalls_def
  xattr_stat_syscalls_def time_and_dir_syscalls_def x86_64_syscalls_def legacy_path_syscalls_def
  legacy_link_syscalls_def

lemmas define_macros = define_syscall_def define_seccomp_syscall_def define_fileperms_syscall_def
  define_perms_syscall_def define_paths_syscall_def define_paths_deletion_syscall_def
  define_paths_fileperms_syscall_def define_dirfd_syscall_def define_filefd_syscall_def
  define_dirfd2_syscall_def define_dirfd_deletion_syscall_def define_dirfd_fileperms_syscall_def
  define_getdents_syscall_def libc_SYS_def

lemma all_syscalls_keep_num: "\<forall>s \<in> set (all_syscalls L). keeps_num s"
  by (simp add: all_syscalls_def syscall_blocks define_macros)

lemma step_nums_append: "step_nums (xs @ ys) = step_nums xs @ step_nums ys"
  by (induction xs rule: step_nums.induct) simp_all

lemma all_syscalls_nums:
  "step_nums (all_syscalls L) =
     map (SYS L) (take 56 intercepted) @ [452] @ map (SYS L) (drop 56 intercepted)"
  by (simp add: all_syscalls_def step_nums_append syscall_blocks define_macros intercepted_def)

definition table_infos :: "libc \<Rightarrow> syscall_info list" where
  "table_infos L = entries_of (all_syscalls L) []"

lemma table_nums: "map num (table_infos L) = step_nums (all_syscalls L)"
  unfolding table_infos_def using entries_of_nums [OF all_syscalls_keep_num, of L "[]"] by simp

lemma length_intercepted: "length intercepted = 75"
  by (simp add: intercepted_def)

lemma table_nums_set: "set (map num (table_infos L)) = insert 452 (SYS L ` set intercepted)"
proof -
  have "SYS L ` set intercepted = SYS L ` set (take 56 intercepted @ drop 56 intercepted)" by simp
  also have "\<dots> = SYS L ` set (take 56 intercepted) \<union> SYS L ` set (drop 56 intercepted)"
    by (simp only: set_append image_Un)
  finally show ?thesis unfolding table_nums all_syscalls_nums by auto
qed

lemma length_table_infos: "length (table_infos L) = 76"
proof -
  have "length (map num (table_infos L)) = 76"
    unfolding table_nums all_syscalls_nums by (simp add: length_intercepted)
  then show ?thesis by simp
qed

lemma table_nums_distinct:
  assumes "libc_ok L"
  shows "distinct (map num (table_infos L))"
proof -
  have "distinct (452 # map (SYS L) (take 56 intercepted @ drop 56 intercepted))"
    using assms by (simp add: libc_ok_def)
  then show ?thesis unfolding table_nums all_syscalls_nums map_append by auto
qed

lemma as_usize_small:
  assumes "0 \<le> n" "n < 1024"
  shows "unat (as_usize n) = nat n"
  using assms by (simp add: as_usize_def unat_eq_nat_uint uint_word_of_int take_bit_int_eq_self_iff)

lemma table_num_bounds:
  assumes "libc_ok L" "i \<in> set (table_infos L)"
  shows "0 \<le> num i" "num i < 1024"
proof -
  have "num i \<in> insert 452 (SYS L ` set intercepted)" using assms(2) table_nums_set [of L] by auto
  then show "0 \<le> num i" "num i < 1024" using assms(1) by (auto simp: libc_ok_def)
qed

lemma as_usize_inject:
  assumes "0 \<le> m" "m < 1024" "0 \<le> n" "n < 1024"
  shows "as_usize m = as_usize n \<longleftrightarrow> m = n"
proof
  assume "as_usize m = as_usize n"
  then have "nat m = nat n" using as_usize_small [OF assms(1,2)] as_usize_small [OF assms(3,4)] by metis
  then show "m = n" using assms by simp
qed simp

text \<open>The constants compile: no panic of the macros, and all entries are in the array.\<close>

lemma raw_syscall_infos:
  assumes "libc_ok L"
  shows "RAW_SYSCALL_INFOS L = Some (as_table (table_infos L))"
proof -
  have getpid: "0 \<le> SYS L ''getpid''" "SYS L ''getpid'' < 1024" using assms by (simp_all add: libc_ok_def)
  have "as_usize n \<noteq> NO_MOD_SYSCALL L" if n: "n \<in> set (step_nums (all_syscalls L))" for n
  proof -
    have set: "n \<in> insert 452 (SYS L ` set intercepted)"
      using n unfolding table_nums [symmetric] table_nums_set .
    then have "n \<noteq> SYS L ''getpid''" "0 \<le> n" "n < 1024" using assms by (auto simp: libc_ok_def)
    then show ?thesis using as_usize_inject getpid by (simp add: NO_MOD_SYSCALL_def)
  qed
  moreover have "length (step_nums (all_syscalls L)) = 76"
    using length_table_infos [of L] table_nums [of L] by (metis length_map)
  moreover have "(as_table [], length ([] :: syscall_info list)) = (replicate MAX_RAW_SYSCALL_INFOS None, 0)"
    by (simp add: as_table_def MAX_RAW_SYSCALL_INFOS_def replicate_Suc [symmetric] del: replicate_Suc)
  ultimately show ?thesis
    using run_steps_entries [of "all_syscalls L" L "[]"]
    by (simp add: RAW_SYSCALL_INFOS_def table_infos_def MAX_RAW_SYSCALL_INFOS_def)
qed

section \<open>Lookup is correct\<close>

lemma index_loop_none: "index_loop (replicate n None) index tbl = Some tbl"
  by (induction n arbitrary: index) simp_all

lemma index_loop_append:
  "index_loop (xs @ ys) index tbl =
     (case index_loop xs index tbl of None \<Rightarrow> None | Some tbl' \<Rightarrow> index_loop ys (index + length xs) tbl')"
  by (induction xs index tbl rule: index_loop.induct) (simp_all split: option.splits)

lemma index_loop_some:
  assumes "distinct (map num infos)" "\<forall>i \<in> set infos. 0 \<le> num i \<and> num i < 1024" "length tbl = MAX_SYSCALL_NUMBER"
  shows "\<exists>tbl'. index_loop (map Some infos) index tbl = Some tbl' \<and> length tbl' = MAX_SYSCALL_NUMBER \<and>
    (\<forall>m < MAX_SYSCALL_NUMBER. tbl' ! m =
       (case find (\<lambda>j. num (infos ! j) = int m) [0..<length infos] of
          Some j \<Rightarrow> Some (index + j) | None \<Rightarrow> tbl ! m))"
  using assms
proof (induction infos arbitrary: index tbl)
  case (Cons i infos)
  have u: "unat (as_usize (num i)) = nat (num i)" "nat (num i) < MAX_SYSCALL_NUMBER"
    using as_usize_small Cons.prems(2) by (simp_all add: MAX_SYSCALL_NUMBER_def nat_less_iff)
  let ?tbl = "tbl[nat (num i) := Some index]"
  obtain tbl' where IH: "index_loop (map Some infos) (Suc index) ?tbl = Some tbl'" "length tbl' = MAX_SYSCALL_NUMBER"
      "\<forall>m < MAX_SYSCALL_NUMBER. tbl' ! m =
       (case find (\<lambda>j. num (infos ! j) = int m) [0..<length infos] of
          Some j \<Rightarrow> Some (Suc index + j) | None \<Rightarrow> ?tbl ! m)"
    using Cons.IH [of ?tbl "Suc index"] Cons.prems by auto
  have shift: "find (\<lambda>j. num ((i # infos) ! j) = int m) [0..<length (i # infos)] =
      (if num i = int m then Some 0 else map_option Suc (find (\<lambda>j. num (infos ! j) = int m) [0..<length infos]))" for m
  proof -
    have "[0..<length (i # infos)] = 0 # map Suc [0..<length infos]"
      by (simp add: map_Suc_upt upt_conv_Cons del: upt_Suc)
    moreover have "find P (map Suc xs) = map_option Suc (find (\<lambda>j. P (Suc j)) xs)" for P and xs :: "nat list"
      by (induction xs) auto
    ultimately show ?thesis by simp
  qed
  have "tbl' ! m = (case find (\<lambda>j. num ((i # infos) ! j) = int m) [0..<length (i # infos)] of
          Some j \<Rightarrow> Some (index + j) | None \<Rightarrow> tbl ! m)" if m: "m < MAX_SYSCALL_NUMBER" for m
  proof (cases "num i = int m")
    case True
    have "num (infos ! j) \<noteq> int m" if "j < length infos" for j
    proof -
      have "num (infos ! j) \<in> num ` set infos" using that by simp
      moreover have "num i \<notin> num ` set infos" using Cons.prems(1) by simp
      ultimately show ?thesis using True by metis
    qed
    then have "find (\<lambda>j. num (infos ! j) = int m) [0..<length infos] = None" by (simp add: find_None_iff)
    then show ?thesis unfolding shift using True IH(3) m Cons.prems(3) by simp
  next
    case False
    then have "?tbl ! m = tbl ! m" using Cons.prems(2) by (auto simp: nth_list_update split: if_splits)
    then show ?thesis
      unfolding shift using False IH(3) m by (simp split: option.splits)
  qed
  then show ?case using IH(1,2) u by auto
qed simp

lemma get_syscall_eq:
  assumes "libc_ok L"
  shows "get_syscall L n = Some (find (\<lambda>i. as_usize (num i) = n) (table_infos L))"
proof -
  let ?infos = "table_infos L"
  have bounds: "\<forall>i \<in> set ?infos. 0 \<le> num i \<and> num i < 1024" using table_num_bounds [OF assms] by blast
  obtain tbl where tbl: "index_loop (map Some ?infos) 1 (replicate MAX_SYSCALL_NUMBER None) = Some tbl"
      and nths: "\<forall>m < MAX_SYSCALL_NUMBER. tbl ! m =
       (case find (\<lambda>j. num (?infos ! j) = int m) [0..<length ?infos] of
          Some j \<Rightarrow> Some (1 + j) | None \<Rightarrow> replicate MAX_SYSCALL_NUMBER None ! m)"
    using index_loop_some [OF table_nums_distinct [OF assms] bounds, of "replicate MAX_SYSCALL_NUMBER None" 1]
    by auto
  have tbl_nth: "tbl ! m = map_option Suc (find (\<lambda>j. num (?infos ! j) = int m) [0..<length ?infos])"
    if "m < MAX_SYSCALL_NUMBER" for m
    using nths that by (simp split: option.splits)
  have new: "syscall_infos_new L = Some tbl"
    using tbl by (simp add: syscall_infos_new_def raw_syscall_infos [OF assms] as_table_def index_loop_append
        index_loop_none)
  show ?thesis
  proof (cases "unat n < MAX_SYSCALL_NUMBER")
    case False
    then have "as_usize (num i) \<noteq> n" if "i \<in> set ?infos" for i
      using bounds that as_usize_small [of "num i"] by (auto simp: MAX_SYSCALL_NUMBER_def nat_less_iff)
    then have "find (\<lambda>i. as_usize (num i) = n) ?infos = None" by (simp add: find_None_iff)
    then show ?thesis
      using False by (simp add: get_syscall_def raw_syscall_infos [OF assms] new syscall_infos_get_def)
  next
    case True
    have same: "num i = int (unat n) \<longleftrightarrow> as_usize (num i) = n" if "i \<in> set ?infos" for i
      using bounds that as_usize_small [of "num i"] by (metis int_nat_eq nat_int unsigned_word_eqI)
    have nth: "as_table ?infos ! Suc j = Some (?infos ! j)" if "j < length ?infos" for j
      using that by (simp add: as_table_def nth_append)
    have find_idx: "map_option ((!) xs) (find (\<lambda>j. P (xs ! j)) [0..<length xs]) = find P xs" for P and xs :: "syscall_info list"
    proof -
      have "find P (map f ys) = map_option f (find (\<lambda>j. P (f j)) ys)" for f :: "nat \<Rightarrow> syscall_info" and ys
        by (induction ys) auto
      from this [of "(!) xs" "[0..<length xs]"] show ?thesis by (simp add: map_nth)
    qed
    have cong: "find (\<lambda>i. num i = int (unat n)) ?infos = find (\<lambda>i. as_usize (num i) = n) ?infos"
      by (rule find_cong [OF refl same])
    show ?thesis
    proof (cases "find (\<lambda>j. num (?infos ! j) = int (unat n)) [0..<length ?infos]")
      case None
      then show ?thesis
        using True tbl_nth find_idx [of ?infos "\<lambda>i. num i = int (unat n)"] cong
        by (simp add: get_syscall_def raw_syscall_infos [OF assms] new syscall_infos_get_def)
    next
      case (Some j)
      then have "j < length ?infos" by (auto simp: find_Some_iff)
      then show ?thesis
        using True tbl_nth find_idx [of ?infos "\<lambda>i. num i = int (unat n)"] cong Some nth
        by (simp add: get_syscall_def raw_syscall_infos [OF assms] new syscall_infos_get_def)
    qed
  qed
qed

end
