(* ===== verification/Handler_State.thy ===== *)
theory Handler_State
  imports Config Syscalls
begin

text \<open>
  The state of a tracee handler and the form of its asynchronous code.

  The fields of \<open>TraceeHandler\<close> (\<open>sysaug/src/handler_sync.rs\<close>) that never change are the record
  \<open>tracee_handler\<close>; the cells of \<open>AsyncTraceeHandler\<close> (\<open>sysaug/src/handler_async.rs\<close>), the thread-local
  \<open>MEM\<close>, the runtime and everything outside the thread are the record \<open>handler\<close>.  An \<open>async fn\<close> is a
  function from the state to a coroutine: it is finished, or it is suspended at an \<open>await\<close> of a future of
  the runtime or of the yielder, with the rest of its code as a function of the response and of the state at
  that time.  \<open>poll\<close> is what the compiler makes of \<open>Future::poll\<close>, over the functions of \<open>Krsm\<close>.

  \<open>run\<close> is a sequential reading of a coroutine: what happens from an \<open>await\<close> to its response is given by
  a function on the state.  The theorems about single operations use it.
\<close>

section \<open>State\<close>

record 'regex tracee_handler_consts =
  consts_args :: sysaug_args
  consts_config :: "'regex sysaug_config"
  consts_root_pid :: pid

text \<open>The parent is known by its process id.\<close>

record 'regex tracee_handler =
  h_pid :: pid
  h_shared_fd :: int
  mmap_tracer_addr :: usize
  h_consts :: "'regex tracee_handler_consts"
  parent :: "pid option"
  failed :: bool

text \<open>
  What is fixed while a handler runs: the kernel, the numbers of \<open>libc\<close>, \<open>WaitStatus::from_raw\<close> of \<open>nix\<close>, the
  thread and the handler.
\<close>

record ('k, 'regex) env =
  api :: "'k tracer_api"
  env_libc :: libc
  wait_status_from_raw :: "pid \<Rightarrow> int \<Rightarrow> errno + wait_status"
  thread :: tid
  client_of :: ptrace_client
  handler_of :: "'regex tracee_handler"

abbreviation pid_of :: "('k, 'regex) env \<Rightarrow> pid" where
  "pid_of e \<equiv> h_pid (handler_of e)"

abbreviation args_of :: "('k, 'regex) env \<Rightarrow> sysaug_args" where
  "args_of e \<equiv> consts_args (h_consts (handler_of e))"

datatype mem_kind = SlowMem | DirectMem

text \<open>\<open>ignore_sigstops\<close> holds the locked set of every handler, by process id.\<close>

record 'k handler =
  globals :: "'k direct_world"
  ignore_sigstops :: "pid \<Rightarrow> pid set rwlock"
  MEM :: mem_kind
  runtime :: "(ptrace_future_type, wait_status) async_runtime"
  yielder_syscall :: async_yielder
  resume_through_syscall :: bool
  signal_tracee :: "signal option"
  transfer_to_gdb :: bool
  perms_ids :: perms_ids
  path_prefix :: "path option"
  path_prefix_excludes :: "path list"
  mmap_tracee_addr :: usize
  tracee_stack_offset :: usize
  is_after_syscall_entry :: bool
  is_legacy_seccomp :: bool
  tracee_seccomp_init_complete :: bool
  orig_syscall_num :: "usize option"

section \<open>Synchronous parts\<close>

text \<open>
  \<open>self.ptrace_client.execute(..)??\<close> runs code of the \<open>ptrace\<close> crate on the globals or on the kernel; \<open>nix\<close>
  makes a call of the kernel and gives its raw result.
\<close>

definition on_globals :: "('k direct_world, ptrace_error, 'a) io \<Rightarrow> ('k handler, sysaug_error, 'a) io" where
  "on_globals m = (\<lambda>h. case on_err Ptrace m (globals h) of (r, g) \<Rightarrow> (r, h\<lparr>globals := g\<rparr>))"

definition in_kernel :: "('k, ptrace_error, 'a) io \<Rightarrow> ('k handler, sysaug_error, 'a) io" where
  "in_kernel m = on_globals (on_kern m)"

definition nix :: "('k \<Rightarrow> (errno + 'a) \<times> 'k) \<Rightarrow> ('k handler, sysaug_error, errno + 'a) io" where
  "nix c = (\<lambda>h. case on_kern c (globals h) of (r, g) \<Rightarrow> (Inr r, h\<lparr>globals := g\<rparr>))"

definition nix_call :: "(errno \<Rightarrow> sysaug_error) \<Rightarrow> ('k \<Rightarrow> (errno + 'a) \<times> 'k) \<Rightarrow> ('k handler, sysaug_error, 'a) io" where
  "nix_call f c = m_then (nix c) (\<lambda>r. lift_r (map_err f r))"

definition gets :: "('s \<Rightarrow> 'a) \<Rightarrow> ('s, 'e, 'a) io" where
  "gets f = (\<lambda>s. (Inr (f s), s))"

definition modify :: "('s \<Rightarrow> 's) \<Rightarrow> ('s, 'e, unit) io" where
  "modify f = (\<lambda>s. (Inr (), f s))"

text \<open>\<open>get_mem_helper\<close>: the thread-local cell selects between the two implementations.\<close>

definition on_kern_mem :: "'k mem_helpers \<Rightarrow> 'k direct_world mem_helpers" where
  "on_kern_mem m = \<lparr>
     mh_close_tracee = (\<lambda>pid. on_kern (mh_close_tracee m pid)),
     mh_read = (\<lambda>pid addr. on_kern (mh_read m pid addr)),
     mh_read_bytes = (\<lambda>pid addr n buf. on_kern (mh_read_bytes m pid addr n buf)),
     mh_read_bytes_until_num_zeroes = (\<lambda>pid addr n. on_kern (mh_read_bytes_until_num_zeroes m pid addr n)),
     mh_read_bytes_until_zero = (\<lambda>pid addr. on_kern (mh_read_bytes_until_zero m pid addr)),
     mh_write_bytes_to_tracee = (\<lambda>pid off bs. on_kern (mh_write_bytes_to_tracee m pid off bs))\<rparr>"

definition mem_helpers_of :: "('k, 'regex) env \<Rightarrow> mem_kind \<Rightarrow> 'k direct_world mem_helpers" where
  "mem_helpers_of e kind = (case kind of
     SlowMem \<Rightarrow> on_kern_mem (SLOW_MEM_HELPERS (api e))
   | DirectMem \<Rightarrow> DIRECT_MEM_HELPERS (api e) (thread e))"

definition get_mem_helper :: "('k, 'regex) env \<Rightarrow> ('k handler, sysaug_error, 'k direct_world mem_helpers) io" where
  "get_mem_helper e = gets (\<lambda>h. mem_helpers_of e (MEM h))"

section \<open>Coroutines\<close>

datatype ('s, 'e, 'a) co =
    Done "'e fault + 'a"
  | Await "ptrace_future_type pending_future"
      "async_runtime_error + wait_status \<Rightarrow> 's \<Rightarrow> ('s, 'e, 'a) co \<times> 's"
  | Yield usize "'s \<Rightarrow> ('s, 'e, 'a) co \<times> 's"

type_synonym ('s, 'e, 'a) async = "'s \<Rightarrow> ('s, 'e, 'a) co \<times> 's"

primrec co_bind :: "('s, 'e, 'a) co \<Rightarrow> ('a \<Rightarrow> ('s, 'e, 'b) async) \<Rightarrow> ('s, 'e, 'b) async" where
  "co_bind (Done r) f s = (case r of Inl x \<Rightarrow> (Done (Inl x), s) | Inr a \<Rightarrow> f a s)"
| "co_bind (Await fut k) f s =
     (Await fut (\<lambda>r s1. case map_prod co_bind id (k r s1) of (b, s2) \<Rightarrow> b f s2), s)"
| "co_bind (Yield n k) f s =
     (Yield n (\<lambda>s1. case map_prod co_bind id (k s1) of (b, s2) \<Rightarrow> b f s2), s)"

text \<open>Sequencing with \<open>?\<close>, code without an \<open>await\<close>, \<open>new_pending_future(t).await\<close> and \<open>yield_now().await\<close>.\<close>

definition a_then :: "('s, 'e, 'a) async \<Rightarrow> ('a \<Rightarrow> ('s, 'e, 'b) async) \<Rightarrow> ('s, 'e, 'b) async" where
  "a_then m f = (\<lambda>s. case m s of (c, s') \<Rightarrow> co_bind c f s')"

definition sync :: "('s, 'e, 'a) io \<Rightarrow> ('s, 'e, 'a) async" where
  "sync m = (\<lambda>s. case m s of (r, s') \<Rightarrow> (Done r, s'))"

definition await_future :: "ptrace_future_type \<Rightarrow> ('s, sysaug_error, wait_status) async" where
  "await_future t = (\<lambda>s. (Await (Unpolled t) (\<lambda>r s'. (Done (map_err (\<lambda>x. Err (AsyncRuntime x)) r), s')), s))"

definition yield_now :: "('k handler, 'e, unit) async" where
  "yield_now = (\<lambda>s. (Yield (yield_now_start (yielder_syscall s)) (\<lambda>s'. (Done (Inr ()), s')), s))"

primrec poll :: "('k handler, 'e, 'a) co \<Rightarrow> ('k handler, 'e, 'a) async" where
  "poll (Done r) s = (Done r, s)"
| "poll (Await fut k) s =
     (case new_pending_future_poll fut (runtime s) of
        None \<Rightarrow> (Done (Inl Panic), s)
      | Some (None, fut', rt) \<Rightarrow> (Await fut' k, s\<lparr>runtime := rt\<rparr>)
      | Some (Some r, fut', rt) \<Rightarrow>
          (case map_prod poll id (k r (s\<lparr>runtime := rt\<rparr>)) of (p, s') \<Rightarrow> p s'))"
| "poll (Yield n k) s =
     (case yield_now_poll n (yielder_syscall s) of
        None \<Rightarrow> (Yield n k, s)
      | Some _ \<Rightarrow> (case map_prod poll id (k s) of (p, s') \<Rightarrow> p s'))"

text \<open>The first poll of an \<open>async fn\<close> runs it up to its first \<open>await\<close> that is not ready.\<close>

definition first_poll :: "('k handler, 'e, 'a) async \<Rightarrow> ('k handler, 'e, 'a) async" where
  "first_poll m = (\<lambda>s. case m s of (c, s') \<Rightarrow> poll c s')"

section \<open>Sequential reading\<close>

type_synonym 's between = "ptrace_future_type \<Rightarrow> 's \<Rightarrow> (async_runtime_error + wait_status) \<times> 's"

fun future_type :: "ptrace_future_type pending_future \<Rightarrow> ptrace_future_type option" where
  "future_type (Unpolled t) = Some t"
| "future_type (Waiting t) = Some t"
| "future_type Finished = None"

primrec run_co :: "'s between \<Rightarrow> ('s, 'e, 'a) co \<Rightarrow> ('s, 'e, 'a) io" where
  "run_co w (Done r) s = (r, s)"
| "run_co w (Await fut k) s =
     (case future_type fut of
        None \<Rightarrow> (Inl Panic, s)
      | Some t \<Rightarrow> (case w t s of (r, s1) \<Rightarrow> (case map_prod (run_co w) id (k r s1) of (p, s2) \<Rightarrow> p s2)))"
| "run_co w (Yield n k) s = (case map_prod (run_co w) id (k s) of (p, s2) \<Rightarrow> p s2)"

definition run :: "'s between \<Rightarrow> ('s, 'e, 'a) async \<Rightarrow> ('s, 'e, 'a) io" where
  "run w m = (\<lambda>s. case m s of (c, s') \<Rightarrow> run_co w c s')"

section \<open>Lemmas\<close>

lemma gets_modify_apply [io_simps]: "gets f s = (Inr (f s), s)" "modify g s = (Inr (), g s)"
  by (simp_all add: gets_def modify_def)

lemma case_prod_map_fst [simp]: "(case map_prod f id x of (a, b) \<Rightarrow> g a b) = (case x of (a, b) \<Rightarrow> g (f a) b)"
  by (cases x) simp

lemma co_induct [case_names Done Await Yield]:
  assumes "\<And>r. P (Done r)"
    and "\<And>fut k. (\<And>r s. P (fst (k r s))) \<Longrightarrow> P (Await fut k)"
    and "\<And>n k. (\<And>s. P (fst (k s))) \<Longrightarrow> P (Yield n k)"
  shows "P c"
proof (induction c)
  case (Await fut k)
  have "P (fst (k r s))" for r s by (rule Await.IH) (auto simp: fsts.simps intro: rangeI)
  then show ?case by (rule assms(2))
next
  case (Yield n k)
  have "P (fst (k s))" for s by (rule Yield.IH) (auto simp: fsts.simps intro: rangeI)
  then show ?case by (rule assms(3))
qed (rule assms(1))

lemma run_co_bind: "(case co_bind c f s of (b, s') \<Rightarrow> run_co w b s') = m_then (run_co w c) (\<lambda>a. run w (f a)) s"
proof (induction c arbitrary: s rule: co_induct)
  case (Done r)
  then show ?case by (cases r) (simp_all add: m_then_apply run_def)
next
  case (Await fut k)
  show ?case
  proof (cases "future_type fut")
    case (Some t)
    obtain r s1 where w: "w t s = (r, s1)" by (cases "w t s")
    show ?thesis using Some w Await [of r s1 "snd (k r s1)"]
      by (cases "k r s1") (simp add: m_then_apply)
  qed (simp add: m_then_apply)
next
  case (Yield n k)
  from Yield [of s "snd (k s)"] show ?case by (cases "k s") (simp add: m_then_apply)
qed

named_theorems run_simps \<open>the sequential reading of asynchronous code\<close>

lemma run_then [run_simps]: "run w (a_then m f) = m_then (run w m) (\<lambda>a. run w (f a))"
proof
  fix s
  obtain c s' where m: "m s = (c, s')" by (cases "m s")
  show "run w (a_then m f) s = m_then (run w m) (\<lambda>a. run w (f a)) s"
    using run_co_bind [where c = c and f = f and s = s' and w = w] m by (simp add: run_def a_then_def m_then_apply)
qed

lemma run_sync [run_simps]: "run w (sync m) = m"
  by (rule ext) (simp add: run_def sync_def split: prod.splits)

lemma run_await [run_simps]:
  "run w (await_future t) = (\<lambda>s. case w t s of (r, s') \<Rightarrow> (map_err (\<lambda>x. Err (AsyncRuntime x)) r, s'))"
  by (rule ext) (simp add: run_def await_future_def split: prod.splits)

lemma run_if [run_simps]: "run w (if b then m else n) = (if b then run w m else run w n)"
  by simp

end
