(* ===== verification/Handler_Async.thy ===== *)
theory Handler_Async
  imports Handler_State
begin

text \<open>
  The operations of \<open>AsyncTraceeHandler\<close> (\<open>sysaug/src/handler_async.rs\<close>) that the augmentations are built
  from: waiting for signals and for the stops of a system call, writing to the tracee, resuming and
  skipping a system call.
\<close>

section \<open>Operations\<close>

definition is_seccomp_event :: "wait_status \<Rightarrow> bool" where
  "is_seccomp_event s = (case s of PtraceEvent _ _ ev \<Rightarrow> ev = PTRACE_EVENT_SECCOMP | _ \<Rightarrow> False)"

definition wait_for_any_signal :: "('k handler, sysaug_error, signal) async" where
  "wait_for_any_signal =
     a_then (await_future WaitForSignal) (\<lambda>status.
     sync (case status of
             Stopped _ signal \<Rightarrow> ret signal
           | _ \<Rightarrow> throw (AsyncMismatch WaitForSignal status)))"

text \<open>A specific signal; the loop need not end.\<close>

fun wait_for_signal :: "nat \<Rightarrow> signal \<Rightarrow> ('k handler, sysaug_error, unit) async" where
  "wait_for_signal 0 signal = sync out_of_fuel"
| "wait_for_signal (Suc n) signal =
     a_then wait_for_any_signal (\<lambda>signal2.
     if signal = signal2 then sync (ret ()) else wait_for_signal n signal)"

definition wait_for_syscall :: "('k handler, sysaug_error, wait_status) async" where
  "wait_for_syscall =
     a_then (sync get_w) (\<lambda>h.
     let is_legacy = is_legacy_seccomp h;
         is_seccomp_ready = tracee_seccomp_init_complete h;
         expects_syscall_exit = is_after_syscall_entry h;
         expects_syscall_stop = \<not> is_seccomp_ready \<or> expects_syscall_exit
     in
     a_then (sync (modify (\<lambda>h. h\<lparr>is_after_syscall_entry := False, resume_through_syscall := expects_syscall_stop\<rparr>))) (\<lambda>_.
     a_then (await_future (if expects_syscall_stop then WaitForPtraceSyscall else WaitForPtraceSeccomp)) (\<lambda>status.
     if \<not> is_seccomp_ready then
       (if \<not> is_syscall_stop status
        then sync (throw (AsyncMisMatchSyscall ''non-syscall stop while initializing seccomp'' status))
        else sync (ret status))
     else if is_seccomp_event status then
       (if expects_syscall_exit
        then sync (throw (AsyncMisMatchSyscall ''seccomp stop right after seccomp stop'' status))
        else a_then (sync (modify (\<lambda>h. h\<lparr>is_after_syscall_entry := True\<rparr>))) (\<lambda>_. sync (ret status)))
     else if is_syscall_stop status \<and> expects_syscall_exit then
       (if \<not> is_legacy
        then a_then (sync (modify (\<lambda>h. h\<lparr>is_after_syscall_entry := False\<rparr>))) (\<lambda>_. sync (ret status))
        else
          a_then (sync (modify (\<lambda>h. h\<lparr>is_after_syscall_entry := False, resume_through_syscall := True\<rparr>))) (\<lambda>_.
          a_then (await_future WaitForPtraceSyscall) (\<lambda>status.
          if is_syscall_stop status
          then a_then (sync (modify (\<lambda>h. h\<lparr>is_after_syscall_entry := False\<rparr>))) (\<lambda>_. sync (ret status))
          else sync (throw (AsyncMismatch WaitForPtraceSyscall status)))))
     else sync (throw (AsyncMismatch WaitForPtraceSyscall status)))))"

text \<open>Bytes for the tracee are appended at an offset that every system call resets.\<close>

definition tracee_stack_append :: "('k, 'regex) env \<Rightarrow> u8 list \<Rightarrow> ('k handler, sysaug_error, usize) io" where
  "tracee_stack_append e bytes =
     m_then (get_mem_helper e) (\<lambda>mem.
     m_then (gets tracee_stack_offset) (\<lambda>old_offset.
     m_then (on_globals (mh_write_bytes_to_tracee mem (pid_of e) old_offset bytes)) (\<lambda>(addr, new_offset).
     m_then (modify (\<lambda>h. h\<lparr>tracee_stack_offset := new_offset\<rparr>)) (\<lambda>_.
     ret addr))))"

text \<open>An object is given by its bytes.\<close>

definition tracee_stack_append_fixed_size_obj :: "('k, 'regex) env \<Rightarrow> u8 list \<Rightarrow> ('k handler, sysaug_error, usize) io" where
  "tracee_stack_append_fixed_size_obj e obj = tracee_stack_append e obj"

definition tracee_stack_append_str :: "('k, 'regex) env \<Rightarrow> u8 list \<Rightarrow> ('k handler, sysaug_error, usize) io" where
  "tracee_stack_append_str e val = tracee_stack_append e (val @ [0])"

definition tracee_stack_append_path :: "('k, 'regex) env \<Rightarrow> path \<Rightarrow> ('k handler, sysaug_error, usize) io" where
  "tracee_stack_append_path e path = tracee_stack_append e (path @ [0])"

definition tracee_stack_seek :: "usize \<Rightarrow> ('k handler, sysaug_error, unit) io" where
  "tracee_stack_seek offset = modify (\<lambda>h. h\<lparr>tracee_stack_offset := offset\<rparr>)"

definition do_resume_syscall :: "('k, 'regex) env \<Rightarrow> ('k handler, sysaug_error, generic_purpose_regs) async" where
  "do_resume_syscall e =
     a_then wait_for_syscall (\<lambda>_.
     sync (in_kernel (getregs (api e) (pid_of e))))"

definition do_skip_syscall :: "('k, 'regex) env \<Rightarrow> usize \<Rightarrow> ('k handler, sysaug_error, unit) async" where
  "do_skip_syscall e retval =
     a_then (sync (in_kernel (set_syscall_num (api e) (pid_of e) (NO_MOD_SYSCALL (env_libc e))))) (\<lambda>_.
     a_then (do_resume_syscall e) (\<lambda>regs.
     sync (in_kernel (setregs (api e) (pid_of e) (set_syscall_retval retval regs)))))"

section \<open>The stops of a system call\<close>

text \<open>
  The cases of \<open>wait_for_syscall\<close> in the sequential reading, one equation for each kind of wait: before the
  filter is installed, at the entry of a system call, and at its exit on new and old kernels.
\<close>

definition await :: "'k handler between \<Rightarrow> ptrace_future_type \<Rightarrow> ('k handler, sysaug_error, wait_status) io" where
  "await w t = run w (await_future t)"

lemma await_cases:
  "w t s = (Inr st, s') \<Longrightarrow> await w t s = (Inr st, s')"
  "w t s = (Inl x, s') \<Longrightarrow> await w t s = (Inl (Err (AsyncRuntime x)), s')"
  by (simp_all add: await_def run_simps)

text \<open>The signals before the one that is waited for are passed over.\<close>

fun signals_then :: "'k handler between \<Rightarrow> signal list \<Rightarrow> 'k handler \<Rightarrow> 'k handler \<Rightarrow> bool" where
  "signals_then w [] h h' = (h' = h)"
| "signals_then w (s # ss) h h' = (\<exists>pid h1. w WaitForSignal h = (Inr (Stopped pid s), h1) \<and> signals_then w ss h1 h')"

lemma wait_for_signal_step:
  "w WaitForSignal h = (Inr (Stopped pid s), h1) \<Longrightarrow>
   run w (wait_for_signal (Suc n) signal) h = (if signal = s then (Inr (), h1) else run w (wait_for_signal n signal) h1)"
  by (simp add: wait_for_any_signal_def run_simps io_simps)

lemma wait_for_signal_returns:
  "signals_then w (ss @ [signal]) h h' \<Longrightarrow> signal \<notin> set ss \<Longrightarrow>
   run w (wait_for_signal (Suc (length ss)) signal) h = (Inr (), h')"
proof (induction ss arbitrary: h)
  case Nil
  then obtain pid where "w WaitForSignal h = (Inr (Stopped pid signal), h')" by auto
  then show ?case using wait_for_signal_step [of w h pid signal h' 0 signal] by simp
next
  case (Cons s ss)
  then obtain pid h1 where h1: "w WaitForSignal h = (Inr (Stopped pid s), h1)" "signals_then w (ss @ [signal]) h1 h'" by auto
  have "run w (wait_for_signal (Suc (length ss)) signal) h1 = (Inr (), h')"
    using Cons.IH [OF h1(2)] Cons.prems(2) by simp
  then show ?case
    using wait_for_signal_step [of w h pid s h1 "Suc (length ss)" signal] h1(1) Cons.prems(2) by simp
qed

lemma wait_for_syscall_init:
  assumes "\<not> tracee_seccomp_init_complete h"
  shows "run w wait_for_syscall h =
    m_then (await w WaitForPtraceSyscall) (\<lambda>status.
      if \<not> is_syscall_stop status
      then throw (AsyncMisMatchSyscall ''non-syscall stop while initializing seccomp'' status)
      else ret status)
    (h\<lparr>is_after_syscall_entry := False, resume_through_syscall := True\<rparr>)"
  using assms by (simp add: wait_for_syscall_def run_simps io_simps Let_def await_def cong: if_cong sum.case_cong)

lemma wait_for_syscall_entry:
  assumes "tracee_seccomp_init_complete h" "\<not> is_after_syscall_entry h"
  shows "run w wait_for_syscall h =
    m_then (await w WaitForPtraceSeccomp) (\<lambda>status.
      if is_seccomp_event status then m_then (modify (\<lambda>h. h\<lparr>is_after_syscall_entry := True\<rparr>)) (\<lambda>_. ret status)
      else throw (AsyncMismatch WaitForPtraceSyscall status))
    (h\<lparr>is_after_syscall_entry := False, resume_through_syscall := False\<rparr>)"
  using assms by (simp add: wait_for_syscall_def run_simps io_simps Let_def await_def cong: if_cong sum.case_cong)

lemma wait_for_syscall_exit:
  assumes "tracee_seccomp_init_complete h" "is_after_syscall_entry h" "\<not> is_legacy_seccomp h"
  shows "run w wait_for_syscall h =
    m_then (await w WaitForPtraceSyscall) (\<lambda>status.
      if is_seccomp_event status
      then throw (AsyncMisMatchSyscall ''seccomp stop right after seccomp stop'' status)
      else if is_syscall_stop status
      then m_then (modify (\<lambda>h. h\<lparr>is_after_syscall_entry := False\<rparr>)) (\<lambda>_. ret status)
      else throw (AsyncMismatch WaitForPtraceSyscall status))
    (h\<lparr>is_after_syscall_entry := False, resume_through_syscall := True\<rparr>)"
  using assms by (simp add: wait_for_syscall_def run_simps io_simps Let_def await_def cong: if_cong sum.case_cong)

lemma wait_for_syscall_exit_legacy:
  assumes "tracee_seccomp_init_complete h" "is_after_syscall_entry h" "is_legacy_seccomp h"
  shows "run w wait_for_syscall h =
    m_then (await w WaitForPtraceSyscall) (\<lambda>status.
      if is_seccomp_event status
      then throw (AsyncMisMatchSyscall ''seccomp stop right after seccomp stop'' status)
      else if is_syscall_stop status
      then m_then (modify (\<lambda>h. h\<lparr>is_after_syscall_entry := False, resume_through_syscall := True\<rparr>)) (\<lambda>_.
           m_then (await w WaitForPtraceSyscall) (\<lambda>status.
           if is_syscall_stop status
           then m_then (modify (\<lambda>h. h\<lparr>is_after_syscall_entry := False\<rparr>)) (\<lambda>_. ret status)
           else throw (AsyncMismatch WaitForPtraceSyscall status)))
      else throw (AsyncMismatch WaitForPtraceSyscall status))
    (h\<lparr>is_after_syscall_entry := False, resume_through_syscall := True\<rparr>)"
  using assms by (simp add: wait_for_syscall_def run_simps io_simps Let_def await_def cong: if_cong sum.case_cong)

end
