(* ===== verification/Tracee_Stops.thy ===== *)
theory Tracee_Stops
  imports Handler_Async
begin

text \<open>
  What the kernel promises about the stops of a tracee (\<open>ptrace(2)\<close> and \<open>seccomp(2)\<close>), and what follows for
  \<open>wait_for_syscall\<close>, \<open>do_resume_syscall\<close> and \<open>do_skip_syscall\<close>.

  A view of the kernel shows the registers of a tracee, where it is stopped and the system calls
  it has executed, each with the registers at that time.  The laws are hypotheses of the theorems; a small kernel at the end satisfies them.
\<close>

section \<open>The laws\<close>

datatype phase = UserCode | SeccompStop | EntryStop | ExitStop

record 'k tracee_view =
  view_regs :: "'k \<Rightarrow> pid \<Rightarrow> generic_purpose_regs"
  view_phase :: "'k \<Rightarrow> pid \<Rightarrow> phase"
  view_executed :: "'k \<Rightarrow> pid \<Rightarrow> generic_purpose_regs list"

text \<open>
  Registers of a stopped tracee can be read and written; that does not move the tracee.  The tracee is
  stopped in every phase but \<open>UserCode\<close>.
\<close>

definition getregs_law :: "('k, 'x) ptrace_api_scheme \<Rightarrow> 'k tracee_view \<Rightarrow> bool" where
  "getregs_law k V \<longleftrightarrow> (\<forall>s pid. view_phase V s pid \<noteq> UserCode \<longrightarrow>
     sys_getregset k pid s = (Inr (regs_words (view_regs V s pid)), s))"

definition setregs_law :: "('k, 'x) ptrace_api_scheme \<Rightarrow> 'k tracee_view \<Rightarrow> bool" where
  "setregs_law k V \<longleftrightarrow> (\<forall>s pid ws. view_phase V s pid \<noteq> UserCode \<longrightarrow>
     (\<exists>s'. sys_setregset k pid ws s = (Inr (), s') \<and>
        view_regs V s' = (view_regs V s)(pid := words_regs ws) \<and>
        view_phase V s' = view_phase V s \<and> view_executed V s' = view_executed V s))"

text \<open>
  While a coroutine waits, other code of the thread may change the outside world, the runtime, a signal
  to deliver and the sets of ignored stops, and nothing else.
\<close>

definition outside_step :: "'k handler \<Rightarrow> 'k handler \<Rightarrow> bool" where
  "outside_step h h' \<longleftrightarrow> h' = h\<lparr>globals := globals h', runtime := runtime h',
     signal_tracee := signal_tracee h', ignore_sigstops := ignore_sigstops h'\<rparr>"

definition reaches :: "'k tracee_view \<Rightarrow> pid \<Rightarrow> 'k handler \<Rightarrow> 'k handler \<Rightarrow> phase \<Rightarrow> generic_purpose_regs list \<Rightarrow> bool" where
  "reaches V pid h h' p calls \<longleftrightarrow> outside_step h h' \<and>
     view_phase V (kern (globals h')) pid = p \<and>
     view_executed V (kern (globals h')) pid = view_executed V (kern (globals h)) pid @ calls"

text \<open>
  With the filter installed: a tracee that runs on after \<open>PTRACE_CONT\<close> reports its next traced system call
  with a seccomp stop; from there \<open>PTRACE_SYSCALL\<close> leads to the exit stop, on kernels before 4.8 with an
  entry stop on the way.  On the way to the exit stop the system call that is in the registers is executed.
\<close>

definition stop_law :: "'k tracee_view \<Rightarrow> pid \<Rightarrow> bool \<Rightarrow> 'k handler between \<Rightarrow> bool" where
  "stop_law V pid legacy w \<longleftrightarrow>
     (\<forall>h. view_phase V (kern (globals h)) pid \<in> {UserCode, ExitStop} \<and> \<not> resume_through_syscall h \<longrightarrow>
        (\<exists>p sig h'. w WaitForPtraceSeccomp h = (Inr (PtraceEvent p sig PTRACE_EVENT_SECCOMP), h') \<and>
           reaches V pid h h' SeccompStop [])) \<and>
     (\<forall>h. view_phase V (kern (globals h)) pid = (if legacy then EntryStop else SeccompStop) \<and>
          resume_through_syscall h \<longrightarrow>
        (\<exists>p h'. w WaitForPtraceSyscall h = (Inr (PtraceSyscall p), h') \<and>
           reaches V pid h h' ExitStop [view_regs V (kern (globals h)) pid])) \<and>
     (legacy \<longrightarrow> (\<forall>h. view_phase V (kern (globals h)) pid = SeccompStop \<and> resume_through_syscall h \<longrightarrow>
        (\<exists>p h'. w WaitForPtraceSyscall h = (Inr (PtraceSyscall p), h') \<and> reaches V pid h h' EntryStop [] \<and>
           view_regs V (kern (globals h')) pid = view_regs V (kern (globals h)) pid)))"

text \<open>The kernel promises, for a handler, and the handler is in step with the tracee.\<close>

definition kernel_laws :: "('k, 'regex) env \<Rightarrow> 'k tracee_view \<Rightarrow> bool \<Rightarrow> 'k handler between \<Rightarrow> bool" where
  "kernel_laws e V legacy w \<longleftrightarrow> getregs_law (api e) V \<and> setregs_law (api e) V \<and> stop_law V (pid_of e) legacy w"

abbreviation phase_of :: "('k, 'regex) env \<Rightarrow> 'k tracee_view \<Rightarrow> 'k handler \<Rightarrow> phase" where
  "phase_of e V h \<equiv> view_phase V (kern (globals h)) (pid_of e)"

abbreviation regs_of :: "('k, 'regex) env \<Rightarrow> 'k tracee_view \<Rightarrow> 'k handler \<Rightarrow> generic_purpose_regs" where
  "regs_of e V h \<equiv> view_regs V (kern (globals h)) (pid_of e)"

abbreviation executed :: "('k, 'regex) env \<Rightarrow> 'k tracee_view \<Rightarrow> 'k handler \<Rightarrow> generic_purpose_regs list" where
  "executed e V h \<equiv> view_executed V (kern (globals h)) (pid_of e)"

definition in_step :: "('k, 'regex) env \<Rightarrow> 'k tracee_view \<Rightarrow> bool \<Rightarrow> 'k handler \<Rightarrow> bool" where
  "in_step e V legacy h \<longleftrightarrow> tracee_seccomp_init_complete h \<and> is_legacy_seccomp h = legacy \<and>
     phase_of e V h = (if is_after_syscall_entry h then SeccompStop else ExitStop)"

section \<open>Registers\<close>

lemma in_kernel_Inr:
  "m (kern (globals h)) = (Inr a, s') \<Longrightarrow>
     in_kernel m h = (Inr a, h\<lparr>globals := (globals h)\<lparr>kern := s'\<rparr>\<rparr>)"
  by (simp add: in_kernel_def on_globals_def on_kern_def on_err_def)

lemma in_kernel_getregs:
  assumes "getregs_law (api e) V" "phase_of e V h \<noteq> UserCode"
  shows "in_kernel (getregs (api e) (pid_of e)) h = (Inr (regs_of e V h), h)"
proof -
  have "getregs (api e) (pid_of e) (kern (globals h)) = (Inr (regs_of e V h), kern (globals h))"
    using assms by (simp add: getregs_law_def getregs_def io_simps)
  then show ?thesis by (simp add: in_kernel_Inr)
qed

definition with_regs :: "('k, 'regex) env \<Rightarrow> 'k tracee_view \<Rightarrow> generic_purpose_regs \<Rightarrow> 'k handler \<Rightarrow> 'k handler \<Rightarrow> bool" where
  "with_regs e V r h h' \<longleftrightarrow> (\<exists>s. h' = h\<lparr>globals := (globals h)\<lparr>kern := s\<rparr>\<rparr>) \<and> regs_of e V h' = r \<and>
     phase_of e V h' = phase_of e V h \<and> executed e V h' = executed e V h"

lemma in_kernel_setregs:
  assumes "setregs_law (api e) V" "phase_of e V h \<noteq> UserCode"
  shows "\<exists>h'. in_kernel (setregs (api e) (pid_of e) r) h = (Inr (), h') \<and> with_regs e V r h h'"
proof -
  obtain s where "sys_setregset (api e) (pid_of e) (regs_words r) (kern (globals h)) = (Inr (), s)"
    and "view_regs V s = (view_regs V (kern (globals h)))(pid_of e := words_regs (regs_words r))"
    and "view_phase V s = view_phase V (kern (globals h))" "view_executed V s = view_executed V (kern (globals h))"
    using assms unfolding setregs_law_def by blast
  then show ?thesis
    by (intro exI [of _ "h\<lparr>globals := (globals h)\<lparr>kern := s\<rparr>\<rparr>"])
       (auto simp: setregs_def io_simps with_regs_def intro!: in_kernel_Inr)
qed

lemma with_regs_trans: "with_regs e V r h h1 \<Longrightarrow> with_regs e V r' h1 h2 \<Longrightarrow> with_regs e V r' h h2"
  by (fastforce simp: with_regs_def)

lemma m_then_in_kernel: "in_kernel (m_then m f) h = m_then (in_kernel m) (\<lambda>a. in_kernel (f a)) h"
  by (simp add: in_kernel_def on_globals_def on_kern_def on_err_def m_then_apply split: prod.splits sum.splits fault.splits)

lemma in_kernel_set_syscall_num:
  assumes laws: "getregs_law (api e) V" "setregs_law (api e) V" and p: "phase_of e V h \<noteq> UserCode"
  shows "\<exists>h'. in_kernel (set_syscall_num (api e) (pid_of e) n) h = (Inr (), h') \<and>
    with_regs e V ((regs_of e V h)\<lparr>syscall_num := n\<rparr>) h h'"
proof -
  obtain h' where h': "in_kernel (setregs (api e) (pid_of e) ((regs_of e V h)\<lparr>syscall_num := n\<rparr>)) h = (Inr (), h')"
    "with_regs e V ((regs_of e V h)\<lparr>syscall_num := n\<rparr>) h h'"
    using in_kernel_setregs [OF laws(2) p] by blast
  then have "phase_of e V h' \<noteq> UserCode" using p by (auto simp: with_regs_def)
  have last: "in_kernel (ret ()) h' = (Inr (), h')" by (simp add: in_kernel_Inr ret_def)
  have "in_kernel (set_syscall_num (api e) (pid_of e) n) h = (Inr (), h')"
    unfolding set_syscall_num_def m_then_in_kernel
    using in_kernel_getregs [OF laws(1) p] in_kernel_getregs [OF laws(1) \<open>phase_of e V h' \<noteq> UserCode\<close>] h'(1) last
    by (simp add: m_then_in_kernel m_then_apply)
  with h'(2) show ?thesis by blast
qed

section \<open>Waiting for the stops of a system call\<close>

lemma outside_step_cells:
  assumes "outside_step h h'"
  shows "is_after_syscall_entry h' = is_after_syscall_entry h" "is_legacy_seccomp h' = is_legacy_seccomp h"
    "tracee_seccomp_init_complete h' = tracee_seccomp_init_complete h" "MEM h' = MEM h"
    "resume_through_syscall h' = resume_through_syscall h" "perms_ids h' = perms_ids h"
    "orig_syscall_num h' = orig_syscall_num h" "tracee_stack_offset h' = tracee_stack_offset h"
    "yielder_syscall h' = yielder_syscall h"
proof -
  obtain g rt sig ig where "h' = h\<lparr>globals := g, runtime := rt, signal_tracee := sig, ignore_sigstops := ig\<rparr>"
    using assms unfolding outside_step_def by blast
  then show "is_after_syscall_entry h' = is_after_syscall_entry h" "is_legacy_seccomp h' = is_legacy_seccomp h"
    "tracee_seccomp_init_complete h' = tracee_seccomp_init_complete h" "MEM h' = MEM h"
    "resume_through_syscall h' = resume_through_syscall h" "perms_ids h' = perms_ids h"
    "orig_syscall_num h' = orig_syscall_num h" "tracee_stack_offset h' = tracee_stack_offset h"
    "yielder_syscall h' = yielder_syscall h"
    by simp_all
qed

lemma outside_step_update:
  "outside_step h h' \<Longrightarrow> outside_step (h\<lparr>is_after_syscall_entry := b, resume_through_syscall := c\<rparr>)
     (h'\<lparr>is_after_syscall_entry := b, resume_through_syscall := c\<rparr>)"
  by (cases h; cases h') (simp add: outside_step_def)

lemma outside_step_trans: "outside_step h h1 \<Longrightarrow> outside_step h1 h2 \<Longrightarrow> outside_step h h2"
  by (cases h; cases h1; cases h2) (simp add: outside_step_def)

lemma outside_step_refl [simp]: "outside_step h h"
  by (simp add: outside_step_def)

text \<open>
  From \<open>h\<close> to \<open>h'\<close> the tracee has moved to the stop of the other kind, and the handler knows it.
\<close>

definition moved :: "('k, 'regex) env \<Rightarrow> 'k tracee_view \<Rightarrow> bool \<Rightarrow> 'k handler \<Rightarrow> 'k handler \<Rightarrow> bool" where
  "moved e V entry h h' \<longleftrightarrow> is_after_syscall_entry h' = entry \<and>
     phase_of e V h' = (if entry then SeccompStop else ExitStop) \<and>
     outside_step (h\<lparr>is_after_syscall_entry := entry, resume_through_syscall := \<not> entry\<rparr>) h' \<and>
     executed e V h' = executed e V h @ (if entry then [] else [regs_of e V h])"

lemma moved_in_step: "in_step e V legacy h \<Longrightarrow> moved e V entry h h' \<Longrightarrow> in_step e V legacy h'"
  using outside_step_cells [of "h\<lparr>is_after_syscall_entry := entry, resume_through_syscall := \<not> entry\<rparr>" h']
  by (simp add: in_step_def moved_def)

lemma stop_law_entry:
  assumes "stop_law V pid legacy w" "view_phase V (kern (globals h)) pid \<in> {UserCode, ExitStop}"
    "\<not> resume_through_syscall h"
  obtains p sig h' where "w WaitForPtraceSeccomp h = (Inr (PtraceEvent p sig PTRACE_EVENT_SECCOMP), h')"
    "reaches V pid h h' SeccompStop []"
  using assms unfolding stop_law_def by metis

lemma stop_law_exit:
  assumes "stop_law V pid legacy w" "view_phase V (kern (globals h)) pid = (if legacy then EntryStop else SeccompStop)"
    "resume_through_syscall h"
  obtains p h' where "w WaitForPtraceSyscall h = (Inr (PtraceSyscall p), h')"
    "reaches V pid h h' ExitStop [view_regs V (kern (globals h)) pid]"
  using assms unfolding stop_law_def by metis

lemma stop_law_legacy:
  assumes "stop_law V pid True w" "view_phase V (kern (globals h)) pid = SeccompStop" "resume_through_syscall h"
  obtains p h' where "w WaitForPtraceSyscall h = (Inr (PtraceSyscall p), h')" "reaches V pid h h' EntryStop []"
    "view_regs V (kern (globals h')) pid = view_regs V (kern (globals h)) pid"
  using assms unfolding stop_law_def by metis

lemma wait_entry:
  assumes laws: "kernel_laws e V legacy w" and h: "in_step e V legacy h" "\<not> is_after_syscall_entry h"
  shows "\<exists>st h'. run w wait_for_syscall h = (Inr st, h') \<and> is_seccomp_event st \<and> moved e V True h h'"
proof -
  let ?h = "h\<lparr>is_after_syscall_entry := False, resume_through_syscall := False\<rparr>"
  obtain p sig h' where w: "w WaitForPtraceSeccomp ?h = (Inr (PtraceEvent p sig PTRACE_EVENT_SECCOMP), h')"
    and r: "reaches V (pid_of e) ?h h' SeccompStop []"
    using laws h stop_law_entry [of V "pid_of e" legacy w ?h] by (auto simp: kernel_laws_def in_step_def)
  let ?h' = "h'\<lparr>is_after_syscall_entry := True\<rparr>"
  have "run w wait_for_syscall h = (Inr (PtraceEvent p sig PTRACE_EVENT_SECCOMP), ?h')"
    using h w by (simp add: in_step_def wait_for_syscall_entry await_cases m_then_apply is_seccomp_event_def io_simps)
  moreover have out: "outside_step ?h h'" using r by (simp add: reaches_def)
  have "outside_step (h\<lparr>is_after_syscall_entry := True, resume_through_syscall := False\<rparr>) ?h'"
    using outside_step_update [OF out, where b = True and c = False] outside_step_cells(5) [OF out]
    by (cases h') simp
  then have "moved e V True h ?h'"
    using r by (simp add: moved_def reaches_def)
  ultimately show ?thesis by (auto simp: is_seccomp_event_def)
qed

lemma wait_exit:
  assumes laws: "kernel_laws e V legacy w" and h: "in_step e V legacy h" "is_after_syscall_entry h"
  shows "\<exists>st h'. run w wait_for_syscall h = (Inr st, h') \<and> is_syscall_stop st \<and> moved e V False h h'"
proof (cases legacy)
  case False
  let ?h = "h\<lparr>is_after_syscall_entry := False, resume_through_syscall := True\<rparr>"
  have "view_phase V (kern (globals ?h)) (pid_of e) = SeccompStop" using h by (simp add: in_step_def)
  then obtain p h' where w: "w WaitForPtraceSyscall ?h = (Inr (PtraceSyscall p), h')"
    and r: "reaches V (pid_of e) ?h h' ExitStop [regs_of e V h]"
    using laws False stop_law_exit [of V "pid_of e" legacy w ?h] by (auto simp: kernel_laws_def)
  have out: "outside_step ?h h'" using r by (simp add: reaches_def)
  have same: "h'\<lparr>is_after_syscall_entry := False\<rparr> = h'" using outside_step_cells(1) [OF out] by simp
  have "run w wait_for_syscall h = (Inr (PtraceSyscall p), h'\<lparr>is_after_syscall_entry := False\<rparr>)"
    using h w False by (simp add: in_step_def wait_for_syscall_exit await_cases m_then_apply is_seccomp_event_def io_simps)
  moreover have "moved e V False h h'"
    using r outside_step_cells(1) [OF out] by (simp add: moved_def reaches_def)
  ultimately show ?thesis using same by auto
next
  case True
  let ?h = "h\<lparr>is_after_syscall_entry := False, resume_through_syscall := True\<rparr>"
  have "view_phase V (kern (globals ?h)) (pid_of e) = SeccompStop" using h by (simp add: in_step_def)
  then obtain p h1 where w1: "w WaitForPtraceSyscall ?h = (Inr (PtraceSyscall p), h1)"
    and r1: "reaches V (pid_of e) ?h h1 EntryStop []" and regs: "regs_of e V h1 = regs_of e V h"
    using laws True stop_law_legacy [of V "pid_of e" w ?h] by (auto simp: kernel_laws_def)
  have out1: "outside_step ?h h1" using r1 by (simp add: reaches_def)
  have same1: "h1\<lparr>is_after_syscall_entry := False, resume_through_syscall := True\<rparr> = h1"
    using outside_step_cells(1,5) [OF out1] by simp
  obtain p' h2 where w2: "w WaitForPtraceSyscall h1 = (Inr (PtraceSyscall p'), h2)"
    and r2: "reaches V (pid_of e) h1 h2 ExitStop [regs_of e V h1]"
    using laws True r1 outside_step_cells(5) [OF out1] stop_law_exit [of V "pid_of e" legacy w h1]
    by (auto simp: kernel_laws_def reaches_def)
  have out2: "outside_step h1 h2" using r2 by (simp add: reaches_def)
  have cell2: "\<not> is_after_syscall_entry h2" using outside_step_cells(1) [OF out1] outside_step_cells(1) [OF out2] by simp
  have "run w wait_for_syscall h = (Inr (PtraceSyscall p'), h2\<lparr>is_after_syscall_entry := False\<rparr>)"
    using h w1 w2 same1 True
    by (simp add: in_step_def wait_for_syscall_exit_legacy await_cases m_then_apply is_seccomp_event_def io_simps)
  moreover have "h2\<lparr>is_after_syscall_entry := False\<rparr> = h2" using cell2 by simp
  moreover have "moved e V False h h2"
    using r1 r2 regs cell2 outside_step_trans [OF out1 out2] by (simp add: moved_def reaches_def)
  ultimately show ?thesis by auto
qed

lemma do_resume:
  assumes laws: "kernel_laws e V legacy w" and h: "in_step e V legacy h" "is_after_syscall_entry h"
  shows "\<exists>h'. run w (do_resume_syscall e) h = (Inr (regs_of e V h'), h') \<and> moved e V False h h'"
proof -
  obtain st h' where wait: "run w wait_for_syscall h = (Inr st, h')" and m: "moved e V False h h'"
    using wait_exit [OF laws h] by blast
  have "in_kernel (getregs (api e) (pid_of e)) h' = (Inr (regs_of e V h'), h')"
    using laws m by (intro in_kernel_getregs) (auto simp: kernel_laws_def moved_def)
  then show ?thesis
    using wait m by (auto simp: do_resume_syscall_def run_simps m_then_apply)
qed

lemma with_regs_cells:
  assumes "with_regs e V r h h'"
  shows "is_after_syscall_entry h' = is_after_syscall_entry h" "is_legacy_seccomp h' = is_legacy_seccomp h"
    "tracee_seccomp_init_complete h' = tracee_seccomp_init_complete h" "perms_ids h' = perms_ids h"
    "orig_syscall_num h' = orig_syscall_num h" "MEM h' = MEM h" "ignore_sigstops h' = ignore_sigstops h"
  using assms by (auto simp: with_regs_def)

lemma with_regs_in_step: "with_regs e V r h h' \<Longrightarrow> in_step e V legacy h \<Longrightarrow> in_step e V legacy h'"
  using with_regs_cells [of e V r h h'] by (simp add: in_step_def with_regs_def)

text \<open>Skipping: from the entry of a system call to its exit, with another number and a given return value.\<close>

definition skipped :: "('k, 'regex) env \<Rightarrow> 'k tracee_view \<Rightarrow> bool \<Rightarrow> usize \<Rightarrow> 'k handler \<Rightarrow> 'k handler \<Rightarrow> bool" where
  "skipped e V legacy v h h' \<longleftrightarrow> in_step e V legacy h' \<and> \<not> is_after_syscall_entry h' \<and>
     executed e V h' = executed e V h @ [(regs_of e V h)\<lparr>syscall_num := NO_MOD_SYSCALL (env_libc e)\<rparr>] \<and> syscall_retval (regs_of e V h') = v \<and>
     perms_ids h' = perms_ids h"

lemma do_skip:
  assumes laws: "kernel_laws e V legacy w" and h: "in_step e V legacy h" "is_after_syscall_entry h"
  shows "\<exists>h'. run w (do_skip_syscall e v) h = (Inr (), h') \<and> skipped e V legacy v h h'"
proof -
  have g: "getregs_law (api e) V" and s: "setregs_law (api e) V" using laws by (auto simp: kernel_laws_def)
  have "phase_of e V h \<noteq> UserCode" using h by (simp add: in_step_def)
  from in_kernel_set_syscall_num [OF g s this]
  obtain h1 where num: "in_kernel (set_syscall_num (api e) (pid_of e) (NO_MOD_SYSCALL (env_libc e))) h = (Inr (), h1)"
    and r1: "with_regs e V ((regs_of e V h)\<lparr>syscall_num := NO_MOD_SYSCALL (env_libc e)\<rparr>) h h1" by blast
  have i1: "in_step e V legacy h1" "is_after_syscall_entry h1"
    using with_regs_in_step [OF r1 h(1)] with_regs_cells [OF r1] h(2) by simp_all
  obtain h2 where res: "run w (do_resume_syscall e) h1 = (Inr (regs_of e V h2), h2)" and m: "moved e V False h1 h2"
    using do_resume [OF laws i1] by blast
  have i2: "in_step e V legacy h2" "\<not> is_after_syscall_entry h2"
    using moved_in_step [OF i1(1) m] m by (simp_all add: moved_def)
  then have "phase_of e V h2 \<noteq> UserCode" by (simp add: in_step_def)
  from in_kernel_setregs [OF s this]
  obtain h3 where set: "in_kernel (setregs (api e) (pid_of e) (set_syscall_retval v (regs_of e V h2))) h2 = (Inr (), h3)"
    and r3: "with_regs e V (set_syscall_retval v (regs_of e V h2)) h2 h3" by blast
  have "run w (do_skip_syscall e v) h = (Inr (), h3)"
    using num res set by (simp add: do_skip_syscall_def run_simps m_then_apply)
  moreover have "executed e V h3 = executed e V h @ [(regs_of e V h)\<lparr>syscall_num := NO_MOD_SYSCALL (env_libc e)\<rparr>]"
    using r1 m r3 by (simp add: with_regs_def moved_def)
  moreover have "syscall_retval (regs_of e V h3) = v"
    using r3 by (simp add: with_regs_def syscall_retval_def set_syscall_retval_def)
  moreover have "perms_ids h3 = perms_ids h"
    using with_regs_cells(4) [OF r1] with_regs_cells(4) [OF r3] m outside_step_cells(6)
    by (fastforce simp: moved_def)
  ultimately show ?thesis
    using with_regs_in_step [OF r3 i2(1)] with_regs_cells [OF r3] i2(2) by (auto simp: skipped_def)
qed

section \<open>A kernel that keeps the laws\<close>

text \<open>The kernel also has the memory of the tracees, files by path, and open files with their position.\<close>

datatype sim_node = SimFile "u8 list" | SimLink path | SimDir

record sim_kernel =
  sim_regs :: "pid \<Rightarrow> generic_purpose_regs"
  sim_phase :: "pid \<Rightarrow> phase"
  sim_executed :: "pid \<Rightarrow> generic_purpose_regs list"
  sim_mem :: "pid \<Rightarrow> usize \<Rightarrow> u8 option"
  sim_nodes :: "path \<Rightarrow> sim_node option"
  sim_fds :: "fd \<Rightarrow> (path \<times> nat) option"

definition sim_machine :: "sim_kernel \<Rightarrow> machine" where
  "sim_machine s = \<lparr>m_bytes = sim_mem s, m_regs = (\<lambda>_. [])\<rparr>"

definition sim_view :: "sim_kernel tracee_view" where
  "sim_view = \<lparr>view_regs = sim_regs, view_phase = sim_phase, view_executed = sim_executed\<rparr>"

definition no_call :: "'k \<Rightarrow> (errno + 'a) \<times> 'k" where
  "no_call s = (Inl ENOSYS, s)"

definition sim_api :: "sim_kernel tracer_api" where
  "sim_api = \<lparr>
     sys_ptrace_read = (\<lambda>pid addr s. (fst (sys_ptrace_read machine_api pid addr (sim_machine s)), s)),
     sys_ptrace_write = (\<lambda>pid addr v s.
       case sys_ptrace_write machine_api pid addr v (sim_machine s) of (r, m) \<Rightarrow> (r, s\<lparr>sim_mem := m_bytes m\<rparr>)),
     sys_getregset = (\<lambda>pid s. (Inr (regs_words (sim_regs s pid)), s)),
     sys_setregset = (\<lambda>pid ws s. (Inr (), s\<lparr>sim_regs := (sim_regs s)(pid := words_regs ws)\<rparr>)),
     sys_geteventmsg = (\<lambda>_. no_call), sys_waitpid = (\<lambda>_ _. no_call),
     sys_open_mem = (\<lambda>_. no_call), sys_lseek = (\<lambda>_ _. no_call), sys_fd_read = (\<lambda>_ _. no_call),
     sys_getsiginfo = (\<lambda>_. no_call), sys_detach = (\<lambda>_ _. no_call), sys_cont = (\<lambda>_ _. no_call),
     sys_syscall = (\<lambda>_ _. no_call), sys_setoptions = (\<lambda>_ _. no_call), sys_attach = (\<lambda>_. no_call),
     sys_kill = (\<lambda>_ _. no_call), sys_uname = no_call, sys_gdb = (\<lambda>_. no_call), sys_spawn = (\<lambda>_ s. s)\<rparr>"

definition sim_syscall_stop :: "bool \<Rightarrow> pid \<Rightarrow> sim_kernel \<Rightarrow> sim_kernel" where
  "sim_syscall_stop legacy pid s =
     (if sim_phase s pid = EntryStop \<or> sim_phase s pid = SeccompStop \<and> \<not> legacy
      then s\<lparr>sim_phase := (sim_phase s)(pid := ExitStop),
             sim_executed := (sim_executed s)(pid := sim_executed s pid @ [sim_regs s pid]),
             sim_regs := (sim_regs s)(pid := (sim_regs s pid)\<lparr>rax := 0\<rparr>)\<rparr>
      else s\<lparr>sim_phase := (sim_phase s)(pid := EntryStop)\<rparr>)"

definition sim_between :: "bool \<Rightarrow> pid \<Rightarrow> sim_kernel handler between" where
  "sim_between legacy pid t h =
     (let s = kern (globals h)
      in case t of
           WaitForPtraceSeccomp \<Rightarrow>
             (Inr (PtraceEvent pid SIGTRAP PTRACE_EVENT_SECCOMP),
              h\<lparr>globals := (globals h)\<lparr>kern := s\<lparr>sim_phase := (sim_phase s)(pid := SeccompStop)\<rparr>\<rparr>\<rparr>)
         | WaitForPtraceSyscall \<Rightarrow>
             (Inr (PtraceSyscall pid), h\<lparr>globals := (globals h)\<lparr>kern := sim_syscall_stop legacy pid s\<rparr>\<rparr>)
         | _ \<Rightarrow> (Inr StillAlive, h))"

definition zero_regs :: generic_purpose_regs where
  "zero_regs = words_regs (replicate 27 0)"

definition sim_handler :: "generic_purpose_regs \<Rightarrow> phase \<Rightarrow> bool \<Rightarrow> bool \<Rightarrow> sim_kernel handler" where
  "sim_handler r p legacy ready = \<lparr>
     globals = initial_globals \<lparr>sim_regs = (\<lambda>_. r), sim_phase = (\<lambda>_. p), sim_executed = (\<lambda>_. []),
       sim_mem = (\<lambda>_ _. None), sim_nodes = (\<lambda>_. None), sim_fds = (\<lambda>_. None)\<rparr>,
     ignore_sigstops = (\<lambda>_. RwLock False {}), MEM = SlowMem, runtime = async_runtime_new 1024,
     yielder_syscall = \<lparr>num_polls = 0\<rparr>, resume_through_syscall = False, signal_tracee = None,
     transfer_to_gdb = False, perms_ids = replicate PERMS_IDS_SIZE None, path_prefix = None,
     path_prefix_excludes = [], mmap_tracee_addr = 0, tracee_stack_offset = 0,
     is_after_syscall_entry = (p = SeccompStop), is_legacy_seccomp = legacy,
     tracee_seccomp_init_complete = ready, orig_syscall_num = None\<rparr>"

definition default_sysaug_args :: sysaug_args where
  "default_sysaug_args = \<lparr>args_chroot = None, args_rootfs = None, args_perms_mode = Passthrough,
     args_fail_fast = False, args_fix_sigsys = False, args_fix_mmap = False, args_gdb = False,
     args_gdb_at = None, args_use_native_loader = False\<rparr>"

definition sim_from_raw :: "pid \<Rightarrow> int \<Rightarrow> errno + wait_status" where
  "sim_from_raw pid n = (if n mod 256 = 127 then Inr (Stopped pid (n div 256 mod 256))
     else if n mod 128 = 0 then Inr (Exited pid (n div 256 mod 256)) else Inl EINVAL)"

definition sim_env :: "libc \<Rightarrow> sysaug_args \<Rightarrow> (sim_kernel, unit) env" where
  "sim_env L args = \<lparr>api = sim_api, env_libc = L, wait_status_from_raw = sim_from_raw, thread = 0, client_of = LocalPtraceClient, handler_of =
     \<lparr>h_pid = 1, h_shared_fd = 3, mmap_tracer_addr = 0,
      h_consts = \<lparr>consts_args = args, consts_config = default_sysaug_config 0 0, consts_root_pid = 1\<rparr>,
      parent = None, failed = False\<rparr>\<rparr>"

lemma sim_laws: "kernel_laws (sim_env L args) sim_view legacy (sim_between legacy 1)"
  by (auto simp: kernel_laws_def getregs_law_def setregs_law_def stop_law_def reaches_def outside_step_def
      sim_env_def sim_api_def sim_view_def sim_between_def sim_syscall_stop_def Let_def fun_eq_iff)

lemma sim_memory_laws: "peek_law sim_api sim_mem" "poke_law sim_api sim_mem" "regs_law sim_api"
proof -
  show "peek_law sim_api sim_mem"
    using machine_peek_law by (simp add: peek_law_def sim_api_def sim_machine_def prod_eq_iff)
  show "poke_law sim_api sim_mem"
    by (auto simp: poke_law_def sim_api_def machine_api_def machine_mapped_def sim_machine_def split: if_splits)
  show "regs_law sim_api"
    by (auto simp: regs_law_def sim_api_def split: prod.split)
qed

lemma sim_in_step: "p = SeccompStop \<or> p = ExitStop \<Longrightarrow> in_step (sim_env L args) sim_view legacy (sim_handler r p legacy True)"
  by (auto simp: in_step_def sim_handler_def sim_env_def sim_view_def initial_globals_def)

lemma sim_after_entry: "is_after_syscall_entry (sim_handler r SeccompStop legacy ready)"
  by (simp add: sim_handler_def)

lemma sim_simps:
  "pid_of (sim_env L args) = 1" "env_libc (sim_env L args) = L" "args_of (sim_env L args) = args"
  "view_regs sim_view = sim_regs" "view_executed sim_view = sim_executed" "view_phase sim_view = sim_phase"
  "sim_executed (kern (globals (sim_handler r p legacy ready))) pid = []"
  "sim_regs (kern (globals (sim_handler r p legacy ready))) pid = r"
  by (simp_all add: sim_env_def sim_view_def sim_handler_def initial_globals_def)

section \<open>Properties\<close>

text \<open>A number of waits one after the other, with the statuses they return.\<close>

fun wait_times :: "nat \<Rightarrow> ('k handler, sysaug_error, wait_status list) async" where
  "wait_times 0 = sync (ret [])"
| "wait_times (Suc n) = a_then wait_for_syscall (\<lambda>st. a_then (wait_times n) (\<lambda>sts. sync (ret (st # sts))))"

fun alternating :: "bool \<Rightarrow> wait_status list \<Rightarrow> bool" where
  "alternating after_entry [] = True"
| "alternating after_entry (st # sts) =
     ((if after_entry then is_syscall_stop st else is_seccomp_event st) \<and> alternating (\<not> after_entry) sts)"

lemma wait_once:
  assumes "kernel_laws e V legacy w" "in_step e V legacy h"
  shows "\<exists>st h'. run w wait_for_syscall h = (Inr st, h') \<and> alternating (is_after_syscall_entry h) [st] \<and>
    moved e V (\<not> is_after_syscall_entry h) h h'"
  using wait_entry [OF assms] wait_exit [OF assms] by (cases "is_after_syscall_entry h") auto

lemma wait_times_alternating:
  assumes laws: "kernel_laws e V legacy w" and "in_step e V legacy h"
  shows "\<exists>sts h'. run w (wait_times n) h = (Inr sts, h') \<and> length sts = n \<and>
    alternating (is_after_syscall_entry h) sts \<and> in_step e V legacy h' \<and>
    (is_after_syscall_entry h' \<longleftrightarrow> is_after_syscall_entry h \<noteq> odd n) \<and>
    length (executed e V h') = length (executed e V h) + (n + (if is_after_syscall_entry h then 1 else 0)) div 2"
  using assms(2)
proof (induction n arbitrary: h)
  case 0
  then show ?case by (simp add: run_simps io_simps)
next
  case (Suc n)
  obtain st h1 where one: "run w wait_for_syscall h = (Inr st, h1)" "alternating (is_after_syscall_entry h) [st]"
    and m: "moved e V (\<not> is_after_syscall_entry h) h h1"
    using wait_once [OF laws Suc.prems] by blast
  have cell: "is_after_syscall_entry h1 = (\<not> is_after_syscall_entry h)" using m by (simp add: moved_def)
  obtain sts h2 where rest: "run w (wait_times n) h1 = (Inr sts, h2)" "length sts = n"
    "alternating (\<not> is_after_syscall_entry h) sts" "in_step e V legacy h2"
    "is_after_syscall_entry h2 \<longleftrightarrow> (\<not> is_after_syscall_entry h) \<noteq> odd n"
    "length (executed e V h2) = length (executed e V h1) + (n + (if \<not> is_after_syscall_entry h then 1 else 0)) div 2"
    using Suc.IH [OF moved_in_step [OF Suc.prems m]] unfolding cell by blast
  have "run w (wait_times (Suc n)) h = (Inr (st # sts), h2)"
    using one(1) rest(1) by (simp add: run_simps io_simps)
  moreover have "length (executed e V h1) = length (executed e V h) + (if is_after_syscall_entry h then 1 else 0)"
    using m by (auto simp: moved_def)
  ultimately show ?case using one(2) rest by (intro exI [of _ "st # sts"] exI [of _ h2]) auto
qed

text \<open>
  C2.  On a kernel that keeps the laws, a handler whose filter is installed stays in step with its tracee:
  any number of waits succeeds without a mismatch, the statuses are by turns the seccomp stop before a
  system call and the stop after it, on old kernels as on new ones, and in two waits the tracee executes
  exactly one system call.
\<close>

theorem wait_for_syscall_alternates:
  assumes "kernel_laws e V legacy w" "in_step e V legacy h"
  shows "\<exists>sts h'. run w (wait_times n) h = (Inr sts, h') \<and> length sts = n \<and>
    alternating (is_after_syscall_entry h) sts \<and> in_step e V legacy h' \<and>
    (is_after_syscall_entry h' \<longleftrightarrow> is_after_syscall_entry h \<noteq> odd n) \<and>
    length (executed e V h') = length (executed e V h) + (n + (if is_after_syscall_entry h then 1 else 0)) div 2"
  using assms by (rule wait_times_alternating)

theorem wait_for_syscall_alternates_witness:
  "\<exists>sts h'. run (sim_between True 1) (wait_times 5) (sim_handler zero_regs ExitStop True True) = (Inr sts, h') \<and>
     length sts = 5 \<and> alternating False sts"
proof -
  let ?e = "sim_env \<lparr>SYS = (\<lambda>_. 39), AT_SYMLINK_NOFOLLOW = 256\<rparr> default_sysaug_args"
  have "in_step ?e sim_view True (sim_handler zero_regs ExitStop True True)" by (rule sim_in_step) simp
  from wait_for_syscall_alternates [OF sim_laws this, of 5] show ?thesis by (auto simp: sim_handler_def)
qed

text \<open>
  C3.  A skipped system call is never executed: the tracee executes the harmless \<open>getpid\<close> instead, and then
  finds the given value in its return register; the handler is in step with it at the exit stop.  (The comment on the
  function says that the result is set to 0; the code sets the value it is given, and its callers rely on that.)
\<close>

theorem do_skip_syscall_skips:
  assumes "kernel_laws e V legacy w" "in_step e V legacy h" "is_after_syscall_entry h"
  shows "\<exists>h'. run w (do_skip_syscall e retval) h = (Inr (), h') \<and> in_step e V legacy h' \<and>
    \<not> is_after_syscall_entry h' \<and>
    executed e V h' = executed e V h @ [(regs_of e V h)\<lparr>syscall_num := as_usize (SYS (env_libc e) ''getpid'')\<rparr>] \<and>
    syscall_retval (regs_of e V h') = retval"
  using do_skip [OF assms] by (fastforce simp: skipped_def NO_MOD_SYSCALL_def)

theorem do_skip_syscall_skips_witness:
  "\<exists>h'. run (sim_between False 1)
       (do_skip_syscall (sim_env \<lparr>SYS = (\<lambda>_. 39), AT_SYMLINK_NOFOLLOW = 256\<rparr> default_sysaug_args) (- 38))
       (sim_handler zero_regs SeccompStop False True) = (Inr (), h') \<and>
     map syscall_num (sim_executed (kern (globals h')) 1) = [39] \<and> rax (sim_regs (kern (globals h')) 1) = - 38"
proof -
  let ?e = "sim_env \<lparr>SYS = (\<lambda>_. 39), AT_SYMLINK_NOFOLLOW = 256\<rparr> default_sysaug_args"
  have "in_step ?e sim_view False (sim_handler zero_regs SeccompStop False True)" by (rule sim_in_step) simp
  from do_skip_syscall_skips [OF sim_laws this sim_after_entry, of "- 38"]
  obtain h' where h': "run (sim_between False 1) (do_skip_syscall ?e (- 38)) (sim_handler zero_regs SeccompStop False True) = (Inr (), h')"
    and ex: "executed ?e sim_view h' = executed ?e sim_view (sim_handler zero_regs SeccompStop False True) @
      [(regs_of ?e sim_view (sim_handler zero_regs SeccompStop False True))\<lparr>syscall_num := as_usize (SYS (env_libc ?e) ''getpid'')\<rparr>]"
    and rv: "syscall_retval (regs_of ?e sim_view h') = - 38" by blast
  have "map syscall_num (sim_executed (kern (globals h')) 1) = [39]"
    using ex by (simp add: sim_simps as_usize_def)
  moreover have "rax (sim_regs (kern (globals h')) 1) = - 38"
    using rv by (simp add: sim_simps syscall_retval_def)
  ultimately show ?thesis by (intro exI [of _ h'] conjI) (rule h')
qed

end
