(* ===== verification/Host_Files.thy ===== *)
theory Host_Files
  imports Tracee_Stops
begin

text \<open>
  What the augmentations of paths and of \<open>execve\<close> use of the host: the calls of \<open>std::fs\<close> on files and
  directories, the regular expressions of the \<open>regex\<close> crate, the JSON of \<open>serde_json\<close> and the program headers that
  the \<open>elf\<close> crate finds.  All of them are parameters, the fields of \<open>host_api\<close>; the laws they keep are
  hypotheses where a theorem needs them.  The second part runs code with an open file, which is closed on every path
  out of it.
\<close>

section \<open>The host\<close>

record file_stat =
  st_mode :: u32
  st_uid :: u32
  st_gid :: u32

record program_header =
  progtype :: u32
  ph_offset :: usize
  ph_filesz :: usize

text \<open>
  \<open>fs_exists\<close> is \<open>std::fs::exists\<close>; \<open>fs_is_symlink\<close> is \<open>symlink_metadata\<close> with \<open>is_symlink\<close> of its type; \<open>fs_open_rw\<close>
  creates a missing file; \<open>fs_read_rest\<close> reads to the end of a file and \<open>fs_read_line\<close> a line with its newline, which has to be valid UTF-8;
  \<open>elf_headers\<close> is \<open>elf::File::open_stream\<close>, an error for a file that is not an ELF file.  \<open>link_limit\<close> bounds the
  chains of links and of interpreters that are followed.
\<close>

record ('k, 'regex) host_api =
  fs_exists :: "path \<Rightarrow> 'k \<Rightarrow> (errno + bool) \<times> 'k"
  fs_is_dir :: "path \<Rightarrow> 'k \<Rightarrow> (errno + bool) \<times> 'k"
  fs_is_symlink :: "path \<Rightarrow> 'k \<Rightarrow> (errno + bool) \<times> 'k"
  fs_read_link :: "path \<Rightarrow> 'k \<Rightarrow> (errno + path) \<times> 'k"
  fs_canonicalize :: "path \<Rightarrow> 'k \<Rightarrow> (errno + path) \<times> 'k"
  fs_current_dir :: "'k \<Rightarrow> (errno + path) \<times> 'k"
  fs_stat :: "path \<Rightarrow> 'k \<Rightarrow> (errno + file_stat) \<times> 'k"
  fs_create_dir_all :: "path \<Rightarrow> 'k \<Rightarrow> (errno + unit) \<times> 'k"
  fs_remove_file :: "path \<Rightarrow> 'k \<Rightarrow> (errno + unit) \<times> 'k"
  fs_remove_dir_all :: "path \<Rightarrow> 'k \<Rightarrow> (errno + unit) \<times> 'k"
  fs_open_rw :: "path \<Rightarrow> 'k \<Rightarrow> (errno + fd) \<times> 'k"
  fs_open_ro :: "path \<Rightarrow> 'k \<Rightarrow> (errno + fd) \<times> 'k"
  fs_lock_exclusive :: "fd \<Rightarrow> 'k \<Rightarrow> (errno + unit) \<times> 'k"
  fs_read_rest :: "fd \<Rightarrow> 'k \<Rightarrow> (errno + u8 list) \<times> 'k"
  fs_read_exact :: "fd \<Rightarrow> usize \<Rightarrow> 'k \<Rightarrow> (errno + u8 list) \<times> 'k"
  fs_read_line :: "fd \<Rightarrow> 'k \<Rightarrow> (errno + u8 list) \<times> 'k"
  fs_seek :: "fd \<Rightarrow> usize \<Rightarrow> 'k \<Rightarrow> (errno + unit) \<times> 'k"
  fs_set_len :: "fd \<Rightarrow> usize \<Rightarrow> 'k \<Rightarrow> (errno + unit) \<times> 'k"
  fs_write_all :: "fd \<Rightarrow> u8 list \<Rightarrow> 'k \<Rightarrow> (errno + unit) \<times> 'k"
  fs_close :: "fd \<Rightarrow> 'k \<Rightarrow> (errno + unit) \<times> 'k"
  errno_message :: "errno \<Rightarrow> string"
  regex_is_match :: "'regex \<Rightarrow> u8 list \<Rightarrow> bool"
  regex_replace :: "'regex \<Rightarrow> u8 list \<Rightarrow> u8 list \<Rightarrow> u8 list"
  regex_replace_all :: "'regex \<Rightarrow> u8 list \<Rightarrow> u8 list \<Rightarrow> u8 list"
  json_read_metadata :: "u8 list \<Rightarrow> string + rootfs_metadata"
  json_read_metadata_option :: "u8 list \<Rightarrow> string + rootfs_metadata option"
  json_write_metadata :: "rootfs_metadata \<Rightarrow> u8 list"
  elf_headers :: "fd \<Rightarrow> 'k \<Rightarrow> (errno + program_header list) \<times> 'k"
  link_limit :: nat

section \<open>Open files\<close>

text \<open>\<open>Path::exists\<close> and \<open>Path::is_dir\<close> take an error for \<open>false\<close>; \<open>let _ = ..\<close> ignores a result.\<close>

definition or_false :: "errno + bool \<Rightarrow> bool" where
  "or_false r = (case r of Inl _ \<Rightarrow> False | Inr b \<Rightarrow> b)"

definition path_exists :: "('k, 'regex) host_api \<Rightarrow> path \<Rightarrow> ('k handler, sysaug_error, bool) io" where
  "path_exists x p = m_then (nix (fs_exists x p)) (\<lambda>r. ret (or_false r))"

definition path_is_dir :: "('k, 'regex) host_api \<Rightarrow> path \<Rightarrow> ('k handler, sysaug_error, bool) io" where
  "path_is_dir x p = m_then (nix (fs_is_dir x p)) (\<lambda>r. ret (or_false r))"

definition ignore_result :: "('k \<Rightarrow> (errno + unit) \<times> 'k) \<Rightarrow> ('k handler, sysaug_error, unit) io" where
  "ignore_result c = m_then (nix c) (\<lambda>_. ret ())"

definition with_file ::
  "('k, 'regex) host_api \<Rightarrow> fd \<Rightarrow> ('k handler, sysaug_error, 'a) io \<Rightarrow> ('k handler, sysaug_error, 'a) io" where
  "with_file x fd m = (\<lambda>h. case m h of (r, h') \<Rightarrow> (r, snd (ignore_result (fs_close x fd) h')))"

section \<open>A host with the files of the small kernel\<close>

text \<open>
  It makes concrete instances of the theorems; a file is known by the bytes of its path, directories need not
  be made, and one file is open at a time.
\<close>

definition sim_open :: "path \<Rightarrow> sim_kernel \<Rightarrow> (errno + fd) \<times> sim_kernel" where
  "sim_open p s = (case sim_nodes s p of
     Some (SimFile bs) \<Rightarrow> (Inr 7, s\<lparr>sim_fds := (sim_fds s)(7 \<mapsto> (p, 0))\<rparr>)
   | _ \<Rightarrow> (Inl ENOENT, s))"

definition sim_file :: "sim_kernel \<Rightarrow> fd \<Rightarrow> (path \<times> nat \<times> u8 list) option" where
  "sim_file s fd = (case sim_fds s fd of
     Some (p, n) \<Rightarrow> (case sim_nodes s p of Some (SimFile bs) \<Rightarrow> Some (p, n, bs) | _ \<Rightarrow> None)
   | None \<Rightarrow> None)"

definition sim_set_file :: "fd \<Rightarrow> path \<Rightarrow> nat \<Rightarrow> u8 list \<Rightarrow> sim_kernel \<Rightarrow> sim_kernel" where
  "sim_set_file fd p n bs s = s\<lparr>sim_fds := (sim_fds s)(fd \<mapsto> (p, n)), sim_nodes := (sim_nodes s)(p \<mapsto> SimFile bs)\<rparr>"

definition on_file ::
  "(path \<Rightarrow> nat \<Rightarrow> u8 list \<Rightarrow> sim_kernel \<Rightarrow> (errno + 'a) \<times> sim_kernel) \<Rightarrow> fd \<Rightarrow> sim_kernel \<Rightarrow> (errno + 'a) \<times> sim_kernel" where
  "on_file f fd s = (case sim_file s fd of None \<Rightarrow> (Inl EINVAL, s) | Some (p, n, bs) \<Rightarrow> f p n bs s)"

definition put_option :: "usize option \<Rightarrow> u8 list" where
  "put_option v = (case v of None \<Rightarrow> [0] | Some w \<Rightarrow> 1 # to_ne_bytes w)"

definition take_option :: "u8 list \<Rightarrow> usize option \<times> u8 list" where
  "take_option bs = (if hd bs = 0 then (None, drop 1 bs) else (Some (from_ne_bytes (take 8 (drop 1 bs))), drop 9 bs))"

definition put_metadata :: "rootfs_metadata \<Rightarrow> u8 list" where
  "put_metadata m = put_option (md_chmod m) @ put_option (md_chown_owner m) @ put_option (md_chown_group m)"

definition take_metadata :: "u8 list \<Rightarrow> rootfs_metadata" where
  "take_metadata bs =
     (let (a, bs) = take_option bs; (b, bs) = take_option bs; (c, bs) = take_option bs
      in \<lparr>md_chmod = a, md_chown_owner = b, md_chown_group = c\<rparr>)"

definition sim_host :: "(sim_kernel, unit) host_api" where
  "sim_host = \<lparr>
     fs_exists = (\<lambda>p s. (Inr (sim_nodes s p \<noteq> None), s)),
     fs_is_dir = (\<lambda>p s. (Inr (sim_nodes s p = Some SimDir), s)),
     fs_is_symlink = (\<lambda>p s. (case sim_nodes s p of
        None \<Rightarrow> Inl ENOENT | Some (SimLink _) \<Rightarrow> Inr True | Some _ \<Rightarrow> Inr False, s)),
     fs_read_link = (\<lambda>p s. (case sim_nodes s p of
        None \<Rightarrow> Inl ENOENT | Some (SimLink l) \<Rightarrow> Inr l | Some _ \<Rightarrow> Inl EINVAL, s)),
     fs_canonicalize = (\<lambda>p s. (if sim_nodes s p = None then Inl ENOENT else Inr p, s)),
     fs_current_dir = (\<lambda>s. (Inr [SLASH], s)),
     fs_stat = (\<lambda>p s. (if sim_nodes s p = None then Inl ENOENT else Inr \<lparr>st_mode = 33188, st_uid = 0, st_gid = 0\<rparr>, s)),
     fs_create_dir_all = (\<lambda>p s. (Inr (), s)),
     fs_remove_file = (\<lambda>p s. (Inr (), s\<lparr>sim_nodes := (sim_nodes s)(p := None)\<rparr>)),
     fs_remove_dir_all = (\<lambda>p s. (Inr (), s\<lparr>sim_nodes := (\<lambda>q. if starts_with q p then None else sim_nodes s q)\<rparr>)),
     fs_open_rw = (\<lambda>p s. sim_open p (if sim_nodes s p = None then s\<lparr>sim_nodes := (sim_nodes s)(p \<mapsto> SimFile [])\<rparr> else s)),
     fs_open_ro = sim_open,
     fs_lock_exclusive = (\<lambda>fd s. (Inr (), s)),
     fs_read_rest = on_file (\<lambda>p n bs s. (Inr (drop n bs), s)),
     fs_read_exact = (\<lambda>fd m. on_file (\<lambda>p n bs s.
        (if n + unat m \<le> length bs then Inr (take (unat m) (drop n bs)) else Inl EINVAL, s)) fd),
     fs_read_line = on_file (\<lambda>p n bs s.
        (Inr (takeWhile (\<lambda>b. b \<noteq> NEWLINE) (drop n bs) @ take 1 (dropWhile (\<lambda>b. b \<noteq> NEWLINE) (drop n bs))), s)),
     fs_seek = (\<lambda>fd m. on_file (\<lambda>p n bs s. (Inr (), sim_set_file fd p (unat m) bs s)) fd),
     fs_set_len = (\<lambda>fd m. on_file (\<lambda>p n bs s. (Inr (), sim_set_file fd p n (take (unat m) bs) s)) fd),
     fs_write_all = (\<lambda>fd bytes. on_file (\<lambda>p n bs s.
        (Inr (), sim_set_file fd p (n + length bytes) (take n bs @ bytes @ drop (n + length bytes) bs) s)) fd),
     fs_close = (\<lambda>fd s. (Inr (), s\<lparr>sim_fds := (sim_fds s)(fd := None)\<rparr>)),
     errno_message = (\<lambda>_. ''error''),
     regex_is_match = (\<lambda>_ _. False),
     regex_replace = (\<lambda>_ bs _. bs),
     regex_replace_all = (\<lambda>_ bs _. bs),
     json_read_metadata = (\<lambda>bs. Inr (take_metadata bs)),
     json_read_metadata_option = (\<lambda>bs. Inr (Some (take_metadata bs))),
     json_write_metadata = put_metadata,
     elf_headers = (\<lambda>fd s. (Inl EINVAL, s)),
     link_limit = 40\<rparr>"

text \<open>A handler at the entry of a system call, with a prefix and files.\<close>

definition sim_files :: "path option \<Rightarrow> (path \<Rightarrow> sim_node option) \<Rightarrow> sim_kernel handler" where
  "sim_files prefix nodes =
     (let h = sim_handler zero_regs SeccompStop False True
      in h\<lparr>path_prefix := prefix, globals := (globals h)\<lparr>kern := (kern (globals h))\<lparr>sim_nodes := nodes\<rparr>\<rparr>\<rparr>)"

lemma sim_files_simps [simp]:
  "path_prefix (sim_files prefix nodes) = prefix" "path_prefix_excludes (sim_files prefix nodes) = []"
  "sim_nodes (kern (globals (sim_files prefix nodes))) = nodes"
  by (simp_all add: sim_files_def Let_def sim_handler_def)

lemma sim_host_limit [simp]: "link_limit sim_host = 40"
  by (simp add: sim_host_def)

lemma take_put_option [simp]: "take_option (put_option v @ bs) = (v, bs)"
  by (cases v) (simp_all add: put_option_def take_option_def)

lemma take_put_metadata [simp]: "take_metadata (put_metadata m) = m"
  using take_put_option [of "md_chown_group m" "[]"] by (simp add: take_metadata_def put_metadata_def)

end
