(* ===== verification/Aug_Common.thy ===== *)
theory Aug_Common
  imports Host_Files
begin

text \<open>
  The helpers of \<open>sysaug/src/aug_common.rs\<close>: the files with the metadata (mode and owner) that
  the tracee sees of a file of its root file system, and the translation of a path of the tracee to a path of the
  host.  None of the \<open>async fn\<close>s of that file awaits a future, so all are ordinary effects.

  A \<open>HashSet<PathBuf>\<close> compares paths by their components and is the set of component lists.
\<close>

section \<open>Metadata files\<close>

text \<open>
  The metadata of the file \<open>a/b\<close> below the root file system \<open>/x/root\<close> is
  \<open>/x/root.metadata/rootfs/chld/a/chld/b/meta\<close>.
\<close>

definition CHLD :: path where "CHLD = bytes_of_string ''chld''"
definition META :: path where "META = bytes_of_string ''meta''"

fun push_children :: "path_component list \<Rightarrow> path \<Rightarrow> path option" where
  "push_children [] metadir = Some metadir"
| "push_children (c # cs) metadir =
     (case c of
        CurDir \<Rightarrow> push_children cs metadir
      | RootDir \<Rightarrow> push_children cs metadir
      | NormalDir part \<Rightarrow> push_children cs (path_push (path_push metadir part) CHLD)
      | ParentDir \<Rightarrow> None)"

definition metadata_path_in :: "path \<Rightarrow> path \<Rightarrow> path \<Rightarrow> path option" where
  "metadata_path_in rootfs name canonical_path =
     (let metaname = name @ bytes_of_string ''.metadata'';
          metadir = path_push (with_file_name rootfs metaname) (bytes_of_string ''rootfs'')
      in case strip_prefix canonical_path rootfs of
           None \<Rightarrow> None
         | Some relative_path \<Rightarrow>
             (case push_children (components relative_path) (path_push metadir CHLD) of
                None \<Rightarrow> None
              | Some metadir \<Rightarrow> Some (path_join (path_pop metadir) META)))"

definition resolve_metadata_path ::
  "('k, 'regex) env \<Rightarrow> ('k, 'regex) host_api \<Rightarrow> path \<Rightarrow> ('k handler, sysaug_error, path option) io" where
  "resolve_metadata_path e x path =
     (case args_rootfs (args_of e) of
        None \<Rightarrow> ret None
      | Some rootfs \<Rightarrow>
          if path_eq rootfs [SLASH] then ret None
          else
          m_then (path_exists x path) (\<lambda>found.
          if \<not> found then ret None
          else
          m_then (nix (fs_canonicalize x path)) (\<lambda>canonical_path.
          case canonical_path of
            Inl _ \<Rightarrow> ret None
          | Inr canonical_path \<Rightarrow>
              (case file_name rootfs of
                 None \<Rightarrow> panic
               | Some name \<Rightarrow> ret (metadata_path_in rootfs name canonical_path)))))"

definition get_metadata_path ::
  "('k, 'regex) env \<Rightarrow> ('k, 'regex) host_api \<Rightarrow> path \<Rightarrow> ('k handler, sysaug_error, path option) io" where
  "get_metadata_path e x path =
     (if args_rootfs (args_of e) = None then ret None else resolve_metadata_path e x path)"

definition read_json ::
  "('k, 'regex) host_api \<Rightarrow> fd \<Rightarrow> (u8 list \<Rightarrow> string + 'a) \<Rightarrow> ('k handler, sysaug_error, 'a) io" where
  "read_json x fd parse =
     m_then (nix_call (\<lambda>n. ParseRootFsMetadata (errno_message x n)) (fs_read_rest x fd)) (\<lambda>bytes.
     lift_r (map_err ParseRootFsMetadata (parse bytes)))"

definition save_metadata_for_file ::
  "('k, 'regex) env \<Rightarrow> ('k, 'regex) host_api \<Rightarrow> path \<Rightarrow> (rootfs_metadata \<Rightarrow> rootfs_metadata) \<Rightarrow>
     ('k handler, sysaug_error, unit) io" where
  "save_metadata_for_file e x path update_fn =
     (if args_rootfs (args_of e) = None then ret ()
      else
      m_then (get_metadata_path e x path) (\<lambda>maybe_meta_path.
      case maybe_meta_path of
        None \<Rightarrow> ret ()
      | Some meta_path \<Rightarrow>
          m_then (nix_call CheckRootFsMetadata (fs_exists x meta_path)) (\<lambda>exists.
          case path_parent meta_path of
            None \<Rightarrow> panic
          | Some metadir \<Rightarrow>
          m_then (ignore_result (fs_create_dir_all x metadir)) (\<lambda>_.
          m_then (nix_call (\<lambda>n. WriteMetadata (errno_message x n)) (fs_open_rw x meta_path)) (\<lambda>file.
          with_file x file
            (m_then (nix_call (\<lambda>_. LockRootFsMetadata) (fs_lock_exclusive x file)) (\<lambda>_.
             m_then (if \<not> exists then ret default_rootfs_metadata
                     else read_json x file (json_read_metadata x)) (\<lambda>curr_data.
             m_then (if exists
                     then m_then (nix_call WriteRootFsMetadata (fs_seek x file 0)) (\<lambda>_.
                          nix_call WriteRootFsMetadata (fs_set_len x file 0))
                     else ret ()) (\<lambda>_.
             nix_call (\<lambda>n. WriteRootFsMetadata2 (errno_message x n))
               (fs_write_all x file (json_write_metadata x (update_fn curr_data))))))))))))"

definition read_metadata_for_file ::
  "('k, 'regex) env \<Rightarrow> ('k, 'regex) host_api \<Rightarrow> path \<Rightarrow> ('k handler, sysaug_error, rootfs_metadata option) io" where
  "read_metadata_for_file e x path =
     (if args_rootfs (args_of e) = None then ret None
      else
      m_then (get_metadata_path e x path) (\<lambda>maybe_meta_path.
      case maybe_meta_path of
        None \<Rightarrow> ret None
      | Some meta_path \<Rightarrow>
          m_then (nix_call CheckRootFsMetadata (fs_exists x meta_path)) (\<lambda>exists.
          if \<not> exists then ret None
          else
          m_then (nix_call (\<lambda>n. WriteMetadata (errno_message x n)) (fs_open_ro x meta_path)) (\<lambda>file.
          with_file x file (read_json x file (json_read_metadata_option x))))))"

definition delete_metadata_for_file ::
  "('k, 'regex) env \<Rightarrow> ('k, 'regex) host_api \<Rightarrow> path \<Rightarrow> ('k handler, sysaug_error, unit) io" where
  "delete_metadata_for_file e x path =
     (if args_rootfs (args_of e) = None then ret ()
      else
      m_then (get_metadata_path e x path) (\<lambda>maybe_meta_path.
      m_then (case maybe_meta_path of
                None \<Rightarrow> ret True
              | Some meta_path \<Rightarrow>
                  m_then (path_exists x meta_path) (\<lambda>found.
                  if \<not> found then ret False
                  else m_then (ignore_result (fs_remove_file x meta_path)) (\<lambda>_. ret True))) (\<lambda>go_on.
      if \<not> go_on then ret ()
      else
      m_then (path_is_dir x path) (\<lambda>is_dir.
      if \<not> is_dir then ret ()
      else
      m_then (get_metadata_path e x path) (\<lambda>maybe_meta_path.
      case maybe_meta_path of
        None \<Rightarrow> ret ()
      | Some meta_path \<Rightarrow> ignore_result (fs_remove_dir_all x (path_pop meta_path)))))))"

section \<open>Translation of paths\<close>

fun apply_renames :: "('k, 'regex) host_api \<Rightarrow> 'regex rename_config list \<Rightarrow> u8 list \<Rightarrow> path_action option" where
  "apply_renames x [] bytes_str = None"
| "apply_renames x (config # rename_map) bytes_str =
     (if regex_is_match x (rename_regex config) bytes_str
      then case replacement config of
             None \<Rightarrow> Some HidePath
           | Some r \<Rightarrow>
               let replacement_bytes = bytes_of_string r
               in Some (Override (if should_replace_all config
                    then regex_replace_all x (rename_regex config) bytes_str replacement_bytes
                    else regex_replace x (rename_regex config) bytes_str replacement_bytes))
      else apply_renames x rename_map bytes_str)"

definition get_mod_path ::
  "('k, 'regex) env \<Rightarrow> ('k, 'regex) host_api \<Rightarrow> path \<Rightarrow> path_action \<Rightarrow> bool \<Rightarrow> path_action" where
  "get_mod_path e x orig_path initial_override reverse =
     (let curr_path = (case initial_override of Override path \<Rightarrow> path | _ \<Rightarrow> orig_path);
          config = cfg_rootfs (consts_config (h_consts (handler_of e)));
          rename_map = (if reverse then rename_guest_paths config else rename_host_paths config)
      in case apply_renames x rename_map curr_path of
           Some action \<Rightarrow> action
         | None \<Rightarrow> initial_override)"

definition calc_real_path_simple ::
  "('k, 'regex) env \<Rightarrow> ('k, 'regex) host_api \<Rightarrow> path \<Rightarrow> ('k handler, sysaug_error, path_action) io" where
  "calc_real_path_simple e x orig_path =
     m_then get_w (\<lambda>h.
     m_then (if \<not> list_ex (starts_with orig_path) (path_prefix_excludes h)
             then case path_prefix h of
                    Some prefix \<Rightarrow>
                      if is_absolute orig_path
                      then case strip_prefix orig_path [SLASH] of
                             None \<Rightarrow> panic
                           | Some rest \<Rightarrow> ret (Override (path_join prefix rest))
                      else ret NoAction
                  | None \<Rightarrow> ret NoAction
             else ret NoAction) (\<lambda>new_path.
     ret (get_mod_path e x orig_path new_path False)))"

definition PROC_SELF :: path where "PROC_SELF = bytes_of_string ''/proc/self''"
definition PROC :: path where "PROC = bytes_of_string ''/proc/''"

text \<open>
  One link: \<open>Inl False\<close> if the path is not to be followed, \<open>Inl True\<close> for a link that was visited before.
  The recursion on a path with \<open>/proc/self\<close> ends since the replacement has none.
\<close>

definition follow_symlink_here ::
  "('k, 'regex) host_api \<Rightarrow> path \<Rightarrow> path_component list set \<Rightarrow> ('k handler, sysaug_error, bool + path) io" where
  "follow_symlink_here x real_path visited =
     m_then (nix (fs_is_symlink x real_path)) (\<lambda>metadata.
     case metadata of
       Inl _ \<Rightarrow> ret (Inl False)
     | Inr is_symlink \<Rightarrow>
         if \<not> is_symlink then ret (Inl False)
         else
         m_then (nix_call ReadSymlink (fs_read_link x real_path)) (\<lambda>link.
         if \<not> is_absolute link then ret (Inl False)
         else if components link \<in> visited then ret (Inl True)
         else ret (Inr link)))"

text \<open>A number in decimal has no slash and does not start like \<open>self\<close> or \<open>proc\<close>.\<close>

definition no_self :: "u8 list \<Rightarrow> bool" where
  "no_self ds \<longleftrightarrow> ds \<noteq> [] \<and> (\<forall>d \<in> set ds. d \<noteq> 47 \<and> d \<noteq> 115 \<and> d \<noteq> 112)"

lemma no_self_digit: "m < 10 \<Longrightarrow> (48 + of_nat m :: u8) \<notin> {47, 115, 112}"
proof -
  assume "m < 10"
  then have "m = 0 \<or> m = 1 \<or> m = 2 \<or> m = 3 \<or> m = 4 \<or> m = 5 \<or> m = 6 \<or> m = 7 \<or> m = 8 \<or> m = 9" by presburger
  then show ?thesis by (elim disjE) simp_all
qed

lemma no_self_decimal_nat: "no_self (decimal_nat n)"
proof (induction n rule: decimal_nat.induct)
  case (1 n)
  then show ?case
    using no_self_digit [of n] no_self_digit [of "n mod 10"]
    by (auto simp: no_self_def decimal_nat.simps [of n])
qed

lemma no_self_decimal: "no_self (decimal i)"
  using no_self_decimal_nat by (auto simp: decimal_def no_self_def)

lemma PROC_bytes: "PROC_SELF = [47, 112, 114, 111, 99, 47, 115, 101, 108, 102]" "PROC = [47, 112, 114, 111, 99, 47]"
  by (simp_all add: PROC_SELF_def PROC_def bytes_of_string_def of_char_def)

lemma str_contains_skip: "\<forall>d \<in> set ds. d \<noteq> 47 \<Longrightarrow> str_contains PROC_SELF (ds @ r) = str_contains PROC_SELF r"
  by (induction ds) (auto simp: PROC_bytes)

lemma replace_tail:
  assumes "\<And>xs. take (length t) (replace_str PROC_SELF (PROC @ ds) xs) = t \<Longrightarrow> take (length t) xs = t"
    and "\<And>z. take (Suc (length t)) (PROC @ ds @ z) \<noteq> c # t"
    and "take (length (c # t)) (replace_str PROC_SELF (PROC @ ds) xs) = c # t"
  shows "take (length (c # t)) xs = c # t"
proof (cases xs)
  case (Cons y ys)
  have "take (length PROC_SELF) xs \<noteq> PROC_SELF"
  proof
    assume "take (length PROC_SELF) xs = PROC_SELF"
    then have "replace_str PROC_SELF (PROC @ ds) xs =
        PROC @ ds @ replace_str PROC_SELF (PROC @ ds) (drop (length PROC_SELF) xs)"
      using Cons by (simp add: PROC_bytes(1))
    then show False using assms(2,3) by simp
  qed
  then have "replace_str PROC_SELF (PROC @ ds) xs = y # replace_str PROC_SELF (PROC @ ds) ys" using Cons by simp
  then show ?thesis using assms(1) [of ys] assms(3) Cons by simp
qed (use assms(3) in simp)

lemma replace_proc_self_tail:
  assumes "take 9 (replace_str PROC_SELF (PROC @ ds) xs) = [112, 114, 111, 99, 47, 115, 101, 108, 102]"
  shows "take 9 xs = [112, 114, 111, 99, 47, 115, 101, 108, 102]"
proof -
  define P where "P t \<longleftrightarrow> (\<forall>xs. take (length t) (replace_str PROC_SELF (PROC @ ds) xs) = t \<longrightarrow> take (length t) xs = t)" for t
  have step: "P (c # t)" if "P t" "\<And>z. take (Suc (length t)) (PROC @ ds @ z) \<noteq> c # t" for c t
    using replace_tail [of t ds c] that unfolding P_def by blast
  have "P []" by (simp add: P_def)
  then have "P [115, 101, 108, 102]" by (intro step) (simp_all add: PROC_bytes)
  then have p: "P [47, 115, 101, 108, 102]" by (rule step) (simp add: PROC_bytes)
  have "P [112, 114, 111, 99, 47, 115, 101, 108, 102]"
    by (rule step [OF step [OF step [OF step [OF p]]]]) (simp_all add: PROC_bytes)
  then show ?thesis using assms unfolding P_def by (simp add: numeral_eq_Suc)
qed

lemma replace_removes_proc_self:
  assumes "no_self ds"
  shows "\<not> str_contains PROC_SELF (replace_str PROC_SELF (PROC @ ds) xs)"
proof (induction PROC_SELF "PROC @ ds" xs rule: replace_str.induct)
  case 1
  then show ?case by (simp add: PROC_bytes)
next
  case (2 x xs)
  obtain d ds' where ds: "ds = d # ds'" "d \<noteq> 115" "d \<noteq> 112" using assms by (cases ds) (auto simp: no_self_def)
  show ?case
  proof (cases "take (length PROC_SELF) (x # xs) = PROC_SELF")
    case True
    let ?r = "replace_str PROC_SELF (PROC @ ds) (drop (length PROC_SELF) (x # xs))"
    have "\<not> str_contains PROC_SELF ?r" using 2 True by (simp add: PROC_bytes)
    then have "\<not> str_contains PROC_SELF (ds @ ?r)" using assms str_contains_skip [of ds ?r] by (simp add: no_self_def)
    then have "\<not> str_contains PROC_SELF (PROC @ ds @ ?r)" using ds by (simp add: PROC_bytes)
    moreover have "replace_str PROC_SELF (PROC @ ds) (x # xs) = PROC @ ds @ ?r" using True by (simp add: PROC_bytes(1))
    ultimately show ?thesis by simp
  next
    case False
    let ?r = "replace_str PROC_SELF (PROC @ ds) xs"
    have "take (length PROC_SELF) (x # ?r) \<noteq> PROC_SELF"
      using False replace_proc_self_tail [of ds xs] by (auto simp: PROC_bytes(1) numeral_eq_Suc)
    then show ?thesis using False 2 by simp
  qed
qed

function calc_follow_symlink ::
  "('k, 'regex) env \<Rightarrow> ('k, 'regex) host_api \<Rightarrow> path \<Rightarrow> syscall_info \<Rightarrow> path_component list set \<Rightarrow> usize list \<Rightarrow>
     ('k handler, sysaug_error, bool + path) io" where
  "calc_follow_symlink e x real_path info visited args =
     (if dont_follow_symlink info then ret (Inl False)
      else case (flag_dont_follow_symlink info, flags info) of
        (Some flag, Some flag_reg) \<Rightarrow>
          if flag_reg \<ge> length args then panic
          else if (args ! flag_reg) OR flag \<noteq> 0 then ret (Inl False)
          else if utf8_valid real_path \<and> str_contains PROC_SELF real_path
          then calc_follow_symlink e x (replace_str PROC_SELF (PROC @ decimal (pid_of e)) real_path) info visited args
          else follow_symlink_here x real_path visited
      | _ \<Rightarrow>
          if utf8_valid real_path \<and> str_contains PROC_SELF real_path
          then calc_follow_symlink e x (replace_str PROC_SELF (PROC @ decimal (pid_of e)) real_path) info visited args
          else follow_symlink_here x real_path visited)"
  by pat_completeness auto
termination
  by (relation "measure (\<lambda>(e, x, real_path, info, visited, args). if str_contains PROC_SELF real_path then 1 else 0)")
     (use replace_removes_proc_self [OF no_self_decimal] in auto)

declare calc_follow_symlink.simps [simp del]

text \<open>The two places of \<open>calc_real_path_recurse\<close> that follow a link, with the recursive call as an argument.\<close>

definition follow_then ::
  "(path \<Rightarrow> ('k handler, sysaug_error, path_action) io) \<Rightarrow> path_action \<Rightarrow>
     ('k handler, sysaug_error, bool + path) io \<Rightarrow> ('k handler, sysaug_error, path_action) io" where
  "follow_then recurse action follow =
     m_then follow (\<lambda>result.
     case result of
       Inl False \<Rightarrow> ret action
     | Inl True \<Rightarrow> ret ELOOP
     | Inr link \<Rightarrow>
         m_then (recurse link) (\<lambda>new_action.
         if new_action = NoAction then ret (Override link) else ret new_action))"

fun calc_real_path_recurse ::
  "nat \<Rightarrow> ('k, 'regex) env \<Rightarrow> ('k, 'regex) host_api \<Rightarrow> path \<Rightarrow> syscall_info \<Rightarrow> path_component list set \<Rightarrow> usize list \<Rightarrow>
     ('k handler, sysaug_error, path_action) io" where
  "calc_real_path_recurse 0 e x orig_path info visited args = out_of_fuel"
| "calc_real_path_recurse (Suc n) e x orig_path info visited args =
     (let visited = insert (components orig_path) visited;
          recurse = (\<lambda>link. calc_real_path_recurse n e x link info visited args)
      in
      m_then (calc_real_path_simple e x orig_path) (\<lambda>action.
      case action of
        Override real_path \<Rightarrow> follow_then recurse action (calc_follow_symlink e x real_path info visited args)
      | NoAction \<Rightarrow>
          m_then (gets path_prefix_excludes) (\<lambda>exclude_list.
          if list_ex (starts_with orig_path) exclude_list then ret NoAction
          else follow_then recurse NoAction (calc_follow_symlink e x orig_path info visited args))
      | _ \<Rightarrow> ret action))"

definition calc_real_path ::
  "('k, 'regex) env \<Rightarrow> ('k, 'regex) host_api \<Rightarrow> path \<Rightarrow> syscall_info \<Rightarrow> usize list \<Rightarrow>
     ('k handler, sysaug_error, path_action) io" where
  "calc_real_path e x orig_path info args = calc_real_path_recurse (link_limit x) e x orig_path info {} args"

definition path_from_bytes :: "u8 list \<Rightarrow> path" where
  "path_from_bytes path_bytes = rev (dropWhile (\<lambda>b. b = 0) (rev path_bytes))"

section \<open>Where metadata files are\<close>

lemma CHLD_META: "normal_name CHLD" "normal_name META" "CHLD \<noteq> META"
  by (simp_all add: CHLD_def META_def bytes_of_string_def of_char_def normal_name_def skipped_segment_def SLASH_def DOT_def)

fun children :: "path_component list \<Rightarrow> path_component list" where
  "children [] = []"
| "children (NormalDir s # cs) = NormalDir CHLD # NormalDir s # children cs"
| "children (c # cs) = children cs"

lemma push_children_components:
  assumes "push_children cs d = Some d'" "\<And>s. NormalDir s \<in> set cs \<Longrightarrow> normal_name s"
    and "is_absolute d" "components d = base @ [NormalDir CHLD]"
  shows "is_absolute d' \<and> components d' = base @ children cs @ [NormalDir CHLD]"
  using assms
proof (induction cs d arbitrary: base rule: push_children.induct)
  case (2 c cs d)
  show ?case
  proof (cases c)
    case (NormalDir s)
    then have s: "normal_name s" using "2.prems"(2) by simp
    have d: "d \<noteq> []" using "2.prems"(3) by auto
    note p = push_name_props [OF d s] components_push_name [OF d s]
    note q = push_name_props [OF conjunct1 [OF p(1)] CHLD_META(1)] components_push_name [OF conjunct1 [OF p(1)] CHLD_META(1)]
    have "is_absolute d' \<and> components d' = (base @ [NormalDir CHLD, NormalDir s]) @ children cs @ [NormalDir CHLD]"
      using "2.IH"(3) [OF NormalDir] "2.prems" NormalDir p q by simp
    then show ?thesis using NormalDir by simp
  qed (use 2 in simp_all)
qed simp

text \<open>A canonical path has no \<open>.\<close> or \<open>..\<close> after the root.\<close>

definition canonical :: "path \<Rightarrow> bool" where
  "canonical p \<longleftrightarrow> is_absolute p \<and> (\<forall>c \<in> set (tl (components p)). \<exists>s. c = NormalDir s)"

lemma children_inj:
  "\<forall>c \<in> set cs. \<exists>s. c = NormalDir s \<Longrightarrow> \<forall>c \<in> set ds. \<exists>s. c = NormalDir s \<Longrightarrow>
     children cs @ [NormalDir META] = take n (children ds @ [NormalDir META]) \<Longrightarrow> cs = ds"
proof (induction cs arbitrary: ds n rule: children.induct)
  case 1
  then show ?case using CHLD_META(3) by (cases ds; cases n) auto
next
  case (2 s cs)
  then obtain m where n: "n = Suc m" by (cases n) auto
  obtain t ds' where ds: "ds = NormalDir t # ds'" using 2 CHLD_META(3) n by (cases ds) auto
  then obtain k where "m = Suc k" using 2 n by (cases m) auto
  then show ?case using 2 n ds by auto
qed auto

lemma push_children_Some: "\<forall>c \<in> set cs. \<exists>s. c = NormalDir s \<Longrightarrow> \<exists>d'. push_children cs d = Some d'"
  by (induction cs arbitrary: d) auto

lemma metaname_normal:
  assumes "normal_name s"
  shows "normal_name (s @ bytes_of_string ''.metadata'')"
proof -
  have "length (bytes_of_string ''.metadata'') = 9" "SLASH \<notin> set (bytes_of_string ''.metadata'')"
    by (simp_all add: bytes_of_string_def of_char_def SLASH_def)
  moreover from this(1) have "length (s @ bytes_of_string ''.metadata'') \<ge> 9" by simp
  moreover have "t \<notin> {[], [DOT], [DOT, DOT]}" if "length t \<ge> 9" for t :: path using that by auto
  ultimately show ?thesis using assms by (auto simp: normal_name_def skipped_segment_def)
qed

lemma normal_rootfs: "normal_name (bytes_of_string ''rootfs'')"
  by (simp add: bytes_of_string_def of_char_def normal_name_def skipped_segment_def SLASH_def DOT_def)

lemma file_name_last: "file_name p = Some s \<Longrightarrow> components p \<noteq> [] \<and> last (components p) = NormalDir s"
  by (auto simp: file_name_def split: if_splits path_component.splits)

lemma metadata_path_components:
  assumes "is_absolute rootfs" "file_name rootfs = Some name" "canonical p" "starts_with p rootfs"
  shows "\<exists>m. metadata_path_in rootfs name p = Some m \<and> components m =
    (butlast (components rootfs) @ [NormalDir (name @ bytes_of_string ''.metadata''), NormalDir (bytes_of_string ''rootfs'')]) @
    children (drop (length (components rootfs)) (components p)) @ [NormalDir META]"
proof -
  note name = file_name_last [OF assms(2)]
  define mn where "mn = name @ bytes_of_string ''.metadata''"
  define base where "base = butlast (components rootfs) @ [NormalDir mn, NormalDir (bytes_of_string ''rootfs'')]"
  have mn: "normal_name mn" unfolding mn_def
    using name normal_component [of name rootfs] last_in_set metaname_normal by metis
  have "components rootfs \<noteq> [RootDir]" using name by auto
  then have pop: "is_absolute (path_pop rootfs)" "components (path_pop rootfs) = butlast (components rootfs)"
    using components_pop [OF assms(1)] by auto
  then have ne: "path_pop rootfs \<noteq> []" by auto
  define d0 where "d0 = with_file_name rootfs mn"
  have d0: "d0 \<noteq> []" "is_absolute d0" "components d0 = butlast (components rootfs) @ [NormalDir mn]"
    using push_name_props [OF ne mn] components_push_name [OF ne mn] pop assms(2) by (simp_all add: d0_def with_file_name_def)
  define d1 where "d1 = path_push d0 (bytes_of_string ''rootfs'')"
  have d1: "d1 \<noteq> []" "is_absolute d1" "components d1 = base"
    using push_name_props [OF d0(1) normal_rootfs] components_push_name [OF d0(1) normal_rootfs] d0
    by (simp_all add: d1_def base_def)
  have d2: "is_absolute (path_push d1 CHLD)" "components (path_push d1 CHLD) = base @ [NormalDir CHLD]"
    using push_name_props [OF d1(1) CHLD_META(1)] components_push_name [OF d1(1) CHLD_META(1)] d1 by simp_all
  obtain k where k: "length (components rootfs) = Suc k" using name by (cases "components rootfs") auto
  have pa: "is_absolute p" using assms(3) by (simp add: canonical_def)
  define rel where "rel = drop (Suc k) (components p)"
  have rest: "strip_prefix p rootfs = Some (rest_path (Suc k) p)" "components (rest_path (Suc k) p) = rel"
    using assms(4) k components_rest(3) [OF pa] by (simp_all add: strip_prefix_def rel_def del: rest_path.simps)
  have "set rel \<subseteq> set (tl (components p))" unfolding rel_def drop_Suc by (rule set_drop_subset)
  then have norm: "\<forall>c \<in> set rel. \<exists>s. c = NormalDir s" using assms(3) by (auto simp: canonical_def)
  obtain d3 where d3: "push_children rel (path_push d1 CHLD) = Some d3" using push_children_Some [OF norm] by blast
  have "normal_name s" if "NormalDir s \<in> set rel" for s
    using that normal_component in_set_dropD unfolding rel_def by metis
  then have c3: "is_absolute d3" "components d3 = base @ children rel @ [NormalDir CHLD]"
    using push_children_components [OF d3 _ d2] by auto
  have "components d3 \<noteq> [RootDir]" using c3 by (auto simp: base_def)
  then have p3: "is_absolute (path_pop d3)" "components (path_pop d3) = base @ children rel"
    using components_pop [OF c3(1)] c3(2) by (simp_all add: butlast_append)
  then have "path_pop d3 \<noteq> []" by auto
  then have "components (path_join (path_pop d3) META) = base @ children rel @ [NormalDir META]"
    using components_push_name [OF _ CHLD_META(2)] p3 by simp
  moreover have "metadata_path_in rootfs name p = Some (path_join (path_pop d3) META)"
    unfolding metadata_path_in_def using rest d3 by (simp add: Let_def d1_def d0_def mn_def del: rest_path.simps)
  ultimately show ?thesis unfolding base_def mn_def rel_def k by auto
qed

lemma metadata_files_apart_aux:
  assumes "canonical p" "canonical q" "starts_with p r" "starts_with q r" "components r \<noteq> []"
    and "take n (base @ children (drop (length (components r)) (components q)) @ [NormalDir META]) =
      base @ children (drop (length (components r)) (components p)) @ [NormalDir META]"
  shows "components p = components q"
proof -
  let ?k = "length (components r)"
  have norm: "\<forall>c \<in> set (drop ?k (components y)). \<exists>s. c = NormalDir s" if "canonical y" for y
  proof -
    obtain j where "?k = Suc j" using assms(5) by (cases "components r") auto
    then have "set (drop ?k (components y)) \<subseteq> set (tl (components y))" by (simp add: drop_Suc set_drop_subset)
    then show ?thesis using that by (auto simp: canonical_def)
  qed
  have "children (drop ?k (components p)) @ [NormalDir META] =
      take (n - length base) (children (drop ?k (components q)) @ [NormalDir META])"
  proof -
    have "length base \<le> n" using arg_cong [OF assms(6), of length] by simp
    then show ?thesis using assms(6) by simp
  qed
  then have "drop ?k (components p) = drop ?k (components q)"
    using children_inj norm assms(1,2) by blast
  moreover have "take ?k (components p) = take ?k (components q)" using assms(3,4) by (simp add: starts_with_def)
  ultimately show ?thesis by (metis append_take_drop_id)
qed

section \<open>Following links\<close>

text \<open>The host does not change while links are looked at, and its links have finitely many targets.\<close>

definition static_links :: "('k, 'regex) host_api \<Rightarrow> 'k \<Rightarrow> bool" where
  "static_links x k \<longleftrightarrow> (\<forall>p. snd (fs_is_symlink x p k) = k \<and> snd (fs_read_link x p k) = k)"

definition link_targets :: "('k, 'regex) host_api \<Rightarrow> 'k \<Rightarrow> path_component list set" where
  "link_targets x k = {components l | p l. fst (fs_read_link x p k) = Inr l}"

abbreviation host :: "'k handler \<Rightarrow> 'k" where
  "host h \<equiv> kern (globals h)"

lemma nix_static: "snd (c (host h)) = host h \<Longrightarrow> nix c h = (Inr (fst (c (host h))), h)"
  by (simp add: nix_def on_kern_def split_def)

definition follows :: "('k, 'regex) host_api \<Rightarrow> path_component list set \<Rightarrow> 'k handler \<Rightarrow>
    ('k handler, sysaug_error, bool + path) io \<Rightarrow> bool" where
  "follows x visited h m \<longleftrightarrow> (\<exists>r. m h = (r, h) \<and> r \<noteq> Inl OutOfFuel \<and>
     (\<forall>l. r = Inr (Inr l) \<longrightarrow> is_absolute l \<and> components l \<in> link_targets x (host h) - visited))"

lemma follow_here_static: "static_links x (host h) \<Longrightarrow> follows x visited h (follow_symlink_here x p visited)"
proof -
  assume static: "static_links x (host h)"
  note n = nix_static [of "fs_is_symlink x p" h] nix_static [of "fs_read_link x p" h]
  have "components l \<in> link_targets x (host h)" if "fst (fs_read_link x p (host h)) = Inr l" for l
    using that by (auto simp: link_targets_def)
  with static n show ?thesis
    by (cases "fst (fs_is_symlink x p (host h))"; cases "fst (fs_read_link x p (host h))")
       (auto simp: follows_def static_links_def follow_symlink_here_def nix_call_def io_simps)
qed

lemma follows_stop: "follows x visited h (ret (Inl b))" "follows x visited h panic"
  by (simp_all add: follows_def io_simps)

lemma calc_follow_static:
  "static_links x (host h) \<Longrightarrow> follows x visited h (calc_follow_symlink e x p info visited args)"
proof (induction e x p info visited args rule: calc_follow_symlink.induct)
  case (1 e x real_path info visited args)
  then show ?case
    using follow_here_static [of x h visited real_path] follows_stop
    by (auto simp: calc_follow_symlink.simps [of e x real_path] split: option.split)
qed

lemma calc_simple_static: "\<exists>a. calc_real_path_simple e x p h = (Inr a, h)"
  by (auto simp: calc_real_path_simple_def io_simps strip_root split: option.split)

lemma recurse_static:
  assumes "static_links x (host h)" "finite (link_targets x (host h))"
    and "card (link_targets x (host h) - insert (components p) visited) < n"
  shows "\<exists>r. calc_real_path_recurse n e x p info visited args h = (r, h) \<and> r \<noteq> Inl OutOfFuel"
  using assms(3)
proof (induction n arbitrary: p visited)
  case (Suc n)
  let ?T = "link_targets x (host h)" and ?v = "insert (components p) visited"
  let ?rec = "\<lambda>link. calc_real_path_recurse n e x link info ?v args"
  have follow: "\<exists>r. follow_then ?rec action (calc_follow_symlink e x path info ?v args) h = (r, h) \<and> r \<noteq> Inl OutOfFuel"
    for path action
  proof -
    obtain r where r: "calc_follow_symlink e x path info ?v args h = (r, h)" "r \<noteq> Inl OutOfFuel"
      and l: "\<And>l. r = Inr (Inr l) \<Longrightarrow> components l \<in> ?T - ?v"
      using calc_follow_static [OF assms(1), of ?v e path info args] by (auto simp: follows_def)
    show ?thesis
    proof (cases "\<exists>l. r = Inr (Inr l)")
      case True
      then obtain l where rl: "r = Inr (Inr l)" by blast
      have "card (?T - insert (components l) ?v) < card (?T - ?v)"
        using l [OF rl] assms(2) by (intro psubset_card_mono) auto
      then obtain r' where "?rec l h = (r', h)" "r' \<noteq> Inl OutOfFuel"
        using Suc.IH [where p = l and visited = ?v] Suc.prems by auto
      then show ?thesis using r rl by (cases r') (auto simp: follow_then_def io_simps)
    next
      case False
      then show ?thesis using r by (cases r) (auto simp: follow_then_def io_simps split: sum.split bool.split)
    qed
  qed
  obtain a where a: "calc_real_path_simple e x p h = (Inr a, h)" using calc_simple_static by blast
  show ?case using follow a by (cases a) (auto simp: Let_def io_simps)
qed simp

section \<open>Containment\<close>

text \<open>
  With a prefix and without renaming rules: a path is inside if it lies below the prefix or below one of
  the paths that are passed through.
\<close>

definition prefix_is :: "path \<Rightarrow> path list \<Rightarrow> 'k handler \<Rightarrow> bool" where
  "prefix_is prefix excludes h \<longleftrightarrow> path_prefix h = Some prefix \<and> path_prefix_excludes h = excludes"

definition inside :: "path \<Rightarrow> path list \<Rightarrow> path \<Rightarrow> bool" where
  "inside prefix excludes p \<longleftrightarrow> starts_with p prefix \<or> list_ex (starts_with p) excludes"

abbreviation no_renames :: "('k, 'regex) env \<Rightarrow> bool" where
  "no_renames e \<equiv> rename_host_paths (cfg_rootfs (consts_config (h_consts (handler_of e)))) = []"

lemma get_mod_path_none: "no_renames e \<Longrightarrow> get_mod_path e x p a False = a"
  by (simp add: get_mod_path_def)

lemma ensures_nix [ensures_intros]: "keeps (prefix_is prefix excludes) (nix c)"
  by (simp add: ensures_def nix_def prefix_is_def split_def)

lemma ensures_gets [ensures_intros]: "(\<And>w. P w \<Longrightarrow> Q (f w)) \<Longrightarrow> ensures P (gets f) Q"
  by (simp add: ensures_def io_simps)

lemma chroot_join:
  assumes "prefix \<noteq> []" "is_absolute p"
  shows "components (path_join prefix (rest_path (Suc 0) p)) = components prefix @ tl (components p)"
  using components_path_push [OF assms(1) components_rest(1) [OF assms(2)], of 0] components_rest(2) [OF assms(2), of 0]
  by (simp add: drop_Suc del: rest_path.simps)

definition simple_result :: "path \<Rightarrow> path list \<Rightarrow> path \<Rightarrow> path_action \<Rightarrow> bool" where
  "simple_result prefix excludes p a \<longleftrightarrow>
     (if list_ex (starts_with p) excludes \<or> \<not> is_absolute p then a = NoAction
      else \<exists>q. a = Override q \<and> components q = components prefix @ tl (components p))"

lemma ensures_simple:
  assumes "no_renames e" "prefix \<noteq> []"
  shows "ensures (prefix_is prefix excludes) (calc_real_path_simple e x p) (simple_result prefix excludes p)"
  using assms chroot_join [OF assms(2), of p]
  by (auto simp: ensures_def calc_real_path_simple_def io_simps prefix_is_def simple_result_def get_mod_path_none strip_root
      simp del: rest_path.simps)

lemma ensures_follow:
  "ensures (prefix_is prefix excludes) (calc_follow_symlink e x p info visited args) (\<lambda>r. \<forall>l. r = Inr l \<longrightarrow> is_absolute l)"
proof (induction e x p info visited args rule: calc_follow_symlink.induct)
  case (1 e x real_path info visited args)
  have "ensures (prefix_is prefix excludes) (follow_symlink_here x real_path visited) (\<lambda>r. \<forall>l. r = Inr l \<longrightarrow> is_absolute l)"
    by (auto simp: follow_symlink_here_def nix_call_def intro!: ensures_intros ensures_then [where Q = "\<lambda>_. True"] split: sum.split)
  with 1 show ?case
    by (auto simp: calc_follow_symlink.simps [of e x real_path] intro!: ensures_intros split: option.split)
qed

definition real_result :: "path \<Rightarrow> path list \<Rightarrow> path \<Rightarrow> path_action \<Rightarrow> bool" where
  "real_result prefix excludes p a \<longleftrightarrow>
     (case a of
        Override q \<Rightarrow> inside prefix excludes q
      | NoAction \<Rightarrow> \<not> is_absolute p \<or> list_ex (starts_with p) excludes
      | ELOOP \<Rightarrow> True
      | HidePath \<Rightarrow> False)"

lemma real_result_simps [simp]:
  "real_result prefix excludes p (Override q) \<longleftrightarrow> inside prefix excludes q"
  "real_result prefix excludes p NoAction \<longleftrightarrow> \<not> is_absolute p \<or> list_ex (starts_with p) excludes"
  "real_result prefix excludes p ELOOP" "\<not> real_result prefix excludes p HidePath"
  by (simp_all add: real_result_def)

lemma ensures_recurse:
  assumes "no_renames e" "prefix \<noteq> []"
  shows "ensures (prefix_is prefix excludes) (calc_real_path_recurse n e x p info visited args) (real_result prefix excludes p)"
proof (induction n arbitrary: p visited)
  case (Suc n)
  let ?P = "prefix_is prefix excludes" and ?v = "insert (components p) visited"
  let ?rec = "\<lambda>link. calc_real_path_recurse n e x link info ?v args"
  have follow: "ensures ?P (follow_then ?rec action (calc_follow_symlink e x path info ?v args)) (real_result prefix excludes p)"
    if "real_result prefix excludes p action" for path action
    unfolding follow_then_def
    by (rule ensures_then [OF ensures_follow], split sum.split)
       (auto simp: real_result_def inside_def that [unfolded real_result_def]
          intro!: ensures_intros ensures_then [OF Suc.IH] split: bool.split path_action.splits)
  have g: "ensures ?P (gets path_prefix_excludes) (\<lambda>l. l = excludes)"
    by (rule ensures_gets) (simp add: prefix_is_def)
  have "starts_with q prefix" if "components q = components prefix @ cs" for q cs
    using that by (simp add: starts_with_def)
  then show ?case
    unfolding calc_real_path_recurse.simps Let_def
    by (intro ensures_then [OF ensures_simple [OF assms]])
       (auto simp: simple_result_def inside_def split: if_splits path_action.split
          intro!: follow ensures_intros ensures_then [OF g])
qed (simp add: ensures_intros)

section \<open>Properties\<close>

text \<open>
  C12.  Following links ends: if the host does not change meanwhile and its links have finitely many
  targets, \<open>calc_real_path\<close> returns, without changing anything, once the bound on the chain exceeds the number of targets.
\<close>

theorem calc_real_path_returns:
  assumes "static_links x (host h)" "finite (link_targets x (host h))"
    and "card (link_targets x (host h)) < link_limit x"
  shows "\<exists>r. calc_real_path e x p info args h = (r, h) \<and> r \<noteq> Inl OutOfFuel"
proof -
  have "card (link_targets x (host h) - insert (components p) {}) < link_limit x"
    using assms(3) card_mono [OF assms(2), of "link_targets x (host h) - insert (components p) {}"] by auto
  then show ?thesis
    unfolding calc_real_path_def by (rule recurse_static [OF assms(1,2)])
qed

theorem calc_real_path_returns_witness:
  "\<exists>r. calc_real_path (sim_env \<lparr>SYS = (\<lambda>_. 39), AT_SYMLINK_NOFOLLOW = 256\<rparr> default_sysaug_args) sim_host [47, 97]
      default_syscall_info [] (sim_files None [[47, 97] \<mapsto> SimLink [47, 97]]) =
    (r, sim_files None [[47, 97] \<mapsto> SimLink [47, 97]]) \<and> r \<noteq> Inl OutOfFuel"
proof -
  let ?h = "sim_files None [[47, 97] \<mapsto> SimLink [47, 97]]"
  have "link_targets sim_host (host ?h) \<subseteq> {components [47, 97]}"
    by (auto simp: link_targets_def sim_host_def split: if_splits)
  then have fin: "finite (link_targets sim_host (host ?h))" "card (link_targets sim_host (host ?h)) \<le> 1"
    using card_mono [of "{components [47, 97]}" "link_targets sim_host (host ?h)"] by (auto intro: finite_subset)
  moreover have "static_links sim_host (host ?h)" by (simp add: static_links_def sim_host_def)
  ultimately show ?thesis by (intro calc_real_path_returns) simp_all
qed

text \<open>
  C7.  With a prefix and no renaming rules, every path that \<open>calc_real_path\<close> gives to the host lies, by its
  components, below the prefix or below a path that is passed through, whatever links are on the way; an
  absolute path is left alone only if it is passed through, and no path is hidden.
\<close>

theorem calc_real_path_inside:
  assumes "path_prefix h = Some prefix" "prefix \<noteq> []" "no_renames e"
    and "calc_real_path e x p info args h = (Inr a, h')"
  shows "real_result prefix (path_prefix_excludes h) p a"
proof -
  have "prefix_is prefix (path_prefix_excludes h) h" using assms(1) by (simp add: prefix_is_def)
  then show ?thesis
    using ensures_value [OF ensures_recurse [OF assms(3,2)]] assms(4) unfolding calc_real_path_def by (metis fst_conv)
qed

theorem calc_real_path_inside_witness:
  "\<exists>a h'. calc_real_path (sim_env \<lparr>SYS = (\<lambda>_. 39), AT_SYMLINK_NOFOLLOW = 256\<rparr> default_sysaug_args) sim_host [47, 97]
      default_syscall_info [] (sim_files (Some [47, 114]) (\<lambda>_. None)) = (Inr a, h') \<and>
    real_result [47, 114] [] [47, 97] a"
proof -
  let ?e = "sim_env \<lparr>SYS = (\<lambda>_. 39), AT_SYMLINK_NOFOLLOW = 256\<rparr> default_sysaug_args" and ?h = "sim_files (Some [47, 114]) (\<lambda>_. None)"
  have e: "no_renames ?e" by (simp add: sim_env_def default_sysaug_config_def default_rootfs_config_def)
  have n: "nix (fs_is_symlink sim_host q) ?h = (Inr (Inl ENOENT), ?h)" for q
    by (subst nix_static) (simp_all add: sim_host_def)
  have f: "calc_follow_symlink ?e sim_host q default_syscall_info v [] ?h = (Inr (Inl False), ?h)"
    if "\<not> str_contains PROC_SELF q" for q v
    using that n by (simp add: calc_follow_symlink.simps [of ?e sim_host q] default_syscall_info_def follow_symlink_here_def io_simps)
  have strip: "strip_prefix [47, 97] [47] = Some [97]"
    by (simp add: strip_prefix_def starts_with_def components_def comps_def segment_component_def skipped_segment_def
        trim_segments_def SLASH_def DOT_def)
  have s: "calc_real_path_simple ?e sim_host [47, 97] ?h = (Inr (Override [47, 114, 47, 97]), ?h)"
    by (simp add: calc_real_path_simple_def io_simps get_mod_path_none [OF e] strip path_push_def SLASH_def)
  have limit: "link_limit sim_host = Suc 39" by simp
  have "\<not> str_contains PROC_SELF [47, 114, 47, 97]" by (simp add: PROC_bytes)
  from f [OF this] have r: "calc_real_path ?e sim_host [47, 97] default_syscall_info [] ?h = (Inr (Override [47, 114, 47, 97]), ?h)"
    unfolding calc_real_path_def limit calc_real_path_recurse.simps Let_def using s by (simp add: io_simps follow_then_def)
  then have "real_result [47, 114] [] [47, 97] (Override [47, 114, 47, 97])"
    using calc_real_path_inside [OF _ _ e r, of "[47, 114]"] by simp
  with r show ?thesis by blast
qed

text \<open>
  C33.  A path of the tracee is mapped below the prefix component by component: an absolute path that is not
  passed through becomes the prefix followed by all components after the root.  Components \<open>..\<close> are kept as
  they are, so that the result can name a file outside the prefix.
\<close>

theorem chroot_maps_components:
  assumes "path_prefix h = Some prefix" "prefix \<noteq> []" "no_renames e"
    and "is_absolute p" "\<not> list_ex (starts_with p) (path_prefix_excludes h)"
  shows "\<exists>q. calc_real_path_simple e x p h = (Inr (Override q), h) \<and> components q = components prefix @ tl (components p)"
proof -
  obtain a where a: "calc_real_path_simple e x p h = (Inr a, h)" using calc_simple_static by blast
  have "prefix_is prefix (path_prefix_excludes h) h" using assms(1) by (simp add: prefix_is_def)
  then have "simple_result prefix (path_prefix_excludes h) p a"
    using ensures_value [OF ensures_simple [OF assms(3,2)]] a by (metis fst_conv)
  then show ?thesis using assms(4,5) a by (auto simp: simple_result_def)
qed

theorem chroot_maps_components_witness:
  "\<exists>q. calc_real_path_simple (sim_env \<lparr>SYS = (\<lambda>_. 39), AT_SYMLINK_NOFOLLOW = 256\<rparr> default_sysaug_args) sim_host
      [47, 46, 46, 47, 97] (sim_files (Some [47, 114]) (\<lambda>_. None)) =
      (Inr (Override q), sim_files (Some [47, 114]) (\<lambda>_. None)) \<and>
    components q = [RootDir, NormalDir [114], ParentDir, NormalDir [97]]"
proof -
  let ?e = "sim_env \<lparr>SYS = (\<lambda>_. 39), AT_SYMLINK_NOFOLLOW = 256\<rparr> default_sysaug_args" and ?h = "sim_files (Some [47, 114]) (\<lambda>_. None)"
  have e: "no_renames ?e" by (simp add: sim_env_def default_sysaug_config_def default_rootfs_config_def)
  have c: "components [47, 114] @ tl (components [47, 46, 46, 47, 97]) = [RootDir, NormalDir [114], ParentDir, NormalDir [97]]"
    by (simp add: components_def comps_def segment_component_def skipped_segment_def SLASH_def DOT_def)
  show ?thesis
    using chroot_maps_components [of ?h "[47, 114]" ?e "[47, 46, 46, 47, 97]" sim_host] e by (simp add: c SLASH_def)
qed

text \<open>
  C34.  Metadata files do not collide: files of the root file system with different canonical paths have
  different metadata files, and the metadata file of one is never a directory on the way to that of another.
\<close>

theorem metadata_files_apart:
  assumes "is_absolute rootfs" "file_name rootfs = Some name" "canonical p" "canonical q"
    and "starts_with p rootfs" "starts_with q rootfs"
  shows "\<exists>m n. metadata_path_in rootfs name p = Some m \<and> metadata_path_in rootfs name q = Some n \<and>
    (starts_with n m \<longrightarrow> path_eq p q)"
proof -
  let ?k = "length (components rootfs)"
  let ?base = "butlast (components rootfs) @ [NormalDir (name @ bytes_of_string ''.metadata''), NormalDir (bytes_of_string ''rootfs'')]"
  obtain m where m: "metadata_path_in rootfs name p = Some m"
    "components m = ?base @ children (drop ?k (components p)) @ [NormalDir META]"
    using metadata_path_components [OF assms(1,2,3,5)] by blast
  obtain n where n: "metadata_path_in rootfs name q = Some n"
    "components n = ?base @ children (drop ?k (components q)) @ [NormalDir META]"
    using metadata_path_components [OF assms(1,2,4,6)] by blast
  have ne: "components rootfs \<noteq> []" using file_name_last [OF assms(2)] by blast
  have "path_eq p q" if "starts_with n m"
  proof -
    have "take (length (components m)) (components n) = components m" using that by (simp add: starts_with_def)
    then show ?thesis
      unfolding path_eq_def m(2) n(2) by (rule metadata_files_apart_aux [OF assms(3-6) ne])
  qed
  then show ?thesis using m(1) n(1) by blast
qed

theorem metadata_files_apart_witness:
  "\<exists>m n. metadata_path_in [47, 114] [114] [47, 114, 47, 97] = Some m \<and>
     metadata_path_in [47, 114] [114] [47, 114, 47, 98] = Some n \<and> \<not> starts_with n m"
proof -
  note eval = components_def comps_def segment_component_def skipped_segment_def SLASH_def DOT_def file_name_def
    canonical_def starts_with_def path_eq_def
  have "\<not> path_eq [47, 114, 47, 97] [47, 114, 47, 98]" by (simp add: eval)
  then show ?thesis
    using metadata_files_apart [of "[47, 114]" "[114]" "[47, 114, 47, 97]" "[47, 114, 47, 98]"] by (auto simp: eval)
qed

end
