(* ===== verification/Aug_Process.thy ===== *)
theory Aug_Process
  imports Tracee_Stops
begin

text \<open>
  The augmentations of process creation, of seccomp and of waiting (\<open>sysaug/src/aug_clone.rs\<close>,
  \<open>sysaug/src/aug_seccomp.rs\<close>, \<open>sysaug/src/aug_waitpid.rs\<close>).
\<close>

section \<open>Operations\<close>

definition augment_sys_clone ::
  "('k, 'regex) env \<Rightarrow> generic_purpose_regs \<Rightarrow> syscall_info \<Rightarrow> ('k handler, sysaug_error, unit) async" where
  "augment_sys_clone e regs info =
     (let regs = regs\<lparr>arg0 := arg0 regs OR CLONE_PTRACE\<rparr>;
          regs = regs\<lparr>arg0 := arg0 regs AND NOT CLONE_UNTRACED\<rparr>
      in a_then (sync (in_kernel (setregs (api e) (pid_of e) regs))) (\<lambda>_.
         a_then (do_resume_syscall e) (\<lambda>_.
         sync (ret ()))))"

definition minus_ENOSYS :: usize where
  "minus_ENOSYS = of_int (- ENOSYS)"

definition augment_sys_seccomp ::
  "('k, 'regex) env \<Rightarrow> generic_purpose_regs \<Rightarrow> syscall_info \<Rightarrow> ('k handler, sysaug_error, unit) async" where
  "augment_sys_seccomp e regs info =
     (if num info = SYS (env_libc e) ''prctl'' \<and> arg0 regs \<noteq> PR_SET_SECCOMP
      then a_then (do_resume_syscall e) (\<lambda>_. sync (ret ()))
      else case seccomp_position info of
             None \<Rightarrow> do_skip_syscall e minus_ENOSYS
           | Some position \<Rightarrow>
               if position \<ge> 3 then do_skip_syscall e minus_ENOSYS
               else let possible_args = [arg0 regs, arg1 regs, arg2 regs];
                        seccomp_operation = possible_args ! position
                    in if seccomp_operation = SECCOMP_SET_MODE_FILTER
                       then do_skip_syscall e minus_ENOSYS
                       else a_then (do_resume_syscall e) (\<lambda>_. sync (ret ())))"

text \<open>\<open>x as i32\<close> of a machine word.\<close>

definition as_i32 :: "usize \<Rightarrow> int" where
  "as_i32 x = sint (ucast x :: 32 word)"

definition is_sigstop :: "errno + wait_status \<Rightarrow> bool" where
  "is_sigstop stat = (case stat of Inr (Stopped _ sig) \<Rightarrow> sig = SIGSTOP | _ \<Rightarrow> False)"

text \<open>What \<open>augment_sys_waitpid\<close> does after the system call.\<close>

definition hide_sigstop ::
  "('k, 'regex) env \<Rightarrow> 'k direct_world mem_helpers \<Rightarrow> usize \<Rightarrow> generic_purpose_regs \<Rightarrow> ('k handler, sysaug_error, unit) io" where
  "hide_sigstop e mem orig_wait_status regs =
     (let retval = as_i32 (syscall_retval regs); parent_pid = pid_of e
      in if retval > 0
         then
           m_then (gets (\<lambda>h. ignore_sigstops h parent_pid)) (\<lambda>locked.
           m_then (lift_r (rwlock_write locked)) (\<lambda>pids.
           let wait_status_addr = arg1 regs in
           m_then (on_globals (mh_read mem parent_pid wait_status_addr)) (\<lambda>wait_status.
           let stat = wait_status_from_raw e retval (as_i32 wait_status) in
           if retval \<in> pids \<and> is_sigstop stat
           then
             let nohang = arg2 regs AND WNOHANG;
                 override_retval = (if nohang = 0 then of_int (- EINTR) else 0)
             in
             m_then (in_kernel (setregs (api e) parent_pid (set_syscall_retval override_retval regs))) (\<lambda>_.
             m_then (in_kernel (write_word (api e) parent_pid wait_status_addr orig_wait_status)) (\<lambda>_.
             modify (\<lambda>h. h\<lparr>ignore_sigstops := (ignore_sigstops h)(parent_pid := RwLock False (pids - {retval}))\<rparr>)))
           else ret ())))
         else ret ())"

definition augment_sys_waitpid ::
  "('k, 'regex) env \<Rightarrow> generic_purpose_regs \<Rightarrow> syscall_info \<Rightarrow> ('k handler, sysaug_error, unit) async" where
  "augment_sys_waitpid e orig_regs info =
     a_then (sync (get_mem_helper e)) (\<lambda>mem.
     a_then (sync (on_globals (mh_read mem (pid_of e) (arg1 orig_regs)))) (\<lambda>orig_wait_status.
     a_then (do_resume_syscall e) (\<lambda>regs.
     sync (hide_sigstop e mem orig_wait_status regs))))"

section \<open>Properties\<close>

lemma resume_then_ret:
  assumes "kernel_laws e V legacy w" "in_step e V legacy h" "is_after_syscall_entry h"
  shows "\<exists>h'. run w (a_then (do_resume_syscall e) (\<lambda>_. sync (ret ()))) h = (Inr (), h') \<and> moved e V False h h'"
  using do_resume [OF assms] by (auto simp: run_simps m_then_apply io_simps)

text \<open>
  C26.  A \<open>clone\<close> of the tracee is executed with the flag \<open>CLONE_PTRACE\<close> (bit 13) set and the flag
  \<open>CLONE_UNTRACED\<close> (bit 23) cleared, so that the child is traced as well; all other flags and registers are those
  of the tracee.
\<close>

theorem augment_sys_clone_traced:
  assumes laws: "kernel_laws e V legacy w" and h: "in_step e V legacy h" "is_after_syscall_entry h"
  shows "\<exists>h' r. run w (augment_sys_clone e (regs_of e V h) info) h = (Inr (), h') \<and> in_step e V legacy h' \<and>
    \<not> is_after_syscall_entry h' \<and> executed e V h' = executed e V h @ [r] \<and>
    (\<forall>i < 64. bit (arg0 r) i = (if i = 13 then True else if i = 23 then False else bit (arg0 (regs_of e V h)) i)) \<and>
    r\<lparr>arg0 := 0\<rparr> = (regs_of e V h)\<lparr>arg0 := 0\<rparr>"
proof -
  let ?r = "(regs_of e V h)\<lparr>arg0 := (arg0 (regs_of e V h) OR CLONE_PTRACE) AND NOT CLONE_UNTRACED\<rparr>"
  have s: "setregs_law (api e) V" using laws by (simp add: kernel_laws_def)
  have "phase_of e V h \<noteq> UserCode" using h by (simp add: in_step_def)
  from in_kernel_setregs [OF s this] obtain h1
    where set: "in_kernel (setregs (api e) (pid_of e) ?r) h = (Inr (), h1)" and r1: "with_regs e V ?r h h1" by blast
  have i1: "in_step e V legacy h1" "is_after_syscall_entry h1"
    using with_regs_in_step [OF r1 h(1)] with_regs_cells [OF r1] h(2) by simp_all
  obtain h2 where res: "run w (a_then (do_resume_syscall e) (\<lambda>_. sync (ret ()))) h1 = (Inr (), h2)"
    and m: "moved e V False h1 h2" using resume_then_ret [OF laws i1] by blast
  have "run w (augment_sys_clone e (regs_of e V h) info) h = (Inr (), h2)"
    using set res by (simp add: augment_sys_clone_def run_simps m_then_apply Let_def)
  moreover have "executed e V h2 = executed e V h @ [?r]" using r1 m by (simp add: with_regs_def moved_def)
  moreover have "bit CLONE_PTRACE i \<longleftrightarrow> i = 13" "bit CLONE_UNTRACED i \<longleftrightarrow> i = 23" if "i < 64" for i
    using that bit_exp_iff [of 13 i, where 'a = usize] bit_exp_iff [of 23 i, where 'a = usize]
    by (auto simp: CLONE_PTRACE_def CLONE_UNTRACED_def)
  then have "\<forall>i < 64. bit (arg0 ?r) i = (if i = 13 then True else if i = 23 then False else bit (arg0 (regs_of e V h)) i)"
    by (auto simp: bit_and_iff bit_or_iff bit_not_iff)
  moreover have "in_step e V legacy h2 \<and> \<not> is_after_syscall_entry h2"
    using moved_in_step [OF i1(1) m] m by (simp add: moved_def)
  moreover have "?r\<lparr>arg0 := 0\<rparr> = (regs_of e V h)\<lparr>arg0 := 0\<rparr>" by simp
  ultimately show ?thesis by (intro exI [of _ h2] exI [of _ ?r]) (elim conjE, intro conjI)
qed

theorem augment_sys_clone_traced_witness:
  "\<exists>h' r. run (sim_between False 1)
       (augment_sys_clone (sim_env \<lparr>SYS = (\<lambda>_. 39), AT_SYMLINK_NOFOLLOW = 256\<rparr> default_sysaug_args) zero_regs default_syscall_info)
       (sim_handler zero_regs SeccompStop False True) = (Inr (), h') \<and>
     sim_executed (kern (globals h')) 1 = [r] \<and> bit (arg0 r) 13"
proof -
  let ?e = "sim_env \<lparr>SYS = (\<lambda>_. 39), AT_SYMLINK_NOFOLLOW = 256\<rparr> default_sysaug_args"
  let ?h = "sim_handler zero_regs SeccompStop False True"
  have i: "in_step ?e sim_view False ?h" by (rule sim_in_step) simp
  have r: "regs_of ?e sim_view ?h = zero_regs" by (simp add: sim_simps)
  obtain h' r where h': "run (sim_between False 1) (augment_sys_clone ?e zero_regs default_syscall_info) ?h = (Inr (), h')"
    and ex: "executed ?e sim_view h' = executed ?e sim_view ?h @ [r]" and b: "bit (arg0 r) 13"
    using augment_sys_clone_traced [OF sim_laws i sim_after_entry, of default_syscall_info] unfolding r by force
  have "sim_executed (kern (globals h')) 1 = [r]" using ex by (simp add: sim_simps)
  then show ?thesis by (intro exI [of _ h'] exI [of _ r] conjI h' b)
qed

end
