(* ===== verification/Aug_Paths.thy ===== *)
theory Aug_Paths
  imports Aug_Common Aug_Process
begin

text \<open>
  The augmentation of system calls on files (\<open>sysaug/src/aug_paths.rs\<close>): paths in the arguments are
  translated, modes and owners are kept in metadata files and put into the results of \<open>stat\<close>, and the
  entries of a directory are renamed or hidden.  The structures of \<open>libc\<close> are byte strings with the layout of
  \<open>x86_64\<close>; the legacy structure of 32-bit kernels is left out, as it is not compiled there.
\<close>

definition FILE_PERMS_MASK :: usize where "FILE_PERMS_MASK = 0xFFF"
definition AT_FDCWD :: int where "AT_FDCWD = - 100"
definition O_CREAT :: usize where "O_CREAT = 64"
definition minus_ELOOP :: usize where "minus_ELOOP = - 40"

section \<open>Arguments\<close>

definition reg_args :: "generic_purpose_regs \<Rightarrow> usize list" where
  "reg_args r = [arg0 r, arg1 r, arg2 r, arg3 r, arg4 r]"

fun set_arg :: "nat \<Rightarrow> usize \<Rightarrow> generic_purpose_regs \<Rightarrow> generic_purpose_regs option" where
  "set_arg 0 v r = Some (r\<lparr>arg0 := v\<rparr>)"
| "set_arg (Suc 0) v r = Some (r\<lparr>arg1 := v\<rparr>)"
| "set_arg (Suc (Suc 0)) v r = Some (r\<lparr>arg2 := v\<rparr>)"
| "set_arg (Suc (Suc (Suc 0))) v r = Some (r\<lparr>arg3 := v\<rparr>)"
| "set_arg (Suc (Suc (Suc (Suc 0)))) v r = Some (r\<lparr>arg4 := v\<rparr>)"
| "set_arg _ v r = None"

text \<open>An index out of range is a panic.\<close>

definition at_index :: "'a list \<Rightarrow> nat \<Rightarrow> ('k handler, sysaug_error, 'a) io" where
  "at_index xs i = (if i < length xs then ret (xs ! i) else panic)"

definition unwrap :: "'a option \<Rightarrow> ('k handler, sysaug_error, 'a) io" where
  "unwrap v = (case v of None \<Rightarrow> panic | Some a \<Rightarrow> ret a)"

definition in_procfs :: "('k, procfs_error, 'a) io \<Rightarrow> ('k handler, sysaug_error, 'a) io" where
  "in_procfs m = (\<lambda>h. case on_err Procfs (on_kern m) (globals h) of (r, g) \<Rightarrow> (r, h\<lparr>globals := g\<rparr>))"

definition get_dirfd_path ::
  "('k, 'regex) env \<Rightarrow> ('k, 'regex) host_api \<Rightarrow> generic_purpose_regs \<Rightarrow> syscall_info \<Rightarrow> nat \<Rightarrow>
     ('k handler, sysaug_error, path option) io" where
  "get_dirfd_path e x regs info i =
     (let maybe = (case dirfd_position info of
                     Some dirfd_reg \<Rightarrow> Some (int dirfd_reg)
                   | None \<Rightarrow> if dirfd_precedes_path info then Some (int i - 1) else None);
          cwd = m_then (in_procfs (getcwd (fs_read_link x) (pid_of e))) (\<lambda>p. ret (Some p))
      in case maybe of
           Some dirfd_reg \<Rightarrow>
             if dirfd_reg \<ge> 3 then throw DirfdReg
             else if dirfd_reg < 0 then panic
             else let dirfd = as_i32 ([arg0 regs, arg1 regs, arg2 regs] ! nat dirfd_reg)
                  in if dirfd \<noteq> AT_FDCWD then in_procfs (getfd_path (fs_read_link x) (pid_of e) dirfd)
                     else cwd
         | None \<Rightarrow> cwd)"

type_synonym path_state = "generic_purpose_regs \<times> path option list \<times> bool"

definition save_path :: "nat \<Rightarrow> path \<Rightarrow> path option list \<Rightarrow> ('k handler, sysaug_error, path option list) io" where
  "save_path i p save_paths = (if i < length save_paths then ret (save_paths[i := Some p]) else panic)"

text \<open>One iteration of the loop over the arguments; \<open>None\<close> is the early return for a loop of links.\<close>

definition translate_arg ::
  "('k, 'regex) env \<Rightarrow> ('k, 'regex) host_api \<Rightarrow> 'k direct_world mem_helpers \<Rightarrow> generic_purpose_regs \<Rightarrow> syscall_info \<Rightarrow> nat \<Rightarrow>
     path_state \<Rightarrow> ('k handler, sysaug_error, path_state option) io" where
  "translate_arg e x mem copy_regs info i = (\<lambda>(regs, save_paths, need_write_regs).
     if path_positions info AND push_bit i 1 = 0 then ret (Some (regs, save_paths, need_write_regs))
     else
     m_then (at_index (reg_args regs) i) (\<lambda>arg_i.
     if arg_i = 0 then ret (Some (regs, save_paths, need_write_regs))
     else
     m_then (get_dirfd_path e x copy_regs info i) (\<lambda>maybe_dirfd_path.
     let dirfd_path = (case maybe_dirfd_path of None \<Rightarrow> [] | Some p \<Rightarrow> p) in
     m_then (on_globals (mh_read_bytes_until_zero mem (pid_of e) arg_i)) (\<lambda>path_bytes.
     let orig_path_buf = path_from_bytes path_bytes in
     m_then (calc_real_path e x orig_path_buf info (reg_args copy_regs)) (\<lambda>path_action.
     case path_action of
       Override new_path_val \<Rightarrow>
         let input_path = (if new_path_val = [] then dirfd_path else path_join dirfd_path new_path_val) in
         m_then (save_path i input_path save_paths) (\<lambda>save_paths.
         m_then (tracee_stack_append_path e new_path_val) (\<lambda>addr.
         m_then (unwrap (set_arg i addr regs)) (\<lambda>regs.
         ret (Some (regs, save_paths, True)))))
     | ELOOP \<Rightarrow> ret None
     | _ \<Rightarrow>
         let input_path = (if orig_path_buf = [] then dirfd_path else path_join dirfd_path orig_path_buf) in
         m_then (save_path i input_path save_paths) (\<lambda>save_paths.
         ret (Some (regs, save_paths, need_write_regs))))))))"

fun translate_args ::
  "('k, 'regex) env \<Rightarrow> ('k, 'regex) host_api \<Rightarrow> 'k direct_world mem_helpers \<Rightarrow> generic_purpose_regs \<Rightarrow> syscall_info \<Rightarrow> nat list \<Rightarrow>
     path_state \<Rightarrow> ('k handler, sysaug_error, path_state option) io" where
  "translate_args e x mem copy_regs info [] st = ret (Some st)"
| "translate_args e x mem copy_regs info (i # is) st =
     m_then (translate_arg e x mem copy_regs info i st) (\<lambda>r.
     case r of
       None \<Rightarrow> ret None
     | Some st \<Rightarrow> translate_args e x mem copy_regs info is st)"

definition filefd_path ::
  "('k, 'regex) env \<Rightarrow> ('k, 'regex) host_api \<Rightarrow> usize list \<Rightarrow> syscall_info \<Rightarrow> path option list \<Rightarrow>
     ('k handler, sysaug_error, path option list) io" where
  "filefd_path e x read_args info save_paths =
     (case filefd_position info of
        None \<Rightarrow> ret save_paths
      | Some position \<Rightarrow>
          m_then (at_index read_args position) (\<lambda>fd.
          m_then (in_procfs (getfd_path (fs_read_link x) (pid_of e) (sint fd))) (\<lambda>p.
          ret (save_paths[0 := Some (case p of None \<Rightarrow> [] | Some p \<Rightarrow> p)]))))"

definition flatten :: "path option list \<Rightarrow> path list" where
  "flatten ps = List.map_filter id ps"

section \<open>Modes and owners\<close>

definition missing_perms :: "string \<Rightarrow> 'a option \<Rightarrow> ('k handler, sysaug_error, 'a) io" where
  "missing_perms msg v = lift_r (ok_or (SyscallMissingField msg) v)"

text \<open>The arguments that the host sees: its own user and group, or its own mode.\<close>

definition host_perms ::
  "('k, 'regex) env \<Rightarrow> syscall_info \<Rightarrow> generic_purpose_regs \<times> bool \<Rightarrow> ('k handler, sysaug_error, generic_purpose_regs \<times> bool) io" where
  "host_perms e info = (\<lambda>(regs, need_write_regs).
     let config = cfg_rootfs (consts_config (h_consts (handler_of e))) in
     case sets_file_perms info of
       None \<Rightarrow> ret (regs, need_write_regs)
     | Some kind \<Rightarrow>
         m_then (missing_perms ''Chmod syscall doesn't have sets_file_perms'' (file_perms_position info)) (\<lambda>position.
         if kind = Chown
         then m_then (unwrap (set_arg position (host_uid config) regs)) (\<lambda>regs.
              m_then (unwrap (set_arg (position + 1) (host_gid config) regs)) (\<lambda>regs.
              ret (regs, True)))
         else m_then (unwrap (set_arg position (host_file_perms config) regs)) (\<lambda>regs.
              ret (regs, True))))"

definition save_all ::
  "('k, 'regex) env \<Rightarrow> ('k, 'regex) host_api \<Rightarrow> path option list \<Rightarrow> (rootfs_metadata \<Rightarrow> rootfs_metadata) \<Rightarrow>
     ('k handler, sysaug_error, unit) io" where
  "save_all e x save_paths f = for_each (\<lambda>path. save_metadata_for_file e x path f) (flatten save_paths)"

definition record_perms ::
  "('k, 'regex) env \<Rightarrow> ('k, 'regex) host_api \<Rightarrow> usize list \<Rightarrow> syscall_info \<Rightarrow> path option list \<Rightarrow>
     ('k handler, sysaug_error, unit) io" where
  "record_perms e x read_args info save_paths =
     (case sets_file_perms info of
        Some Chmod \<Rightarrow>
          m_then (missing_perms ''Chmod syscall doesn't have sets_file_perms'' (file_perms_position info)) (\<lambda>position.
          m_then (at_index read_args position) (\<lambda>new_mod.
          save_all e x save_paths (\<lambda>m. m\<lparr>md_chmod := Some (new_mod AND FILE_PERMS_MASK)\<rparr>)))
      | Some ChmodOnCreation \<Rightarrow>
          m_then (missing_perms ''ChmodOnCreation syscall doesn't have flags'' (flags info)) (\<lambda>flags_position.
          m_then (missing_perms ''ChmodOnCreation syscall doesn't have sets_file_perms'' (file_perms_position info)) (\<lambda>perms_position.
          m_then (at_index read_args flags_position) (\<lambda>fl.
          if fl AND O_CREAT \<noteq> 0
          then m_then (at_index read_args perms_position) (\<lambda>new_mod.
               save_all e x save_paths (\<lambda>m. m\<lparr>md_chmod := Some (new_mod AND FILE_PERMS_MASK)\<rparr>))
          else ret ())))
      | Some Chown \<Rightarrow>
          m_then (missing_perms ''Chown syscall doesn't have sets_file_perms'' (file_perms_position info)) (\<lambda>position.
          m_then (at_index read_args position) (\<lambda>new_owner.
          m_then (at_index read_args (position + 1)) (\<lambda>new_group.
          save_all e x save_paths (\<lambda>m. m\<lparr>md_chown_owner := Some new_owner, md_chown_group := Some new_group\<rparr>))))
      | None \<Rightarrow> ret ())"

text \<open>A type with \<open>IStat\<close>: its size and where its fields are.\<close>

record istat =
  stat_size :: usize
  mode_at :: nat
  mode_len :: nat
  uid_at :: nat
  gid_at :: nat

definition libc_stat :: istat where
  "libc_stat = \<lparr>stat_size = 144, mode_at = 24, mode_len = 4, uid_at = 28, gid_at = 32\<rparr>"

definition libc_stat64 :: istat where
  "libc_stat64 = \<lparr>stat_size = 144, mode_at = 24, mode_len = 4, uid_at = 28, gid_at = 32\<rparr>"

definition libc_statx :: istat where
  "libc_statx = \<lparr>stat_size = 256, mode_at = 28, mode_len = 2, uid_at = 20, gid_at = 24\<rparr>"

definition get_field :: "nat \<Rightarrow> nat \<Rightarrow> u8 list \<Rightarrow> usize" where
  "get_field at len bs = from_ne_bytes (take len (drop at bs))"

definition set_field :: "nat \<Rightarrow> nat \<Rightarrow> usize \<Rightarrow> u8 list \<Rightarrow> u8 list" where
  "set_field at len val bs = take at bs @ take len (to_ne_bytes val) @ drop (at + len) bs"

definition get_mode :: "istat \<Rightarrow> u8 list \<Rightarrow> usize" where
  "get_mode T bs = get_field (mode_at T) (mode_len T) bs"

definition set_mode :: "istat \<Rightarrow> usize \<Rightarrow> u8 list \<Rightarrow> u8 list" where
  "set_mode T val bs = set_field (mode_at T) (mode_len T) val bs"

definition set_uid :: "istat \<Rightarrow> usize \<Rightarrow> u8 list \<Rightarrow> u8 list" where
  "set_uid T val bs = set_field (uid_at T) 4 val bs"

definition set_gid :: "istat \<Rightarrow> usize \<Rightarrow> u8 list \<Rightarrow> u8 list" where
  "set_gid T val bs = set_field (gid_at T) 4 val bs"

definition fake_stat :: "istat \<Rightarrow> rootfs_metadata \<Rightarrow> u8 list \<Rightarrow> u8 list" where
  "fake_stat T meta st =
     (let st = (case md_chmod meta of
                  None \<Rightarrow> st
                | Some chmod \<Rightarrow>
                    let old_mode = get_mode T st;
                        new_mode = (old_mode AND NOT FILE_PERMS_MASK) OR (chmod AND FILE_PERMS_MASK)
                    in set_mode T new_mode st);
          st = (case md_chown_owner meta of None \<Rightarrow> st | Some owner \<Rightarrow> set_uid T owner st)
      in case md_chown_group meta of None \<Rightarrow> st | Some grp \<Rightarrow> set_gid T grp st)"

definition replace_statbuf_result ::
  "('k, 'regex) env \<Rightarrow> ('k, 'regex) host_api \<Rightarrow> istat \<Rightarrow> usize \<Rightarrow> path \<Rightarrow> ('k handler, sysaug_error, unit) io" where
  "replace_statbuf_result e x T addr path =
     m_then (read_metadata_for_file e x path) (\<lambda>meta.
     case meta of
       None \<Rightarrow> ret ()
     | Some meta \<Rightarrow>
         m_then (get_mem_helper e) (\<lambda>mem_helpers.
         m_then (on_globals (read_bytes_to_fixed_sized_objs (stat_size T) 1 (pid_of e) addr 1 mem_helpers)) (\<lambda>stats.
         let stats = map (fake_stat T meta) stats;
             max_size = of_nat (length stats) * stat_size T
         in m_then (in_kernel (write_fixed_sized_objs_to_tracee (api e) (stat_size T) (pid_of e) addr max_size stats)) (\<lambda>_.
            ret ()))))"

definition stat_result ::
  "('k, 'regex) env \<Rightarrow> ('k, 'regex) host_api \<Rightarrow> usize list \<Rightarrow> path option list \<Rightarrow> istat \<Rightarrow> nat \<Rightarrow>
     ('k handler, sysaug_error, unit) io" where
  "stat_result e x read_args save_paths T position =
     m_then (missing_perms ''stat syscalls don't have a corresponding path/fd to read from''
               (case flatten save_paths of [] \<Rightarrow> None | p # _ \<Rightarrow> Some p)) (\<lambda>path.
     m_then (at_index read_args position) (\<lambda>addr.
     replace_statbuf_result e x T addr path))"

definition stat_results ::
  "('k, 'regex) env \<Rightarrow> ('k, 'regex) host_api \<Rightarrow> usize list \<Rightarrow> path option list \<Rightarrow> syscall_info \<Rightarrow>
     ('k handler, sysaug_error, unit) io" where
  "stat_results e x read_args save_paths info =
     (case stat_buf_position info of
        Some position \<Rightarrow> stat_result e x read_args save_paths libc_stat position
      | None \<Rightarrow>
     (case stat_legacy_buf_position info of
        Some position \<Rightarrow> stat_result e x read_args save_paths libc_stat position
      | None \<Rightarrow>
     (case stat64_buf_position info of
        Some position \<Rightarrow> stat_result e x read_args save_paths libc_stat64 position
      | None \<Rightarrow>
     (case statx_buf_position info of
        Some position \<Rightarrow> stat_result e x read_args save_paths libc_statx position
      | None \<Rightarrow> ret ()))))"

section \<open>Directories\<close>

text \<open>The header of an entry ends, with padding, after 24 bytes; the name has 512 bytes.\<close>

definition NAME_LEN :: nat where "NAME_LEN = 512"

definition dirent_layout :: cstruct where
  "dirent_layout = \<lparr>
     t_size = 536,
     header_size = 24,
     item_size_deducer = (\<lambda>bs. get_field 16 2 bs),
     item_size_updater = (\<lambda>size bs. set_field 16 2 size bs)\<rparr>"

definition Dirent64 :: "cstruct \<times> nat" where "Dirent64 = (dirent_layout, 19)"
definition Dirent :: "cstruct \<times> nat" where "Dirent = (dirent_layout, 18)"

definition get_name :: "nat \<Rightarrow> u8 list \<Rightarrow> u8 list" where
  "get_name name_at entry = take NAME_LEN (drop name_at entry)"

definition set_name :: "nat \<Rightarrow> u8 list \<Rightarrow> u8 list \<Rightarrow> u8 list" where
  "set_name name_at bytes entry =
     take name_at entry @ bytes @ replicate (NAME_LEN - length bytes) 0 @ drop (name_at + NAME_LEN) entry"

text \<open>An entry becomes itself, a renamed entry or nothing; a name that is too long is a panic.\<close>

definition modify_entry ::
  "('k, 'regex) env \<Rightarrow> ('k, 'regex) host_api \<Rightarrow> nat \<Rightarrow> u8 list \<Rightarrow> ('k handler, sysaug_error, u8 list option) io" where
  "modify_entry e x name_at entry =
     (let orig_path = path_from_bytes (get_name name_at entry)
      in case get_mod_path e x orig_path NoAction True of
           Override override_path \<Rightarrow>
             (let bytes = takeWhile (\<lambda>b. b \<noteq> 0) override_path
              in if length bytes > NAME_LEN then panic else ret (Some (set_name name_at bytes entry)))
         | HidePath \<Rightarrow> ret None
         | _ \<Rightarrow> ret (Some entry))"

fun modify_entries ::
  "('k, 'regex) env \<Rightarrow> ('k, 'regex) host_api \<Rightarrow> nat \<Rightarrow> u8 list list \<Rightarrow> ('k handler, sysaug_error, u8 list list) io" where
  "modify_entries e x name_at [] = ret []"
| "modify_entries e x name_at (entry # dirents) =
     m_then (modify_entry e x name_at entry) (\<lambda>r.
     m_then (modify_entries e x name_at dirents) (\<lambda>rs.
     ret (case r of None \<Rightarrow> rs | Some entry \<Rightarrow> entry # rs)))"

definition replace_getdents_result ::
  "('k, 'regex) env \<Rightarrow> ('k, 'regex) host_api \<Rightarrow> cstruct \<times> nat \<Rightarrow> generic_purpose_regs \<Rightarrow> ('k handler, sysaug_error, unit) io" where
  "replace_getdents_result e x T regs =
     m_then (get_mem_helper e) (\<lambda>mem_helpers.
     let addr = arg1 regs;
         buf_size = arg2 regs * 2;
         list_size = syscall_retval regs
     in
     m_then (on_globals (read_bytes_to_structs (fst T) (unat list_size) (pid_of e) addr list_size mem_helpers)) (\<lambda>dirents.
     m_then (modify_entries e x (snd T) dirents) (\<lambda>dirents.
     m_then (in_kernel (write_structs_to_tracee (api e) (fst T) (pid_of e) addr buf_size dirents 2)) (\<lambda>num_bytes.
     let regs = regs\<lparr>arg2 := arg2 regs * 2\<rparr>;
         regs = set_syscall_retval num_bytes regs
     in in_kernel (setregs (api e) (pid_of e) regs)))))"

section \<open>The augmentation\<close>

text \<open>What happens before the system call; \<open>None\<close> if it is to be skipped.\<close>

definition before_paths_syscall ::
  "('k, 'regex) env \<Rightarrow> ('k, 'regex) host_api \<Rightarrow> generic_purpose_regs \<Rightarrow> syscall_info \<Rightarrow>
     ('k handler, sysaug_error, path option list option) io" where
  "before_paths_syscall e x orig_regs info =
     m_then (get_mem_helper e) (\<lambda>mem.
     m_then (translate_args e x mem orig_regs info [0..<5] (orig_regs, replicate 4 None, False)) (\<lambda>r.
     case r of
       None \<Rightarrow> ret None
     | Some (regs, save_paths, need_write_regs) \<Rightarrow>
         m_then (filefd_path e x (reg_args orig_regs) info save_paths) (\<lambda>save_paths.
         let (regs, need_write_regs) =
               (if getdents_bits info \<noteq> None then (regs\<lparr>arg2 := arg2 regs div 2\<rparr>, True) else (regs, need_write_regs))
         in
         m_then (if deletion_type info \<noteq> None
                 then for_each (delete_metadata_for_file e x) (flatten save_paths)
                 else ret ()) (\<lambda>_.
         m_then (host_perms e info (regs, need_write_regs)) (\<lambda>(regs, need_write_regs).
         m_then (if need_write_regs then in_kernel (setregs (api e) (pid_of e) regs) else ret ()) (\<lambda>_.
         ret (Some save_paths)))))))"

definition after_paths_syscall ::
  "('k, 'regex) env \<Rightarrow> ('k, 'regex) host_api \<Rightarrow> usize list \<Rightarrow> syscall_info \<Rightarrow> path option list \<Rightarrow> generic_purpose_regs \<Rightarrow>
     ('k handler, sysaug_error, unit) io" where
  "after_paths_syscall e x read_args info save_paths regs =
     (let retval = sint (syscall_retval regs) in
      m_then (record_perms e x read_args info save_paths) (\<lambda>_.
      if retval < 0 then ret ()
      else
      m_then (stat_results e x read_args save_paths info) (\<lambda>_.
      if retval = 0 then ret ()
      else if getdents_bits info = Some 32 then replace_getdents_result e x Dirent regs
      else if getdents_bits info = Some 64 then replace_getdents_result e x Dirent64 regs
      else ret ())))"

definition augment_sys_paths ::
  "('k, 'regex) env \<Rightarrow> ('k, 'regex) host_api \<Rightarrow> generic_purpose_regs \<Rightarrow> syscall_info \<Rightarrow>
     ('k handler, sysaug_error, unit) async" where
  "augment_sys_paths e x orig_regs info =
     a_then (sync (before_paths_syscall e x orig_regs info)) (\<lambda>r.
     case r of
       None \<Rightarrow> do_skip_syscall e minus_ELOOP
     | Some save_paths \<Rightarrow>
         a_then (do_resume_syscall e) (\<lambda>regs.
         sync (after_paths_syscall e x (reg_args orig_regs) info save_paths regs)))"

end
