(* ===== verification/Aug_Exec.thy ===== *)
theory Aug_Exec
  imports Aug_Paths
begin

text \<open>
  The augmentation of \<open>execve\<close> (\<open>sysaug/src/aug_exec.rs\<close>): the program is replaced by its interpreter, which
  the kernel would look up outside of the root file system.  A file with the program header \<open>PT_INTERP\<close> is
  run by that interpreter, a static program by itself, and a script by the interpreter of its first line, which is
  then looked at in the same way.
\<close>

definition PT_INTERP :: u32 where "PT_INTERP = 3"
definition S_ISUID :: u32 where "S_ISUID = 2048"
definition S_ISGID :: u32 where "S_ISGID = 1024"
definition minus_ENOENT :: usize where "minus_ENOENT = - 2"

section \<open>Files\<close>

definition exec_setid :: "nat \<Rightarrow> u32 \<Rightarrow> ('k handler, sysaug_error, unit) io" where
  "exec_setid which i = modify (\<lambda>h. h\<lparr>perms_ids := (perms_ids h)[which := Some (ucast i)]\<rparr>)"

text \<open>
  The path of the file on the host, \<open>None\<close> for a loop of links.  The set-user-id and set-group-id bits are those of the
  path before the translation.
\<close>

definition exec_path ::
  "('k, 'regex) env \<Rightarrow> ('k, 'regex) host_api \<Rightarrow> path \<Rightarrow> syscall_info \<Rightarrow> usize list \<Rightarrow> ('k handler, sysaug_error, path option) io" where
  "exec_path e x elf_path info read_args =
     m_then (calc_real_path e x elf_path info read_args) (\<lambda>path_action.
     m_then (nix (fs_stat x elf_path)) (\<lambda>r.
     m_then (case r of
               Inl _ \<Rightarrow> ret ()
             | Inr st \<Rightarrow>
                 m_then (if st_mode st AND S_ISUID \<noteq> 0 then exec_setid 5 (st_uid st) else ret ()) (\<lambda>_.
                 if st_mode st AND S_ISGID \<noteq> 0 then exec_setid 1 (st_gid st) else ret ())) (\<lambda>_.
     case path_action of
       Override new_path_val \<Rightarrow> ret (Some new_path_val)
     | ELOOP \<Rightarrow> ret None
     | _ \<Rightarrow> ret (Some elf_path))))"

definition std_absolute :: "('k, 'regex) host_api \<Rightarrow> path \<Rightarrow> ('k handler, sysaug_error, path) io" where
  "std_absolute x p =
     (if p = [] then throw (ConvertAbsolutePath EINVAL)
      else if is_absolute p then ret (make_absolute [] p)
      else m_then (nix_call ConvertAbsolutePath (fs_current_dir x)) (\<lambda>cwd. ret (make_absolute cwd p)))"

definition container_path ::
  "('k, 'regex) env \<Rightarrow> ('k, 'regex) host_api \<Rightarrow> path \<Rightarrow> ('k handler, sysaug_error, path) io" where
  "container_path e x elf_path =
     (if is_absolute elf_path then ret elf_path
      else case args_chroot (args_of e) of
             Some chroot_path \<Rightarrow>
               m_then (std_absolute x elf_path) (\<lambda>host_absolute_path.
               m_then (lift_r (ok_or ConvertAbsolutePathPrefix (strip_prefix host_absolute_path chroot_path))) (\<lambda>without_prefix.
               std_absolute x (path_join [SLASH] without_prefix)))
           | None \<Rightarrow> std_absolute x elf_path)"

definition parse_shebang :: "('k, 'regex) host_api \<Rightarrow> fd \<Rightarrow> ('k handler, sysaug_error, u8 list option) io" where
  "parse_shebang x file =
     m_then (nix_call ReadBin (fs_seek x file 0)) (\<lambda>_.
     m_then (nix_call ReadBin (fs_read_line x file)) (\<lambda>line.
     ret (if take 2 line = [35, 33] then Some (str_trim (drop 2 line)) else None)))"

definition find_interp :: "program_header list \<Rightarrow> program_header option" where
  "find_interp phdrs = find (\<lambda>ph. progtype ph = PT_INTERP) phdrs"

definition read_interp_path :: "('k, 'regex) host_api \<Rightarrow> fd \<Rightarrow> program_header \<Rightarrow> ('k handler, sysaug_error, path) io" where
  "read_interp_path x file header =
     (if unat (ph_filesz header) \<ge> 2 ^ 63 then panic
      else
      m_then (nix_call ReadBin (fs_seek x file (ph_offset header))) (\<lambda>_.
      m_then (nix_call ReadBin (fs_read_exact x file (ph_filesz header))) (\<lambda>buf.
      ret (path_from_bytes buf))))"

section \<open>New arguments\<close>

text \<open>\<open>argv_bytes[USIZE_SIZE..]\<close>, and the addresses as an array that ends with zero.\<close>

definition argv_tail :: "u8 list \<Rightarrow> ('k handler, sysaug_error, u8 list) io" where
  "argv_tail argv_bytes = (if length argv_bytes < USIZE_SIZE then panic else ret (drop USIZE_SIZE argv_bytes))"

definition put_argv ::
  "('k, 'regex) env \<Rightarrow> usize list \<Rightarrow> u8 list \<Rightarrow> ('k handler, sysaug_error, usize) io" where
  "put_argv e addrs argv_bytes =
     m_then (argv_tail argv_bytes) (\<lambda>rest.
     tracee_stack_append e (concat (map to_ne_bytes addrs) @ rest @ to_ne_bytes 0))"

definition exec_interp ::
  "('k, 'regex) env \<Rightarrow> ('k, 'regex) host_api \<Rightarrow> generic_purpose_regs \<Rightarrow> syscall_info \<Rightarrow> usize list \<Rightarrow> path \<Rightarrow> u8 list \<Rightarrow> fd \<Rightarrow>
     program_header \<Rightarrow> ('k handler, sysaug_error, bool \<times> generic_purpose_regs) io" where
  "exec_interp e x regs info read_args elf_path argv_bytes file header =
     m_then (read_interp_path x file header) (\<lambda>interp_path.
     m_then (calc_real_path e x interp_path info read_args) (\<lambda>path_action.
     let final_interp_path =
           (if args_chroot (args_of e) \<noteq> None \<and> \<not> args_use_native_loader (args_of e)
            then case path_action of Override new_path_val \<Rightarrow> new_path_val | _ \<Rightarrow> interp_path
            else interp_path)
     in
     m_then (container_path e x elf_path) (\<lambda>final_elf_path.
     m_then (tracee_stack_append_path e final_interp_path) (\<lambda>interp_addr.
     m_then (tracee_stack_append_path e final_elf_path) (\<lambda>elf_addr.
     m_then (put_argv e [interp_addr, elf_addr] argv_bytes) (\<lambda>new_argv_addr.
     ret (True, regs\<lparr>arg0 := interp_addr, arg1 := new_argv_addr\<rparr>)))))))"

text \<open>The registers for the interpreter of a script, or \<open>None\<close> for a first line that is not valid.\<close>

definition exec_shebang ::
  "('k, 'regex) env \<Rightarrow> generic_purpose_regs \<Rightarrow> u8 list \<Rightarrow> u8 list \<Rightarrow> ('k handler, sysaug_error, generic_purpose_regs option) io" where
  "exec_shebang e regs argv_bytes shebang =
     (let parts = split_on 32 shebang in
      if length parts > 2 \<or> parts = [] then ret None
      else
      m_then (tracee_stack_append_str e (parts ! 0)) (\<lambda>interp_addr.
      m_then (if length parts = 2
              then m_then (tracee_stack_append_str e (parts ! 1)) (\<lambda>part1_addr. ret [part1_addr])
              else ret []) (\<lambda>part1_addrs.
      m_then (put_argv e ([interp_addr] @ part1_addrs @ [arg0 regs]) argv_bytes) (\<lambda>new_argv_addr.
      ret (Some (regs\<lparr>arg0 := interp_addr, arg1 := new_argv_addr\<rparr>))))))"

fun expand_exec_with_parser ::
  "nat \<Rightarrow> ('k, 'regex) env \<Rightarrow> ('k, 'regex) host_api \<Rightarrow> generic_purpose_regs \<Rightarrow> syscall_info \<Rightarrow>
     ('k handler, sysaug_error, bool \<times> generic_purpose_regs) io" where
  "expand_exec_with_parser 0 e x regs info = out_of_fuel"
| "expand_exec_with_parser (Suc n) e x regs info =
     m_then (get_mem_helper e) (\<lambda>mem.
     m_then (on_globals (mh_read_bytes_until_zero mem (pid_of e) (arg0 regs))) (\<lambda>path_bytes.
     m_then (on_globals (mh_read_bytes_until_num_zeroes mem (pid_of e) (arg1 regs) usize_size)) (\<lambda>argv_bytes.
     let read_args = [arg0 regs, arg1 regs, arg2 regs, arg3 regs];
         elf_path = path_from_bytes path_bytes
     in
     m_then (exec_path e x elf_path info read_args) (\<lambda>maybe_elf_path.
     case maybe_elf_path of
       None \<Rightarrow> ret (False, regs)
     | Some new_elf_path \<Rightarrow>
         m_then (path_exists x new_elf_path) (\<lambda>exists.
         if \<not> exists then ret (False, regs)
         else
         m_then (nix_call ReadBin (fs_open_ro x new_elf_path)) (\<lambda>file.
         with_file x file
           (m_then (nix (elf_headers x file)) (\<lambda>maybe_elf_file.
            case maybe_elf_file of
              Inr phdrs \<Rightarrow>
                (case find_interp phdrs of
                   Some header \<Rightarrow> exec_interp e x regs info read_args elf_path argv_bytes file header
                 | None \<Rightarrow>
                     m_then (tracee_stack_append_path e new_elf_path) (\<lambda>path_addr.
                     ret (True, regs\<lparr>arg0 := path_addr\<rparr>)))
            | Inl _ \<Rightarrow>
                m_then (parse_shebang x file) (\<lambda>shebang.
                case shebang of
                  None \<Rightarrow> ret (False, regs)
                | Some shebang \<Rightarrow>
                    m_then (exec_shebang e regs argv_bytes shebang) (\<lambda>r.
                    case r of
                      None \<Rightarrow> ret (False, regs)
                    | Some regs \<Rightarrow> expand_exec_with_parser n e x regs info))))))))))"

definition augment_sys_exec ::
  "('k, 'regex) env \<Rightarrow> ('k, 'regex) host_api \<Rightarrow> generic_purpose_regs \<Rightarrow> syscall_info \<Rightarrow>
     ('k handler, sysaug_error, unit) async" where
  "augment_sys_exec e x regs info =
     a_then (sync (expand_exec_with_parser (link_limit x) e x regs info)) (\<lambda>(expanded, regs).
     if \<not> expanded then do_skip_syscall e minus_ENOENT
     else
     a_then (sync (in_kernel (setregs (api e) (pid_of e) regs))) (\<lambda>_.
     a_then (do_resume_syscall e) (\<lambda>_.
     sync (ret ()))))"

end
