(* ===== verification/Aug_Perms.thy ===== *)
theory Aug_Perms
  imports Tracee_Stops
begin

text \<open>
  The emulation of user and group ids (\<open>sysaug/src/aug_perms.rs\<close>): setters record an id in one of eight slots,
  getters report the slot to the tracee.
\<close>

section \<open>Operations\<close>

definition usize_max :: usize where "usize_max = - 1"

definition handle_setid :: "('k, 'regex) env \<Rightarrow> usize \<Rightarrow> sysaug_error + usize" where
  "handle_setid e proposed_id =
     (if args_perms_mode (args_of e) = RootOnly \<and> proposed_id \<ge> usize_max div 2 then Inr 0
      else Inr proposed_id)"

definition write_retval :: "('k, 'regex) env \<Rightarrow> generic_purpose_regs \<Rightarrow> usize \<Rightarrow> ('k handler, sysaug_error, unit) io" where
  "write_retval e regs val = in_kernel (setregs (api e) (pid_of e) (set_syscall_retval val regs))"

definition on_perms_ids :: "(perms_ids \<times> 'k handler, 'e, 'a) io \<Rightarrow> ('k handler, 'e, 'a) io" where
  "on_perms_ids m = (\<lambda>h. case m (perms_ids h, h) of (r, ids, h') \<Rightarrow> (r, h'\<lparr>perms_ids := ids\<rparr>))"

text \<open>The two closures that are passed to \<open>walk_resf_syscall\<close>.\<close>

definition setter_callback ::
  "('k, 'regex) env \<Rightarrow> generic_purpose_regs \<Rightarrow> ('k handler, sysaug_error) slot_callback" where
  "setter_callback e orig_regs i val =
     (let possible_args = [arg0 orig_regs, arg1 orig_regs, arg2 orig_regs];
          proposed_id = (case i of Some i \<Rightarrow> possible_args ! i | None \<Rightarrow> syscall_retval orig_regs)
      in m_then (lift_r (handle_setid e proposed_id)) (\<lambda>final_id. ret (Some final_id)))"

definition getter_callback ::
  "('k, 'regex) env \<Rightarrow> generic_purpose_regs \<Rightarrow> generic_purpose_regs \<Rightarrow> ('k handler, sysaug_error) slot_callback" where
  "getter_callback e orig_regs regs i val =
     (let possible_args = [arg0 orig_regs, arg1 orig_regs, arg2 orig_regs]
      in case val of
           None \<Rightarrow> ret val
         | Some v \<Rightarrow>
             (case i of
                Some i \<Rightarrow> m_then (in_kernel (write_word (api e) (pid_of e) (possible_args ! i) v)) (\<lambda>_. ret val)
              | None \<Rightarrow> m_then (write_retval e regs v) (\<lambda>_. ret val)))"

definition augment_sys_perms ::
  "('k, 'regex) env \<Rightarrow> generic_purpose_regs \<Rightarrow> syscall_info \<Rightarrow> ('k handler, sysaug_error, unit) async" where
  "augment_sys_perms e orig_regs info =
     (let emulates = args_perms_mode (args_of e) \<noteq> Passthrough in
      a_then (sync (if is_setter info \<and> emulates
                    then on_perms_ids (walk_resf_syscall info True (setter_callback e orig_regs))
                    else ret True)) (\<lambda>is_handled.
      if \<not> is_handled then do_skip_syscall e 0
      else
      a_then (do_resume_syscall e) (\<lambda>regs.
      if \<not> is_setter info \<and> emulates
      then
        a_then (sync (on_perms_ids
          (walk_resf_syscall info (syscall_retval regs = 0) (getter_callback e orig_regs regs)))) (\<lambda>is_known_getter.
        sync (if \<not> is_known_getter \<and> sint (syscall_retval regs) < 0 then write_retval e regs 0 else ret ()))
      else sync (ret ()))))"

section \<open>Lemmas\<close>

lemma walk_one_slot:
  assumes "resf_bit info = Some b" "b < length (perms_ids h)"
    and "callback None (perms_ids h ! b) h = (Inr v, h')" "perms_ids h' = perms_ids h"
  shows "on_perms_ids (walk_resf_syscall info ok callback) h = (Inr True, h'\<lparr>perms_ids := (perms_ids h)[b := v]\<rparr>)"
  using assms by (simp add: on_perms_ids_def walk_resf_slot call_slot_Inr m_then_apply io_simps)

definition emulated_id :: "('k, 'regex) env \<Rightarrow> usize \<Rightarrow> usize" where
  "emulated_id e x = (if args_perms_mode (args_of e) = RootOnly \<and> unat x \<ge> 2 ^ 63 - 1 then 0 else x)"

lemma handle_setid_eq: "handle_setid e x = Inr (emulated_id e x)"
proof -
  have "usize_max div 2 \<le> x \<longleftrightarrow> unat x \<ge> 2 ^ 63 - 1"
    by (simp add: word_le_nat_alt usize_max_def unat_div)
  then show ?thesis by (simp add: handle_setid_def emulated_id_def)
qed

lemma setter_one_slot:
  "setter_callback e r None val h = (Inr (Some (emulated_id e (syscall_retval r))), h)"
  by (simp add: setter_callback_def handle_setid_eq io_simps)

lemma in_step_perms_ids [simp]:
  "in_step e V legacy (h\<lparr>perms_ids := ids\<rparr>) = in_step e V legacy h"
  by (simp add: in_step_def)

lemma moved_perms_ids: "moved e V entry h h' \<Longrightarrow> perms_ids h' = perms_ids h"
  by (auto simp: moved_def dest: outside_step_cells(6))

lemma perms_setter:
  assumes laws: "kernel_laws e V legacy w" and h: "in_step e V legacy h" "is_after_syscall_entry h"
    and info: "is_setter info" "args_perms_mode (args_of e) \<noteq> Passthrough"
    and walk: "on_perms_ids (walk_resf_syscall info True (setter_callback e r)) h = (Inr True, h\<lparr>perms_ids := ids\<rparr>)"
  shows "\<exists>h'. run w (augment_sys_perms e r info) h = (Inr (), h') \<and> in_step e V legacy h' \<and>
    \<not> is_after_syscall_entry h' \<and> executed e V h' = executed e V h @ [regs_of e V h] \<and> perms_ids h' = ids"
proof -
  have i: "in_step e V legacy (h\<lparr>perms_ids := ids\<rparr>)" "is_after_syscall_entry (h\<lparr>perms_ids := ids\<rparr>)"
    using h by simp_all
  obtain h' where res: "run w (do_resume_syscall e) (h\<lparr>perms_ids := ids\<rparr>) = (Inr (regs_of e V h'), h')"
    and m: "moved e V False (h\<lparr>perms_ids := ids\<rparr>) h'" using do_resume [OF laws i] by blast
  have "run w (augment_sys_perms e r info) h = (Inr (), h')"
    using info walk res by (simp add: augment_sys_perms_def run_simps m_then_apply io_simps)
  then show ?thesis using moved_in_step [OF i(1) m] m moved_perms_ids [OF m] by (auto simp: moved_def)
qed

lemma perms_getter:
  assumes laws: "kernel_laws e V legacy w" and h: "in_step e V legacy h" "is_after_syscall_entry h"
    and info: "\<not> is_setter info" "args_perms_mode (args_of e) \<noteq> Passthrough" "resf_bit info = Some b"
    and slot: "b < length (perms_ids h)" "perms_ids h ! b = Some v"
  shows "\<exists>h1 h'. run w (augment_sys_perms e r info) h = (Inr (), h') \<and> in_step e V legacy h' \<and>
    \<not> is_after_syscall_entry h' \<and> moved e V False h h1 \<and>
    with_regs e V (set_syscall_retval v (regs_of e V h1)) h1 h' \<and> perms_ids h' = perms_ids h"
proof -
  obtain h1 where res: "run w (do_resume_syscall e) h = (Inr (regs_of e V h1), h1)"
    and m: "moved e V False h h1" using do_resume [OF laws h] by blast
  have s: "setregs_law (api e) V" using laws by (simp add: kernel_laws_def)
  have "phase_of e V h1 \<noteq> UserCode" using m by (simp add: moved_def)
  from in_kernel_setregs [OF s this] obtain h2
    where set: "in_kernel (setregs (api e) (pid_of e) (set_syscall_retval v (regs_of e V h1))) h1 = (Inr (), h2)"
      and r2: "with_regs e V (set_syscall_retval v (regs_of e V h1)) h1 h2" by blast
  have ids: "perms_ids h1 = perms_ids h" "perms_ids h2 = perms_ids h"
    using moved_perms_ids [OF m] with_regs_cells(4) [OF r2] by simp_all
  have "getter_callback e r (regs_of e V h1) None (perms_ids h1 ! b) h1 = (Inr (Some v), h2)"
    using set slot ids by (simp add: getter_callback_def write_retval_def m_then_apply io_simps)
  then have "on_perms_ids (walk_resf_syscall info ok (getter_callback e r (regs_of e V h1))) h1 =
      (Inr True, h2\<lparr>perms_ids := (perms_ids h1)[b := Some v]\<rparr>)" for ok
    using info(3) slot ids by (intro walk_one_slot) simp_all
  moreover have "(perms_ids h1)[b := Some v] = perms_ids h2" using slot ids by (simp add: list_update_same_conv)
  ultimately have walk: "on_perms_ids (walk_resf_syscall info ok (getter_callback e r (regs_of e V h1))) h1 = (Inr True, h2)" for ok
    by simp
  have "run w (augment_sys_perms e r info) h = (Inr (), h2)"
    using info res walk by (simp add: augment_sys_perms_def run_simps m_then_apply io_simps)
  then show ?thesis
    using with_regs_in_step [OF r2 moved_in_step [OF h(1) m]] with_regs_cells(1) [OF r2] m r2 ids
    by (auto simp: moved_def)
qed

section \<open>Properties\<close>

text \<open>
  C31.  In an emulating mode, a system call that sets the id of one slot, followed by one that gets it, makes the
  tracee see the value that was in its return register when it entered the first call: on \<open>x86_64\<close> the kernel has put
  \<open>-ENOSYS\<close> there, not the argument.  With \<open>--root\<close> such a value is replaced by 0, so that the tracee stays root.
\<close>

theorem perms_set_then_get:
  assumes laws: "kernel_laws e V legacy w" and h: "in_step e V legacy h" "is_after_syscall_entry h"
    and mode: "args_perms_mode (args_of e) \<noteq> Passthrough"
    and infos: "is_setter s" "resf_bit s = Some b" "\<not> is_setter g" "resf_bit g = Some b"
    and b: "b < length (perms_ids h)"
  shows "\<exists>h'. run w (a_then (augment_sys_perms e r s) (\<lambda>_. a_then wait_for_syscall (\<lambda>_. augment_sys_perms e r' g))) h =
      (Inr (), h') \<and> in_step e V legacy h' \<and>
    syscall_retval (regs_of e V h') =
      (if args_perms_mode (args_of e) = RootOnly \<and> unat (syscall_retval r) \<ge> 2 ^ 63 - 1 then 0 else syscall_retval r)"
proof -
  let ?v = "emulated_id e (syscall_retval r)"
  have "on_perms_ids (walk_resf_syscall s True (setter_callback e r)) h = (Inr True, h\<lparr>perms_ids := (perms_ids h)[b := Some ?v]\<rparr>)"
    by (rule walk_one_slot) (use infos(2) b in \<open>simp_all add: setter_one_slot\<close>)
  from perms_setter [OF laws h infos(1) mode this] obtain h1
    where set: "run w (augment_sys_perms e r s) h = (Inr (), h1)" "in_step e V legacy h1" "\<not> is_after_syscall_entry h1"
      and ids: "perms_ids h1 = (perms_ids h)[b := Some ?v]" by blast
  obtain st h2 where wait: "run w wait_for_syscall h1 = (Inr st, h2)" and m: "moved e V True h1 h2"
    using wait_entry [OF laws set(2,3)] by blast
  have h2: "in_step e V legacy h2" "is_after_syscall_entry h2" "b < length (perms_ids h2)" "perms_ids h2 ! b = Some ?v"
    using moved_in_step [OF set(2) m] m moved_perms_ids [OF m] ids b by (simp_all add: moved_def)
  obtain h3 h4 where get: "run w (augment_sys_perms e r' g) h2 = (Inr (), h4)" "in_step e V legacy h4"
    and r4: "with_regs e V (set_syscall_retval ?v (regs_of e V h3)) h3 h4"
    using perms_getter [OF laws h2(1,2) infos(3) mode infos(4) h2(3,4)] by blast
  have "syscall_retval (regs_of e V h4) = ?v"
    using r4 by (simp add: with_regs_def syscall_retval_def set_syscall_retval_def)
  then show ?thesis
    using set(1) wait get by (intro exI [of _ h4]) (simp add: run_simps m_then_apply emulated_id_def)
qed

theorem perms_set_then_get_witness:
  "\<exists>h'. run (sim_between False 1)
      (a_then (augment_sys_perms (sim_env \<lparr>SYS = (\<lambda>_. 39), AT_SYMLINK_NOFOLLOW = 256\<rparr> (default_sysaug_args\<lparr>args_perms_mode := RootOnly\<rparr>))
          (zero_regs\<lparr>rax := - 38, arg0 := 1000\<rparr>) (default_syscall_info\<lparr>is_setter := True, resf_bit := Some 4\<rparr>)) (\<lambda>_.
       a_then wait_for_syscall (\<lambda>_.
       augment_sys_perms (sim_env \<lparr>SYS = (\<lambda>_. 39), AT_SYMLINK_NOFOLLOW = 256\<rparr> (default_sysaug_args\<lparr>args_perms_mode := RootOnly\<rparr>))
          zero_regs (default_syscall_info\<lparr>resf_bit := Some 4\<rparr>))))
      (sim_handler (zero_regs\<lparr>rax := - 38, arg0 := 1000\<rparr>) SeccompStop False True) = (Inr (), h') \<and>
     rax (sim_regs (kern (globals h')) 1) = 0"
proof -
  let ?e = "sim_env \<lparr>SYS = (\<lambda>_. 39), AT_SYMLINK_NOFOLLOW = 256\<rparr> (default_sysaug_args\<lparr>args_perms_mode := RootOnly\<rparr>)"
  let ?r = "zero_regs\<lparr>rax := - 38, arg0 := 1000\<rparr>"
  let ?h = "sim_handler ?r SeccompStop False True"
  let ?s = "default_syscall_info\<lparr>is_setter := True, resf_bit := Some 4\<rparr>" and ?g = "default_syscall_info\<lparr>resf_bit := Some 4\<rparr>"
  have i: "in_step ?e sim_view False ?h" by (rule sim_in_step) simp
  have g: "\<not> is_setter ?g" by (simp add: default_syscall_info_def)
  have mode: "args_perms_mode (args_of ?e) \<noteq> Passthrough" by (simp add: sim_simps)
  have b: "4 < length (perms_ids ?h)" by (simp add: sim_handler_def PERMS_IDS_SIZE_def)
  obtain h' where h': "run (sim_between False 1) (a_then (augment_sys_perms ?e ?r ?s) (\<lambda>_. a_then wait_for_syscall (\<lambda>_. augment_sys_perms ?e zero_regs ?g))) ?h = (Inr (), h')"
    and rv: "syscall_retval (regs_of ?e sim_view h') =
      (if args_perms_mode (args_of ?e) = RootOnly \<and> unat (syscall_retval ?r) \<ge> 2 ^ 63 - 1 then 0 else syscall_retval ?r)"
    using perms_set_then_get [OF sim_laws i sim_after_entry mode _ _ g _ b, of ?s ?r zero_regs] by auto
  have "rax (sim_regs (kern (globals h')) 1) = 0"
    using rv by (simp add: sim_simps syscall_retval_def)
  then show ?thesis by (intro exI [of _ h'] conjI h')
qed

end
