(* ===== verification/Handler_Loops.thy ===== *)
theory Handler_Loops
  imports Aug_Exec Aug_Perms
begin

text \<open>
  The loops of \<open>AsyncTraceeHandler\<close> (\<open>sysaug/src/handler_async.rs\<close>): signals, system calls, other events, and the
  initialisation of a tracee after \<open>execve\<close>.

  A loop of the source never ends by itself; here it counts fuel, one unit for each iteration.  Every
  iteration awaits at least one stop of the tracee.\<close>

section \<open>Signals\<close>

text \<open>One iteration: the value of a \<open>return\<close>, or \<open>None\<close> to go on.\<close>

definition is_ignored_sigstop :: "('k, 'regex) env \<Rightarrow> signal \<Rightarrow> ('k handler, sysaug_error, bool) io" where
  "is_ignored_sigstop e signal =
     (case (signal = SIGSTOP, parent (handler_of e)) of
        (True, Some p) \<Rightarrow>
          m_then (gets (\<lambda>h. ignore_sigstops h p)) (\<lambda>locked.
          m_then (lift_r (rwlock_read locked)) (\<lambda>ignore_sigstops.
          ret (pid_of e \<in> ignore_sigstops)))
      | _ \<Rightarrow> ret False)"

text \<open>\<open>SIGSYS\<close> of the kernel becomes a system call that is not implemented; the result tells whether it was.\<close>

definition fix_sigsys :: "('k, 'regex) env \<Rightarrow> errno + int \<Rightarrow> ('k handler, sysaug_error, bool) async" where
  "fix_sigsys e getsig_ans =
     a_then (sync (lift_r (map_err PtraceGetSigInfo2 getsig_ans))) (\<lambda>si_code.
     a_then (sync (in_kernel (getregs (api e) (pid_of e)))) (\<lambda>regs.
     if si_code > 0
     then
       if syscall_num regs = NO_MOD_SYSCALL (env_libc e)
       then a_then yield_now (\<lambda>_. sync (ret True))
       else a_then (sync (in_kernel (setregs (api e) (pid_of e) (set_syscall_retval minus_ENOSYS regs)))) (\<lambda>_.
            sync (ret True))
     else sync (ret False)))"

definition handle_signal :: "('k, 'regex) env \<Rightarrow> ('k handler, sysaug_error, u8 option) async" where
  "handle_signal e =
     a_then wait_for_any_signal (\<lambda>signal.
     a_then (sync (nix (sys_getsiginfo (api e) (pid_of e)))) (\<lambda>getsig_ans.
     if getsig_ans = Inl EINVAL then sync (ret None)
     else
     a_then (sync (is_ignored_sigstop e signal)) (\<lambda>ignored.
     if ignored then sync (ret None)
     else
     a_then (if signal = SIGSYS \<and> args_fix_sigsys (args_of e) then fix_sigsys e getsig_ans else sync (ret False)) (\<lambda>fixed.
     if fixed then sync (ret None)
     else if signal = SIGSEGV \<and> args_gdb (args_of e)
     then a_then (sync (modify (\<lambda>h. h\<lparr>transfer_to_gdb := True\<rparr>))) (\<lambda>_. sync (ret (Some 0)))
     else a_then (sync (modify (\<lambda>h. h\<lparr>signal_tracee := Some signal\<rparr>))) (\<lambda>_. sync (ret None))))))"

fun loop_handle_tracee_signals :: "nat \<Rightarrow> ('k, 'regex) env \<Rightarrow> ('k handler, sysaug_error, u8) async" where
  "loop_handle_tracee_signals 0 e = sync out_of_fuel"
| "loop_handle_tracee_signals (Suc n) e =
     a_then (handle_signal e) (\<lambda>r. case r of
       Some code \<Rightarrow> sync (ret code)
     | None \<Rightarrow> loop_handle_tracee_signals n e)"

section \<open>Other events\<close>

definition is_new_child :: "wait_status \<Rightarrow> bool" where
  "is_new_child s = (case s of
     PtraceEvent _ _ ev \<Rightarrow> ev = PTRACE_EVENT_CLONE \<or> ev = PTRACE_EVENT_FORK \<or> ev = PTRACE_EVENT_VFORK
   | _ \<Rightarrow> False)"

definition is_exit_event :: "wait_status \<Rightarrow> bool" where
  "is_exit_event s = (case s of PtraceEvent _ _ ev \<Rightarrow> ev = PTRACE_EVENT_EXIT | _ \<Rightarrow> False)"

definition prep_child :: "('k, 'regex) env \<Rightarrow> pid \<Rightarrow> ('k handler, sysaug_error, unit) io" where
  "prep_child e child = (\<lambda>h.
     case prep_attach_to (client_of e) (api e) child (ignore_sigstops h (pid_of e)) (kern (globals h)) of
       (r, locked, s) \<Rightarrow>
         on_err InternalExecutor (\<lambda>h. (r, h))
           (h\<lparr>globals := (globals h)\<lparr>kern := s\<rparr>, ignore_sigstops := (ignore_sigstops h)(pid_of e := locked)\<rparr>))"

text \<open>
  \<open>TraceeHandler::new\<close> and \<open>fork\<close>: a child inherits the constants.  The weak reference to the handler is valid
  while its event loop runs.
\<close>

definition handler_new ::
  "pid \<Rightarrow> 'regex tracee_handler_consts \<Rightarrow> pid option \<Rightarrow> int \<Rightarrow> usize \<Rightarrow> 'regex tracee_handler" where
  "handler_new pid cs par fd mmap_addr =
     \<lparr>h_pid = pid, h_shared_fd = fd, mmap_tracer_addr = mmap_addr, h_consts = cs, parent = par, failed = False\<rparr>"

definition handler_fork :: "'regex tracee_handler \<Rightarrow> pid \<Rightarrow> 'regex tracee_handler" where
  "handler_fork th child = handler_new child (h_consts th) (Some (h_pid th)) (h_shared_fd th) (mmap_tracer_addr th)"

definition start_child :: "('k, 'regex) env \<Rightarrow> 'regex tracee_handler \<Rightarrow> ('k handler, sysaug_error, unit) io" where
  "start_child e th = modify (\<lambda>h. h\<lparr>
     globals := (globals h)\<lparr>kern := sys_spawn (api e) (h_pid th) (kern (globals h))\<rparr>,
     ignore_sigstops := (ignore_sigstops h)(h_pid th := RwLock False {})\<rparr>)"

definition exit_code :: "usize \<Rightarrow> u8" where
  "exit_code rawret = ucast (drop_bit 8 (ucast rawret :: u32))"

definition handle_event :: "('k, 'regex) env \<Rightarrow> ('k handler, sysaug_error, u8 option) async" where
  "handle_event e =
     a_then (await_future WaitForPtraceEvent) (\<lambda>status.
     sync (
     if is_new_child status
     then
       m_then (in_kernel (getevent (api e) (pid_of e))) (\<lambda>raw_pid.
       if sint raw_pid > 0
       then
         let child_pid = as_i32 raw_pid in
         m_then (prep_child e child_pid) (\<lambda>_.
         m_then (start_child e (handler_fork (handler_of e) child_pid)) (\<lambda>_.
         ret None))
       else ret None)
     else if is_exit_event status
     then
       m_then (in_kernel (getevent (api e) (pid_of e))) (\<lambda>rawret.
       m_then (nix_call PtraceDetach (sys_detach (api e) (pid_of e) None)) (\<lambda>_.
       ret (Some (exit_code rawret))))
     else ret None))"

fun loop_handle_tracee_other_events :: "nat \<Rightarrow> ('k, 'regex) env \<Rightarrow> ('k handler, sysaug_error, u8) async" where
  "loop_handle_tracee_other_events 0 e = sync out_of_fuel"
| "loop_handle_tracee_other_events (Suc n) e =
     a_then (handle_event e) (\<lambda>r. case r of
       Some code \<Rightarrow> sync (ret code)
     | None \<Rightarrow> loop_handle_tracee_other_events n e)"

section \<open>Initialisation\<close>

definition SYSCALL_INSTRUCTION_SIZE :: usize where
  "SYSCALL_INSTRUCTION_SIZE = 2"

definition unblock_yielder :: "('k handler, sysaug_error, unit) io" where
  "unblock_yielder = modify (\<lambda>h. h\<lparr>yielder_syscall := yielder_unblock (yielder_syscall h)\<rparr>)"

text \<open>The number of the first system call after \<open>execve\<close> is remembered.\<close>

definition remember_syscall_num :: "usize \<Rightarrow> ('k handler, sysaug_error, usize) io" where
  "remember_syscall_num n =
     m_then (gets orig_syscall_num) (\<lambda>orig. case orig of
       Some val \<Rightarrow> ret val
     | None \<Rightarrow> m_then (modify (\<lambda>h. h\<lparr>orig_syscall_num := Some n\<rparr>)) (\<lambda>_. ret n))"

definition insert_syscall_during_init ::
  "('k, 'regex) env \<Rightarrow> usize \<Rightarrow> usize list \<Rightarrow> ('k handler, sysaug_error, generic_purpose_regs) async" where
  "insert_syscall_during_init e number args =
     a_then (sync unblock_yielder) (\<lambda>_.
     a_then wait_for_syscall (\<lambda>_.
     a_then (sync (in_kernel (getregs (api e) (pid_of e)))) (\<lambda>orig_regs.
     a_then (sync (remember_syscall_num (syscall_num orig_regs))) (\<lambda>orig_num.
     let regs = orig_regs\<lparr>arg0 := args ! 0, arg1 := args ! 1, arg2 := args ! 2,
           arg3 := args ! 3, arg4 := args ! 4, arg5 := args ! 5\<rparr> in
     a_then (sync (in_kernel (setregs (api e) (pid_of e) regs))) (\<lambda>_.
     a_then (sync (in_kernel (set_syscall_num (api e) (pid_of e) number))) (\<lambda>_.
     a_then (sync unblock_yielder) (\<lambda>_.
     a_then wait_for_syscall (\<lambda>_.
     a_then (sync (in_kernel (getregs (api e) (pid_of e)))) (\<lambda>result_regs.
     let new_regs = orig_regs\<lparr>syscall_num := orig_num, pc := pc orig_regs - SYSCALL_INSTRUCTION_SIZE\<rparr> in
     a_then (sync (in_kernel (setregs (api e) (pid_of e) new_regs))) (\<lambda>_.
     a_then (sync (in_kernel (set_syscall_num (api e) (pid_of e) orig_num))) (\<lambda>_.
     sync (ret result_regs))))))))))))"

text \<open>Flags of \<open>mmap\<close>.\<close>

definition PROT_READ :: usize where "PROT_READ = 1"
definition MAP_SHARED :: usize where "MAP_SHARED = 1"

definition initialize_tracee_mmaps :: "('k, 'regex) env \<Rightarrow> ('k handler, sysaug_error, unit) async" where
  "initialize_tracee_mmaps e =
     a_then (sync (on_globals (get_own_region_id (thread e) (pid_of e)))) (\<lambda>region_id.
     a_then (insert_syscall_during_init e (as_usize (SYS (env_libc e) ''mmap''))
       [0, STACK_SAFE_ZONE_SIZE, PROT_READ, MAP_SHARED, of_int (h_shared_fd (handler_of e)),
        of_nat region_id * STACK_SAFE_ZONE_SIZE div SYS_MMAP_PGOFFSET_BLOCK]) (\<lambda>mmap_regs.
     a_then (sync (modify (\<lambda>h. h\<lparr>mmap_tracee_addr := syscall_retval mmap_regs\<rparr>))) (\<lambda>_.
     a_then (sync (on_globals (set_tracee_write_region_addr (thread e) (syscall_retval mmap_regs)))) (\<lambda>_.
     sync (if \<not> args_fix_mmap (args_of e) then modify (\<lambda>h. h\<lparr>MEM := DirectMem\<rparr>) else ret ())))))"

text \<open>
  The bytes of the \<open>repr(C)\<close> structures \<open>BpfFilter\<close> and \<open>BpfProgram\<close>; the six bytes of padding of the latter are
  not specified, here they are 0.
\<close>

definition u16_bytes :: "u16 \<Rightarrow> u8 list" where
  "u16_bytes x = [ucast x, ucast (drop_bit 8 x)]"

definition u32_bytes :: "u32 \<Rightarrow> u8 list" where
  "u32_bytes x = [ucast x, ucast (drop_bit 8 x), ucast (drop_bit 16 x), ucast (drop_bit 24 x)]"

definition bpf_filter_bytes :: "bpf_filter \<Rightarrow> u8 list" where
  "bpf_filter_bytes f = u16_bytes (bpf_code f) @ [bpf_jt f, bpf_jf f] @ u32_bytes (bpf_k f)"

definition bpf_program_bytes :: "u16 \<Rightarrow> usize \<Rightarrow> u8 list" where
  "bpf_program_bytes len filters_ptr = u16_bytes len @ replicate 6 0 @ to_ne_bytes filters_ptr"

definition initialize_tracee_seccomp :: "('k, 'regex) env \<Rightarrow> ('k handler, sysaug_error, unit) async" where
  "initialize_tracee_seccomp e =
     a_then (insert_syscall_during_init e (as_usize (SYS (env_libc e) ''prctl''))
       [PR_SET_NO_NEW_PRIVS, 1, 0, 0, 0, 0]) (\<lambda>prctl_regs.
     if syscall_retval prctl_regs \<noteq> 0 then sync (throw SeccompInit)
     else case SECCOMP_FILTERS (env_libc e) of
       None \<Rightarrow> sync panic
     | Some (filters, filters_len) \<Rightarrow>
         a_then (sync (tracee_stack_append e (concat (map bpf_filter_bytes filters)))) (\<lambda>filters_addr.
         a_then (sync (tracee_stack_append e (bpf_program_bytes (of_nat filters_len) filters_addr))) (\<lambda>program_addr.
         a_then (insert_syscall_during_init e (as_usize (SYS (env_libc e) ''seccomp''))
           [SECCOMP_SET_MODE_FILTER, SECCOMP_FILTER_FLAG_TSYNC, program_addr, 0, 0, 0]) (\<lambda>seccomp_regs.
         if syscall_retval seccomp_regs \<noteq> 0 then sync (throw SeccompInit)
         else sync (ret ())))))"

section \<open>System calls\<close>

fun call_augment ::
  "('k, 'regex) env \<Rightarrow> ('k, 'regex) host_api \<Rightarrow> augments option \<Rightarrow> generic_purpose_regs \<Rightarrow> syscall_info \<Rightarrow>
     ('k handler, sysaug_error, unit) async" where
  "call_augment e fs (Some AugClone) regs info = augment_sys_clone e regs info"
| "call_augment e fs (Some AugExec) regs info = augment_sys_exec e fs regs info"
| "call_augment e fs (Some AugPaths) regs info = augment_sys_paths e fs regs info"
| "call_augment e fs (Some AugPerms) regs info = augment_sys_perms e regs info"
| "call_augment e fs (Some AugWaitpid) regs info = augment_sys_waitpid e regs info"
| "call_augment e fs (Some AugSeccomp) regs info = augment_sys_seccomp e regs info"
| "call_augment e fs (Some AugUnimplemented) regs info = sync (throw UnimplementedAugment)"
| "call_augment e fs _ regs info = sync (ret ())"

text \<open>The lookup in the table; a table that does not compile is a panic.\<close>

definition lookup_syscall :: "('k, 'regex) env \<Rightarrow> usize \<Rightarrow> ('k handler, sysaug_error, syscall_info option) io" where
  "lookup_syscall e n = (case get_syscall (env_libc e) n of None \<Rightarrow> panic | Some info \<Rightarrow> ret info)"

text \<open>
  One iteration with the number of system calls so far and the flag \<open>is_first_loop_after_init\<close>: the value of a
  \<open>return\<close>, or the flag for the next iteration.
\<close>

definition handle_syscall ::
  "('k, 'regex) env \<Rightarrow> ('k, 'regex) host_api \<Rightarrow> usize \<Rightarrow> bool \<Rightarrow> ('k handler, sysaug_error, u8 + bool) async" where
  "handle_syscall e fs total_times is_first_loop_after_init =
     a_then (sync unblock_yielder) (\<lambda>_.
     a_then wait_for_syscall (\<lambda>_.
     a_then (sync (modify (\<lambda>h. h\<lparr>orig_syscall_num := None\<rparr>))) (\<lambda>_.
     a_then (sync (in_kernel (getregs (api e) (pid_of e)))) (\<lambda>regs.
     a_then (sync (lookup_syscall e (syscall_num regs))) (\<lambda>maybe_syscall_info.
     a_then (sync (tracee_stack_seek 0)) (\<lambda>_.
     if args_gdb_at (args_of e) = Some total_times
     then a_then (sync (modify (\<lambda>h. h\<lparr>transfer_to_gdb := True\<rparr>))) (\<lambda>_. sync (ret (Inl 0)))
     else
     a_then (sync (if is_first_loop_after_init
                   then modify (\<lambda>h. h\<lparr>tracee_seccomp_init_complete := True, is_after_syscall_entry := True\<rparr>)
                   else ret ())) (\<lambda>_.
     a_then (case maybe_syscall_info of
               Some info \<Rightarrow> call_augment e fs (Some (augment info)) regs info
             | None \<Rightarrow> a_then (do_resume_syscall e) (\<lambda>_. sync (ret ()))) (\<lambda>_.
     a_then (sync (in_kernel (getregs (api e) (pid_of e)))) (\<lambda>new_regs.
     a_then (sync (lookup_syscall e (syscall_num new_regs))) (\<lambda>new_syscall_info.
     if map_option augment new_syscall_info = Some AugExec
     then
       a_then (if \<not> args_fix_mmap (args_of e) then initialize_tracee_mmaps e else sync (ret ())) (\<lambda>_.
       a_then (if parent (handler_of e) = None then initialize_tracee_seccomp e else sync (ret ())) (\<lambda>_.
       sync (ret (Inr True))))
     else sync (ret (Inr False))))))))))))"

fun loop_handle_tracee_syscalls ::
  "nat \<Rightarrow> ('k, 'regex) env \<Rightarrow> ('k, 'regex) host_api \<Rightarrow> usize \<Rightarrow> bool \<Rightarrow> ('k handler, sysaug_error, u8) async" where
  "loop_handle_tracee_syscalls 0 e fs total_times is_first = sync out_of_fuel"
| "loop_handle_tracee_syscalls (Suc n) e fs total_times is_first =
     a_then (handle_syscall e fs (total_times + 1) is_first) (\<lambda>r. case r of
       Inl code \<Rightarrow> sync (ret code)
     | Inr is_first' \<Rightarrow> loop_handle_tracee_syscalls n e fs (total_times + 1) is_first')"

section \<open>Inserted system calls\<close>

text \<open>Before the filter is installed, \<open>PTRACE_SYSCALL\<close> leads from entry stops to exit stops and back.\<close>

definition init_law :: "'k tracee_view \<Rightarrow> pid \<Rightarrow> 'k handler between \<Rightarrow> bool" where
  "init_law V pid w \<longleftrightarrow>
     (\<forall>h. view_phase V (kern (globals h)) pid \<in> {UserCode, ExitStop} \<and> resume_through_syscall h \<longrightarrow>
        (\<exists>p h'. w WaitForPtraceSyscall h = (Inr (PtraceSyscall p), h') \<and> reaches V pid h h' EntryStop [])) \<and>
     (\<forall>h. view_phase V (kern (globals h)) pid = EntryStop \<and> resume_through_syscall h \<longrightarrow>
        (\<exists>p h'. w WaitForPtraceSyscall h = (Inr (PtraceSyscall p), h') \<and>
           reaches V pid h h' ExitStop [view_regs V (kern (globals h)) pid]))"

definition init_laws :: "('k, 'regex) env \<Rightarrow> 'k tracee_view \<Rightarrow> 'k handler between \<Rightarrow> bool" where
  "init_laws e V w \<longleftrightarrow> getregs_law (api e) V \<and> setregs_law (api e) V \<and> init_law V (pid_of e) w"

text \<open>The handler before an \<open>await\<close> of \<open>wait_for_syscall\<close>, and what the wait does.\<close>

abbreviation through_syscall :: "'k handler \<Rightarrow> 'k handler" where
  "through_syscall h \<equiv> h\<lparr>is_after_syscall_entry := False, resume_through_syscall := True\<rparr>"

lemma init_wait_entry:
  assumes laws: "init_laws e V w" and h: "\<not> tracee_seccomp_init_complete h" "phase_of e V h \<in> {UserCode, ExitStop}"
  shows "\<exists>st h'. run w wait_for_syscall h = (Inr st, h') \<and> h' = snd (w WaitForPtraceSyscall (through_syscall h)) \<and>
    outside_step (through_syscall h) h' \<and> phase_of e V h' = EntryStop \<and> executed e V h' = executed e V h"
proof -
  obtain p h' where "w WaitForPtraceSyscall (through_syscall h) = (Inr (PtraceSyscall p), h')"
    and "reaches V (pid_of e) (through_syscall h) h' EntryStop []"
    using laws h(2) unfolding init_laws_def init_law_def by (auto dest!: spec [of _ "through_syscall h"])
  then show ?thesis
    using h(1) by (simp add: wait_for_syscall_init await_cases m_then_apply io_simps reaches_def)
qed

lemma init_wait_exit:
  assumes laws: "init_laws e V w" and h: "\<not> tracee_seccomp_init_complete h" "phase_of e V h = EntryStop"
  shows "\<exists>st h'. run w wait_for_syscall h = (Inr st, h') \<and> outside_step (through_syscall h) h' \<and>
    phase_of e V h' = ExitStop \<and> executed e V h' = executed e V h @ [regs_of e V h]"
proof -
  obtain p h' where "w WaitForPtraceSyscall (through_syscall h) = (Inr (PtraceSyscall p), h')"
    and "reaches V (pid_of e) (through_syscall h) h' ExitStop [regs_of e V h]"
    using laws h(2) unfolding init_laws_def init_law_def by (auto dest!: spec [of _ "through_syscall h"])
  then show ?thesis
    using h(1) by (simp add: wait_for_syscall_init await_cases m_then_apply io_simps reaches_def)
qed

text \<open>Writing the registers and then the number, which is one write of both.\<close>

lemma set_regs_and_num:
  assumes laws: "init_laws e V w" and p: "phase_of e V h \<noteq> UserCode"
  shows "\<exists>h1 h2. in_kernel (setregs (api e) (pid_of e) r) h = (Inr (), h1) \<and>
    in_kernel (set_syscall_num (api e) (pid_of e) n) h1 = (Inr (), h2) \<and> with_regs e V (r\<lparr>syscall_num := n\<rparr>) h h2"
proof -
  have l: "getregs_law (api e) V" "setregs_law (api e) V" using laws by (auto simp: init_laws_def)
  obtain h1 where h1: "in_kernel (setregs (api e) (pid_of e) r) h = (Inr (), h1)" "with_regs e V r h h1"
    using in_kernel_setregs [OF l(2) p] by blast
  then have "phase_of e V h1 \<noteq> UserCode" "regs_of e V h1 = r" using p by (auto simp: with_regs_def)
  with in_kernel_set_syscall_num [OF l, of h1 n] obtain h2
    where "in_kernel (set_syscall_num (api e) (pid_of e) n) h1 = (Inr (), h2)" "with_regs e V (r\<lparr>syscall_num := n\<rparr>) h1 h2"
    by auto
  with h1 with_regs_trans show ?thesis by blast
qed

definition with_args :: "usize list \<Rightarrow> generic_purpose_regs \<Rightarrow> generic_purpose_regs" where
  "with_args args r = r\<lparr>arg0 := args ! 0, arg1 := args ! 1, arg2 := args ! 2,
     arg3 := args ! 3, arg4 := args ! 4, arg5 := args ! 5\<rparr>"

lemma remember_syscall_num_eq:
  "remember_syscall_num n h =
     (case orig_syscall_num h of Some m \<Rightarrow> (Inr m, h) | None \<Rightarrow> (Inr n, h\<lparr>orig_syscall_num := Some n\<rparr>))"
  by (simp add: remember_syscall_num_def io_simps split: option.split)

text \<open>The second half of an insertion, from the entry stop on: the replaced call, and the registers put back.\<close>

definition replace_and_rewind ::
  "('k, 'regex) env \<Rightarrow> usize \<Rightarrow> usize list \<Rightarrow> generic_purpose_regs \<Rightarrow> usize \<Rightarrow>
     ('k handler, sysaug_error, generic_purpose_regs) async" where
  "replace_and_rewind e number args orig_regs orig_num =
     a_then (sync (in_kernel (setregs (api e) (pid_of e) (with_args args orig_regs)))) (\<lambda>_.
     a_then (sync (in_kernel (set_syscall_num (api e) (pid_of e) number))) (\<lambda>_.
     a_then (sync unblock_yielder) (\<lambda>_.
     a_then wait_for_syscall (\<lambda>_.
     a_then (sync (in_kernel (getregs (api e) (pid_of e)))) (\<lambda>result_regs.
     let new_regs = orig_regs\<lparr>syscall_num := orig_num, pc := pc orig_regs - SYSCALL_INSTRUCTION_SIZE\<rparr> in
     a_then (sync (in_kernel (setregs (api e) (pid_of e) new_regs))) (\<lambda>_.
     a_then (sync (in_kernel (set_syscall_num (api e) (pid_of e) orig_num))) (\<lambda>_.
     sync (ret result_regs))))))))"

lemma insert_syscall_parts:
  "insert_syscall_during_init e number args =
     a_then (sync unblock_yielder) (\<lambda>_.
     a_then wait_for_syscall (\<lambda>_.
     a_then (sync (in_kernel (getregs (api e) (pid_of e)))) (\<lambda>orig_regs.
     a_then (sync (remember_syscall_num (syscall_num orig_regs))) (\<lambda>orig_num.
     replace_and_rewind e number args orig_regs orig_num))))"
  unfolding insert_syscall_during_init_def replace_and_rewind_def with_args_def Let_def ..

lemma replace_and_rewind_at_entry:
  assumes laws: "init_laws e V w" and h: "\<not> tracee_seccomp_init_complete h" "phase_of e V h = EntryStop"
    and r: "r = regs_of e V h"
  shows "\<exists>h1 h'. run w (replace_and_rewind e number args r n) h = (Inr (regs_of e V h1), h') \<and>
    phase_of e V h1 = ExitStop \<and> executed e V h1 = executed e V h @ [(with_args args r)\<lparr>syscall_num := number\<rparr>] \<and>
    with_regs e V (r\<lparr>syscall_num := n, pc := pc r - 2\<rparr>) h1 h' \<and> orig_syscall_num h' = orig_syscall_num h \<and>
    \<not> tracee_seccomp_init_complete h'"
proof -
  have "phase_of e V h \<noteq> UserCode" using h(2) by simp
  from set_regs_and_num [OF laws this, of "with_args args r" number] obtain h1 h2
    where set: "in_kernel (setregs (api e) (pid_of e) (with_args args r)) h = (Inr (), h1)"
      "in_kernel (set_syscall_num (api e) (pid_of e) number) h1 = (Inr (), h2)"
      and r2: "with_regs e V ((with_args args r)\<lparr>syscall_num := number\<rparr>) h h2" by blast
  let ?h2 = "h2\<lparr>yielder_syscall := yielder_unblock (yielder_syscall h2)\<rparr>"
  have i2: "\<not> tracee_seccomp_init_complete ?h2" "phase_of e V ?h2 = EntryStop"
    using h r2 with_regs_cells(3) [OF r2] by (simp_all add: with_regs_def)
  obtain st h3 where wait: "run w wait_for_syscall ?h2 = (Inr st, h3)" and o: "outside_step (through_syscall ?h2) h3"
    and p3: "phase_of e V h3 = ExitStop" and ex: "executed e V h3 = executed e V ?h2 @ [regs_of e V ?h2]"
    using init_wait_exit [OF laws i2] by blast
  have get: "in_kernel (getregs (api e) (pid_of e)) h3 = (Inr (regs_of e V h3), h3)"
    using laws p3 by (intro in_kernel_getregs) (simp_all add: init_laws_def)
  let ?r = "r\<lparr>syscall_num := n, pc := pc r - 2\<rparr>"
  have "phase_of e V h3 \<noteq> UserCode" using p3 by simp
  from set_regs_and_num [OF laws this, of ?r n] obtain h4 h5
    where rewind: "in_kernel (setregs (api e) (pid_of e) ?r) h3 = (Inr (), h4)"
      "in_kernel (set_syscall_num (api e) (pid_of e) n) h4 = (Inr (), h5)"
      and "with_regs e V (?r\<lparr>syscall_num := n\<rparr>) h3 h5" by blast
  moreover have "?r\<lparr>syscall_num := n\<rparr> = ?r" by (cases r) simp
  ultimately have r5: "with_regs e V ?r h3 h5" by simp
  have "run w (replace_and_rewind e number args r n) h = (Inr (regs_of e V h3), h5)"
    using set wait get rewind
    by (simp add: replace_and_rewind_def run_simps m_then_apply io_simps unblock_yielder_def SYSCALL_INSTRUCTION_SIZE_def Let_def)
  moreover have "executed e V h3 = executed e V h @ [(with_args args r)\<lparr>syscall_num := number\<rparr>]"
    using ex r2 by (simp add: with_regs_def)
  moreover have "orig_syscall_num h5 = orig_syscall_num h" "\<not> tracee_seccomp_init_complete h5"
    using with_regs_cells [OF r5] with_regs_cells [OF r2] outside_step_cells [OF o] h(1) by simp_all
  ultimately show ?thesis using p3 r5 by blast
qed

text \<open>The next entry stop of a tracee that is resumed during the initialisation.\<close>

definition next_entry :: "'k handler between \<Rightarrow> 'k handler \<Rightarrow> 'k handler" where
  "next_entry w h = snd (w WaitForPtraceSyscall
     (through_syscall (h\<lparr>yielder_syscall := yielder_unblock (yielder_syscall h)\<rparr>)))"

text \<open>
  C13.  A system call that is inserted during the initialisation is executed in place of one of the tracee: at the
  entry stop that the tracee reaches next, exactly the inserted call is executed, with the given
  arguments, and its result is returned.  Then all registers of the tracee are those of the entry stop,
  but for the program counter, which points at the system call instruction again, and the number, which is the one
  the tracee asked for first.  The return register, from which \<open>x86_64\<close> takes the number when the instruction runs
  again, is the one of the entry stop as well.
\<close>

theorem insert_syscall_restores:
  assumes laws: "init_laws e V w"
    and h: "\<not> tracee_seccomp_init_complete h" "phase_of e V h \<in> {UserCode, ExitStop}"
    and r: "r = regs_of e V (next_entry w h)"
    and n: "n = (case orig_syscall_num h of Some m \<Rightarrow> m | None \<Rightarrow> syscall_num r)"
  shows "\<exists>result h'. run w (insert_syscall_during_init e number args) h = (Inr result, h') \<and>
    orig_syscall_num h' = Some n \<and> phase_of e V h' = ExitStop \<and> \<not> tracee_seccomp_init_complete h' \<and>
    executed e V h' = executed e V h @ [(with_args args r)\<lparr>syscall_num := number\<rparr>] \<and>
    regs_of e V h' = r\<lparr>syscall_num := n, pc := pc r - 2\<rparr>"
proof -
  let ?h = "h\<lparr>yielder_syscall := yielder_unblock (yielder_syscall h)\<rparr>"
  obtain st h1 where wait: "run w wait_for_syscall ?h = (Inr st, h1)" and o: "outside_step (through_syscall ?h) h1"
    and p1: "phase_of e V h1 = EntryStop" and ex: "executed e V h1 = executed e V h" and h1: "h1 = next_entry w h"
    using init_wait_entry [OF laws, of ?h] h by (auto simp: next_entry_def)
  have cells: "\<not> tracee_seccomp_init_complete h1" "orig_syscall_num h1 = orig_syscall_num h"
    using outside_step_cells [OF o] h(1) by simp_all
  have get: "in_kernel (getregs (api e) (pid_of e)) h1 = (Inr r, h1)"
    using laws p1 unfolding r h1 [symmetric] by (intro in_kernel_getregs) (simp_all add: init_laws_def)
  let ?h1 = "h1\<lparr>orig_syscall_num := Some n\<rparr>"
  have rem: "remember_syscall_num (syscall_num r) h1 = (Inr n, ?h1)"
    using cells(2) n by (cases h1) (simp add: remember_syscall_num_eq split: option.split)
  have "run w (insert_syscall_during_init e number args) h = run w (replace_and_rewind e number args r n) ?h1"
    using wait get rem by (simp add: insert_syscall_parts run_simps m_then_apply io_simps unblock_yielder_def)
  moreover have "r = regs_of e V ?h1" using r h1 by simp
  then obtain h2 h' where "run w (replace_and_rewind e number args r n) ?h1 = (Inr (regs_of e V h2), h')"
    and "phase_of e V h2 = ExitStop" "executed e V h2 = executed e V ?h1 @ [(with_args args r)\<lparr>syscall_num := number\<rparr>]"
    and "with_regs e V (r\<lparr>syscall_num := n, pc := pc r - 2\<rparr>) h2 h'"
    and "orig_syscall_num h' = orig_syscall_num ?h1" "\<not> tracee_seccomp_init_complete h'"
    using replace_and_rewind_at_entry [OF laws, of ?h1 r number args n] cells(1) p1 by auto
  ultimately show ?thesis
    using ex by (intro exI [of _ "regs_of e V h2"] exI [of _ h']) (simp add: with_regs_def)
qed

lemma sim_init_laws: "init_laws (sim_env L args) sim_view (sim_between legacy 1)"
  by (auto simp: init_laws_def getregs_law_def setregs_law_def init_law_def reaches_def outside_step_def
      sim_env_def sim_api_def sim_view_def sim_between_def sim_syscall_stop_def Let_def fun_eq_iff)

theorem insert_syscall_restores_witness:
  "\<exists>result h'. run (sim_between False 1)
       (insert_syscall_during_init (sim_env \<lparr>SYS = (\<lambda>_. 39), AT_SYMLINK_NOFOLLOW = 256\<rparr> default_sysaug_args) 9 [0, 1, 2, 3, 4, 5])
       (sim_handler (zero_regs\<lparr>pc := 4096, syscall_num := 12\<rparr>) ExitStop False False) = (Inr result, h') \<and>
     map syscall_num (sim_executed (kern (globals h')) 1) = [9] \<and> pc (sim_regs (kern (globals h')) 1) = 4094"
proof -
  let ?e = "sim_env \<lparr>SYS = (\<lambda>_. 39), AT_SYMLINK_NOFOLLOW = 256\<rparr> default_sysaug_args"
  let ?r = "zero_regs\<lparr>pc := 4096, syscall_num := 12\<rparr>"
  let ?h = "sim_handler ?r ExitStop False False"
  have init: "\<not> tracee_seccomp_init_complete ?h" "phase_of ?e sim_view ?h \<in> {UserCode, ExitStop}"
    by (simp_all add: sim_handler_def sim_view_def sim_env_def initial_globals_def)
  have r: "?r = regs_of ?e sim_view (next_entry (sim_between False 1) ?h)"
    "12 = (case orig_syscall_num ?h of Some m \<Rightarrow> m | None \<Rightarrow> syscall_num ?r)"
    by (simp_all add: next_entry_def sim_between_def sim_syscall_stop_def Let_def sim_handler_def sim_view_def sim_env_def initial_globals_def)
  obtain result h' where h': "run (sim_between False 1) (insert_syscall_during_init ?e 9 [0, 1, 2, 3, 4, 5]) ?h = (Inr result, h')"
    and ex: "executed ?e sim_view h' = executed ?e sim_view ?h @ [(with_args [0, 1, 2, 3, 4, 5] ?r)\<lparr>syscall_num := 9\<rparr>]"
    and rs: "regs_of ?e sim_view h' = ?r\<lparr>syscall_num := 12, pc := pc ?r - 2\<rparr>"
    using insert_syscall_restores [OF sim_init_laws init r, where number = 9 and args = "[0, 1, 2, 3, 4, 5]"] by blast
  have "map syscall_num (sim_executed (kern (globals h')) 1) = [9]" "pc (sim_regs (kern (globals h')) 1) = 4094"
    using ex rs by (simp_all add: sim_simps)
  then show ?thesis by (intro exI [of _ result] exI [of _ h'] conjI h')
qed

end
