(* ===== verification/Handler_Sync.thy ===== *)
theory Handler_Sync
  imports Handler_Loops
begin

text \<open>
  The synchronous event loop of a tracee (\<open>sysaug/src/handler_sync.rs\<close>).  It polls the three loops of
  \<open>AsyncTraceeHandler\<close> on the runtime of \<open>Krsm\<close>, resumes the tracee, waits for its next stop and unblocks the
  futures of the kind that belongs to the stop.

  The loops count fuel, one unit for each stop of the tracee.
\<close>

section \<open>The combined future\<close>

text \<open>
  \<open>all_tracee_loops\<close> before its first poll, and after it: \<open>future::or\<close> polls its first future, and the second
  if the first is pending.
\<close>

type_synonym 'k loop_co = "('k handler, sysaug_error, u8) co"

fun poll_or :: "'k loop_co list \<Rightarrow> 'k handler \<Rightarrow> (sysaug_error fault + u8) option \<times> 'k loop_co list \<times> 'k handler" where
  "poll_or [] h = (None, [], h)"
| "poll_or (c # cs) h =
     (case poll c h of
        (Done r, h) \<Rightarrow> (Some r, Done r # cs, h)
      | (c, h) \<Rightarrow> (case poll_or cs h of (r, cs, h) \<Rightarrow> (r, c # cs, h)))"

text \<open>The clean-up of \<open>all_tracee_loops\<close>, which a panic does not reach.\<close>

definition finish_loops :: "('k, 'regex) env \<Rightarrow> sysaug_error fault + u8 \<Rightarrow> ('k handler, sysaug_error, u8) io" where
  "finish_loops e result = (case result of
     Inr code \<Rightarrow>
       m_then (get_mem_helper e) (\<lambda>mem. m_then (on_globals (mh_close_tracee mem (pid_of e))) (\<lambda>_. ret code))
   | Inl (Err x) \<Rightarrow>
       m_then (get_mem_helper e) (\<lambda>mem. m_then (on_globals (mh_close_tracee mem (pid_of e))) (\<lambda>_. throw x))
   | Inl f \<Rightarrow> (\<lambda>h. (Inl f, h)))"

definition start_loops :: "('k, 'regex) env \<Rightarrow> ('k, 'regex) host_api \<Rightarrow> nat \<Rightarrow> 'k handler \<Rightarrow>
    (sysaug_error fault + u8) option \<times> 'k loop_co list \<times> 'k handler" where
  "start_loops e fs n h =
     (case first_poll (loop_handle_tracee_signals n e) h of
        (Done r, h) \<Rightarrow> (Some r, [], h)
      | (c1, h) \<Rightarrow>
          (case first_poll (loop_handle_tracee_syscalls n e fs 0 False) h of
             (Done r, h) \<Rightarrow> (Some r, [], h)
           | (c2, h) \<Rightarrow>
               (case first_poll (loop_handle_tracee_other_events n e) h of
                  (Done r, h) \<Rightarrow> (Some r, [], h)
                | (c3, h) \<Rightarrow> (None, [c1, c2, c3], h))))"

text \<open>One poll of \<open>all_tracee_loops\<close>; \<open>None\<close> is the state before the first.\<close>

definition poll_loops ::
  "('k, 'regex) env \<Rightarrow> ('k, 'regex) host_api \<Rightarrow> nat \<Rightarrow> 'k loop_co list option \<Rightarrow> 'k handler \<Rightarrow>
     (sysaug_error fault + u8) option \<times> 'k loop_co list option \<times> 'k handler" where
  "poll_loops e fs n loops h =
     (case (case loops of None \<Rightarrow> start_loops e fs n h | Some cs \<Rightarrow> poll_or cs h) of
        (None, cs, h) \<Rightarrow> (None, Some cs, h)
      | (Some r, cs, h) \<Rightarrow> (case finish_loops e r h of (r', h) \<Rightarrow> (Some r', Some cs, h)))"

text \<open>\<open>run_async_step\<close> on the combined future; the runtime is a part of the state of the handler.\<close>

definition async_step ::
  "('k, 'regex) env \<Rightarrow> ('k, 'regex) host_api \<Rightarrow> nat \<Rightarrow> 'k loop_co list option \<Rightarrow>
     ('k handler, sysaug_error, (sysaug_error fault + u8) option \<times> 'k loop_co list option) io" where
  "async_step e fs n loops h =
     (case run_async_step
             (\<lambda>(loops, h) rt. case poll_loops e fs n loops (h\<lparr>runtime := rt\<rparr>) of
                (r, loops, h) \<Rightarrow> Some (r, (loops, h), runtime h))
             (loops, h) (runtime h) of
        None \<Rightarrow> (Inl Panic, h)
      | Some (r, (loops, h), rt) \<Rightarrow> (Inr (r, loops), h\<lparr>runtime := rt\<rparr>))"

section \<open>The event loop\<close>

definition ptrace_request_next_syscall ::
  "('k, 'regex) env \<Rightarrow> signal option \<Rightarrow> ('k handler, sysaug_error, unit) io" where
  "ptrace_request_next_syscall e maybe_signal =
     m_then (gets resume_through_syscall) (\<lambda>is_single_syscall.
     if is_single_syscall
     then nix_call PtraceSyscallE (sys_syscall (api e) (pid_of e) maybe_signal)
     else nix_call PtraceContinue (sys_cont (api e) (pid_of e) maybe_signal))"

definition get_tracee_maybe_signal ::
  "('k, 'regex) env \<Rightarrow> wait_status \<Rightarrow> ('k handler, sysaug_error, signal option) io" where
  "get_tracee_maybe_signal e s = (case s of
     Stopped _ signal \<Rightarrow>
       if signal = SIGTRAP then ret None
       else m_then (nix (sys_getsiginfo (api e) (pid_of e))) (\<lambda>getsig_ans.
            if getsig_ans = Inl EINVAL then ret None else ret (Some signal))
   | _ \<Rightarrow> ret None)"

definition unblock :: "ptrace_future_type \<Rightarrow> wait_status \<Rightarrow> ('k handler, sysaug_error, unit) io" where
  "unblock t status = (\<lambda>h.
     case unblock_futures t status (runtime h) of
       None \<Rightarrow> (Inl Panic, h)
     | Some (Inl x, rt) \<Rightarrow> (Inl (Err (AsyncRuntime x)), h\<lparr>runtime := rt\<rparr>)
     | Some (Inr _, rt) \<Rightarrow> (Inr (), h\<lparr>runtime := rt\<rparr>))"

text \<open>The futures that a stop unblocks, in the order of the tests.\<close>

definition stop_kind :: "wait_status \<Rightarrow> signal option \<Rightarrow> ptrace_future_type option" where
  "stop_kind s maybe_signal =
     (if maybe_signal \<noteq> None then Some WaitForSignal
      else case s of
             PtraceEvent _ _ ev \<Rightarrow> if ev = PTRACE_EVENT_SECCOMP then Some WaitForPtraceSeccomp else Some WaitForPtraceEvent
           | PtraceSyscall _ \<Rightarrow> Some WaitForPtraceSyscall
           | _ \<Rightarrow> None)"

fun wait_loop :: "nat \<Rightarrow> ('k, 'regex) env \<Rightarrow> signal option \<Rightarrow> ('k handler, sysaug_error, unit) io" where
  "wait_loop 0 e maybe_signal = out_of_fuel"
| "wait_loop (Suc n) e maybe_signal =
     m_then (ptrace_request_next_syscall e maybe_signal) (\<lambda>_.
     m_then (in_kernel (waitpid_hang (api e) (pid_of e))) (\<lambda>status.
     if \<not> is_trace_stop status \<and> \<not> is_still_alive status
     then m_then (nix_call PtraceDetach (sys_detach (api e) (pid_of e) None)) (\<lambda>_. throw TraceeCrashed)
     else
     m_then (get_tracee_maybe_signal e status) (\<lambda>signal.
     case stop_kind status signal of
       Some t \<Rightarrow> unblock t status
     | None \<Rightarrow> wait_loop n e None)))"

definition run_gdb :: "('k, 'regex) env \<Rightarrow> ('k handler, sysaug_error, u8) io" where
  "run_gdb e =
     m_then (nix_call GDBDetach (sys_detach (api e) (pid_of e) (Some SIGSTOP))) (\<lambda>_.
     m_then (nix_call GDB (sys_gdb (api e) (pid_of e))) (\<lambda>code.
     ret (of_int (case code of Some c \<Rightarrow> c | None \<Rightarrow> - 1))))"

definition take_signal :: "('k handler, sysaug_error, signal option) io" where
  "take_signal = (\<lambda>h. (Inr (signal_tracee h), h\<lparr>signal_tracee := None\<rparr>))"

fun drive :: "nat \<Rightarrow> ('k, 'regex) env \<Rightarrow> ('k, 'regex) host_api \<Rightarrow> nat \<Rightarrow> 'k loop_co list option \<Rightarrow>
    ('k handler, sysaug_error, u8) io" where
  "drive 0 e fs fuel loops = out_of_fuel"
| "drive (Suc n) e fs fuel loops =
     m_then (async_step e fs fuel loops) (\<lambda>(result, loops).
     case result of
       Some code \<Rightarrow>
         m_then (gets transfer_to_gdb) (\<lambda>to_gdb.
         if to_gdb then run_gdb e else (\<lambda>h. (code, h)))
     | None \<Rightarrow>
         m_then take_signal (\<lambda>maybe_signal.
         m_then (wait_loop fuel e maybe_signal) (\<lambda>_.
         drive n e fs fuel loops)))"

section \<open>Start\<close>

text \<open>\<open>split('.')\<close> and \<open>parse::<usize>()\<close> of the standard library.\<close>

fun split_char :: "char \<Rightarrow> string \<Rightarrow> string list" where
  "split_char c [] = [[]]"
| "split_char c (x # xs) =
     (if x = c then [] # split_char c xs
      else case split_char c xs of p # ps \<Rightarrow> (x # p) # ps | [] \<Rightarrow> [[x]])"

definition digit_value :: "char \<Rightarrow> nat option" where
  "digit_value c = (let n = of_char c :: nat in if 48 \<le> n \<and> n \<le> 57 then Some (n - 48) else None)"

fun decimal_digits :: "nat \<Rightarrow> string \<Rightarrow> nat option" where
  "decimal_digits acc [] = Some acc"
| "decimal_digits acc (c # cs) =
     (case digit_value c of
        None \<Rightarrow> None
      | Some d \<Rightarrow> if acc * 10 + d < 2 ^ 64 then decimal_digits (acc * 10 + d) cs else None)"

definition parse_usize :: "string \<Rightarrow> nat option" where
  "parse_usize s =
     (if s = [] \<or> s = ''+'' then None
      else if hd s = CHR ''+'' then decimal_digits 0 (tl s) else decimal_digits 0 s)"

definition clone_locked :: "'a rwlock \<Rightarrow> sysaug_error + 'a rwlock" where
  "clone_locked l = r_then (rwlock_read l) (\<lambda>v. Inr (RwLock False v))"

text \<open>\<open>TraceeHandlerConsts::default\<close>, with the ids of the user who runs the tracer.\<close>

definition default_tracee_handler_consts :: "u32 \<Rightarrow> u32 \<Rightarrow> 'regex tracee_handler_consts" where
  "default_tracee_handler_consts uid gid =
     \<lparr>consts_args = default_sysaug_args, consts_config = default_sysaug_config uid gid, consts_root_pid = 0\<rparr>"

definition legacy_kernel :: "string \<Rightarrow> sysaug_error fault + bool" where
  "legacy_kernel kernel_version =
     (let version_parts = split_char CHR ''.'' kernel_version
      in case parse_usize (version_parts ! 0) of
           None \<Rightarrow> Inl (Err (ParseKernelVersion kernel_version))
         | Some major \<Rightarrow>
             if length version_parts \<le> 1 then Inl Panic
             else case parse_usize (version_parts ! 1) of
                    None \<Rightarrow> Inl (Err (ParseKernelVersion kernel_version))
                  | Some minor \<Rightarrow> Inr (major \<le> 4 \<and> minor \<le> 7))"

definition MAX_PENDING :: nat where "MAX_PENDING = 1024"

definition async_tracee_handler ::
  "'k direct_world \<Rightarrow> (pid \<Rightarrow> pid set rwlock) \<Rightarrow> bool \<Rightarrow> 'k handler" where
  "async_tracee_handler g ignores legacy = \<lparr>
     globals = g, ignore_sigstops = ignores, MEM = SlowMem, runtime = async_runtime_new MAX_PENDING,
     yielder_syscall = \<lparr>num_polls = 0\<rparr>, resume_through_syscall = False, signal_tracee = None,
     transfer_to_gdb = False, perms_ids = replicate PERMS_IDS_SIZE None, path_prefix = None,
     path_prefix_excludes = [], mmap_tracee_addr = 0, tracee_stack_offset = 0,
     is_after_syscall_entry = False, is_legacy_seccomp = legacy,
     tracee_seccomp_init_complete = False, orig_syscall_num = None\<rparr>"

definition init_from_config :: "('k, 'regex) env \<Rightarrow> 'k handler \<Rightarrow> 'k handler" where
  "init_from_config e h =
     (let config = consts_config (h_consts (handler_of e));
          h = h\<lparr>perms_ids := init_perms_ids_from_config (perms_ids h) (cfg_perms config)\<rparr>
      in if args_chroot (args_of e) \<noteq> None
         then h\<lparr>path_prefix_excludes := init_passthroughs_from_config (path_prefix_excludes h) (cfg_rootfs config),
                path_prefix := args_chroot (args_of e)\<rparr>
         else h)"

definition set_ptrace_options :: "('k, 'regex) env \<Rightarrow> ('k handler, sysaug_error, unit) io" where
  "set_ptrace_options e =
     m_then (in_kernel (waitpid_hang (api e) (pid_of e))) (\<lambda>status.
     if \<not> is_trace_stop status \<and> \<not> is_still_alive status then throw TraceeCrashed
     else nix_call PtraceSetOptions (sys_setoptions (api e) (pid_of e)
       [TRACESYSGOOD, TRACEEXIT, TRACECLONE, TRACEFORK, TRACEVFORK, TRACESECCOMP]))"

definition attach_tracee :: "('k, 'regex) env \<Rightarrow> ('k handler, sysaug_error, unit) io" where
  "attach_tracee e = (\<lambda>h. case on_err InternalExecutor (on_kern (attach_to (client_of e) (api e) (pid_of e))) (globals h) of
     (r, g) \<Rightarrow> (r, h\<lparr>globals := g\<rparr>))"

definition event_loop ::
  "nat \<Rightarrow> ('k, 'regex) env \<Rightarrow> ('k, 'regex) host_api \<Rightarrow> 'k direct_world \<Rightarrow> (pid \<Rightarrow> pid set rwlock) \<Rightarrow>
     (sysaug_error fault + u8) \<times> 'k direct_world" where
  "event_loop fuel e fs g ignores =
     (case on_kern (sys_uname (api e)) g of
        (Inl x, g) \<Rightarrow> (Inl (Err (ReadKernelVersion x)), g)
      | (Inr release, g) \<Rightarrow>
          (case legacy_kernel release of
             Inl f \<Rightarrow> (Inl f, g)
           | Inr legacy \<Rightarrow>
               (case m_then (attach_tracee e) (\<lambda>_. m_then (set_ptrace_options e) (\<lambda>_.
                       drive fuel e fs fuel None))
                     (init_from_config e (async_tracee_handler g ignores legacy)) of
                  (r, h) \<Rightarrow> (r, globals h))))"

text \<open>
  The body of the thread of \<open>start\<close>: a handler that fails kills its tracee and is marked as failed; then the
  callback runs.  A panic ends the thread.
\<close>

definition start_body ::
  "nat \<Rightarrow> ('k, 'regex) env \<Rightarrow> ('k, 'regex) host_api \<Rightarrow> ('k direct_world \<Rightarrow> 'k direct_world) \<Rightarrow>
     'k direct_world \<Rightarrow> (pid \<Rightarrow> pid set rwlock) \<Rightarrow> (sysaug_error fault + u8 option \<times> 'regex tracee_handler) \<times> 'k direct_world" where
  "start_body fuel e fs callback g ignores =
     (case event_loop fuel e fs g ignores of
        (Inr code, g) \<Rightarrow> (Inr (Some code, handler_of e), callback g)
      | (Inl (Err x), g) \<Rightarrow>
          (case on_kern (sys_kill (api e) (pid_of e) SIGKILL) g of
             (_, g) \<Rightarrow> (Inr (None, (handler_of e)\<lparr>failed := True\<rparr>), callback g))
      | (Inl f, g) \<Rightarrow> (Inl f, g))"

end
