(* ===== verification/Runtime_Safety.thy ===== *)
theory Runtime_Safety
  imports Handler_Sync
begin

text \<open>
  The event loop uses the runtime of \<open>Krsm\<close> within its limits: no await and no unblocking ever fails.  And what a
  tracee is confined to, the prefix of its paths and the paths that are passed through, never changes.

  Code is \<open>clean\<close> if it leaves the runtime and the confinement alone and does not itself report an error of the runtime.  All
  code of the handlers is clean, and polling clean coroutines keeps the invariant of the pending
  table, under which every operation of the runtime succeeds.
\<close>

section \<open>Clean code\<close>

definition no_runtime_error :: "sysaug_error fault + 'a \<Rightarrow> bool" where
  "no_runtime_error r \<longleftrightarrow> (\<forall>x. r \<noteq> Inl (Err (AsyncRuntime x)))"

definition confined :: "'k handler \<Rightarrow> path option \<times> path list \<times> nat" where
  "confined h = (path_prefix h, path_prefix_excludes h, length (perms_ids h))"

definition kept :: "'k handler \<Rightarrow> (ptrace_future_type, wait_status) async_runtime \<times> path option \<times> path list \<times> nat" where
  "kept h = (runtime h, confined h)"

lemma kept_simps [simp]:
  "kept (h\<lparr>globals := g\<rparr>) = kept h" "kept (h\<lparr>ignore_sigstops := i\<rparr>) = kept h" "kept (h\<lparr>MEM := m\<rparr>) = kept h"
  "kept (h\<lparr>yielder_syscall := y\<rparr>) = kept h" "kept (h\<lparr>resume_through_syscall := b\<rparr>) = kept h"
  "kept (h\<lparr>signal_tracee := sig\<rparr>) = kept h" "kept (h\<lparr>transfer_to_gdb := b\<rparr>) = kept h"
  "kept (h\<lparr>mmap_tracee_addr := a\<rparr>) = kept h" "kept (h\<lparr>tracee_stack_offset := a\<rparr>) = kept h"
  "kept (h\<lparr>is_after_syscall_entry := b\<rparr>) = kept h" "kept (h\<lparr>tracee_seccomp_init_complete := b\<rparr>) = kept h"
  "kept (h\<lparr>orig_syscall_num := n\<rparr>) = kept h" "confined (h\<lparr>runtime := rt\<rparr>) = confined h"
  "confined (h\<lparr>signal_tracee := sig\<rparr>) = confined h" "kept (h\<lparr>perms_ids := (perms_ids h)[j := v]\<rparr>) = kept h"
  by (simp_all add: kept_def confined_def)

definition clean_io :: "('k handler, sysaug_error, 'a) io \<Rightarrow> bool" where
  "clean_io m \<longleftrightarrow> (\<forall>h. kept (snd (m h)) = kept h \<and> no_runtime_error (fst (m h)))"

inductive clean :: "('k handler, sysaug_error, 'a) co \<Rightarrow> bool" where
  clean_Done: "no_runtime_error r \<Longrightarrow> clean (Done r)"
| clean_Await: "fut \<noteq> Finished \<Longrightarrow>
    (\<And>st h. clean (fst (k (Inr st) h)) \<and> kept (snd (k (Inr st) h)) = kept h) \<Longrightarrow> clean (Await fut k)"
| clean_Yield: "(\<And>h. clean (fst (k h)) \<and> kept (snd (k h)) = kept h) \<Longrightarrow> clean (Yield n k)"

inductive_simps clean_Done_iff: "clean (Done r)"
inductive_cases clean_AwaitE: "clean (Await fut k)"
inductive_cases clean_YieldE: "clean (Yield n k)"

definition clean_async :: "('k handler, sysaug_error, 'a) async \<Rightarrow> bool" where
  "clean_async m \<longleftrightarrow> (\<forall>h. clean (fst (m h)) \<and> kept (snd (m h)) = kept h)"

named_theorems clean_intros \<open>clean code\<close>

lemma clean_ioI: "(\<And>h. kept (snd (m h)) = kept h) \<Longrightarrow> (\<And>h. no_runtime_error (fst (m h))) \<Longrightarrow> clean_io m"
  by (simp add: clean_io_def)

lemma clean_ioD: "clean_io m \<Longrightarrow> m h = (r, h') \<Longrightarrow> kept h' = kept h \<and> no_runtime_error r"
  unfolding clean_io_def by (metis fst_conv snd_conv)

lemma keptD: "kept h' = kept h \<Longrightarrow> runtime h' = runtime h \<and> confined h' = confined h"
  by (simp add: kept_def)

lemma clean_ret [clean_intros]: "clean_io (ret a)"
  by (simp add: clean_io_def no_runtime_error_def io_simps)

lemma clean_throw [clean_intros]: "(\<And>x. e \<noteq> AsyncRuntime x) \<Longrightarrow> clean_io (throw e)"
  by (simp add: clean_io_def no_runtime_error_def io_simps)

lemma clean_stop [clean_intros]: "clean_io panic" "clean_io out_of_fuel"
  by (simp_all add: clean_io_def no_runtime_error_def io_simps)

lemma clean_then [clean_intros]:
  assumes "clean_io m" "\<And>a. clean_io (f a)"
  shows "clean_io (m_then m f)"
proof -
  have "kept (snd (m_then m f h)) = kept h \<and> no_runtime_error (fst (m_then m f h))" for h
    using assms unfolding clean_io_def
    by (cases "m h"; cases "fst (m h)") (auto simp: m_then_apply no_runtime_error_def dest!: spec [of _ h])
  then show ?thesis by (simp add: clean_io_def)
qed

lemma clean_gets [clean_intros]: "clean_io (gets f)" "clean_io get_w"
  by (simp_all add: clean_io_def no_runtime_error_def io_simps)

lemma clean_modify [clean_intros]: "(\<And>h. kept (f h) = kept h) \<Longrightarrow> clean_io (modify f)"
  by (simp add: clean_io_def no_runtime_error_def io_simps)

lemma clean_lift_r [clean_intros]: "(\<And>x. r \<noteq> Inl (AsyncRuntime x)) \<Longrightarrow> clean_io (lift_r r)"
  by (cases r) (auto simp: clean_io_def no_runtime_error_def io_simps)

lemma clean_on_globals [clean_intros]: "clean_io (on_globals m)"
  by (auto simp: clean_io_def on_globals_def on_err_def no_runtime_error_def split: prod.splits sum.splits fault.splits)

lemma clean_in_kernel [clean_intros]: "clean_io (in_kernel m)"
  by (simp add: in_kernel_def clean_on_globals)

lemma clean_nix [clean_intros]: "clean_io (nix c)"
  by (simp add: clean_io_def nix_def no_runtime_error_def split: prod.splits)

lemma clean_map_err: "(\<And>n x. f n \<noteq> AsyncRuntime x) \<Longrightarrow> map_err f r \<noteq> Inl (AsyncRuntime x)"
  by (cases r) simp_all

lemma clean_nix_call [clean_intros]: "(\<And>n x. f n \<noteq> AsyncRuntime x) \<Longrightarrow> clean_io (nix_call f c)"
  unfolding nix_call_def by (intro clean_intros clean_map_err)

lemma clean_sync [clean_intros]: "clean_io m \<Longrightarrow> clean_async (sync m)"
  by (simp add: clean_async_def clean_io_def sync_def clean_Done_iff split_def)

lemma clean_await [clean_intros]: "clean_async (await_future t)"
  by (auto simp: clean_async_def await_future_def clean_Done_iff no_runtime_error_def intro!: clean_Await)

lemma clean_yield_now [clean_intros]: "clean_async yield_now"
  by (auto simp: clean_async_def yield_now_def clean_Done_iff no_runtime_error_def intro!: clean_Yield)

lemma clean_bind:
  assumes "clean c" "\<And>a. clean_async (f a)"
  shows "clean (fst (co_bind c f h)) \<and> kept (snd (co_bind c f h)) = kept h"
  using assms(1)
proof (induction arbitrary: h rule: clean.induct)
  case (clean_Done r)
  then show ?case
    using assms(2) by (cases r) (auto simp: clean_Done_iff clean_async_def no_runtime_error_def)
next
  case (clean_Await fut k)
  have "clean (fst (case k (Inr st) h of (a, x) \<Rightarrow> co_bind a f x)) \<and>
      kept (snd (case k (Inr st) h of (a, x) \<Rightarrow> co_bind a f x)) = kept h" for st h
    using clean_Await(2) [of st h] by (cases "k (Inr st) h") simp
  then show ?case using clean_Await(1) by (auto intro!: clean.clean_Await)
next
  case (clean_Yield k n)
  have "clean (fst (case k h of (a, x) \<Rightarrow> co_bind a f x)) \<and>
      kept (snd (case k h of (a, x) \<Rightarrow> co_bind a f x)) = kept h" for h
    using clean_Yield [of h] by (cases "k h") simp
  then show ?case by (auto intro!: clean.clean_Yield)
qed

lemma clean_a_then [clean_intros]:
  assumes "clean_async m" "\<And>a. clean_async (f a)"
  shows "clean_async (a_then m f)"
proof -
  have "clean (fst (a_then m f h)) \<and> kept (snd (a_then m f h)) = kept h" for h
    using clean_bind [where c = "fst (m h)" and f = f and h = "snd (m h)"] assms
    by (cases "m h") (auto simp: a_then_def clean_async_def dest: spec [of _ h])
  then show ?thesis by (simp add: clean_async_def)
qed

lemma clean_if [clean_intros]:
  "(b \<Longrightarrow> clean_async m) \<Longrightarrow> (\<not> b \<Longrightarrow> clean_async n) \<Longrightarrow> clean_async (if b then m else n)"
  "(b \<Longrightarrow> clean_io p) \<Longrightarrow> (\<not> b \<Longrightarrow> clean_io q) \<Longrightarrow> clean_io (if b then p else q)"
  by simp_all

section \<open>The handlers are clean\<close>

lemma clean_case_option [clean_intros]:
  "(x = None \<Longrightarrow> clean_async m) \<Longrightarrow> (\<And>a. x = Some a \<Longrightarrow> clean_async (f a)) \<Longrightarrow>
     clean_async (case x of None \<Rightarrow> m | Some a \<Rightarrow> f a)"
  "(x = None \<Longrightarrow> clean_io p) \<Longrightarrow> (\<And>a. x = Some a \<Longrightarrow> clean_io (g a)) \<Longrightarrow>
     clean_io (case x of None \<Rightarrow> p | Some a \<Rightarrow> g a)"
  by (simp_all split: option.split)

lemma clean_case_sum [clean_intros]:
  "(\<And>a. x = Inl a \<Longrightarrow> clean_async (f a)) \<Longrightarrow> (\<And>a. x = Inr a \<Longrightarrow> clean_async (g a)) \<Longrightarrow>
     clean_async (case x of Inl a \<Rightarrow> f a | Inr a \<Rightarrow> g a)"
  by (simp split: sum.split)

lemma clean_case_prod [clean_intros]:
  "(\<And>a b. x = (a, b) \<Longrightarrow> clean_async (f a b)) \<Longrightarrow> clean_async (case x of (a, b) \<Rightarrow> f a b)"
  "(\<And>a b. x = (a, b) \<Longrightarrow> clean_io (g a b)) \<Longrightarrow> clean_io (case x of (a, b) \<Rightarrow> g a b)"
  by (simp_all split: prod.split)

lemma clean_Let [clean_intros]:
  "clean_async (f x) \<Longrightarrow> clean_async (let y = x in f y)" "clean_io (g x) \<Longrightarrow> clean_io (let y = x in g y)"
  by (simp_all add: Let_def)

lemma clean_lock [clean_intros]:
  "clean_io (lift_r (rwlock_read l))" "clean_io (lift_r (rwlock_write l))"
  by (auto simp: rwlock_read_def rwlock_write_def lock_def intro!: clean_intros)

lemma clean_wait_for_syscall [clean_intros]: "clean_async wait_for_syscall"
  unfolding wait_for_syscall_def by (intro clean_intros) simp_all

lemma clean_wait_for_any_signal [clean_intros]: "clean_async wait_for_any_signal"
  unfolding wait_for_any_signal_def
  by (intro clean_intros) (auto split: wait_status.split intro!: clean_intros)

lemma clean_stack [clean_intros]:
  "clean_io (get_mem_helper e)" "clean_io (tracee_stack_append e bytes)" "clean_io (tracee_stack_seek n)"
  unfolding get_mem_helper_def tracee_stack_append_def tracee_stack_seek_def
  by (intro clean_intros; simp)+

lemma clean_resume_skip [clean_intros]:
  "clean_async (do_resume_syscall e)" "clean_async (do_skip_syscall e v)"
  unfolding do_resume_syscall_def do_skip_syscall_def by (intro clean_intros)+

lemma clean_augment_process [clean_intros]:
  "clean_async (augment_sys_clone e regs info)" "clean_async (augment_sys_seccomp e regs info)"
  "clean_async (augment_sys_waitpid e regs info)"
  unfolding augment_sys_clone_def augment_sys_seccomp_def augment_sys_waitpid_def hide_sigstop_def
  by (intro clean_intros; simp)+

text \<open>The walk over the ids runs on the ids and the handler.\<close>

definition kept_walk ::
  "perms_ids \<times> 'k handler \<Rightarrow> nat \<times> (ptrace_future_type, wait_status) async_runtime \<times> path option \<times> path list \<times> nat" where
  "kept_walk w = (length (fst w), kept (snd w))"

definition clean_walk :: "(perms_ids \<times> 'k handler, sysaug_error, 'a) io \<Rightarrow> bool" where
  "clean_walk m \<longleftrightarrow> (\<forall>w. kept_walk (snd (m w)) = kept_walk w \<and> no_runtime_error (fst (m w)))"

lemma clean_walk_then: "clean_walk m \<Longrightarrow> (\<And>a. clean_walk (f a)) \<Longrightarrow> clean_walk (m_then m f)"
  unfolding clean_walk_def
proof
  fix w
  assume m: "\<forall>w. kept_walk (snd (m w)) = kept_walk w \<and> no_runtime_error (fst (m w))"
    and f: "\<And>a. \<forall>w. kept_walk (snd (f a w)) = kept_walk w \<and> no_runtime_error (fst (f a w))"
  show "kept_walk (snd (m_then m f w)) = kept_walk w \<and> no_runtime_error (fst (m_then m f w))"
    using m [rule_format, of w] f [rule_format]
    by (cases "m w"; cases "fst (m w)") (auto simp: m_then_apply no_runtime_error_def)
qed

lemma clean_walk_ret: "clean_walk (ret a)"
  by (simp add: clean_walk_def no_runtime_error_def io_simps)

lemma clean_call_slot:
  assumes "\<And>i v. clean_io (callback i v)"
  shows "clean_walk (call_slot callback i idx)"
proof -
  have "kept_walk (snd (call_slot callback i idx (ids, h))) = kept_walk (ids, h) \<and>
      no_runtime_error (fst (call_slot callback i idx (ids, h)))" for ids h
  proof -
    have "kept (snd (callback i (ids ! idx) h)) = kept h" "no_runtime_error (fst (callback i (ids ! idx) h))"
      using assms by (simp_all add: clean_io_def)
    then show ?thesis
      by (cases "callback i (ids ! idx) h") (auto simp: call_slot_def kept_walk_def no_runtime_error_def split: sum.splits)
  qed
  then show ?thesis by (auto simp: clean_walk_def)
qed

lemma clean_on_perms_ids [clean_intros]:
  assumes "\<And>i v. clean_io (callback i v)"
  shows "clean_io (on_perms_ids (walk_resf_syscall info ok callback))"
proof -
  have reg: "clean_walk (walk_register info callback i)" for i
    using clean_call_slot [OF assms] by (simp add: walk_register_def Let_def clean_walk_ret)
  have "clean_walk (for_each (walk_register info callback) is)" for "is"
    by (induction "is") (simp_all add: clean_walk_ret clean_walk_then reg)
  then have "clean_walk (walk_resf_syscall info ok callback)"
    using clean_call_slot [OF assms]
    by (auto simp: walk_resf_syscall_def clean_walk_ret intro!: clean_walk_then split: option.split)
  then have walk: "kept_walk (snd (walk_resf_syscall info ok callback (perms_ids h, h))) = kept_walk (perms_ids h, h)"
    "no_runtime_error (fst (walk_resf_syscall info ok callback (perms_ids h, h)))" for h
    by (simp_all add: clean_walk_def)
  show ?thesis
    using walk by (auto simp: clean_io_def on_perms_ids_def split_def kept_walk_def kept_def confined_def)
qed

lemma clean_perms [clean_intros]: "clean_async (augment_sys_perms e regs info)"
proof -
  have "clean_io (setter_callback e regs i v)" for i v
    unfolding setter_callback_def handle_setid_eq by (intro clean_intros) simp
  moreover have "clean_io (getter_callback e regs regs' i v)" for regs' i v
    unfolding getter_callback_def write_retval_def by (intro clean_intros)
  ultimately show ?thesis
    unfolding augment_sys_perms_def write_retval_def by (intro clean_intros)
qed

lemma clean_handle_signal [clean_intros]: "clean_async (handle_signal e)"
proof -
  have "clean_io (is_ignored_sigstop e sig)" for sig
    unfolding is_ignored_sigstop_def by (auto split: bool.split option.split intro!: clean_intros)
  moreover have "clean_async (fix_sigsys e r)" for r
    unfolding fix_sigsys_def by (intro clean_intros clean_map_err) simp
  ultimately show ?thesis unfolding handle_signal_def by (intro clean_intros) simp_all
qed

lemma clean_prep_child [clean_intros]: "clean_io (prep_child e child)"
  by (auto simp: clean_io_def prep_child_def on_err_def no_runtime_error_def split: prod.splits sum.splits fault.splits)

lemma clean_handle_event [clean_intros]: "clean_async (handle_event e)"
  unfolding handle_event_def start_child_def by (intro clean_intros) simp_all

lemma clean_insert [clean_intros]: "clean_async (insert_syscall_during_init e number args)"
  unfolding insert_syscall_during_init_def unblock_yielder_def remember_syscall_num_def
  by (intro clean_intros) simp_all

lemma clean_init [clean_intros]:
  "clean_async (initialize_tracee_mmaps e)" "clean_async (initialize_tracee_seccomp e)"
  unfolding initialize_tracee_mmaps_def initialize_tracee_seccomp_def by (intro clean_intros; simp)+

text \<open>Code on files.\<close>

lemma clean_host [clean_intros]:
  "clean_io (path_exists x p)" "clean_io (path_is_dir x p)" "clean_io (ignore_result c)"
  unfolding path_exists_def path_is_dir_def ignore_result_def by (intro clean_intros)+

lemma clean_with_file [clean_intros]:
  assumes "clean_io m"
  shows "clean_io (with_file x fd m)"
proof -
  have "kept (snd (ignore_result (fs_close x fd) h)) = kept h" for h :: "'a handler"
    using clean_host(3) [of "fs_close x fd"] by (simp add: clean_io_def)
  then show ?thesis using assms by (simp add: clean_io_def with_file_def split_def)
qed

lemma clean_case_sum_io [clean_intros]:
  "(\<And>a. x = Inl a \<Longrightarrow> clean_io (f a)) \<Longrightarrow> (\<And>a. x = Inr a \<Longrightarrow> clean_io (g a)) \<Longrightarrow>
     clean_io (case x of Inl a \<Rightarrow> f a | Inr a \<Rightarrow> g a)"
  by (simp split: sum.split)

lemma clean_case_action [clean_intros]:
  "clean_io m \<Longrightarrow> clean_io n \<Longrightarrow> clean_io q \<Longrightarrow> (\<And>p. clean_io (f p)) \<Longrightarrow>
     clean_io (case a of ELOOP \<Rightarrow> m | NoAction \<Rightarrow> n | HidePath \<Rightarrow> q | Override p \<Rightarrow> f p)"
  by (simp split: path_action.split)

lemma clean_for_each [clean_intros]: "(\<And>a. clean_io (f a)) \<Longrightarrow> clean_io (for_each f as)"
  by (induction as) (auto intro!: clean_intros)

lemma clean_metadata [clean_intros]:
  "clean_io (get_metadata_path e x p)" "clean_io (save_metadata_for_file e x p f)"
  "clean_io (read_metadata_for_file e x p)" "clean_io (delete_metadata_for_file e x p)"
proof -
  show get [clean_intros]: "clean_io (get_metadata_path e x p)" for p
    unfolding get_metadata_path_def resolve_metadata_path_def by (intro clean_intros)
  have [clean_intros]: "clean_io (read_json x fd parse)" for fd parse
    unfolding read_json_def by (intro clean_intros clean_map_err) simp_all
  show "clean_io (save_metadata_for_file e x p f)"
    unfolding save_metadata_for_file_def by (intro clean_intros) simp_all
  show "clean_io (read_metadata_for_file e x p)"
    unfolding read_metadata_for_file_def by (intro clean_intros) simp_all
  show "clean_io (delete_metadata_for_file e x p)"
    unfolding delete_metadata_for_file_def by (intro clean_intros)
qed

lemma clean_case_bool_sum [clean_intros]:
  "clean_io m \<Longrightarrow> clean_io n \<Longrightarrow> (\<And>p. clean_io (f p)) \<Longrightarrow>
     clean_io (case r of Inl True \<Rightarrow> m | Inl False \<Rightarrow> n | Inr p \<Rightarrow> f p)"
  by (simp split: sum.split bool.split)

lemma clean_follow [clean_intros]: "clean_io (calc_follow_symlink e x p info visited args)"
proof (induction e x p info visited args rule: calc_follow_symlink.induct)
  case (1 e x real_path info visited args)
  have "clean_io (follow_symlink_here x real_path visited)"
    unfolding follow_symlink_here_def by (intro clean_intros) simp_all
  with 1 show ?case
    by (auto simp: calc_follow_symlink.simps [of e x real_path] intro!: clean_intros split: option.split)
qed

lemma clean_recurse: "clean_io (calc_real_path_recurse n e x p info visited args)"
proof (induction n arbitrary: p visited)
  case (Suc n)
  have [clean_intros]: "clean_io (calc_real_path_simple e x p)"
    unfolding calc_real_path_simple_def by (intro clean_intros)
  show ?case
    unfolding calc_real_path_recurse.simps Let_def follow_then_def by (intro clean_intros Suc.IH)
qed (simp add: clean_intros)

lemma clean_real_path [clean_intros]: "clean_io (calc_real_path e x p info args)"
  by (simp add: calc_real_path_def clean_recurse)

lemma clean_small [clean_intros]:
  "clean_io (at_index as i)" "clean_io (unwrap v)" "clean_io (missing_perms msg v)" "clean_io (save_path i p ps)"
  unfolding at_index_def unwrap_def missing_perms_def save_path_def by (intro clean_intros; auto simp: ok_or_def split: option.splits)+

lemma clean_in_procfs [clean_intros]: "clean_io (in_procfs m)"
  by (auto simp: clean_io_def in_procfs_def on_err_def no_runtime_error_def split: prod.splits sum.splits fault.splits)

lemma clean_append [clean_intros]:
  "clean_io (tracee_stack_append_path e p)" "clean_io (tracee_stack_append_str e p)"
  unfolding tracee_stack_append_path_def tracee_stack_append_str_def by (intro clean_intros)+

lemma clean_translate [clean_intros]: "clean_io (translate_args e x mem copy_regs info is st)"
proof -
  have [clean_intros]: "clean_io (get_dirfd_path e x regs info i)" for regs i
    unfolding get_dirfd_path_def by (intro clean_intros) simp
  have [clean_intros]: "clean_io (translate_arg e x mem copy_regs info i st)" for i st
    unfolding translate_arg_def by (intro clean_intros)
  show ?thesis by (induction "is" arbitrary: st) (auto intro!: clean_intros)
qed

lemma clean_perms_files [clean_intros]:
  "clean_io (filefd_path e x args info ps)" "clean_io (host_perms e info st)" "clean_io (record_perms e x args info ps)"
proof -
  show "clean_io (filefd_path e x args info ps)" unfolding filefd_path_def by (intro clean_intros)
  show "clean_io (host_perms e info st)" unfolding host_perms_def by (intro clean_intros)
  have [clean_intros]: "clean_io (save_all e x ps f)" for f unfolding save_all_def by (intro clean_intros)
  show "clean_io (record_perms e x args info ps)"
    unfolding record_perms_def by (auto split: option.split perm_type.split intro!: clean_intros)
qed

lemma clean_results [clean_intros]:
  "clean_io (stat_results e x args ps info)" "clean_io (replace_getdents_result e x T regs)"
proof -
  have [clean_intros]: "clean_io (stat_result e x args ps T n)" for T n
    unfolding stat_result_def replace_statbuf_result_def by (intro clean_intros)
  show "clean_io (stat_results e x args ps info)" unfolding stat_results_def by (intro clean_intros)
  have [clean_intros]: "clean_io (modify_entry e x i entry)" for i entry
    unfolding modify_entry_def by (intro clean_intros)
  have [clean_intros]: "clean_io (modify_entries e x i entries)" for i entries
    by (induction entries) (auto intro!: clean_intros)
  show "clean_io (replace_getdents_result e x T regs)"
    unfolding replace_getdents_result_def by (intro clean_intros)
qed

lemma clean_paths [clean_intros]: "clean_async (augment_sys_paths e x regs info)"
  unfolding augment_sys_paths_def before_paths_syscall_def after_paths_syscall_def by (intro clean_intros)

lemma clean_exec_parts [clean_intros]:
  "clean_io (exec_path e x p info args)" "clean_io (exec_interp e x regs info args p argv file header)"
  "clean_io (parse_shebang x file)" "clean_io (exec_shebang e regs argv shebang)"
proof -
  show "clean_io (exec_path e x p info args)"
    unfolding exec_path_def exec_setid_def by (intro clean_intros) simp_all
  have [clean_intros]: "clean_io (std_absolute x q)" for q unfolding std_absolute_def by (intro clean_intros) simp_all
  have [clean_intros]: "clean_io (container_path e x q)" for q
    unfolding container_path_def by (intro clean_intros) (auto simp: ok_or_def split: option.splits)
  have [clean_intros]: "clean_io (put_argv e addrs argv)" for addrs
    unfolding put_argv_def argv_tail_def by (intro clean_intros)
  have [clean_intros]: "clean_io (read_interp_path x file header)"
    unfolding read_interp_path_def by (intro clean_intros) simp_all
  show "clean_io (exec_interp e x regs info args p argv file header)"
    unfolding exec_interp_def by (intro clean_intros)
  show "clean_io (parse_shebang x file)" unfolding parse_shebang_def by (intro clean_intros) simp_all
  show "clean_io (exec_shebang e regs argv shebang)" unfolding exec_shebang_def by (intro clean_intros)
qed

lemma clean_expand [clean_intros]: "clean_io (expand_exec_with_parser n e x regs info)"
proof (induction n arbitrary: regs)
  case (Suc n)
  show ?case unfolding expand_exec_with_parser.simps by (intro clean_intros Suc.IH) simp_all
qed (simp add: clean_intros)

lemma clean_exec [clean_intros]: "clean_async (augment_sys_exec e x regs info)"
  unfolding augment_sys_exec_def by (intro clean_intros)

lemma clean_call_augment [clean_intros]: "clean_async (call_augment e fs aug regs info)"
  by (cases "(e, fs, aug, regs, info)" rule: call_augment.cases) (auto intro!: clean_intros)

lemma clean_handle_syscall: "clean_async (handle_syscall e fs n first)"
  unfolding handle_syscall_def unblock_yielder_def lookup_syscall_def
  by (intro clean_intros) simp_all

lemma clean_loops:
  "clean_async (loop_handle_tracee_signals n e)" "clean_async (loop_handle_tracee_other_events n e)"
    "clean_async (loop_handle_tracee_syscalls n e fs tt first)"
proof -
  show "clean_async (loop_handle_tracee_signals n e)" by (induction n) (auto intro!: clean_intros)
  show "clean_async (loop_handle_tracee_other_events n e)" by (induction n) (auto intro!: clean_intros)
  show "clean_async (loop_handle_tracee_syscalls n e fs tt first)"
    by (induction n arbitrary: tt first) (auto intro!: clean_intros clean_handle_syscall)
qed

section \<open>Polling clean coroutines\<close>

abbreviation table_ok :: "('r::linorder, 's) async_runtime \<Rightarrow> bool" where
  "table_ok rt \<equiv> pending_inv UNIV (pending_futures rt)"

text \<open>The invariant: the table is in order, and the tracee is confined to \<open>z\<close>.\<close>

definition steady :: "path option \<times> path list \<times> nat \<Rightarrow> 'k handler \<Rightarrow> bool" where
  "steady z h \<longleftrightarrow> table_ok (runtime h) \<and> confined h = z"

lemma steady_kept: "kept h' = kept h \<Longrightarrow> steady z h' = steady z h"
  by (simp add: steady_def kept_def)

lemma steady_runtime [simp]: "steady z (h\<lparr>runtime := rt\<rparr>) \<longleftrightarrow> table_ok rt \<and> confined h = z"
  by (simp add: steady_def)

lemma steady_signal [simp]: "steady z (h\<lparr>signal_tracee := sig\<rparr>) = steady z h"
  by (simp add: steady_def)

lemma poll_waiting_ok:
  assumes "table_ok rt"
  shows "\<exists>res fut' rt'. poll_waiting t rt = Some (res, fut', rt') \<and> table_ok rt' \<and>
    (res = None \<and> fut' = Waiting t \<or> (\<exists>st. res = Some (Inr st)))"
proof (cases "guard_poll t rt")
  case (Pair res rt')
  then have "table_ok rt'" using assms guard_poll_frame by metis
  moreover from this obtain pf where "remove_pending_future t (pending_futures rt') = Some pf" "pending_inv UNIV pf"
    using pending.rem_law [of UNIV "pending_futures rt'" t] by auto
  ultimately show ?thesis using Pair by (cases res) (auto simp: poll_waiting_def guard_drop_def)
qed

lemma pending_poll_ok:
  assumes "table_ok rt" "fut \<noteq> Finished"
  shows "\<exists>res fut' rt'. new_pending_future_poll fut rt = Some (res, fut', rt') \<and> table_ok rt' \<and>
    (res = None \<and> fut' \<noteq> Finished \<or> (\<exists>st. res = Some (Inr st)))"
proof (cases fut)
  case (Unpolled t)
  obtain pf where "add_pending_future t (pending_futures rt) = Some (Inr pf)" "pending_inv UNIV pf"
    using pending.add_law [of UNIV "pending_futures rt" t] assms(1) by auto
  then show ?thesis
    using Unpolled poll_waiting_ok [of "rt\<lparr>has_new_future := True, pending_futures := pf\<rparr>" t] by auto
next
  case (Waiting t)
  then show ?thesis using poll_waiting_ok [OF assms(1), of t] by auto
qed (use assms in simp)

lemma poll_clean:
  assumes "clean c" "steady z h"
  shows "clean (fst (poll c h)) \<and> steady z (snd (poll c h))"
  using assms
proof (induction arbitrary: h rule: clean.induct)
  case (clean_Done r)
  then show ?case by (simp add: clean_Done_iff)
next
  case (clean_Await fut k)
  obtain res fut' rt' where poll: "new_pending_future_poll fut (runtime h) = Some (res, fut', rt')" and rt: "table_ok rt'"
    and res: "res = None \<and> fut' \<noteq> Finished \<or> (\<exists>st. res = Some (Inr st))"
    using pending_poll_ok [OF _ clean_Await(1), of "runtime h"] clean_Await.prems unfolding steady_def by blast
  show ?case
  proof (cases res)
    case None
    then have "clean (Await fut' k)" using res clean_Await(2) by (auto intro: clean.clean_Await)
    then show ?thesis using poll rt None clean_Await.prems by (simp add: steady_def)
  next
    case (Some r)
    then obtain st where "res = Some (Inr st)" using res by blast
    moreover obtain c s' where k: "k (Inr st) (h\<lparr>runtime := rt'\<rparr>) = (c, s')" by fastforce
    ultimately show ?thesis using poll rt clean_Await(2) [of st "h\<lparr>runtime := rt'\<rparr>"] clean_Await.prems
      by (simp add: steady_def kept_def)
  qed
next
  case (clean_Yield k n)
  have "steady z (snd (k h))" using clean_Yield steady_kept by metis
  with clean_Yield show ?case
    using clean_Yield(1) [of h]
    by (cases "k h") (auto split: option.split intro: clean.clean_Yield)
qed

lemma first_poll_clean:
  assumes "clean_async m" "steady z h"
  shows "clean (fst (first_poll m h)) \<and> steady z (snd (first_poll m h))"
proof -
  have "clean (fst (m h))" "steady z (snd (m h))" using assms steady_kept unfolding clean_async_def by metis+
  then show ?thesis using poll_clean by (cases "m h") (simp add: first_poll_def)
qed

text \<open>What the combined future returns and leaves.\<close>

definition loops_ok :: "path option \<times> path list \<times> nat \<Rightarrow> (sysaug_error fault + u8) option \<times> 'k loop_co list \<times> 'k handler \<Rightarrow> bool" where
  "loops_ok z x \<longleftrightarrow> (case x of (r, cs, h) \<Rightarrow> steady z h \<and>
     (case r of None \<Rightarrow> (\<forall>c \<in> set cs. clean c) | Some r \<Rightarrow> no_runtime_error r))"

lemma poll_or_clean: "(\<forall>c \<in> set cs. clean c) \<Longrightarrow> steady z h \<Longrightarrow> loops_ok z (poll_or cs h)"
proof (induction cs arbitrary: h)
  case (Cons c cs)
  obtain c' h' where p: "poll c h = (c', h')" by fastforce
  then have "clean c'" "steady z h'" using Cons.prems poll_clean [of c z h] by auto
  moreover obtain r cs' h'' where "poll_or cs h' = (r, cs', h'')" by (cases "poll_or cs h'") auto
  moreover have "loops_ok z (poll_or cs h')" using Cons calculation(2) by simp
  ultimately show ?case
    using p by (cases c') (auto simp: loops_ok_def clean_Done_iff intro: clean.intros split: option.splits)
qed (simp add: loops_ok_def)

lemma start_loops_clean:
  assumes "steady z h"
  shows "loops_ok z (start_loops e fs n h)"
proof -
  obtain c1 h1 where p1: "first_poll (loop_handle_tracee_signals n e) h = (c1, h1)" by fastforce
  then have c1: "clean c1" "steady z h1"
    using first_poll_clean [OF clean_loops(1) assms] by (metis fst_conv snd_conv)+
  obtain c2 h2 where p2: "first_poll (loop_handle_tracee_syscalls n e fs 0 False) h1 = (c2, h2)" by fastforce
  then have c2: "clean c2" "steady z h2"
    using first_poll_clean [OF clean_loops(3) c1(2)] by (metis fst_conv snd_conv)+
  obtain c3 h3 where p3: "first_poll (loop_handle_tracee_other_events n e) h2 = (c3, h3)" by fastforce
  then have c3: "clean c3" "steady z h3"
    using first_poll_clean [OF clean_loops(2) c2(2)] by (metis fst_conv snd_conv)+
  show ?thesis
    using c1 c2 c3 p1 p2 p3
    by (auto simp: start_loops_def loops_ok_def clean_Done_iff split: co.split)
qed

lemma clean_finish_loops:
  assumes "no_runtime_error r"
  shows "clean_io (finish_loops e r)"
proof (cases r)
  case (Inl f)
  have "clean_io (\<lambda>h. (Inl f, h) :: (sysaug_error fault + u8) \<times> 'k handler)"
    using assms Inl by (simp add: clean_io_def no_runtime_error_def)
  with Inl assms show ?thesis
    by (cases f) (auto simp: finish_loops_def no_runtime_error_def intro!: clean_intros)
next
  case (Inr code)
  then show ?thesis by (auto simp: finish_loops_def intro!: clean_intros)
qed

definition all_clean :: "'k loop_co list option \<Rightarrow> bool" where
  "all_clean loops \<longleftrightarrow> (\<forall>cs. loops = Some cs \<longrightarrow> (\<forall>c \<in> set cs. clean c))"

lemma poll_loops_clean:
  assumes "all_clean loops" "steady z h"
    and "poll_loops e fs n loops h = (r, loops', h')"
  shows "steady z h'" "r = None \<Longrightarrow> all_clean loops'" "r = Some x \<Longrightarrow> no_runtime_error x"
proof -
  obtain r1 cs h1 where p: "(case loops of None \<Rightarrow> start_loops e fs n h | Some cs \<Rightarrow> poll_or cs h) = (r1, cs, h1)"
    by (cases "case loops of None \<Rightarrow> start_loops e fs n h | Some cs \<Rightarrow> poll_or cs h") auto
  have ok: "loops_ok z (r1, cs, h1)"
  proof (cases loops)
    case None
    then show ?thesis using start_loops_clean [OF assms(2), of e fs n] p by simp
  next
    case (Some cs0)
    then show ?thesis using poll_or_clean [of cs0 z h] assms(1,2) p by (simp add: all_clean_def)
  qed
  have fin: "clean_io (finish_loops e x)" if "r1 = Some x" for x
    using ok that by (intro clean_finish_loops) (simp add: loops_ok_def)
  have "steady z h' \<and> (r = None \<longrightarrow> all_clean loops') \<and> (\<forall>x. r = Some x \<longrightarrow> no_runtime_error x)"
  proof (cases r1)
    case None
    then show ?thesis using assms(3) p ok by (auto simp: poll_loops_def loops_ok_def all_clean_def)
  next
    case (Some x)
    obtain y h2 where f: "finish_loops e x h1 = (y, h2)" by fastforce
    then have "kept h2 = kept h1" "no_runtime_error y" using clean_ioD fin [OF Some] by blast+
    then show ?thesis
      using assms(3) p Some f ok steady_kept [of h2 h1 z] by (auto simp: poll_loops_def loops_ok_def)
  qed
  then show "steady z h'" "r = None \<Longrightarrow> all_clean loops'" "r = Some x \<Longrightarrow> no_runtime_error x" by auto
qed

lemma async_step_clean:
  assumes "all_clean loops" "steady z h"
  shows "\<exists>r loops' h'. async_step e fs n loops h = (Inr (r, loops'), h') \<and> steady z h' \<and>
    has_unblock (runtime h') = None \<and> (r = None \<longrightarrow> all_clean loops') \<and> (\<forall>x. r = Some x \<longrightarrow> no_runtime_error x)"
proof -
  let ?h = "h\<lparr>runtime := (runtime h)\<lparr>has_new_future := False\<rparr>\<rparr>"
  obtain r loops' h' where p: "poll_loops e fs n loops ?h = (r, loops', h')"
    by (cases "poll_loops e fs n loops ?h") auto
  have "steady z ?h" using assms(2) by (simp add: steady_def)
  from poll_loops_clean [OF assms(1) this p] p show ?thesis
    by (auto simp: async_step_def run_async_step_def steady_def)
qed

section \<open>The event loop\<close>

text \<open>Code that keeps the invariant and reports no error of the runtime.\<close>

definition safe_io :: "('k handler, sysaug_error, 'a) io \<Rightarrow> bool" where
  "safe_io m \<longleftrightarrow> (\<forall>z h. steady z h \<and> has_unblock (runtime h) = None \<longrightarrow>
     no_runtime_error (fst (m h)) \<and> confined (snd (m h)) = z \<and> (\<forall>a. fst (m h) = Inr a \<longrightarrow> steady z (snd (m h))))"

lemma safe_ioD:
  assumes "safe_io m" "steady z h" "has_unblock (runtime h) = None" "m h = (r, h')"
  shows "no_runtime_error r \<and> confined h' = z \<and> (\<forall>a. r = Inr a \<longrightarrow> steady z h')"
  using assms unfolding safe_io_def by (metis fst_conv snd_conv)

lemma safe_after_clean:
  fixes m :: "('k handler, sysaug_error, 'a) io"
  assumes "clean_io m" "\<And>a. safe_io (f a)"
  shows "safe_io (m_then m f)"
  unfolding safe_io_def
proof (intro allI impI, elim conjE)
  fix z and h :: "'k handler"
  assume h: "steady z h" "has_unblock (runtime h) = None"
  obtain r h' where m: "m h = (r, h')" by fastforce
  then have k: "kept h' = kept h" "no_runtime_error r" using clean_ioD [OF assms(1)] by blast+
  then have h': "steady z h'" "has_unblock (runtime h') = None" using h steady_kept keptD by metis+
  show "no_runtime_error (fst (m_then m f h)) \<and> confined (snd (m_then m f h)) = z \<and>
      (\<forall>b. fst (m_then m f h) = Inr b \<longrightarrow> steady z (snd (m_then m f h)))"
  proof (cases r)
    case (Inl x)
    then show ?thesis using m k(2) h' by (simp add: m_then_apply no_runtime_error_def steady_def)
  next
    case (Inr a)
    obtain r2 h2 where "f a h' = (r2, h2)" by fastforce
    with safe_ioD [OF assms(2) h' this] show ?thesis using m Inr by (simp add: m_then_apply)
  qed
qed

lemma clean_safe: "clean_io m \<Longrightarrow> safe_io m"
  unfolding safe_io_def using clean_ioD steady_kept by (metis prod.collapse steady_def)

lemma safe_unblock: "safe_io (unblock t status)"
proof -
  have "no_runtime_error (fst (unblock t status h)) \<and> confined (snd (unblock t status h)) = z \<and>
      (\<forall>a. fst (unblock t status h) = Inr a \<longrightarrow> steady z (snd (unblock t status h)))"
    if "steady z h" "has_unblock (runtime h) = None" for z h
    using unblock_returns [of UNIV "runtime h" t status] that
    by (fastforce simp: unblock_def no_runtime_error_def steady_def)
  then show ?thesis unfolding safe_io_def by blast
qed

lemma clean_get_tracee_maybe_signal [clean_intros]: "clean_io (get_tracee_maybe_signal e s)"
  unfolding get_tracee_maybe_signal_def by (auto split: wait_status.split intro!: clean_intros)

lemma clean_request [clean_intros]: "clean_io (ptrace_request_next_syscall e sig)"
  unfolding ptrace_request_next_syscall_def by (intro clean_intros) simp_all

lemma clean_run_gdb [clean_intros]: "clean_io (run_gdb e)"
  unfolding run_gdb_def by (intro clean_intros) simp_all

lemma safe_wait_loop: "safe_io (wait_loop n e sig)"
proof (induction n arbitrary: sig)
  case 0
  then show ?case by (auto intro!: clean_safe clean_intros)
next
  case (Suc n)
  have crash: "clean_io (m_then (nix_call PtraceDetach (sys_detach (api e) (pid_of e) None)) (\<lambda>_. throw TraceeCrashed) :: (_, _, unit) io)"
    by (intro clean_intros) simp_all
  have "safe_io (case stop_kind status signal of Some t \<Rightarrow> unblock t status | None \<Rightarrow> wait_loop n e None)" for status signal
    by (simp add: Suc safe_unblock split: option.split)
  then have "safe_io (m_then (get_tracee_maybe_signal e status) (\<lambda>signal.
      case stop_kind status signal of Some t \<Rightarrow> unblock t status | None \<Rightarrow> wait_loop n e None))" for status
    by (intro safe_after_clean clean_intros)
  then have "safe_io (if \<not> is_trace_stop status \<and> \<not> is_still_alive status
      then m_then (nix_call PtraceDetach (sys_detach (api e) (pid_of e) None)) (\<lambda>_. throw TraceeCrashed)
      else m_then (get_tracee_maybe_signal e status) (\<lambda>signal.
        case stop_kind status signal of Some t \<Rightarrow> unblock t status | None \<Rightarrow> wait_loop n e None))" for status
    using clean_safe [OF crash] by simp
  then show ?case unfolding wait_loop.simps by (intro safe_after_clean clean_intros)
qed

lemma drive_safe:
  assumes "all_clean loops" "steady z h"
  shows "no_runtime_error (fst (drive n e fs fuel loops h)) \<and> confined (snd (drive n e fs fuel loops h)) = z"
  using assms
proof (induction n arbitrary: loops h)
  case 0
  then show ?case by (simp add: io_simps no_runtime_error_def steady_def)
next
  case (Suc n)
  obtain r loops' h' where step: "async_step e fs fuel loops h = (Inr (r, loops'), h')"
    and h': "steady z h'" "has_unblock (runtime h') = None"
    and r: "r = None \<longrightarrow> all_clean loops'" "\<forall>x. r = Some x \<longrightarrow> no_runtime_error x"
    using async_step_clean [OF Suc.prems] by blast
  show ?case
  proof (cases r)
    case (Some code)
    have "no_runtime_error (fst (run_gdb e h'))" "confined (snd (run_gdb e h')) = z"
      using clean_run_gdb [of e] h'(1) by (auto simp: clean_io_def kept_def steady_def)
    then show ?thesis using step Some r(2) h'(1) by (auto simp: m_then_apply io_simps steady_def)
  next
    case None
    let ?h = "h'\<lparr>signal_tracee := None\<rparr>"
    obtain res h'' where w: "wait_loop fuel e (signal_tracee h') ?h = (res, h'')" by fastforce
    have "no_runtime_error res \<and> confined h'' = z \<and> (\<forall>a. res = Inr a \<longrightarrow> steady z h'')"
      using safe_ioD [OF safe_wait_loop _ _ w, of z] h' by simp
    then show ?thesis
      using step None r(1) w Suc.IH by (cases res) (auto simp: m_then_apply take_signal_def no_runtime_error_def)
  qed
qed

section \<open>Property\<close>

lemma UNIV_future_types:
  "(UNIV :: ptrace_future_type set) = {WaitForPtraceSeccomp, WaitForPtraceSyscall, WaitForPtraceEvent, WaitForSignal}"
  using ptrace_future_type.exhaust by auto

lemma table_ok_new: "table_ok (async_runtime_new MAX_PENDING :: (ptrace_future_type, wait_status) async_runtime)"
proof -
  have "finite (UNIV :: ptrace_future_type set)" "card (UNIV :: ptrace_future_type set) = 4"
    unfolding UNIV_future_types by simp_all
  then have "runtime_inv UNIV (async_runtime_new MAX_PENDING :: (ptrace_future_type, wait_status) async_runtime, {#})"
    by (intro runtime_inv_init) (simp_all add: MAX_PENDING_def)
  then show ?thesis by (simp add: runtime_inv_def)
qed

lemma attached_safe:
  assumes "steady z h"
  shows "no_runtime_error (fst (m_then (attach_tracee e) (\<lambda>_. m_then (set_ptrace_options e) (\<lambda>_. drive n e fs fuel None)) h)) \<and>
    confined (snd (m_then (attach_tracee e) (\<lambda>_. m_then (set_ptrace_options e) (\<lambda>_. drive n e fs fuel None)) h)) = z"
proof -
  have attach: "clean_io (attach_tracee e)"
    by (auto simp: clean_io_def attach_tracee_def on_err_def no_runtime_error_def split: prod.splits sum.splits fault.splits)
  have opts: "clean_io (set_ptrace_options e)"
    unfolding set_ptrace_options_def by (intro clean_intros) simp_all
  obtain r1 h1 where a: "attach_tracee e h = (r1, h1)" by fastforce
  then have r1: "no_runtime_error r1" "kept h1 = kept h" using clean_ioD [OF attach] by blast+
  obtain r2 h2 where o: "set_ptrace_options e h1 = (r2, h2)" by fastforce
  then have r2: "no_runtime_error r2" "kept h2 = kept h" using clean_ioD [OF opts o] r1(2) by simp_all
  have st: "steady z h1" "steady z h2" using assms steady_kept r1(2) r2(2) by blast+
  have "all_clean None" by (simp add: all_clean_def)
  note d = drive_safe [OF this st(2), of n e fs fuel]
  show ?thesis
    using a o r1(1) r2(1) d st by (cases r1; cases r2) (simp_all add: m_then_apply no_runtime_error_def steady_def)
qed

lemma steady_init:
  "steady (confined (init_from_config e (async_tracee_handler g ignores legacy))) (init_from_config e (async_tracee_handler g ignores legacy))"
  using table_ok_new by (simp add: steady_def init_from_config_def async_tracee_handler_def Let_def)

text \<open>
  C1.  A tracee handler never fails because of its runtime: whatever the tracee and the kernel do and however long
  the event loop runs, no \<open>await\<close> of one of the three loops is refused for want of a slot, and no stop is
  reported while an earlier one is still undelivered.
\<close>

theorem event_loop_no_runtime_error:
  "fst (event_loop fuel e fs g ignores) \<noteq> Inl (Err (AsyncRuntime x))"
proof -
  have drive: "no_runtime_error (fst (m_then (attach_tracee e) (\<lambda>_. m_then (set_ptrace_options e) (\<lambda>_. drive fuel e fs fuel None))
      (init_from_config e (async_tracee_handler g' ignores legacy))))" for g' legacy
    using attached_safe [OF steady_init] by blast
  have version: "legacy_kernel v \<noteq> Inl (Err (AsyncRuntime x))" for v
    by (simp add: legacy_kernel_def Let_def split: option.split)
  show ?thesis
  proof (cases "on_kern (sys_uname (api e)) g")
    case (Pair r g')
    show ?thesis
    proof (cases r)
      case (Inr release)
      show ?thesis
        using Pair Inr version [of release] drive [of g', unfolded no_runtime_error_def, rule_format, of _ x]
        by (cases "legacy_kernel release") (simp_all add: event_loop_def split_def)
    qed (use Pair in \<open>simp add: event_loop_def\<close>)
  qed
qed

text \<open>
  C8.  What a tracee is confined to is fixed when its handler starts: after any number of steps of the event loop, whatever
  system calls the tracee made, the prefix of its paths is the one of the command line, the paths that are passed
  through are those of the configuration, and there is a slot for each of the emulated ids.
\<close>

theorem event_loop_keeps_confinement:
  "let h = snd (m_then (attach_tracee e) (\<lambda>_. m_then (set_ptrace_options e) (\<lambda>_. drive n e fs fuel None))
             (init_from_config e (async_tracee_handler g ignores legacy)))
   in path_prefix h = args_chroot (args_of e) \<and>
      path_prefix_excludes h = (if args_chroot (args_of e) = None then []
        else init_passthroughs_from_config [] (cfg_rootfs (consts_config (h_consts (handler_of e))))) \<and>
      length (perms_ids h) = PERMS_IDS_SIZE"
proof -
  let ?h0 = "init_from_config e (async_tracee_handler g ignores legacy)"
  have "confined ?h0 = (args_chroot (args_of e),
      (if args_chroot (args_of e) = None then []
       else init_passthroughs_from_config [] (cfg_rootfs (consts_config (h_consts (handler_of e))))), PERMS_IDS_SIZE)"
    by (simp add: confined_def init_from_config_def async_tracee_handler_def Let_def init_perms_ids_from_config_def)
  moreover have "confined (snd (m_then (attach_tracee e) (\<lambda>_. m_then (set_ptrace_options e) (\<lambda>_. drive n e fs fuel None)) ?h0)) = confined ?h0"
    using attached_safe [OF steady_init] by blast
  ultimately show ?thesis unfolding Let_def by (simp only: confined_def prod.inject)
qed

end
