(* ===== verification/Kernel_Frame.thy ===== *)
theory Kernel_Frame
  imports Handler_Loops
begin

text \<open>
  What the code around a system call leaves alone.  A view of the world is held by code that does not change it on
  any path, also when it fails.  The accesses to the memory of a tracee and to files of the host hold every
  view of the kernel that the single calls hold; so does all the code that the augmentations run before and
  after a system call, as far as it does not write registers.
\<close>

section \<open>Held views\<close>

definition holds :: "('w \<Rightarrow> 'v) \<Rightarrow> ('w \<Rightarrow> 'r \<times> 'w) \<Rightarrow> bool" where
  "holds F m \<longleftrightarrow> (\<forall>w. F (snd (m w)) = F w)"

named_theorems holds_intros \<open>code that holds a view\<close>

lemma holdsI: "(\<And>w. F (snd (m w)) = F w) \<Longrightarrow> holds F m"
  by (simp add: holds_def)

lemma holdsD: "holds F m \<Longrightarrow> m w = (r, w') \<Longrightarrow> F w' = F w"
  unfolding holds_def by (metis snd_conv)

lemma holds_basic [holds_intros]:
  "holds F (ret a)" "holds F (throw e)" "holds F panic" "holds F out_of_fuel" "holds F undefined_behaviour"
  "holds F (lift_r r)" "holds F get_w" "holds F (gets g)"
  by (simp_all add: holds_def io_simps)

lemma holds_then [holds_intros]:
  assumes "holds F m" "\<And>a. holds F (f a)"
  shows "holds F (m_then m f)"
proof (rule holdsI)
  fix w
  obtain r w' where m: "m w = (r, w')" by (cases "m w")
  then show "F (snd (m_then m f w)) = F w"
    using holdsD [OF assms(1) m] assms(2) by (cases r) (simp_all add: m_then_apply holds_def)
qed

lemma holds_call [holds_intros]: "holds F c \<Longrightarrow> holds F (call f c)"
  by (simp add: holds_def io_simps)

lemma holds_cases [holds_intros]:
  "(b \<Longrightarrow> holds F m) \<Longrightarrow> (\<not> b \<Longrightarrow> holds F n) \<Longrightarrow> holds F (if b then m else n)"
  "(x = None \<Longrightarrow> holds F m) \<Longrightarrow> (\<And>a. x = Some a \<Longrightarrow> holds F (f a)) \<Longrightarrow>
     holds F (case x of None \<Rightarrow> m | Some a \<Rightarrow> f a)"
  "(\<And>a b. y = (a, b) \<Longrightarrow> holds F (g a b)) \<Longrightarrow> holds F (case y of (a, b) \<Rightarrow> g a b)"
  "(\<And>a. z = Inl a \<Longrightarrow> holds F (p a)) \<Longrightarrow> (\<And>a. z = Inr a \<Longrightarrow> holds F (q a)) \<Longrightarrow>
     holds F (case z of Inl a \<Rightarrow> p a | Inr a \<Rightarrow> q a)"
  "holds F (k v) \<Longrightarrow> holds F (let u = v in k u)"
  by (simp_all add: Let_def split: option.split prod.split sum.split)

lemma holds_for_each [holds_intros]: "(\<And>a. holds F (f a)) \<Longrightarrow> holds F (for_each f as)"
  by (induction as) (auto intro!: holds_intros)

lemma holds_on_kern [holds_intros]: "holds G c \<Longrightarrow> holds (\<lambda>w. G (kern w)) (on_kern c)"
  by (simp add: holds_def on_kern_def split_def)

lemma holds_on_err [holds_intros]: "holds F m \<Longrightarrow> holds F (on_err f m)"
  by (auto simp: on_err_def split: prod.splits sum.splits fault.splits intro!: holdsI dest: holdsD)

section \<open>Memory of the tracee\<close>

text \<open>The calls of the kernel that access memory, and that read registers.\<close>

definition memory_holds :: "('k \<Rightarrow> 'v) \<Rightarrow> ('k, 'x) direct_api_scheme \<Rightarrow> bool" where
  "memory_holds G k \<longleftrightarrow>
     (\<forall>pid addr. holds G (sys_ptrace_read k pid addr)) \<and> (\<forall>pid addr v. holds G (sys_ptrace_write k pid addr v)) \<and>
     (\<forall>pid. holds G (sys_getregset k pid)) \<and> (\<forall>pid. holds G (sys_open_mem k pid)) \<and>
     (\<forall>fd addr. holds G (sys_lseek k fd addr)) \<and> (\<forall>fd n. holds G (sys_fd_read k fd n))"

definition mem_holds :: "('w \<Rightarrow> 'v) \<Rightarrow> 'w mem_helpers \<Rightarrow> bool" where
  "mem_holds F m \<longleftrightarrow>
     (\<forall>pid addr. holds F (mh_read m pid addr)) \<and> (\<forall>pid addr n buf. holds F (mh_read_bytes m pid addr n buf)) \<and>
     (\<forall>pid addr n. holds F (mh_read_bytes_until_num_zeroes m pid addr n)) \<and>
     (\<forall>pid addr. holds F (mh_read_bytes_until_zero m pid addr)) \<and>
     (\<forall>pid off bs. holds F (mh_write_bytes_to_tracee m pid off bs))"

lemma memory_calls [holds_intros]:
  assumes "memory_holds G k"
  shows "holds G (sys_ptrace_read k pid addr)" "holds G (sys_ptrace_write k pid addr v)" "holds G (sys_getregset k pid)"
    "holds G (sys_open_mem k pid)" "holds G (sys_lseek k fd addr)" "holds G (sys_fd_read k fd n)"
  using assms by (simp_all add: memory_holds_def)

lemma holds_words [holds_intros]:
  assumes "memory_holds G k"
  shows "holds G (write_word k pid addr v)" "holds G (getregs k pid)" "holds G (slow_read k pid addr)"
    "holds G (checked_write k pid addr lim v)"
  unfolding write_word_def getregs_def slow_read_def checked_write_def
  by (intro holds_intros assms)+

lemma holds_write_words [holds_intros]: "memory_holds G k \<Longrightarrow> holds G (write_words k pid addr ws)"
  by (induction ws arbitrary: addr) (auto intro!: holds_intros)

lemma slow_read_loop_holds:
  assumes "memory_holds G k"
  shows "G (snd (slow_read_loop k pid sz addr n result w)) = G w"
  using assms
proof (induction k pid sz addr n result w rule: slow_read_loop.induct)
  case (1 k pid sz addr n result w)
  have "holds G (store_word k pid addr sz n result)"
    unfolding store_word_def by (intro holds_intros "1.prems")
  with 1 show ?case
    by (subst slow_read_loop.simps) (auto split: sum.split prod.split dest: holdsD)
qed

lemma slow_until_loop_holds:
  assumes "memory_holds G k"
  shows "G (snd (slow_until_loop k pid n0 addr st w)) = G w"
  using assms
proof (induction k pid n0 addr st w rule: slow_until_loop.induct)
  case (1 k pid n0 addr st w)
  with holds_words(3) [OF "1.prems", of pid addr] show ?case
    by (subst slow_until_loop.simps) (auto split: sum.split prod.split dest: holdsD)
qed

lemma slow_mem_holds:
  assumes "memory_holds G k"
  shows "mem_holds G (SLOW_MEM_HELPERS k)"
proof -
  have "holds G (slow_write_bytes_to_tracee k pid off bs)" for pid off bs
    unfolding slow_write_bytes_to_tracee_def by (intro holds_intros assms)
  then show ?thesis
    using holds_words(3) [OF assms] slow_read_loop_holds [OF assms] slow_until_loop_holds [OF assms]
    by (simp add: mem_holds_def SLOW_MEM_HELPERS_def slow_read_bytes_def slow_read_bytes_until_num_zeroes_def
        slow_read_bytes_until_zero_def holds_def)
qed

abbreviation kern_view :: "('k \<Rightarrow> 'v) \<Rightarrow> 'k direct_world \<Rightarrow> 'v" where
  "kern_view G \<equiv> \<lambda>w. G (kern w)"

lemma holds_direct_parts [holds_intros]:
  assumes "memory_holds G k"
  shows "holds (kern_view G) (seek_read k fd addr n buf)" "holds (kern_view G) (direct_read k pid addr)"
  unfolding seek_read_def direct_read_def by (intro holds_intros assms)+

lemma holds_direct_state [holds_intros]:
  "holds (kern_view G) (get_own_region_id t pid)" "holds (kern_view G) (region_box i)" "holds (kern_view G) (store_region i bs)"
  "holds (kern_view G) (set_tracee_write_region_addr t a)"
  by (auto simp: holds_def get_own_region_id_def region_box_def store_region_def set_tracee_write_region_addr_def
      io_simps set_local_def Let_def split: option.split sum.split)

lemma direct_read_bytes_holds [holds_intros]:
  assumes "memory_holds G k"
  shows "holds (kern_view G) (direct_read_bytes k t pid addr n buf)"
proof -
  have save: "holds (kern_view G) (m_then get_w (\<lambda>w. m_then (put_w (set_local t f w)) (\<lambda>_. ret a)))" for f and a :: "u8 list"
    by (simp add: holds_def io_simps set_local_def)
  have opened: "holds (kern_view G) (call ReadE (on_kern (sys_open_mem k pid)))" by (intro holds_intros assms)
  note seek = holds_direct_parts(1) [OF assms]
  show ?thesis unfolding direct_read_bytes_def
    by (rule holds_then [OF holds_basic(7)], rule holds_cases(2))
       (rule holds_then [OF opened], rule holds_then [OF seek], rule save, rule seek)
qed

lemma direct_until_loop_holds:
  assumes "memory_holds G k"
  shows "G (kern (snd (direct_until_loop k t pid n0 addr buf st w))) = G (kern w)"
  using assms
proof (induction k t pid n0 addr buf st w rule: direct_until_loop.induct)
  case (1 k t pid n0 addr buf st w)
  with direct_read_bytes_holds [OF "1.prems", of t pid addr READ_BUFFER_SIZE buf] show ?case
    by (subst direct_until_loop.simps) (auto split: sum.split prod.split dest: holdsD)
qed

lemma direct_mem_holds:
  assumes "memory_holds G k"
  shows "mem_holds (kern_view G) (DIRECT_MEM_HELPERS k t)"
proof -
  have "holds (kern_view G) (direct_write_bytes_to_tracee t pid off bs)" for pid off bs
    unfolding direct_write_bytes_to_tracee_def by (intro holds_intros)
  then show ?thesis
    using holds_direct_parts(2) [OF assms] direct_read_bytes_holds [OF assms] direct_until_loop_holds [OF assms]
    by (simp add: mem_holds_def DIRECT_MEM_HELPERS_def direct_read_bytes_until_num_zeroes_def
        direct_read_bytes_until_zero_def holds_def)
qed

lemma mem_helpers_of_holds:
  assumes "memory_holds G (api e)"
  shows "mem_holds (kern_view G) (mem_helpers_of e kind)"
proof (cases kind)
  case SlowMem
  then show ?thesis
    using slow_mem_holds [OF assms] by (simp add: mem_holds_def mem_helpers_of_def on_kern_mem_def holds_on_kern)
next
  case DirectMem
  then show ?thesis using direct_mem_holds [OF assms] by (simp add: mem_helpers_of_def)
qed

text \<open>Structures.\<close>

lemma mem_calls [holds_intros]:
  assumes "mem_holds F m"
  shows "holds F (mh_read m pid addr)" "holds F (mh_read_bytes m pid addr n buf)"
    "holds F (mh_read_bytes_until_num_zeroes m pid addr n)" "holds F (mh_read_bytes_until_zero m pid addr)"
    "holds F (mh_write_bytes_to_tracee m pid off bs)"
  using assms by (simp_all add: mem_holds_def)

lemma holds_read_structs [holds_intros]:
  assumes "mem_holds F m"
  shows "holds F (read_bytes_to_structs T fuel pid addr n m)" "holds F (read_bytes_to_fixed_sized_objs bytes fuel pid addr many m)"
proof -
  have [holds_intros]: "holds F (read_struct m T pid lim a)" for lim a
    unfolding read_struct_def by (intro holds_intros assms)
  have [holds_intros]: "holds F (read_structs_loop m T pid lim fuel a rs)" for lim a rs
    by (induction fuel arbitrary: a rs) (auto intro!: holds_intros)
  show "holds F (read_bytes_to_structs T fuel pid addr n m)"
    unfolding read_bytes_to_structs_def by (intro holds_intros)
  have [holds_intros]: "holds F (read_objs_loop m bytes pid lim fuel a rs)" for lim a rs
    by (induction fuel arbitrary: a rs) (auto intro!: holds_intros assms)
  show "holds F (read_bytes_to_fixed_sized_objs bytes fuel pid addr many m)"
    unfolding read_bytes_to_fixed_sized_objs_def by (intro holds_intros)
qed

lemma holds_write_structs [holds_intros]:
  assumes "memory_holds G k"
  shows "holds G (write_structs_to_tracee k T pid addr lim items shrink)"
    "holds G (write_fixed_sized_objs_to_tracee k n pid addr lim items)"
proof -
  have [holds_intros]: "holds G (write_remainder k pid lim shrink c z a ws)" for lim c z a ws
    by (induction ws arbitrary: c z a) (auto intro!: holds_intros assms)
  have [holds_intros]: "holds G (write_struct k T pid lim shrink sh shb a item)" for lim sh shb a item
    unfolding write_struct_def by (intro holds_intros assms)
  have [holds_intros]: "holds G (write_structs_loop k T pid lim shrink sh shb a items)" for lim sh shb a
    by (induction items arbitrary: a) (auto intro!: holds_intros)
  show "holds G (write_structs_to_tracee k T pid addr lim items shrink)"
    unfolding write_structs_to_tracee_def by (intro holds_intros)
  have [holds_intros]: "holds G (write_objs_loop k n pid lim a items)" for lim a
    by (induction items arbitrary: a) (auto intro!: holds_intros assms)
  show "holds G (write_fixed_sized_objs_to_tracee k n pid addr lim items)"
    unfolding write_fixed_sized_objs_to_tracee_def by (intro holds_intros)
qed

section \<open>The handler\<close>

text \<open>The cells that \<open>wait_for_syscall\<close> depends on, and a view of the kernel.\<close>

definition stop_view :: "('k \<Rightarrow> 'v) \<Rightarrow> 'k handler \<Rightarrow> bool \<times> bool \<times> bool \<times> 'v" where
  "stop_view G h = (is_after_syscall_entry h, is_legacy_seccomp h, tracee_seccomp_init_complete h, G (kern (globals h)))"

lemma stop_view_cells [simp]:
  "stop_view G (h\<lparr>globals := g\<rparr>) = stop_view G h \<longleftrightarrow> G (kern g) = G (kern (globals h))"
  "stop_view G (h\<lparr>ignore_sigstops := i\<rparr>) = stop_view G h" "stop_view G (h\<lparr>tracee_stack_offset := a\<rparr>) = stop_view G h"
  "stop_view G (h\<lparr>perms_ids := ids\<rparr>) = stop_view G h"
  by (auto simp: stop_view_def)

lemma holds_on_globals [holds_intros]: "holds (kern_view G) m \<Longrightarrow> holds (stop_view G) (on_globals m)"
  using holds_on_err [of "kern_view G" m Ptrace] by (simp add: holds_def on_globals_def split_def)

lemma holds_in_kernel [holds_intros]: "holds G m \<Longrightarrow> holds (stop_view G) (in_kernel m)"
  unfolding in_kernel_def by (intro holds_intros)

lemma holds_modify [holds_intros]: "(\<And>h. F (f h) = F h) \<Longrightarrow> holds F (modify f)"
  by (simp add: holds_def io_simps)

lemma holds_mem_then [holds_intros]:
  assumes "memory_holds G (api e)" "\<And>m. mem_holds (kern_view G) m \<Longrightarrow> holds (stop_view G) (f m)"
  shows "holds (stop_view G) (m_then (get_mem_helper e) f)"
  using assms(2) [OF mem_helpers_of_holds [OF assms(1)]] unfolding get_mem_helper_def
  by (simp add: holds_def io_simps)

lemma holds_stack [holds_intros]:
  assumes "memory_holds G (api e)"
  shows "holds (stop_view G) (tracee_stack_append e bs)" "holds (stop_view G) (tracee_stack_append_path e p)"
    "holds (stop_view G) (tracee_stack_append_str e p)"
proof -
  show [holds_intros]: "holds (stop_view G) (tracee_stack_append e bs)" for bs
    unfolding tracee_stack_append_def
    by (rule holds_mem_then [OF assms]) (intro holds_intros; simp)
  show "holds (stop_view G) (tracee_stack_append_path e p)" "holds (stop_view G) (tracee_stack_append_str e p)"
    unfolding tracee_stack_append_path_def tracee_stack_append_str_def by (intro holds_intros)+
qed

section \<open>Files of the host\<close>

definition host_holds :: "('k \<Rightarrow> 'v) \<Rightarrow> ('k, 'regex) host_api \<Rightarrow> bool" where
  "host_holds G x \<longleftrightarrow>
     (\<forall>p. holds G (fs_exists x p)) \<and> (\<forall>p. holds G (fs_is_dir x p)) \<and> (\<forall>p. holds G (fs_is_symlink x p)) \<and>
     (\<forall>p. holds G (fs_read_link x p)) \<and> (\<forall>p. holds G (fs_canonicalize x p)) \<and> holds G (fs_current_dir x) \<and>
     (\<forall>p. holds G (fs_stat x p)) \<and> (\<forall>p. holds G (fs_create_dir_all x p)) \<and> (\<forall>p. holds G (fs_remove_file x p)) \<and>
     (\<forall>p. holds G (fs_remove_dir_all x p)) \<and> (\<forall>p. holds G (fs_open_rw x p)) \<and> (\<forall>p. holds G (fs_open_ro x p)) \<and>
     (\<forall>fd. holds G (fs_lock_exclusive x fd)) \<and> (\<forall>fd. holds G (fs_read_rest x fd)) \<and>
     (\<forall>fd n. holds G (fs_read_exact x fd n)) \<and> (\<forall>fd. holds G (fs_read_line x fd)) \<and> (\<forall>fd n. holds G (fs_seek x fd n)) \<and>
     (\<forall>fd n. holds G (fs_set_len x fd n)) \<and> (\<forall>fd bs. holds G (fs_write_all x fd bs)) \<and> (\<forall>fd. holds G (fs_close x fd)) \<and>
     (\<forall>fd. holds G (elf_headers x fd))"

lemma host_calls [holds_intros]:
  assumes "host_holds G x"
  shows "holds G (fs_exists x p)" "holds G (fs_is_dir x p)" "holds G (fs_is_symlink x p)" "holds G (fs_read_link x p)"
    "holds G (fs_canonicalize x p)" "holds G (fs_current_dir x)" "holds G (fs_stat x p)" "holds G (fs_create_dir_all x p)"
    "holds G (fs_remove_file x p)" "holds G (fs_remove_dir_all x p)" "holds G (fs_open_rw x p)" "holds G (fs_open_ro x p)"
    "holds G (fs_lock_exclusive x fd)" "holds G (fs_read_rest x fd)" "holds G (fs_read_exact x fd n)"
    "holds G (fs_read_line x fd)" "holds G (fs_seek x fd n)" "holds G (fs_set_len x fd n)" "holds G (fs_write_all x fd bs)"
    "holds G (fs_close x fd)" "holds G (elf_headers x fd)"
  using assms by (simp_all add: host_holds_def)

lemma holds_case_action [holds_intros]:
  "holds F m \<Longrightarrow> holds F n \<Longrightarrow> holds F q \<Longrightarrow> (\<And>p. holds F (f p)) \<Longrightarrow>
     holds F (case a of ELOOP \<Rightarrow> m | NoAction \<Rightarrow> n | HidePath \<Rightarrow> q | Override p \<Rightarrow> f p)"
  by (simp split: path_action.split)

lemma holds_case_bool_sum [holds_intros]:
  "holds F m \<Longrightarrow> holds F n \<Longrightarrow> (\<And>p. holds F (f p)) \<Longrightarrow>
     holds F (case r of Inl True \<Rightarrow> m | Inl False \<Rightarrow> n | Inr p \<Rightarrow> f p)"
  by (simp split: sum.split bool.split)

text \<open>
  A view of the handler that depends on the kernel only through a view of the kernel: code that makes calls of
  the host keeps it when the single calls keep the view of the kernel.
\<close>

locale host_frame =
  fixes F :: "'k handler \<Rightarrow> 'v"
    and G :: "'k \<Rightarrow> 'u"
  assumes frame_kern: "G k = G (kern (globals h)) \<Longrightarrow> F (h\<lparr>globals := (globals h)\<lparr>kern := k\<rparr>\<rparr>) = F h"
begin

lemma holds_nix [holds_intros]: "holds G c \<Longrightarrow> holds F (nix c)"
  by (simp add: holds_def nix_def on_kern_def split_def frame_kern)

lemma holds_nix_call [holds_intros]: "holds G c \<Longrightarrow> holds F (nix_call f c)"
  unfolding nix_call_def by (intro holds_intros)

lemma holds_in_procfs [holds_intros]: "holds G m \<Longrightarrow> holds F (in_procfs m)"
  by (auto simp: holds_def in_procfs_def on_err_def on_kern_def split_def frame_kern split: sum.split fault.split)

lemma holds_host_ops [holds_intros]:
  assumes "host_holds G x"
  shows "holds F (path_exists x p)" "holds F (path_is_dir x p)"
  unfolding path_exists_def path_is_dir_def by (intro holds_intros assms)+

lemma holds_ignore_result [holds_intros]: "holds G c \<Longrightarrow> holds F (ignore_result c)"
  unfolding ignore_result_def by (intro holds_intros)

lemma holds_with_file [holds_intros]:
  assumes "host_holds G x" "holds F m"
  shows "holds F (with_file x fd m)"
proof -
  have "holds F (ignore_result (fs_close x fd))" using assms(1) by (intro holds_intros)
  with assms(2) show ?thesis by (simp add: holds_def with_file_def split_def)
qed

lemma holds_metadata [holds_intros]:
  assumes "host_holds G x"
  shows "holds F (save_metadata_for_file e x p f)" "holds F (read_metadata_for_file e x p)"
    "holds F (delete_metadata_for_file e x p)"
proof -
  have [holds_intros]: "holds F (get_metadata_path e x p)" for p
    unfolding get_metadata_path_def resolve_metadata_path_def by (intro holds_intros assms)
  have [holds_intros]: "holds F (read_json x fd parse)" for fd parse
    unfolding read_json_def by (intro holds_intros assms)
  show "holds F (save_metadata_for_file e x p f)"
    unfolding save_metadata_for_file_def by (intro holds_intros assms)
  show "holds F (read_metadata_for_file e x p)"
    unfolding read_metadata_for_file_def by (intro holds_intros assms)
  show "holds F (delete_metadata_for_file e x p)"
    unfolding delete_metadata_for_file_def by (intro holds_intros assms)
qed

lemma holds_follow [holds_intros]:
  assumes "host_holds G x"
  shows "holds F (calc_follow_symlink e x p info visited args)"
  using assms
proof (induction e x p info visited args rule: calc_follow_symlink.induct)
  case (1 e x real_path info visited args)
  have "holds F (follow_symlink_here x real_path visited)"
    unfolding follow_symlink_here_def by (intro holds_intros "1.prems")
  with 1 show ?case
    by (auto simp: calc_follow_symlink.simps [of e x real_path] intro!: holds_intros split: option.split)
qed

lemma holds_real_path [holds_intros]:
  assumes "host_holds G x"
  shows "holds F (calc_real_path e x p info args)"
proof -
  have "holds F (calc_real_path_recurse n e x p info visited args)" for n p visited
  proof (induction n arbitrary: p visited)
    case (Suc n)
    have [holds_intros]: "holds F (calc_real_path_simple e x p)"
      unfolding calc_real_path_simple_def by (intro holds_intros)
    show ?case
      unfolding calc_real_path_recurse.simps Let_def follow_then_def by (intro holds_intros assms Suc.IH)
  qed (simp add: holds_intros)
  then show ?thesis by (simp add: calc_real_path_def)
qed

lemma holds_exec_lookup [holds_intros]:
  assumes "host_holds G x"
  shows "holds F (container_path e x p)" "holds F (read_interp_path x file header)" "holds F (parse_shebang x file)"
proof -
  have [holds_intros]: "holds F (std_absolute x q)" for q
    unfolding std_absolute_def by (intro holds_intros assms)
  show "holds F (container_path e x p)" unfolding container_path_def by (intro holds_intros)
  show "holds F (read_interp_path x file header)" unfolding read_interp_path_def by (intro holds_intros assms)
  show "holds F (parse_shebang x file)" unfolding parse_shebang_def by (intro holds_intros assms)
qed

end

interpretation stop: host_frame "stop_view G" G for G
  by unfold_locales simp

end
