(* ===== verification/Seccomp_Program.thy ===== *)
theory Seccomp_Program
  imports Syscalls
begin

text \<open>
  The seccomp program and the table of system calls agree.  The kernel's interpreter of classic BPF is
  not part of the repository: it is the parameter \<open>exec\<close> of the locale \<open>seccomp_machine\<close>, with the laws of the
  three instructions that the program uses.
\<close>

section \<open>The interpreter of the kernel\<close>

locale seccomp_machine =
  fixes exec :: "bpf_filter list \<Rightarrow> nat \<Rightarrow> u32 \<Rightarrow> (u32 \<Rightarrow> u32) \<Rightarrow> u32 option"
  assumes load_abs: "ip < length prog \<Longrightarrow> bpf_code (prog ! ip) = BPF_LD + BPF_W + BPF_ABS \<Longrightarrow>
      exec prog ip acc data = exec prog (ip + 1) (data (bpf_k (prog ! ip))) data"
    and jump_eq: "ip < length prog \<Longrightarrow> bpf_code (prog ! ip) = BPF_JMP + BPF_JEQ + BPF_K \<Longrightarrow>
      exec prog ip acc data =
        exec prog (ip + 1 + unat (if acc = bpf_k (prog ! ip) then bpf_jt (prog ! ip) else bpf_jf (prog ! ip))) acc data"
    and return_k: "ip < length prog \<Longrightarrow> bpf_code (prog ! ip) = BPF_RET + BPF_K \<Longrightarrow>
      exec prog ip acc data = Some (bpf_k (prog ! ip))"

definition test_and_trace :: "syscall_info \<Rightarrow> bpf_filter list" where
  "test_and_trace info =
     [\<lparr>bpf_code = BPF_JMP + BPF_JEQ + BPF_K, bpf_jt = 0, bpf_jf = 1, bpf_k = of_int (num info)\<rparr>,
      \<lparr>bpf_code = BPF_RET + BPF_K, bpf_jt = 0, bpf_jf = 0, bpf_k = SECCOMP_RET_TRACE\<rparr>]"

lemma length_test_and_trace [simp]: "length (test_and_trace info) = 2"
  by (simp add: test_and_trace_def)

definition program :: "syscall_info list \<Rightarrow> bpf_filter list" where
  "program infos =
     \<lparr>bpf_code = BPF_LD + BPF_W + BPF_ABS, bpf_jt = 0, bpf_jf = 0, bpf_k = SECCOMP_SYSCALL_OFFSET\<rparr> #
     concat (map test_and_trace infos) @
     [\<lparr>bpf_code = BPF_RET + BPF_K, bpf_jt = 0, bpf_jf = 0, bpf_k = SECCOMP_RET_ALLOW\<rparr>]"

context seccomp_machine
begin

lemma exec_tests:
  "exec (pre @ concat (map test_and_trace infos) @
      [\<lparr>bpf_code = BPF_RET + BPF_K, bpf_jt = 0, bpf_jf = 0, bpf_k = SECCOMP_RET_ALLOW\<rparr>]) (length pre) acc data =
     Some (if \<exists>i \<in> set infos. of_int (num i) = acc then SECCOMP_RET_TRACE else SECCOMP_RET_ALLOW)"
proof (induction infos arbitrary: pre)
  case Nil
  show ?case by (subst return_k) (simp_all add: nth_append)
next
  case (Cons i infos)
  let ?rest = "concat (map test_and_trace infos) @
      [\<lparr>bpf_code = BPF_RET + BPF_K, bpf_jt = 0, bpf_jf = 0, bpf_k = SECCOMP_RET_ALLOW\<rparr>]"
  let ?p = "pre @ test_and_trace i @ ?rest"
  have first: "?p ! length pre =
      \<lparr>bpf_code = BPF_JMP + BPF_JEQ + BPF_K, bpf_jt = 0, bpf_jf = 1, bpf_k = of_int (num i)\<rparr>"
    and second: "?p ! (length pre + 1) =
      \<lparr>bpf_code = BPF_RET + BPF_K, bpf_jt = 0, bpf_jf = 0, bpf_k = SECCOMP_RET_TRACE\<rparr>"
    by (simp_all add: test_and_trace_def nth_append)
  have len: "length pre < length ?p" "length pre + 1 < length ?p" by (simp_all add: test_and_trace_def)
  have "exec ?p (length pre) acc data =
      exec ?p (length pre + 1 + unat (if acc = of_int (num i) then 0 else 1 :: u8)) acc data"
    using jump_eq [OF len(1)] first by simp
  moreover have "exec ?p (length pre + 1) acc data = Some SECCOMP_RET_TRACE"
    using return_k [OF len(2)] second by simp
  moreover have "exec ?p (length pre + 2) acc data =
      Some (if \<exists>i \<in> set infos. of_int (num i) = acc then SECCOMP_RET_TRACE else SECCOMP_RET_ALLOW)"
    using Cons.IH [of "pre @ test_and_trace i"] by simp
  ultimately show ?case by (auto simp: numeral_2_eq_2)
qed

lemma exec_program:
  "exec (program infos) 0 acc data =
     Some (if \<exists>i \<in> set infos. of_int (num i) = data SECCOMP_SYSCALL_OFFSET
           then SECCOMP_RET_TRACE else SECCOMP_RET_ALLOW)"
proof -
  let ?ld = "\<lparr>bpf_code = BPF_LD + BPF_W + BPF_ABS, bpf_jt = 0, bpf_jf = 0, bpf_k = SECCOMP_SYSCALL_OFFSET\<rparr>"
  have "exec (program infos) 0 acc data = exec (program infos) 1 (data SECCOMP_SYSCALL_OFFSET) data"
    using load_abs [of 0 "program infos" acc data] by (simp add: program_def)
  then show ?thesis using exec_tests [of "[?ld]" infos] by (simp add: program_def)
qed

end

section \<open>An interpreter\<close>

text \<open>
  An executable interpreter of the three instructions, which shows that the laws can be met.  Jumps
  of classic BPF only go forward, so it terminates.
\<close>

function bpf_exec :: "bpf_filter list \<Rightarrow> nat \<Rightarrow> u32 \<Rightarrow> (u32 \<Rightarrow> u32) \<Rightarrow> u32 option" where
  "bpf_exec prog ip acc data =
     (if ip < length prog
      then let i = prog ! ip
           in if bpf_code i = BPF_LD + BPF_W + BPF_ABS then bpf_exec prog (ip + 1) (data (bpf_k i)) data
              else if bpf_code i = BPF_JMP + BPF_JEQ + BPF_K
              then bpf_exec prog (ip + 1 + unat (if acc = bpf_k i then bpf_jt i else bpf_jf i)) acc data
              else if bpf_code i = BPF_RET + BPF_K then Some (bpf_k i)
              else None
      else None)"
  by pat_completeness auto
termination
  by (relation "measure (\<lambda>(prog, ip, acc, data). length prog - ip)") auto

declare bpf_exec.simps [simp del]

lemmas bpf_codes = BPF_LD_def BPF_W_def BPF_ABS_def BPF_JMP_def BPF_JEQ_def BPF_K_def BPF_RET_def

interpretation bpf: seccomp_machine bpf_exec
proof
  show "bpf_exec prog ip acc data = bpf_exec prog (ip + 1) (data (bpf_k (prog ! ip))) data"
    if "ip < length prog" "bpf_code (prog ! ip) = BPF_LD + BPF_W + BPF_ABS" for prog ip acc data
    using that by (subst bpf_exec.simps) (simp add: Let_def)
  show "bpf_exec prog ip acc data =
      bpf_exec prog (ip + 1 + unat (if acc = bpf_k (prog ! ip) then bpf_jt (prog ! ip) else bpf_jf (prog ! ip))) acc data"
    if "ip < length prog" "bpf_code (prog ! ip) = BPF_JMP + BPF_JEQ + BPF_K" for prog ip acc data
    using that by (subst bpf_exec.simps) (simp add: Let_def bpf_codes)
  show "bpf_exec prog ip acc data = Some (bpf_k (prog ! ip))"
    if "ip < length prog" "bpf_code (prog ! ip) = BPF_RET + BPF_K" for prog ip acc data
    using that by (subst bpf_exec.simps) (simp add: Let_def bpf_codes)
qed

section \<open>The program in the array\<close>

lemma bpf_loop_none: "bpf_loop (replicate n None) filters write_idx = (filters, write_idx)"
  by (induction n) simp_all

lemma bpf_loop_append:
  "bpf_loop (xs @ ys) filters write_idx =
     (case bpf_loop xs filters write_idx of (filters', write_idx') \<Rightarrow> bpf_loop ys filters' write_idx')"
  by (induction xs filters write_idx rule: bpf_loop.induct) (simp_all add: Let_def)

lemma bpf_loop_writes:
  assumes "length free = 2 * length infos + m"
  shows "bpf_loop (map Some infos) (written @ free) (length written) =
    (written @ concat (map test_and_trace infos) @ drop (2 * length infos) free, length written + 2 * length infos)"
  using assms
proof (induction infos arbitrary: written free)
  case (Cons i infos)
  then obtain x y free' where free: "free = x # y # free'" "length free' = 2 * length infos + m"
    by (cases free rule: list.exhaust; cases "tl free") auto
  then show ?case
    using Cons.IH [of free' "written @ test_and_trace i"]
    by (simp add: test_and_trace_def list_update_append nth_append)
qed simp

lemma seccomp_filters_program:
  assumes "length infos < MAX_RAW_SYSCALL_INFOS"
  shows "\<exists>rest. seccomp_filters (as_table infos) = (program infos @ rest, length (program infos))"
proof -
  let ?ld = "\<lparr>bpf_code = BPF_LD + BPF_W + BPF_ABS, bpf_jt = 0, bpf_jf = 0, bpf_k = SECCOMP_SYSCALL_OFFSET\<rparr>"
  let ?free = "replicate (2 * MAX_RAW_SYSCALL_INFOS + 1) DEFAULT_FILTER"
  obtain m where m: "length ?free = 2 * length infos + Suc m"
    using assms less_imp_Suc_add [of "2 * length infos" "2 * MAX_RAW_SYSCALL_INFOS + 1"] by auto
  have start: "(replicate (2 * MAX_RAW_SYSCALL_INFOS + 2) DEFAULT_FILTER)[0 := ?ld] = [?ld] @ ?free"
    by (simp add: replicate_Suc [symmetric] del: replicate_Suc) simp
  have loop: "bpf_loop (as_table infos) ([?ld] @ ?free) 1 =
      ([?ld] @ concat (map test_and_trace infos) @ drop (2 * length infos) ?free, 1 + 2 * length infos)"
    using bpf_loop_writes [OF m, of "[?ld]"] by (simp add: as_table_def bpf_loop_append bpf_loop_none)
  have len: "length (concat (map test_and_trace infos)) = 2 * length infos"
    by (induction infos) (simp_all add: test_and_trace_def)
  have "drop (2 * length infos) ?free = replicate (Suc m) DEFAULT_FILTER"
    using m by (simp only: length_replicate drop_replicate diff_add_inverse)
  then obtain rest where "drop (2 * length infos) ?free = DEFAULT_FILTER # rest" by simp
  then show ?thesis
    unfolding seccomp_filters_def start Let_def
    using loop len by (simp add: program_def list_update_append)
qed

section \<open>Names\<close>

fun step_names :: "define_step list \<Rightarrow> string list" where
  "step_names [] = []"
| "step_names (Define info # ss) = full_name info # step_names ss"
| "step_names (Modify f # ss) = step_names ss"

fun keeps_name :: "define_step \<Rightarrow> bool" where
  "keeps_name (Define info) = True"
| "keeps_name (Modify f) = (\<forall>v. full_name (f v) = full_name v)"

lemma entries_of_names:
  assumes "\<forall>s \<in> set ss. keeps_name s"
  shows "map full_name (entries_of ss acc) = map full_name acc @ step_names ss"
  using assms
proof (induction ss acc rule: entries_of.induct)
  case (3 f ss acc)
  then show ?case by (cases acc rule: rev_cases) simp_all
qed simp_all

lemma step_names_append: "step_names (xs @ ys) = step_names xs @ step_names ys"
  by (induction xs rule: step_names.induct) simp_all

lemma table_names:
  "map (\<lambda>i. drop 10 (full_name i)) (table_infos L) =
     take 56 intercepted @ [''fchmodat2''] @ drop 56 intercepted \<and>
   (\<forall>i \<in> set (table_infos L). 10 \<le> length (full_name i))"
proof -
  have "\<forall>s \<in> set (all_syscalls L). keeps_name s"
    by (simp add: all_syscalls_def syscall_blocks define_macros)
  then have names: "map full_name (table_infos L) = step_names (all_syscalls L)"
    unfolding table_infos_def using entries_of_names [of "all_syscalls L" "[]"] by simp
  have "map (drop 10) (step_names (all_syscalls L)) = take 56 intercepted @ [''fchmodat2''] @ drop 56 intercepted"
    by (simp add: all_syscalls_def step_names_append syscall_blocks define_macros intercepted_def)
  moreover have "\<forall>n \<in> set (step_names (all_syscalls L)). 10 \<le> length n"
    by (simp add: all_syscalls_def step_names_append syscall_blocks define_macros)
  ultimately show ?thesis unfolding names [symmetric] by (simp add: comp_def)
qed

section \<open>The numbers of Linux on x86\_64\<close>

definition x86_64_numbers :: "int list" where
  "x86_64_numbers = [56, 61, 102, 107, 104, 108, 115, 105, 106, 116, 114, 113, 119, 117, 123, 122, 157, 317, 163,
     80, 161, 191, 194, 197, 188, 168, 167, 166, 59, 303, 269, 265, 268, 260, 258, 259, 257, 267,
     264, 316, 266, 263, 192, 195, 5, 332, 76, 137, 280, 217, 91, 93, 439, 82, 132, 78, 262, 21, 90,
     92, 133, 85, 134, 235, 261, 86, 2, 89, 94, 4, 6, 88, 87, 84, 83]"

definition x86_64_libc :: libc where
  "x86_64_libc = \<lparr>SYS = (\<lambda>n. the (map_of ((''getpid'', 39) # zip intercepted x86_64_numbers) n)),
     AT_SYMLINK_NOFOLLOW = 0x100\<rparr>"

lemma x86_64_SYS: "map (SYS x86_64_libc) (''getpid'' # intercepted) = 39 # x86_64_numbers"
proof -
  have distinct: "distinct (''getpid'' # intercepted)" by (simp add: intercepted_def)
  have len: "length intercepted = length x86_64_numbers" by (simp add: intercepted_def x86_64_numbers_def)
  have "SYS x86_64_libc (intercepted ! i) = x86_64_numbers ! i" if i: "i < length intercepted" for i
  proof -
    have "intercepted ! i \<noteq> ''getpid''" using distinct nth_mem [OF i] by auto
    moreover have "map_of (zip intercepted x86_64_numbers) (intercepted ! i) = Some (x86_64_numbers ! i)"
      using distinct len i by (intro map_of_zip_nth) simp_all
    ultimately show ?thesis by (simp add: x86_64_libc_def)
  qed
  then have "map (SYS x86_64_libc) intercepted = x86_64_numbers"
    using len by (intro nth_equalityI) simp_all
  moreover have "SYS x86_64_libc ''getpid'' = 39" by (simp add: x86_64_libc_def)
  ultimately show ?thesis by simp
qed

lemma x86_64_libc_ok: "libc_ok x86_64_libc"
proof -
  note x86_64_SYS
  moreover have "distinct (452 # 39 # x86_64_numbers)" "\<forall>n \<in> set (39 # x86_64_numbers). 0 \<le> n \<and> n < 1024"
    by (simp_all add: x86_64_numbers_def)
  ultimately show ?thesis unfolding libc_ok_def by (metis (no_types, lifting) imageI list.set_map)
qed

section \<open>Properties\<close>

lemma find_num:
  assumes "libc_ok L"
  shows "find (\<lambda>i. as_usize (num i) = n) (table_infos L) = Some info \<longleftrightarrow>
    info \<in> set (table_infos L) \<and> as_usize (num info) = n"
proof
  assume "find (\<lambda>i. as_usize (num i) = n) (table_infos L) = Some info"
  then show "info \<in> set (table_infos L) \<and> as_usize (num info) = n" by (auto simp: find_Some_iff)
next
  assume info: "info \<in> set (table_infos L) \<and> as_usize (num info) = n"
  then have "find (\<lambda>i. as_usize (num i) = n) (table_infos L) \<noteq> None" unfolding find_None_iff by blast
  then obtain j where j: "find (\<lambda>i. as_usize (num i) = n) (table_infos L) = Some j" by blast
  then have "j \<in> set (table_infos L)" "as_usize (num j) = as_usize (num info)" using info by (auto simp: find_Some_iff)
  then have "num j = num info" using table_num_bounds [OF assms] info as_usize_inject by metis
  moreover have "inj_on num (set (table_infos L))"
    using table_nums_distinct [OF assms] by (simp add: distinct_map)
  ultimately have "j = info" using info \<open>j \<in> set (table_infos L)\<close> by (simp add: inj_on_def)
  then show "find (\<lambda>i. as_usize (num i) = n) (table_infos L) = Some info" using j by (simp only:)
qed

text \<open>
  C19.  The seccomp program asks for the tracer exactly for the system calls that \<open>get_syscall\<close> finds in
  the table: every intercepted call stops the tracee, and every other call is allowed without a
  stop.  The program fits into its array.
\<close>

theorem seccomp_program_traces_table:
  assumes "libc_ok L" "seccomp_machine exec"
  shows "\<exists>filters len. SECCOMP_FILTERS L = Some (filters, len) \<and> len \<le> length filters \<and>
    (\<forall>acc data. exec (take len filters) 0 acc data =
       Some (if \<exists>info. get_syscall L (ucast (data SECCOMP_SYSCALL_OFFSET)) = Some (Some info)
             then SECCOMP_RET_TRACE else SECCOMP_RET_ALLOW))"
proof -
  let ?infos = "table_infos L"
  obtain rest where prog: "seccomp_filters (as_table ?infos) = (program ?infos @ rest, length (program ?infos))"
    using seccomp_filters_program [of ?infos] by (auto simp: length_table_infos MAX_RAW_SYSCALL_INFOS_def)
  have "length (as_table ?infos) = MAX_RAW_SYSCALL_INFOS"
    by (simp add: as_table_def length_table_infos MAX_RAW_SYSCALL_INFOS_def)
  then have filters: "SECCOMP_FILTERS L = Some (program ?infos @ rest, length (program ?infos))"
    using prog by (simp add: SECCOMP_FILTERS_def raw_syscall_infos [OF assms(1)])
  have same: "(of_int (num i) = nr) \<longleftrightarrow> as_usize (num i) = ucast nr" if "i \<in> set ?infos" for i and nr :: u32
  proof -
    have b: "0 \<le> num i" "num i < 1024" using table_num_bounds [OF assms(1) that] by simp_all
    have "uint (of_int (num i) :: u32) = num i" "uint (as_usize (num i)) = num i"
      using b by (simp_all add: as_usize_def uint_word_of_int take_bit_int_eq_self_iff)
    moreover have "uint (ucast nr :: usize) = uint nr"
      using unsigned_less [where 'a = int, of nr] by (simp add: unsigned_ucast_eq take_bit_int_eq_self_iff)
    ultimately show ?thesis by (metis word_uint_eq_iff)
  qed
  have "(\<exists>info. get_syscall L (ucast nr) = Some (Some info)) \<longleftrightarrow> (\<exists>i \<in> set ?infos. of_int (num i) = nr)" for nr :: u32
    using same by (auto simp: get_syscall_eq [OF assms(1)] find_num [OF assms(1)])
  then show ?thesis
    using filters seccomp_machine.exec_program [OF assms(2)] by (intro exI) (auto split: if_splits)
qed

theorem seccomp_program_traces_table_witness:
  "\<exists>filters len. SECCOMP_FILTERS x86_64_libc = Some (filters, len) \<and>
     (\<exists>r. bpf_exec (take len filters) 0 0 (\<lambda>_. 257) = Some r)"
  using seccomp_program_traces_table [OF x86_64_libc_ok bpf.seccomp_machine_axioms] by blast

text \<open>
  The lookup is right: the table compiles without a panic, an entry is found under a number exactly
  if it is the entry of that number, and every intercepted system call is found under its number with
  its own name.
\<close>

theorem get_syscall_correct:
  assumes "libc_ok L"
  shows "(get_syscall L n = Some (Some info) \<longleftrightarrow>
      (\<exists>infos. RAW_SYSCALL_INFOS L = Some infos \<and> Some info \<in> set infos \<and> as_usize (num info) = n)) \<and>
    (\<forall>name \<in> set intercepted. \<exists>i. get_syscall L (as_usize (SYS L name)) = Some (Some i) \<and> syscall_name i = Some name)"
proof (intro conjI ballI)
  show "get_syscall L n = Some (Some info) \<longleftrightarrow>
      (\<exists>infos. RAW_SYSCALL_INFOS L = Some infos \<and> Some info \<in> set infos \<and> as_usize (num info) = n)"
    unfolding get_syscall_eq [OF assms] raw_syscall_infos [OF assms] by (auto simp: find_num [OF assms] as_table_def)
  fix name assume "name \<in> set intercepted"
  then obtain j where j: "j < length intercepted" "name = intercepted ! j" by (auto simp: in_set_conv_nth)
  define m where "m = (if j < 56 then j else j + 1)"
  let ?i = "table_infos L ! m"
  have len: "m < length (table_infos L)" using j(1) by (simp add: m_def length_table_infos length_intercepted)
  have "map num (table_infos L) ! m = SYS L name"
    using j unfolding table_nums all_syscalls_nums m_def by (simp add: nth_append length_intercepted)
  then have "num ?i = SYS L name" using len by (simp only: nth_map)
  moreover have "map (\<lambda>i. drop 10 (full_name i)) (table_infos L) ! m = name"
    using j unfolding conjunct1 [OF table_names] m_def by (simp add: nth_append length_intercepted)
  then have "drop 10 (full_name ?i) = name" using len by (simp only: nth_map)
  then have "syscall_name ?i = Some name"
    using conjunct2 [OF table_names [of L]] nth_mem [OF len] by (simp add: syscall_name_def)
  moreover have "?i \<in> set (table_infos L)" using len by (rule nth_mem)
  ultimately show "\<exists>i. get_syscall L (as_usize (SYS L name)) = Some (Some i) \<and> syscall_name i = Some name"
    unfolding get_syscall_eq [OF assms] by (intro exI [of _ ?i]) (simp add: find_num [OF assms])
qed

theorem get_syscall_correct_witness:
  "\<exists>i. get_syscall x86_64_libc (as_usize (SYS x86_64_libc ''openat'')) = Some (Some i) \<and>
     syscall_name i = Some ''openat''"
proof -
  have "''openat'' \<in> set intercepted" by (simp add: intercepted_def)
  then show ?thesis using get_syscall_correct [OF x86_64_libc_ok] by blast
qed

end
