(* ===== verification/Syscall_Protocol.thy ===== *)
theory Syscall_Protocol
  imports Kernel_Frame Seccomp_Program
begin

text \<open>
  What the tracee sees of the tracer, for one system call: every augmentation lets the system call be executed once, with
  at most its first five arguments replaced, or has a harmless system call executed in its place; it leaves the handler in step
  with the tracee.
\<close>

section \<open>Laws\<close>

definition moves :: "'k tracee_view \<Rightarrow> pid \<Rightarrow> 'k \<Rightarrow> phase \<times> generic_purpose_regs list" where
  "moves V pid s = (view_phase V s pid, view_executed V s pid)"

definition moves_regs :: "'k tracee_view \<Rightarrow> pid \<Rightarrow> 'k \<Rightarrow> (phase \<times> generic_purpose_regs list) \<times> generic_purpose_regs" where
  "moves_regs V pid s = (moves V pid s, view_regs V s pid)"

text \<open>
  Access to memory and to files neither moves a tracee nor changes its registers, and writing registers does not
  move it, whether or not the calls succeed.
\<close>

definition quiet_laws :: "('k, 'regex) env \<Rightarrow> ('k, 'regex) host_api \<Rightarrow> 'k tracee_view \<Rightarrow> bool" where
  "quiet_laws e x V \<longleftrightarrow> memory_holds (moves_regs V (pid_of e)) (api e) \<and> host_holds (moves_regs V (pid_of e)) x \<and>
     (\<forall>ws. holds (moves V (pid_of e)) (sys_setregset (api e) (pid_of e) ws))"

lemma holds_moves: "holds (moves_regs V pid) m \<Longrightarrow> holds (moves V pid) m"
  by (simp add: holds_def moves_regs_def)

lemma quiet_moves:
  assumes "quiet_laws e x V"
  shows "memory_holds (moves V (pid_of e)) (api e)" "host_holds (moves V (pid_of e)) x"
  using assms by (simp_all add: quiet_laws_def memory_holds_def host_holds_def holds_moves)

lemma quiet_setregs [holds_intros]: "quiet_laws e x V \<Longrightarrow> holds (moves V (pid_of e)) (setregs (api e) (pid_of e) r)"
  unfolding setregs_def by (intro holds_intros) (simp add: quiet_laws_def)

section \<open>Before the system call\<close>

definition same_but_args :: "generic_purpose_regs \<Rightarrow> generic_purpose_regs \<Rightarrow> bool" where
  "same_but_args r s \<longleftrightarrow>
     r\<lparr>arg0 := 0, arg1 := 0, arg2 := 0, arg3 := 0, arg4 := 0\<rparr> = s\<lparr>arg0 := 0, arg1 := 0, arg2 := 0, arg3 := 0, arg4 := 0\<rparr>"

lemma same_but_args_refl [simp]: "same_but_args r r"
  by (simp add: same_but_args_def)

lemma same_but_args_num: "same_but_args r s \<Longrightarrow> same_but_args (r\<lparr>syscall_num := n\<rparr>) (s\<lparr>syscall_num := n\<rparr>)"
  by (cases r; cases s) (simp add: same_but_args_def)

lemma same_but_args_update [simp]:
  "same_but_args r (s\<lparr>arg0 := v\<rparr>) = same_but_args r s" "same_but_args r (s\<lparr>arg1 := v\<rparr>) = same_but_args r s"
  "same_but_args r (s\<lparr>arg2 := v\<rparr>) = same_but_args r s" "same_but_args r (s\<lparr>arg3 := v\<rparr>) = same_but_args r s"
  "same_but_args r (s\<lparr>arg4 := v\<rparr>) = same_but_args r s"
  by (cases s; simp add: same_but_args_def)+

text \<open>The handler at the entry of the system call that \<open>h0\<close> was at, with other arguments perhaps.\<close>

definition at_entry :: "('k, 'regex) env \<Rightarrow> 'k tracee_view \<Rightarrow> bool \<Rightarrow> 'k handler \<Rightarrow> 'k handler \<Rightarrow> bool" where
  "at_entry e V legacy h0 h \<longleftrightarrow> in_step e V legacy h \<and> is_after_syscall_entry h \<and>
     executed e V h = executed e V h0 \<and> same_but_args (regs_of e V h0) (regs_of e V h)"

definition yields :: "('w, 'e, 'a) io \<Rightarrow> ('a \<Rightarrow> bool) \<Rightarrow> bool" where
  "yields m Q \<longleftrightarrow> (\<forall>w a. fst (m w) = Inr a \<longrightarrow> Q a)"

named_theorems yields_intros \<open>results of code\<close>

lemma yields_ret [yields_intros]: "Q a \<Longrightarrow> yields (ret a) Q"
  by (simp add: yields_def io_simps)

lemma yields_stop [yields_intros]: "yields (throw x) Q" "yields panic Q" "yields out_of_fuel Q"
  by (simp_all add: yields_def io_simps)

lemma yields_bind:
  assumes "yields m P" "\<And>a. P a \<Longrightarrow> yields (f a) Q"
  shows "yields (m_then m f) Q"
  using assms unfolding yields_def by (auto simp: m_then_apply split: prod.splits sum.splits) (metis fst_conv)

lemma yields_then [yields_intros]: "(\<And>a. yields (f a) Q) \<Longrightarrow> yields (m_then m f) Q"
  by (rule yields_bind [where P = "\<lambda>_. True"]) (simp_all add: yields_def)

lemma yields_cases [yields_intros]:
  "(b \<Longrightarrow> yields m Q) \<Longrightarrow> (\<not> b \<Longrightarrow> yields n Q) \<Longrightarrow> yields (if b then m else n) Q"
  "(x = None \<Longrightarrow> yields m Q) \<Longrightarrow> (\<And>a. x = Some a \<Longrightarrow> yields (f a) Q) \<Longrightarrow>
     yields (case x of None \<Rightarrow> m | Some a \<Rightarrow> f a) Q"
  "(\<And>a b. y = (a, b) \<Longrightarrow> yields (g a b) Q) \<Longrightarrow> yields (case y of (a, b) \<Rightarrow> g a b) Q"
  "(\<And>a. z = Inl a \<Longrightarrow> yields (p a) Q) \<Longrightarrow> (\<And>a. z = Inr a \<Longrightarrow> yields (q a) Q) \<Longrightarrow>
     yields (case z of Inl a \<Rightarrow> p a | Inr a \<Rightarrow> q a) Q"
  "yields (k v) Q \<Longrightarrow> yields (let u = v in k u) Q"
  "yields m Q \<Longrightarrow> yields n Q \<Longrightarrow> yields i Q \<Longrightarrow> (\<And>p. yields (j p) Q) \<Longrightarrow>
     yields (case act of ELOOP \<Rightarrow> m | NoAction \<Rightarrow> n | HidePath \<Rightarrow> i | Override p \<Rightarrow> j p) Q"
  by (simp_all add: Let_def split: option.split prod.split sum.split path_action.split)

lemma yields_with_file [yields_intros]: "yields m Q \<Longrightarrow> yields (with_file x fd m) Q"
  by (simp add: yields_def with_file_def split_def)

text \<open>Code that holds the view of the tracee stays at the entry.\<close>

lemma at_entry_held:
  assumes "holds (stop_view (moves_regs V (pid_of e))) m" "yields m Q"
  shows "ensures (at_entry e V legacy h0) m Q"
proof (rule ensuresI)
  fix h assume h: "at_entry e V legacy h0 h"
  have "stop_view (moves_regs V (pid_of e)) (snd (m h)) = stop_view (moves_regs V (pid_of e)) h"
    using assms(1) by (simp add: holds_def)
  then show "at_entry e V legacy h0 (snd (m h))"
    using h by (simp add: stop_view_def moves_regs_def moves_def at_entry_def in_step_def)
next
  show "Q a" if "fst (m h) = Inr a" for h a using assms(2) that by (auto simp: yields_def)
qed

lemma at_entry_setregs:
  assumes "setregs_law (api e) V" "same_but_args (regs_of e V h0) r"
  shows "keeps (at_entry e V legacy h0) (in_kernel (setregs (api e) (pid_of e) r))"
proof -
  have "at_entry e V legacy h0 (snd (in_kernel (setregs (api e) (pid_of e) r) h))" if h: "at_entry e V legacy h0 h" for h
  proof -
    have "phase_of e V h \<noteq> UserCode" using h by (simp add: at_entry_def in_step_def)
    from in_kernel_setregs [OF assms(1) this] obtain h'
      where "in_kernel (setregs (api e) (pid_of e) r) h = (Inr (), h')" "with_regs e V r h h'" by blast
    then show ?thesis
      using h assms(2) with_regs_in_step [of e V r h h'] with_regs_cells(1) [of e V r h h']
      by (simp add: at_entry_def with_regs_def)
  qed
  then show ?thesis by (simp add: ensures_def)
qed

section \<open>One system call\<close>

text \<open>
  The system call that may be executed in the place of the one with registers \<open>r\<close>: the same one, or the one that
  changes nothing.
\<close>

definition stands_for :: "libc \<Rightarrow> generic_purpose_regs \<Rightarrow> generic_purpose_regs \<Rightarrow> bool" where
  "stands_for L r c \<longleftrightarrow> same_but_args r c \<or> same_but_args (r\<lparr>syscall_num := NO_MOD_SYSCALL L\<rparr>) c"

text \<open>
  The outcome of an augmentation: with a result, one call was executed and the handler is in step at its exit; with an
  error at most one.
\<close>

definition once :: "('k, 'regex) env \<Rightarrow> 'k tracee_view \<Rightarrow> bool \<Rightarrow> 'k handler \<Rightarrow> ('e fault + 'a) \<times> 'k handler \<Rightarrow> bool" where
  "once e V legacy h0 rh \<longleftrightarrow> (case rh of (r, h) \<Rightarrow>
     (\<exists>cs. executed e V h = executed e V h0 @ cs \<and> length cs \<le> 1 \<and> (\<forall>c \<in> set cs. stands_for (env_libc e) (regs_of e V h0) c) \<and>
        (\<forall>a. r = Inr a \<longrightarrow> length cs = 1 \<and> in_step e V legacy h \<and> \<not> is_after_syscall_entry h)))"

lemma once_skip:
  assumes "kernel_laws e V legacy w" "at_entry e V legacy h0 h"
  shows "once e V legacy h0 (run w (do_skip_syscall e v) h)"
proof -
  obtain h' where r: "run w (do_skip_syscall e v) h = (Inr (), h')" and s: "skipped e V legacy v h h'"
    using do_skip [OF assms(1)] assms(2) by (auto simp: at_entry_def)
  let ?c = "(regs_of e V h)\<lparr>syscall_num := NO_MOD_SYSCALL (env_libc e)\<rparr>"
  have "stands_for (env_libc e) (regs_of e V h0) ?c"
    using assms(2) same_but_args_num by (auto simp: stands_for_def at_entry_def)
  then show ?thesis
    using s assms(2) unfolding once_def r by (auto simp: skipped_def at_entry_def intro!: exI [of _ "[?c]"])
qed

text \<open>After the system call, code that does not move the tracee.\<close>

lemma once_resume:
  assumes laws: "kernel_laws e V legacy w" and h: "at_entry e V legacy h0 h"
    and post: "\<And>regs. holds (stop_view (moves V (pid_of e))) (f regs)"
  shows "once e V legacy h0 (run w (a_then (do_resume_syscall e) (\<lambda>regs. sync (f regs))) h)"
proof -
  obtain h1 where r: "run w (do_resume_syscall e) h = (Inr (regs_of e V h1), h1)" and m: "moved e V False h h1"
    using do_resume [OF laws] h by (auto simp: at_entry_def)
  have i: "in_step e V legacy h1" "\<not> is_after_syscall_entry h1" "executed e V h1 = executed e V h0 @ [regs_of e V h]"
    using h moved_in_step [OF _ m] m by (auto simp: at_entry_def moved_def)
  obtain y h2 where f: "f (regs_of e V h1) h1 = (y, h2)" by (cases "f (regs_of e V h1) h1")
  have v: "stop_view (moves V (pid_of e)) h2 = stop_view (moves V (pid_of e)) h1" using holdsD [OF post f] .
  have s: "stands_for (env_libc e) (regs_of e V h0) (regs_of e V h)" using h by (simp add: stands_for_def at_entry_def)
  have "run w (a_then (do_resume_syscall e) (\<lambda>regs. sync (f regs))) h = (y, h2)"
    using r f by (simp add: run_simps m_then_apply)
  moreover have "once e V legacy h0 (y, h2)"
    unfolding once_def prod.case
    using i v s by (intro exI [of _ "[regs_of e V h]"]) (auto simp: stop_view_def moves_def in_step_def)
  ultimately show ?thesis by simp
qed

lemma once_sync:
  assumes pre: "ensures (at_entry e V legacy h0) m Q" and h: "at_entry e V legacy h0 h"
    and f: "\<And>a h. Q a \<Longrightarrow> at_entry e V legacy h0 h \<Longrightarrow> once e V legacy h0 (run w (f a) h)"
  shows "once e V legacy h0 (run w (a_then (sync m) f) h)"
proof -
  obtain r h1 where m: "m h = (r, h1)" by (cases "m h")
  have h1: "at_entry e V legacy h0 h1" using ensures_world [OF pre h] m by simp
  show ?thesis
  proof (cases r)
    case (Inl x)
    then have "run w (a_then (sync m) f) h = (Inl x, h1)" using m by (simp add: run_simps m_then_apply)
    then show ?thesis using h1 by (simp add: once_def at_entry_def)
  next
    case (Inr a)
    then have "run w (a_then (sync m) f) h = run w (f a) h1" using m by (simp add: run_simps m_then_apply)
    then show ?thesis using f [OF _ h1] ensures_value [OF pre h] m Inr by simp
  qed
qed

section \<open>Augmentations of process calls and of ids\<close>

lemma once_resume_ret:
  assumes "kernel_laws e V legacy w" "at_entry e V legacy h0 h"
  shows "once e V legacy h0 (run w (a_then (do_resume_syscall e) (\<lambda>_. sync (ret ()))) h)"
  using once_resume [OF assms, where f = "\<lambda>_. ret ()"] by (simp add: holds_intros)

lemma once_setregs_resume:
  assumes "kernel_laws e V legacy w" "at_entry e V legacy h0 h" "same_but_args (regs_of e V h0) r"
  shows "once e V legacy h0 (run w (a_then (sync (in_kernel (setregs (api e) (pid_of e) r)))
    (\<lambda>_. a_then (do_resume_syscall e) (\<lambda>_. sync (ret ())))) h)"
proof (rule once_sync [OF at_entry_setregs assms(2)])
  show "setregs_law (api e) V" using assms(1) by (simp add: kernel_laws_def)
qed (use assms once_resume_ret [OF assms(1)] in auto)

lemma once_clone:
  assumes "kernel_laws e V legacy w" "at_entry e V legacy h0 h" "same_but_args (regs_of e V h0) regs"
  shows "once e V legacy h0 (run w (augment_sys_clone e regs info) h)"
  unfolding augment_sys_clone_def Let_def using assms by (intro once_setregs_resume) simp_all

lemma once_seccomp:
  assumes "kernel_laws e V legacy w" "at_entry e V legacy h0 h"
  shows "once e V legacy h0 (run w (augment_sys_seccomp e regs info) h)"
  unfolding augment_sys_seccomp_def Let_def
  using once_resume_ret [OF assms] once_skip [OF assms] by (auto split: option.split)

lemma once_waitpid:
  assumes laws: "kernel_laws e V legacy w" "quiet_laws e x V" and h: "at_entry e V legacy h0 h"
  shows "once e V legacy h0 (run w (augment_sys_waitpid e regs info) h)"
proof -
  let ?M = "moves V (pid_of e)"
  note q = quiet_moves(1) [OF laws(2)]
  have post: "holds (stop_view ?M) (hide_sigstop e mem orig r)" if "mem_holds (kern_view ?M) mem" for mem orig r
    unfolding hide_sigstop_def by (intro holds_intros that quiet_setregs [OF laws(2)] q) simp
  have m: "memory_holds (moves_regs V (pid_of e)) (api e)" using laws(2) by (simp add: quiet_laws_def)
  have mem: "mem_holds (kern_view ?M) m \<and> mem_holds (kern_view (moves_regs V (pid_of e))) m"
    if "m = mem_helpers_of e kind" for m kind
    using mem_helpers_of_holds [OF q] mem_helpers_of_holds [OF m] that by blast
  have get: "ensures (at_entry e V legacy h0) (get_mem_helper e) (\<lambda>m. \<exists>kind. m = mem_helpers_of e kind)"
    by (rule at_entry_held) (auto simp: get_mem_helper_def yields_def io_simps intro!: holds_intros)
  show ?thesis unfolding augment_sys_waitpid_def
  proof (rule once_sync [OF get h])
    fix mem' h assume mk: "\<exists>kind. mem' = mem_helpers_of e kind" and h: "at_entry e V legacy h0 h"
    then have mh: "mem_holds (kern_view ?M) mem'" "mem_holds (kern_view (moves_regs V (pid_of e))) mem'"
      using mem by blast+
    have rd: "keeps (at_entry e V legacy h0) (on_globals (mh_read mem' (pid_of e) (arg1 regs)))"
      by (rule at_entry_held) (auto simp: yields_def intro!: holds_intros mh(2))
    show "once e V legacy h0 (run w (a_then (sync (on_globals (mh_read mem' (pid_of e) (arg1 regs))))
        (\<lambda>orig. a_then (do_resume_syscall e) (\<lambda>r. sync (hide_sigstop e mem' orig r)))) h)"
      by (rule once_sync [OF rd h]) (rule once_resume [OF laws(1)], auto intro: post mh(1))
  qed
qed

text \<open>The walk over the ids.\<close>

lemma holds_walk:
  assumes "\<And>i v. holds F (callback i v)"
  shows "holds (\<lambda>w. F (snd w)) (walk_resf_syscall info ok callback)"
proof -
  have slot: "holds (\<lambda>w. F (snd w)) (call_slot callback i idx)" for i idx
    using assms by (auto simp: holds_def call_slot_def split: prod.split sum.split) (metis snd_conv)+
  then have [holds_intros]: "holds (\<lambda>w. F (snd w)) (call_slot callback i idx)" for i idx .
  have [holds_intros]: "holds (\<lambda>w. F (snd w)) (walk_register info callback i)" for i
    unfolding walk_register_def by (intro holds_intros)
  show ?thesis unfolding walk_resf_syscall_def by (intro holds_intros)
qed

lemma holds_on_perms_ids [holds_intros]:
  assumes "\<And>i v. holds (stop_view G) (callback i v)"
  shows "holds (stop_view G) (on_perms_ids (walk_resf_syscall info ok callback))"
  using holds_walk [OF assms] by (simp add: holds_def on_perms_ids_def split_def)

lemma once_perms:
  assumes laws: "kernel_laws e V legacy w" "quiet_laws e x V" and h: "at_entry e V legacy h0 h"
  shows "once e V legacy h0 (run w (augment_sys_perms e regs info) h)"
proof -
  let ?M = "moves V (pid_of e)"
  have "holds F (setter_callback e regs i v)" for F i v
    unfolding setter_callback_def by (intro holds_intros)
  then have pre: "keeps (at_entry e V legacy h0) (if is_setter info \<and> b
      then on_perms_ids (walk_resf_syscall info True (setter_callback e regs)) else ret True)" for b
    by (intro at_entry_held) (auto simp: yields_def intro!: holds_intros)
  have wr: "holds (stop_view ?M) (write_retval e r v)" for r v
    unfolding write_retval_def by (intro holds_intros quiet_setregs [OF laws(2)])
  have get: "holds (stop_view ?M) (getter_callback e regs r i v)" for r i v
    unfolding getter_callback_def by (intro holds_intros wr quiet_moves(1) [OF laws(2)])
  let ?post = "\<lambda>b r. if \<not> is_setter info \<and> b
      then m_then (on_perms_ids (walk_resf_syscall info (syscall_retval r = 0) (getter_callback e regs r)))
        (\<lambda>known. if \<not> known \<and> sint (syscall_retval r) < 0 then write_retval e r 0 else ret ())
      else ret ()"
  have post: "holds (stop_view ?M) (?post b r)" for b r by (intro holds_intros get wr)
  show ?thesis unfolding augment_sys_perms_def Let_def
  proof (rule once_sync [OF pre h])
    fix is_handled h assume h: "at_entry e V legacy h0 h"
    have eq: "run w (a_then (do_resume_syscall e) (\<lambda>r. if \<not> is_setter info \<and> b
        then a_then (sync (on_perms_ids (walk_resf_syscall info (syscall_retval r = 0) (getter_callback e regs r))))
          (\<lambda>known. sync (if \<not> known \<and> sint (syscall_retval r) < 0 then write_retval e r 0 else ret ()))
        else sync (ret ()))) h = run w (a_then (do_resume_syscall e) (\<lambda>r. sync (?post b r))) h" for b
      by (simp add: run_simps m_then_apply split: prod.split sum.split)
    show "once e V legacy h0 (run w (if \<not> is_handled then do_skip_syscall e 0
      else a_then (do_resume_syscall e) (\<lambda>r. if \<not> is_setter info \<and> args_perms_mode (args_of e) \<noteq> Passthrough
        then a_then (sync (on_perms_ids (walk_resf_syscall info (syscall_retval r = 0) (getter_callback e regs r))))
          (\<lambda>known. sync (if \<not> known \<and> sint (syscall_retval r) < 0 then write_retval e r 0 else ret ()))
        else sync (ret ()))) h)"
      using once_skip [OF laws(1) h] once_resume [OF laws(1) h post] eq by simp
  qed
qed

section \<open>Augmentation of paths\<close>

lemma holds_small [holds_intros]:
  "holds F (at_index as i)" "holds F (unwrap v)" "holds F (missing_perms msg v)" "holds F (save_path i p ps)"
  unfolding at_index_def unwrap_def missing_perms_def save_path_def by (intro holds_intros)+

lemma holds_procfs [holds_intros]:
  assumes "host_holds G x"
  shows "holds G (getcwd (fs_read_link x) pid)" "holds G (getfd_path (fs_read_link x) pid fd)"
proof -
  show "holds G (getcwd (fs_read_link x) pid)" unfolding getcwd_def by (intro holds_intros assms)
  show "holds G (getfd_path (fs_read_link x) pid fd)"
    unfolding getfd_path_def
    by (rule holdsI) (auto split: prod.split sum.split dest: holdsD [OF host_calls(4) [OF assms]])
qed

lemma holds_translate [holds_intros]:
  assumes "memory_holds G (api e)" "host_holds G x" "mem_holds (kern_view G) mem"
  shows "holds (stop_view G) (translate_args e x mem copy_regs info is st)"
proof -
  have [holds_intros]: "holds (stop_view G) (get_dirfd_path e x regs info i)" for regs i
    unfolding get_dirfd_path_def by (intro holds_intros assms)
  have [holds_intros]: "holds (stop_view G) (translate_arg e x mem copy_regs info i st)" for i st
    unfolding translate_arg_def by (intro holds_intros assms)
  show ?thesis by (induction "is" arbitrary: st) (auto intro!: holds_intros)
qed

lemma holds_perms_files [holds_intros]:
  assumes "host_holds G x"
  shows "holds (stop_view G) (filefd_path e x args info ps)" "holds (stop_view G) (record_perms e x args info ps)"
proof -
  show "holds (stop_view G) (filefd_path e x args info ps)"
    unfolding filefd_path_def by (intro holds_intros assms)
  have [holds_intros]: "holds (stop_view G) (save_all e x ps f)" for f
    unfolding save_all_def by (intro holds_intros assms)
  show "holds (stop_view G) (record_perms e x args info ps)"
    unfolding record_perms_def by (auto split: option.split perm_type.split intro!: holds_intros)
qed

lemma holds_host_perms [holds_intros]: "holds F (host_perms e info st)"
  unfolding host_perms_def by (intro holds_intros)

text \<open>What happens after the system call does not move the tracee.\<close>

lemma holds_after_paths:
  assumes laws: "quiet_laws e x V"
  shows "holds (stop_view (moves V (pid_of e))) (after_paths_syscall e x args info ps regs)"
proof -
  note q = quiet_moves [OF laws]
  have [holds_intros]: "holds (stop_view (moves V (pid_of e))) (stat_result e x args ps T n)" for T n
    unfolding stat_result_def replace_statbuf_result_def by (intro holds_intros q)
  have [holds_intros]: "holds (stop_view (moves V (pid_of e))) (stat_results e x args ps info)"
    unfolding stat_results_def by (intro holds_intros)
  have [holds_intros]: "holds F (modify_entry e x i entry)" for F :: "'a handler \<Rightarrow> 'v" and i entry
    unfolding modify_entry_def by (intro holds_intros)
  have [holds_intros]: "holds F (modify_entries e x i entries)" for F :: "'a handler \<Rightarrow> 'v" and i entries
    by (induction entries) (auto intro!: holds_intros)
  have [holds_intros]: "holds (stop_view (moves V (pid_of e))) (replace_getdents_result e x T regs)" for T
    unfolding replace_getdents_result_def by (intro holds_intros q quiet_setregs [OF laws])
  show ?thesis unfolding after_paths_syscall_def by (intro holds_intros q)
qed

text \<open>The registers that are written before it differ in arguments only.\<close>

lemma set_arg_same: "set_arg i v r = Some r' \<Longrightarrow> same_but_args r0 r \<Longrightarrow> same_but_args r0 r'"
  by (cases "(i, v, r)" rule: set_arg.cases) auto

lemma yields_set_arg:
  "same_but_args r0 r \<Longrightarrow> yields (unwrap (set_arg i v r)) (same_but_args r0)"
  unfolding unwrap_def by (auto split: option.split intro!: yields_intros dest: set_arg_same)

lemma yields_set_then:
  "same_but_args r0 r \<Longrightarrow> (\<And>r'. same_but_args r0 r' \<Longrightarrow> yields (f r') Q) \<Longrightarrow> yields (m_then (unwrap (set_arg i v r)) f) Q"
  by (rule yields_bind [OF yields_set_arg])

abbreviation path_state_ok :: "generic_purpose_regs \<Rightarrow> path_state \<Rightarrow> bool" where
  "path_state_ok r0 st \<equiv> same_but_args r0 (fst st)"

lemma yields_translate:
  assumes "path_state_ok r0 st"
  shows "yields (translate_args e x mem copy_regs info is st) (\<lambda>r. \<forall>st'. r = Some st' \<longrightarrow> path_state_ok r0 st')"
  using assms
proof (induction "is" arbitrary: st)
  case (Cons i "is")
  have "yields (translate_arg e x mem copy_regs info i st) (\<lambda>r. \<forall>st'. r = Some st' \<longrightarrow> path_state_ok r0 st')"
    unfolding translate_arg_def
    using Cons.prems by (intro yields_intros yields_bind [OF yields_set_arg [of r0]]) (auto intro!: yields_intros)
  then show ?case
    unfolding translate_args.simps
  proof (rule yields_bind)
    fix y assume "\<forall>st'. y = Some st' \<longrightarrow> path_state_ok r0 st'"
    then show "yields (case y of None \<Rightarrow> ret None | Some st \<Rightarrow> translate_args e x mem copy_regs info is st)
        (\<lambda>r. \<forall>st'. r = Some st' \<longrightarrow> path_state_ok r0 st')"
      by (cases y) (simp_all only: option.case yields_ret Cons.IH option.distinct simp_thms option.inject)
  qed
qed (auto intro!: yields_ret)

lemma yields_host_perms:
  assumes "same_but_args r0 regs"
  shows "yields (host_perms e info (regs, b)) (\<lambda>st. same_but_args r0 (fst st))"
proof (cases "sets_file_perms info")
  case (Some kind)
  show ?thesis
    unfolding host_perms_def Let_def prod.case Some option.case
    by (rule yields_then, rule yields_cases(1); rule yields_set_then [OF assms])
       (rule yields_set_then, assumption, simp add: yields_ret, simp add: yields_ret)
qed (simp add: host_perms_def yields_ret assms)

lemma before_paths_at_entry:
  assumes laws: "kernel_laws e V legacy w" "quiet_laws e x V" and r: "same_but_args (regs_of e V h0) regs"
  shows "keeps (at_entry e V legacy h0) (before_paths_syscall e x regs info)"
proof -
  let ?E = "at_entry e V legacy h0" and ?r0 = "regs_of e V h0"
  have q: "memory_holds (moves_regs V (pid_of e)) (api e)" "host_holds (moves_regs V (pid_of e)) x"
    using laws(2) by (simp_all add: quiet_laws_def)
  have s: "setregs_law (api e) V" using laws(1) by (simp add: kernel_laws_def)
  have held: "ensures ?E m (\<lambda>_. True)" if "holds (stop_view (moves_regs V (pid_of e))) m"
    for m :: "('a handler, sysaug_error, 'c) io"
    using that by (rule at_entry_held) (simp add: yields_def)
  have get: "ensures ?E (get_mem_helper e) (mem_holds (kern_view (moves_regs V (pid_of e))))"
    by (rule at_entry_held)
       (auto simp: get_mem_helper_def yields_def io_simps mem_helpers_of_holds [OF q(1)] intro!: holds_intros)
  have wr: "keeps ?E (m_then (if b then in_kernel (setregs (api e) (pid_of e) r) else ret ()) (\<lambda>_. ret a))"
    if "same_but_args ?r0 r" for b r and a :: "path option list option"
    using at_entry_setregs [OF s that] by (intro ensures_then [where Q = "\<lambda>_. True"]) (auto intro!: ensures_intros)
  have hp: "keeps ?E (m_then (host_perms e info (r, b)) (\<lambda>(r, b).
      m_then (if b then in_kernel (setregs (api e) (pid_of e) r) else ret ()) (\<lambda>_. ret a)))"
    if "same_but_args ?r0 r" for b r and a :: "path option list option"
  proof (rule ensures_then)
    show "ensures ?E (host_perms e info (r, b)) (\<lambda>st. same_but_args ?r0 (fst st))"
      by (rule at_entry_held) (auto intro!: holds_intros yields_host_perms that)
  next
    fix st :: "generic_purpose_regs \<times> bool" assume "same_but_args ?r0 (fst st)"
    from wr [OF this, of "snd st"]
    show "keeps ?E (case st of (r, b) \<Rightarrow>
        m_then (if b then in_kernel (setregs (api e) (pid_of e) r) else ret ()) (\<lambda>_. ret a))"
      by (simp only: split_def)
  qed
  show ?thesis unfolding before_paths_syscall_def
  proof (rule ensures_then [OF get])
    fix mem assume m: "mem_holds (kern_view (moves_regs V (pid_of e))) mem"
    have tr: "ensures ?E (translate_args e x mem regs info [0..<5] (regs, replicate 4 None, False))
        (\<lambda>y. \<forall>st'. y = Some st' \<longrightarrow> path_state_ok ?r0 st')"
      by (rule at_entry_held, rule holds_translate [OF q m], rule yields_translate) (simp add: r)
    have fd: "keeps ?E (filefd_path e x (reg_args regs) info ps)" for ps by (rule held) (intro holds_intros q)
    have del: "keeps ?E (if d then for_each (delete_metadata_for_file e x) ps else ret ())" for d ps
      by (rule held) (intro holds_intros q)
    show "keeps ?E (m_then (translate_args e x mem regs info [0..<5] (regs, replicate 4 None, False)) (\<lambda>y.
      case y of
        None \<Rightarrow> ret None
      | Some (regs', save_paths, need_write_regs) \<Rightarrow>
          m_then (filefd_path e x (reg_args regs) info save_paths) (\<lambda>save_paths.
          let (regs', need_write_regs) =
                (if getdents_bits info \<noteq> None then (regs'\<lparr>arg2 := arg2 regs' div 2\<rparr>, True) else (regs', need_write_regs))
          in
          m_then (if deletion_type info \<noteq> None
                  then for_each (delete_metadata_for_file e x) (flatten save_paths)
                  else ret ()) (\<lambda>_.
          m_then (host_perms e info (regs', need_write_regs)) (\<lambda>(regs', need_write_regs).
          m_then (if need_write_regs then in_kernel (setregs (api e) (pid_of e) regs') else ret ()) (\<lambda>_.
          ret (Some save_paths)))))))"
      by (rule ensures_then [OF tr])
         (auto simp: Let_def split: option.split prod.split
           intro!: ensures_intros ensures_then [OF fd] ensures_then [OF del] hp)
  qed
qed

lemma once_paths:
  assumes laws: "kernel_laws e V legacy w" "quiet_laws e x V" and h: "at_entry e V legacy h0 h"
    and r: "same_but_args (regs_of e V h0) regs"
  shows "once e V legacy h0 (run w (augment_sys_paths e x regs info) h)"
  unfolding augment_sys_paths_def
proof (rule once_sync [OF before_paths_at_entry [OF laws r] h])
  fix y h assume "at_entry e V legacy h0 h"
  then show "once e V legacy h0 (run w (case y of
       None \<Rightarrow> do_skip_syscall e minus_ELOOP
     | Some save_paths \<Rightarrow> a_then (do_resume_syscall e) (\<lambda>s. sync (after_paths_syscall e x (reg_args regs) info save_paths s))) h)"
    using once_skip [OF laws(1)] once_resume [OF laws(1) _ holds_after_paths [OF laws(2)]] by (cases y) simp_all
qed

section \<open>Augmentation of execve\<close>

lemma holds_put_argv [holds_intros]: "memory_holds G (api e) \<Longrightarrow> holds (stop_view G) (put_argv e addrs argv)"
  unfolding put_argv_def argv_tail_def by (intro holds_intros)

lemma holds_exec_parts [holds_intros]:
  assumes "memory_holds G (api e)" "host_holds G x"
  shows "holds (stop_view G) (exec_path e x p info args)" "holds (stop_view G) (exec_interp e x regs info args p argv file header)"
proof -
  show "holds (stop_view G) (exec_path e x p info args)"
    unfolding exec_path_def exec_setid_def by (intro holds_intros assms) simp_all
  show "holds (stop_view G) (exec_interp e x regs info args p argv file header)"
    unfolding exec_interp_def by (intro holds_intros assms)
qed

lemma holds_exec_shebang [holds_intros]:
  "memory_holds G (api e) \<Longrightarrow> holds (stop_view G) (exec_shebang e regs argv shebang)"
  unfolding exec_shebang_def by (intro holds_intros)

lemma holds_expand [holds_intros]:
  assumes "memory_holds G (api e)" "host_holds G x"
  shows "holds (stop_view G) (expand_exec_with_parser n e x regs info)"
proof (induction n arbitrary: regs)
  case (Suc n)
  show ?case
    unfolding expand_exec_with_parser.simps
    by (rule holds_mem_then [OF assms(1)]) (intro holds_intros assms Suc.IH)
qed (simp add: holds_intros)

lemma yields_exec_interp:
  "same_but_args r0 regs \<Longrightarrow> yields (exec_interp e x regs info args p argv file header) (\<lambda>r. same_but_args r0 (snd r))"
  unfolding exec_interp_def by (intro yields_intros) simp

lemma yields_exec_shebang:
  "same_but_args r0 regs \<Longrightarrow> yields (exec_shebang e regs argv shebang) (\<lambda>r. \<forall>regs'. r = Some regs' \<longrightarrow> same_but_args r0 regs')"
  unfolding exec_shebang_def by (intro yields_intros) simp_all

lemma yields_expand:
  "same_but_args r0 regs \<Longrightarrow> yields (expand_exec_with_parser n e x regs info) (\<lambda>r. same_but_args r0 (snd r))"
proof (induction n arbitrary: regs)
  case (Suc n)
  have script: "yields (m_then (exec_shebang e regs argv shebang) (\<lambda>r. case r of
      None \<Rightarrow> ret (False, regs) | Some regs \<Rightarrow> expand_exec_with_parser n e x regs info)) (\<lambda>r. same_but_args r0 (snd r))"
    for argv shebang
    by (rule yields_bind [OF yields_exec_shebang [OF Suc.prems]])
       (auto split: option.split intro!: yields_ret Suc.IH Suc.prems)
  have elf: "yields (case find_interp phdrs of
        Some header \<Rightarrow> exec_interp e x regs info args p argv fl header
      | None \<Rightarrow> m_then (tracee_stack_append_path e q) (\<lambda>path_addr. ret (True, regs\<lparr>arg0 := path_addr\<rparr>)))
      (\<lambda>r. same_but_args r0 (snd r))" for phdrs args p q argv fl
    by (cases "find_interp phdrs") (auto intro!: yields_exec_interp yields_intros Suc.prems)
  have parse: "yields (m_then (parse_shebang x fl) (\<lambda>shebang. case shebang of
        None \<Rightarrow> ret (False, regs)
      | Some shebang \<Rightarrow> m_then (exec_shebang e regs argv shebang) (\<lambda>r. case r of
          None \<Rightarrow> ret (False, regs) | Some regs \<Rightarrow> expand_exec_with_parser n e x regs info))) (\<lambda>r. same_but_args r0 (snd r))"
    for fl argv
    by (rule yields_then, rule yields_cases(2)) (auto intro!: yields_ret script Suc.prems)
  have opened: "yields (m_then (nix (elf_headers x fl)) (\<lambda>maybe. case maybe of
        Inr phdrs \<Rightarrow> (case find_interp phdrs of
            Some header \<Rightarrow> exec_interp e x regs info args p argv fl header
          | None \<Rightarrow> m_then (tracee_stack_append_path e q) (\<lambda>path_addr. ret (True, regs\<lparr>arg0 := path_addr\<rparr>)))
      | Inl _ \<Rightarrow> m_then (parse_shebang x fl) (\<lambda>shebang. case shebang of
            None \<Rightarrow> ret (False, regs)
          | Some shebang \<Rightarrow> m_then (exec_shebang e regs argv shebang) (\<lambda>r. case r of
              None \<Rightarrow> ret (False, regs) | Some regs \<Rightarrow> expand_exec_with_parser n e x regs info))))
      (\<lambda>r. same_but_args r0 (snd r))" for fl args p q argv
    by (rule yields_then, rule yields_cases(4)) (rule parse, rule elf)
  show ?case
    unfolding expand_exec_with_parser.simps Let_def
    by (rule yields_then, rule yields_then, rule yields_then, rule yields_then, rule yields_cases(2))
       (simp add: yields_ret Suc.prems, rule yields_then, rule yields_cases(1), simp add: yields_ret Suc.prems,
         rule yields_then, rule yields_with_file, rule opened)
qed (simp add: yields_intros)

lemma once_exec:
  assumes laws: "kernel_laws e V legacy w" "quiet_laws e x V" and h: "at_entry e V legacy h0 h"
    and r: "same_but_args (regs_of e V h0) regs"
  shows "once e V legacy h0 (run w (augment_sys_exec e x regs info) h)"
proof -
  have q: "memory_holds (moves_regs V (pid_of e)) (api e)" "host_holds (moves_regs V (pid_of e)) x"
    using laws(2) by (simp_all add: quiet_laws_def)
  have pre: "ensures (at_entry e V legacy h0) (expand_exec_with_parser (link_limit x) e x regs info)
      (\<lambda>y. same_but_args (regs_of e V h0) (snd y))"
    by (rule at_entry_held [OF holds_expand [OF q] yields_expand [OF r]])
  show ?thesis unfolding augment_sys_exec_def
  proof (rule once_sync [OF pre h])
    fix y :: "bool \<times> generic_purpose_regs" and h
    assume y: "same_but_args (regs_of e V h0) (snd y)" and h: "at_entry e V legacy h0 h"
    show "once e V legacy h0 (run w (case y of (expanded, regs) \<Rightarrow>
        if \<not> expanded then do_skip_syscall e minus_ENOENT
        else a_then (sync (in_kernel (setregs (api e) (pid_of e) regs))) (\<lambda>_.
          a_then (do_resume_syscall e) (\<lambda>_. sync (ret ())))) h)"
      using once_skip [OF laws(1) h] once_setregs_resume [OF laws(1) h y] by (simp add: split_def)
  qed
qed

section \<open>All augmentations\<close>

lemma once_call_augment:
  assumes laws: "kernel_laws e V legacy w" "quiet_laws e x V" and h: "at_entry e V legacy h0 h"
    and r: "same_but_args (regs_of e V h0) regs" and aug: "aug \<noteq> AugNone"
  shows "once e V legacy h0 (run w (call_augment e x (Some aug) regs info) h)"
proof (cases aug)
  case AugUnimplemented
  then show ?thesis using h by (simp add: run_simps io_simps once_def at_entry_def)
qed (use assms once_clone once_exec once_paths once_perms once_waitpid once_seccomp in simp_all)

text \<open>No entry of the table leaves the augmentation open.\<close>

fun augmented :: "define_step \<Rightarrow> bool" where
  "augmented (Define info) = (augment info \<noteq> AugNone)"
| "augmented (Modify f) = (\<forall>v. augment (f v) = augment v)"

lemma entries_augmented:
  assumes "\<forall>s \<in> set ss. augmented s" "\<forall>i \<in> set acc. augment i \<noteq> AugNone"
  shows "\<forall>i \<in> set (entries_of ss acc). augment i \<noteq> AugNone"
  using assms
proof (induction ss acc rule: entries_of.induct)
  case (3 f ss acc)
  have "\<forall>i \<in> set (if acc = [] then [] else butlast acc @ [f (last acc)]). augment i \<noteq> AugNone"
    using "3.prems" by (auto dest: in_set_butlastD)
  with 3 show ?case by simp
qed auto

lemma all_syscalls_augmented: "\<forall>s \<in> set (all_syscalls L). augmented s"
  by (simp add: all_syscalls_def syscall_blocks define_macros)

lemma table_augments:
  assumes "libc_ok L" "get_syscall L n = Some (Some info)"
  shows "augment info \<noteq> AugNone"
proof -
  have "info \<in> set (table_infos L)"
    using assms by (auto simp: get_syscall_eq find_Some_iff)
  then show ?thesis
    using entries_augmented [OF all_syscalls_augmented, of "[]" L] by (simp add: table_infos_def)
qed

section \<open>One iteration of the loop\<close>

lemma at_entry_self: "in_step e V legacy h \<Longrightarrow> is_after_syscall_entry h \<Longrightarrow> at_entry e V legacy h h"
  by (simp add: at_entry_def)

lemma at_entry_cells [simp]:
  "at_entry e V legacy h0 (h\<lparr>orig_syscall_num := n\<rparr>) = at_entry e V legacy h0 h"
  "at_entry e V legacy h0 (h\<lparr>tracee_stack_offset := a\<rparr>) = at_entry e V legacy h0 h"
  by (simp_all add: at_entry_def in_step_def)

lemma once_looked_up:
  assumes laws: "kernel_laws e V legacy w" "quiet_laws e x V" and h: "at_entry e V legacy h0 h"
    and r: "same_but_args (regs_of e V h0) regs" and info: "\<And>i. info = Some i \<Longrightarrow> augment i \<noteq> AugNone"
  shows "once e V legacy h0 (run w (case info of
      Some i \<Rightarrow> call_augment e x (Some (augment i)) regs i
    | None \<Rightarrow> a_then (do_resume_syscall e) (\<lambda>_. sync (ret ()))) h)"
  using once_resume_ret [OF laws(1) h] once_call_augment [OF laws h r] info by (cases info) simp_all

lemma lookup_Inr: "lookup_syscall e n h = (Inr info, h') \<longleftrightarrow> get_syscall (env_libc e) n = Some info \<and> h' = h"
  by (auto simp: lookup_syscall_def io_simps split: option.split)

text \<open>The handler at the stop where an iteration looks at the system call.\<close>

definition at_stop :: "'k handler between \<Rightarrow> 'k handler \<Rightarrow> 'k handler" where
  "at_stop w h = snd (run w wait_for_syscall (h\<lparr>yielder_syscall := yielder_unblock (yielder_syscall h)\<rparr>))"

lemma handle_syscall_parts:
  assumes laws: "kernel_laws e V legacy w" and h: "in_step e V legacy h" "\<not> is_after_syscall_entry h"
    and run: "run w (handle_syscall e x n False) h = (Inr (Inr False), h')"
  obtains h2 info y h3 regs where "executed e V (at_stop w h) = executed e V h" "at_entry e V legacy (at_stop w h) h2"
    "get_syscall (env_libc e) (syscall_num (regs_of e V (at_stop w h))) = Some info"
    "run w (case info of
        Some i \<Rightarrow> call_augment e x (Some (augment i)) (regs_of e V (at_stop w h)) i
      | None \<Rightarrow> a_then (do_resume_syscall e) (\<lambda>_. sync (ret ()))) h2 = (Inr y, h3)"
    "in_kernel (getregs (api e) (pid_of e)) h3 = (Inr regs, h')"
proof -
  let ?h = "h\<lparr>yielder_syscall := yielder_unblock (yielder_syscall h)\<rparr>"
  have i: "in_step e V legacy ?h" "\<not> is_after_syscall_entry ?h" using h by (simp_all add: in_step_def)
  obtain st h1 where w: "run w wait_for_syscall ?h = (Inr st, h1)" and m: "moved e V True ?h h1"
    using wait_entry [OF laws i] by blast
  then have h1: "at_stop w h = h1" by (simp add: at_stop_def)
  have step1: "in_step e V legacy h1" "is_after_syscall_entry h1"
    using moved_in_step [OF i(1) m] m by (simp_all add: moved_def)
  let ?h1 = "h1\<lparr>orig_syscall_num := None\<rparr>" and ?h2 = "h1\<lparr>orig_syscall_num := None, tracee_stack_offset := 0\<rparr>"
  have "phase_of e V ?h1 \<noteq> UserCode" using step1 by (simp add: in_step_def)
  then have g: "in_kernel (getregs (api e) (pid_of e)) ?h1 = (Inr (regs_of e V h1), ?h1)"
    using in_kernel_getregs [of e V ?h1] laws by (simp add: kernel_laws_def)
  let ?aug = "\<lambda>info. case info of
        Some i \<Rightarrow> call_augment e x (Some (augment i)) (regs_of e V h1) i
      | None \<Rightarrow> a_then (do_resume_syscall e) (\<lambda>_. sync (ret ()))"
  have "\<exists>info y h3. get_syscall (env_libc e) (syscall_num (regs_of e V h1)) = Some info \<and>
      run w (?aug info) ?h2 = (Inr y, h3) \<and>
      (\<exists>regs. in_kernel (getregs (api e) (pid_of e)) h3 = (Inr regs, h'))"
    using run w g
    by (simp add: handle_syscall_def unblock_yielder_def tracee_stack_seek_def run_simps m_then_eq_Inr ret_apply
        gets_modify_apply lookup_Inr split: if_splits) blast+
  then show ?thesis
    using that [of ?h2] m step1 at_entry_self [OF step1] unfolding h1 by (auto simp: moved_def)
qed

section \<open>Properties\<close>

text \<open>The small kernel and its files keep the laws.\<close>

lemma sim_quiet: "quiet_laws (sim_env L args) sim_host sim_view"
proof -
  have host: "host_holds (moves_regs sim_view 1) sim_host"
    by (auto simp: host_holds_def holds_def moves_regs_def moves_def sim_host_def sim_view_def sim_open_def on_file_def
        sim_file_def sim_set_file_def split: option.split sim_node.split)
  have mem: "memory_holds (moves_regs sim_view 1) sim_api"
    by (auto simp: memory_holds_def holds_def moves_regs_def moves_def sim_api_def sim_view_def no_call_def split: prod.split)
  show ?thesis
    using host mem by (simp add: quiet_laws_def sim_env_def holds_def moves_def sim_api_def sim_view_def)
qed

text \<open>
  C4.  Every augmentation keeps the protocol of a system call: from the stop at the entry of a system call it has at most one
  call executed for the tracee, which is that system call with at most its first five arguments replaced, or the
  harmless call that stands for a skipped one; and when it returns without an error, exactly one call was executed and the
  handler is in step with the tracee at the exit of the call.
\<close>

theorem augmentation_executes_once:
  assumes "kernel_laws e V legacy w" "quiet_laws e x V" "in_step e V legacy h" "is_after_syscall_entry h"
    and "augment info \<noteq> AugNone"
    and "run w (call_augment e x (Some (augment info)) (regs_of e V h) info) h = (r, h')"
  shows "\<exists>calls. executed e V h' = executed e V h @ calls \<and> length calls \<le> 1 \<and>
    (\<forall>c \<in> set calls. stands_for (env_libc e) (regs_of e V h) c) \<and>
    (r = Inr () \<longrightarrow> length calls = 1 \<and> in_step e V legacy h' \<and> \<not> is_after_syscall_entry h')"
  using once_call_augment [OF assms(1,2) at_entry_self [OF assms(3,4)] same_but_args_refl assms(5), of info]
  unfolding assms(6) once_def by auto

theorem augmentation_executes_once_witness:
  "\<exists>h' r. run (sim_between True 1)
       (call_augment (sim_env x86_64_libc default_sysaug_args) sim_host (Some AugClone) (zero_regs\<lparr>syscall_num := 56\<rparr>)
          (default_syscall_info\<lparr>augment := AugClone\<rparr>))
       (sim_handler (zero_regs\<lparr>syscall_num := 56\<rparr>) SeccompStop True True) = (r, h') \<and>
     length (sim_executed (kern (globals h')) 1) \<le> 1"
proof -
  let ?e = "sim_env x86_64_libc default_sysaug_args" and ?r = "zero_regs\<lparr>syscall_num := 56\<rparr>"
    and ?i = "default_syscall_info\<lparr>augment := AugClone\<rparr>"
  let ?h = "sim_handler ?r SeccompStop True True"
  have i: "in_step ?e sim_view True ?h" by (rule sim_in_step) simp
  obtain r h' where run: "run (sim_between True 1) (call_augment ?e sim_host (Some AugClone) ?r ?i) ?h = (r, h')"
    by fastforce
  then have "run (sim_between True 1) (call_augment ?e sim_host (Some (augment ?i)) (regs_of ?e sim_view ?h) ?i) ?h = (r, h')"
    by (simp add: sim_simps)
  from augmentation_executes_once [OF sim_laws sim_quiet i sim_after_entry _ this]
  have "length (sim_executed (kern (globals h')) 1) \<le> 1" by (auto simp: sim_simps)
  with run show ?thesis by blast
qed

text \<open>
  C5.  One iteration of the loop over system calls that does not start a new program has exactly one call executed
  for the tracee, in the place of the one the tracee stopped at, and ends in step with the tracee, ready for the next iteration.
\<close>

theorem iteration_executes_once:
  assumes laws: "kernel_laws e V legacy w" "quiet_laws e x V" and L: "libc_ok (env_libc e)"
    and h: "in_step e V legacy h" "\<not> is_after_syscall_entry h"
    and run: "run w (handle_syscall e x n False) h = (Inr (Inr False), h')"
  shows "in_step e V legacy h' \<and> \<not> is_after_syscall_entry h' \<and>
    (\<exists>c. executed e V h' = executed e V h @ [c] \<and> stands_for (env_libc e) (regs_of e V (at_stop w h)) c)"
proof -
  obtain h2 info y h3 regs where ex: "executed e V (at_stop w h) = executed e V h"
    and h2: "at_entry e V legacy (at_stop w h) h2"
    and info: "get_syscall (env_libc e) (syscall_num (regs_of e V (at_stop w h))) = Some info"
    and aug: "run w (case info of
        Some i \<Rightarrow> call_augment e x (Some (augment i)) (regs_of e V (at_stop w h)) i
      | None \<Rightarrow> a_then (do_resume_syscall e) (\<lambda>_. sync (ret ()))) h2 = (Inr y, h3)"
    and g: "in_kernel (getregs (api e) (pid_of e)) h3 = (Inr regs, h')"
    using handle_syscall_parts [OF laws(1) h run] .
  have "augment i \<noteq> AugNone" if "info = Some i" for i using table_augments [OF L] info that by simp
  from once_looked_up [where info = info, OF laws h2 same_but_args_refl this]
  obtain calls where c: "executed e V h3 = executed e V h @ calls" "length calls = 1"
    "\<forall>c \<in> set calls. stands_for (env_libc e) (regs_of e V (at_stop w h)) c"
    and i: "in_step e V legacy h3" "\<not> is_after_syscall_entry h3"
    using ex unfolding aug by (auto simp: once_def)
  have "phase_of e V h3 \<noteq> UserCode" using i by (simp add: in_step_def)
  then have "h' = h3" using in_kernel_getregs [of e V h3] laws(1) g by (simp add: kernel_laws_def)
  moreover obtain c0 where "calls = [c0]" using c(2) by (cases calls) auto
  ultimately show ?thesis using c i by auto
qed

text \<open>\<open>read\<close>, number 0, is not in the table.\<close>

lemma get_syscall_read: "get_syscall x86_64_libc 0 = Some None"
proof -
  have "set (map (SYS x86_64_libc) intercepted) = set x86_64_numbers" using x86_64_SYS by simp
  moreover have "0 \<notin> set x86_64_numbers" by (simp add: x86_64_numbers_def)
  ultimately have "0 \<notin> set (map num (table_infos x86_64_libc))" unfolding table_nums_set by simp
  then have "num i \<noteq> 0" if "i \<in> set (table_infos x86_64_libc)" for i using that by (metis imageI list.set_map)
  then have "0 < unat (as_usize (num i))" if "i \<in> set (table_infos x86_64_libc)" for i
    using table_num_bounds [OF x86_64_libc_ok that] as_usize_small [of "num i"] that by fastforce
  then have "as_usize (num i) \<noteq> 0" if "i \<in> set (table_infos x86_64_libc)" for i using that by fastforce
  then show ?thesis by (simp add: get_syscall_eq [OF x86_64_libc_ok] find_None_iff)
qed

lemma sim_getregs:
  "in_kernel (getregs (api (sim_env L args)) (pid_of (sim_env L args))) h = (Inr (sim_regs (kern (globals h)) 1), h)"
  by (simp add: in_kernel_Inr getregs_def io_simps sim_env_def sim_api_def)

lemma sim_wait:
  "tracee_seccomp_init_complete h \<Longrightarrow> \<not> is_after_syscall_entry h \<Longrightarrow>
     \<exists>st h'. run (sim_between False 1) wait_for_syscall h = (Inr st, h') \<and> is_after_syscall_entry h' \<and>
       tracee_seccomp_init_complete h' \<and> is_legacy_seccomp h' = is_legacy_seccomp h \<and>
       syscall_num (sim_regs (kern (globals h')) 1) = syscall_num (sim_regs (kern (globals h)) 1)"
  "tracee_seccomp_init_complete h \<Longrightarrow> is_after_syscall_entry h \<Longrightarrow> \<not> is_legacy_seccomp h \<Longrightarrow>
     \<exists>st h'. run (sim_between False 1) wait_for_syscall h = (Inr st, h') \<and>
       syscall_num (sim_regs (kern (globals h')) 1) = syscall_num (sim_regs (kern (globals h)) 1)"
  by (auto simp: wait_for_syscall_entry wait_for_syscall_exit await_def run_simps m_then_apply ret_apply gets_modify_apply
      sim_between_def sim_syscall_stop_def is_seccomp_event_def Let_def)

theorem iteration_executes_once_witness:
  "\<exists>h'. run (sim_between False 1) (handle_syscall (sim_env x86_64_libc default_sysaug_args) sim_host 1 False)
       (sim_handler zero_regs ExitStop False True) = (Inr (Inr False), h') \<and>
     length (sim_executed (kern (globals h')) 1) = 1"
proof -
  let ?e = "sim_env x86_64_libc default_sysaug_args" and ?h = "sim_handler zero_regs ExitStop False True"
  let ?g = "?h\<lparr>yielder_syscall := yielder_unblock (yielder_syscall ?h)\<rparr>"
  obtain st h1 where w1: "run (sim_between False 1) wait_for_syscall ?g = (Inr st, h1)" "is_after_syscall_entry h1"
    "tracee_seccomp_init_complete h1" "\<not> is_legacy_seccomp h1" "syscall_num (sim_regs (kern (globals h1)) 1) = 0"
    using sim_wait(1) [of ?g] by (auto simp: sim_handler_def initial_globals_def zero_regs_def words_regs_def)
  let ?h2 = "h1\<lparr>orig_syscall_num := None, tracee_stack_offset := 0\<rparr>"
  obtain st2 h' where w2: "run (sim_between False 1) wait_for_syscall ?h2 = (Inr st2, h')"
    "syscall_num (sim_regs (kern (globals h')) 1) = 0"
    using sim_wait(2) [of ?h2] w1 by auto
  have look: "lookup_syscall ?e 0 h = (Inr None, h)" for h
    by (simp add: lookup_Inr get_syscall_read sim_simps)
  have unblock: "unblock_yielder ?h = (Inr (), ?g)" unfolding unblock_yielder_def modify_def by (rule refl)
  have args: "args_gdb_at (args_of ?e) = None" by (simp add: sim_simps default_sysaug_args_def)
  have run: "run (sim_between False 1) (handle_syscall ?e sim_host 1 False) ?h = (Inr (Inr False), h')"
    unfolding handle_syscall_def do_resume_syscall_def run_simps
    by (simp add: m_then_apply unblock w1 w2 sim_getregs look args tracee_stack_seek_def run_simps do_resume_syscall_def
        ret_apply gets_modify_apply del: sim_simps)
  have i: "in_step ?e sim_view False ?h" by (rule sim_in_step) simp
  have "\<not> is_after_syscall_entry ?h" by (simp add: sim_handler_def)
  from iteration_executes_once [OF sim_laws sim_quiet _ i this run]
  have "length (sim_executed (kern (globals h')) 1) = 1" by (auto simp: sim_simps x86_64_libc_ok)
  with run show ?thesis by blast
qed

end
