(* ===== verification/Main_Thread_Executor.thy ===== *)
theory Main_Thread_Executor
  imports Executor
begin

text \<open>
  The executor that makes all ptrace calls on the main thread (\<open>MainThreadServer\<close> and \<open>MainThreadClient\<close> of
  \<open>executor/src/lib.rs\<close>, option \<open>--fix-attach\<close>): tracer threads send closures through a channel with room for one
  request and wait for the result on a channel of their own; the main thread runs the closures.  When the server is
  gone, requests that are still in the channel are dropped with it, and their clients get an error.

  The threads interleave, so the executor is a step relation.  A closure is a function on the world.  The last six
  fields are not part of the program: they record the requests that were sent, those that were dropped with the channel, the
  closures that ran, the results that clients returned, each with the world in which its closure ran, and the
  errors they returned.
\<close>

section \<open>State\<close>

type_synonym client = nat
type_synonym ('k, 'a) closure = "'k \<Rightarrow> 'a \<times> 'k"

text \<open>The places in \<open>serve\<close>: before it, at the loop condition, at \<open>recv_timeout\<close>, with a request, after it.\<close>

datatype ('k, 'a) server_pc =
    NotStarted | LoopHead | Receiving | Running client "('k, 'a) closure" | Returned "executor_error + unit"

text \<open>The places in \<open>execute\<close>: outside, and waiting for the result of a closure.\<close>

datatype ('k, 'a) client_pc = Outside | AwaitResult "('k, 'a) closure"

record ('k, 'a) main_thread =
  mt_world :: 'k
  req_queue :: "(client \<times> ('k, 'a) closure) list"
  receiver :: bool
  should_serve :: bool
  server :: "('k, 'a) server_pc"
  clients :: "client \<Rightarrow> ('k, 'a) client_pc"
  alive :: "client set"
  result_of :: "client \<Rightarrow> 'a option"
  sent :: "(client \<times> ('k, 'a) closure) list"
  dropped :: "(client \<times> ('k, 'a) closure) list"
  history :: "(client \<times> ('k, 'a) closure) list"
  answers :: "(client \<times> ('k, 'a) closure \<times> 'k \<times> 'a) list"
  pending_world :: "client \<Rightarrow> 'k option"
  failures :: "(client \<times> executor_error) list"

definition CHANNEL_SIZE :: nat where "CHANNEL_SIZE = 1"

definition new_main_thread_executor :: "'k \<Rightarrow> ('k, 'a) main_thread" where
  "new_main_thread_executor k = \<lparr>mt_world = k, req_queue = [], receiver = True, should_serve = False, server = NotStarted,
     clients = (\<lambda>_. Outside), alive = {0}, result_of = (\<lambda>_. None), sent = [], dropped = [], history = [], answers = [], pending_world = (\<lambda>_. None), failures = []\<rparr>"

section \<open>Steps\<close>

text \<open>The server: \<open>serve\<close>, statement by statement, and the end of the life of the server and of its end of the channel.\<close>

inductive serve_step :: "('k, 'a) main_thread \<Rightarrow> ('k, 'a) main_thread \<Rightarrow> bool" where
  serve_start: "server s = NotStarted \<Longrightarrow> receiver s \<Longrightarrow> serve_step s (s\<lparr>should_serve := True, server := LoopHead\<rparr>)"
| serve_again: "server s = LoopHead \<Longrightarrow> should_serve s \<Longrightarrow> serve_step s (s\<lparr>server := Receiving\<rparr>)"
| serve_end: "server s = LoopHead \<Longrightarrow> \<not> should_serve s \<Longrightarrow> serve_step s (s\<lparr>server := Returned (Inr ())\<rparr>)"
| serve_timeout: "server s = Receiving \<Longrightarrow> req_queue s = [] \<Longrightarrow> alive s \<noteq> {} \<Longrightarrow> serve_step s (s\<lparr>server := LoopHead\<rparr>)"
| serve_disconnected: "server s = Receiving \<Longrightarrow> req_queue s = [] \<Longrightarrow> alive s = {} \<Longrightarrow>
    serve_step s (s\<lparr>server := (if should_serve s then Returned (Inl TaskDequeue) else LoopHead)\<rparr>)"
| serve_receive: "server s = Receiving \<Longrightarrow> req_queue s = (c, f) # q \<Longrightarrow>
    serve_step s (s\<lparr>req_queue := q, server := Running c f\<rparr>)"
| serve_run: "server s = Running c f \<Longrightarrow> f (mt_world s) = (a, k) \<Longrightarrow>
    serve_step s (s\<lparr>mt_world := k, server := LoopHead, result_of := (result_of s)(c := Some a),
      history := history s @ [(c, f)], pending_world := (pending_world s)(c := Some (mt_world s))\<rparr>)"
| serve_drop: "server s = NotStarted \<or> (\<exists>r. server s = Returned r) \<Longrightarrow> receiver s \<Longrightarrow>
    serve_step s (s\<lparr>receiver := False, req_queue := [], dropped := dropped s @ req_queue s\<rparr>)"

text \<open>The clients: the two halves of \<open>execute\<close>, \<open>stop\<close>, \<open>clone\<close> and dropping a client.\<close>

inductive client_step :: "('k, 'a) main_thread \<Rightarrow> ('k, 'a) main_thread \<Rightarrow> bool" where
  execute_send: "c \<in> alive s \<Longrightarrow> clients s c = Outside \<Longrightarrow> receiver s \<Longrightarrow> length (req_queue s) < CHANNEL_SIZE \<Longrightarrow>
    client_step s (s\<lparr>req_queue := req_queue s @ [(c, f)], clients := (clients s)(c := AwaitResult f), sent := sent s @ [(c, f)]\<rparr>)"
| execute_recv: "clients s c = AwaitResult f \<Longrightarrow> result_of s c = Some a \<Longrightarrow> pending_world s c = Some k \<Longrightarrow>
    client_step s (s\<lparr>clients := (clients s)(c := Outside), result_of := (result_of s)(c := None),
      answers := answers s @ [(c, f, k, a)], pending_world := (pending_world s)(c := None)\<rparr>)"
| execute_send_error: "c \<in> alive s \<Longrightarrow> clients s c = Outside \<Longrightarrow> \<not> receiver s \<Longrightarrow>
    client_step s (s\<lparr>failures := failures s @ [(c, TaskEnqueue)]\<rparr>)"
| execute_recv_error: "clients s c = AwaitResult f \<Longrightarrow> result_of s c = None \<Longrightarrow> \<not> receiver s \<Longrightarrow>
    client_step s (s\<lparr>clients := (clients s)(c := Outside), failures := failures s @ [(c, ResultDequeue)]\<rparr>)"
| client_stop: "c \<in> alive s \<Longrightarrow> clients s c = Outside \<Longrightarrow> client_step s (s\<lparr>should_serve := False\<rparr>)"
| client_clone: "c \<in> alive s \<Longrightarrow> d \<notin> alive s \<Longrightarrow> clients s d = Outside \<Longrightarrow> client_step s (s\<lparr>alive := insert d (alive s)\<rparr>)"
| client_drop: "c \<in> alive s \<Longrightarrow> clients s c = Outside \<Longrightarrow> client_step s (s\<lparr>alive := alive s - {c}\<rparr>)"

definition mt_step :: "('k, 'a) main_thread \<Rightarrow> ('k, 'a) main_thread \<Rightarrow> bool" where
  "mt_step s s' \<longleftrightarrow> serve_step s s' \<or> client_step s s'"

inductive mt_reachable :: "'k \<Rightarrow> ('k, 'a) main_thread \<Rightarrow> bool" for k where
  mt_init: "mt_reachable k (new_main_thread_executor k)"
| mt_next: "mt_reachable k s \<Longrightarrow> mt_step s s' \<Longrightarrow> mt_reachable k s'"

inductive_cases serve_stepE: "serve_step s s'"
inductive_cases client_stepE: "client_step s s'"

section \<open>The local client as a specification\<close>

text \<open>
  \<open>LocalPtraceClient::execute\<close> runs a closure at once.  A run of it over a list of requests: the world
  afterwards, and each request with the world it started in and its result.
\<close>

definition local_execute :: "('k, 'a) closure \<Rightarrow> 'k \<Rightarrow> 'a \<times> 'k" where
  "local_execute f k = f k"

fun local_world :: "(client \<times> ('k, 'a) closure) list \<Rightarrow> 'k \<Rightarrow> 'k" where
  "local_world [] k = k"
| "local_world ((c, f) # rs) k = local_world rs (snd (local_execute f k))"

fun local_answers :: "(client \<times> ('k, 'a) closure) list \<Rightarrow> 'k \<Rightarrow> (client \<times> ('k, 'a) closure \<times> 'k \<times> 'a) list" where
  "local_answers [] k = []"
| "local_answers ((c, f) # rs) k = (c, f, k, fst (local_execute f k)) # local_answers rs (snd (local_execute f k))"

lemma local_world_append [simp]: "local_world (rs @ [(c, f)]) k = snd (f (local_world rs k))"
  by (induction rs k rule: local_world.induct) (simp_all add: local_execute_def)

lemma local_answers_append [simp]:
  "local_answers (rs @ [(c, f)]) k =
     local_answers rs k @ [(c, f, local_world rs k, fst (f (local_world rs k)))]"
  by (induction rs k rule: local_answers.induct) (simp_all add: local_execute_def)

section \<open>Invariant\<close>

text \<open>The requests of a client that are on their way: in the channel, being run, or answered.\<close>

definition in_flight :: "('k, 'a) main_thread \<Rightarrow> client \<Rightarrow> nat" where
  "in_flight s c = length (filter (\<lambda>r. fst r = c) (req_queue s)) +
     (case server s of Running d f \<Rightarrow> (if d = c then 1 else 0) | _ \<Rightarrow> 0) +
     (if result_of s c = None then 0 else 1)"

text \<open>What runs is what was asked for.\<close>

definition asked :: "('k, 'a) main_thread \<Rightarrow> client \<Rightarrow> ('k, 'a) closure \<Rightarrow> bool" where
  "asked s c f \<longleftrightarrow> clients s c = AwaitResult f"

text \<open>
  A client outside \<open>execute\<close> has nothing on its way, and one inside has one request, unless the server is gone.
\<close>

definition flight_of :: "('k, 'a) main_thread \<Rightarrow> client \<Rightarrow> bool" where
  "flight_of s c \<longleftrightarrow>
     (if receiver s then in_flight s c = (if clients s c = Outside then 0 else 1)
      else in_flight s c \<le> (if clients s c = Outside then 0 else 1))"

definition server_gone :: "('k, 'a) main_thread \<Rightarrow> bool" where
  "server_gone s \<longleftrightarrow> req_queue s = [] \<and> (server s = NotStarted \<or> (\<exists>r. server s = Returned r))"

definition flight_inv :: "('k, 'a) main_thread \<Rightarrow> bool" where
  "flight_inv s \<longleftrightarrow> (\<forall>c. flight_of s c) \<and> (\<not> receiver s \<longrightarrow> server_gone s)"

lemma flight_inv_of: "flight_inv s \<Longrightarrow> flight_of s c"
  by (simp add: flight_inv_def)

lemma flight_le: "flight_inv s \<Longrightarrow> in_flight s c \<le> 1"
  by (drule flight_inv_of [where c = c]) (simp add: flight_of_def split: if_splits)

lemma flight_outside: "flight_inv s \<Longrightarrow> clients s c = Outside \<Longrightarrow> in_flight s c = 0"
  by (drule flight_inv_of [where c = c]) (simp add: flight_of_def split: if_splits)

text \<open>The answer that waits for its client.\<close>

definition unreceived :: "('k, 'a) main_thread \<Rightarrow> client \<Rightarrow> (client \<times> ('k, 'a) closure \<times> 'k \<times> 'a) list" where
  "unreceived s c =
     (case (clients s c, pending_world s c, result_of s c) of
        (AwaitResult f, Some w, Some a) \<Rightarrow> [(c, f, w, a)]
      | _ \<Rightarrow> [])"

definition of_client :: "client \<Rightarrow> (client \<times> 'b) list \<Rightarrow> (client \<times> 'b) list" where
  "of_client c rs = filter (\<lambda>r. fst r = c) rs"

text \<open>The request that is being run, and those in the channel.\<close>

definition under_way :: "('k, 'a) main_thread \<Rightarrow> (client \<times> ('k, 'a) closure) list" where
  "under_way s = (case server s of Running c f \<Rightarrow> [(c, f)] | _ \<Rightarrow> []) @ req_queue s"

text \<open>No request is lost or run twice: requests run in the order in which they were sent, and what was sent and did not run is on its way or was dropped.\<close>

definition conserved :: "('k, 'a) main_thread \<Rightarrow> bool" where
  "conserved s \<longleftrightarrow> sent s = history s @ under_way s @ dropped s \<and>
     (if receiver s then dropped s = [] \<and> failures s = [] else under_way s = [])"

lemma conserved_step:
  assumes "mt_step s s'" "conserved s"
  shows "conserved s'"
proof -
  from assms(1) consider "serve_step s s'" | "client_step s s'" by (auto simp: mt_step_def)
  then show ?thesis
  proof cases
    case 1
    then show ?thesis using assms(2)
      by (cases rule: serve_step.cases) (auto simp: conserved_def under_way_def split: if_splits)
  next
    case 2
    then show ?thesis using assms(2)
      by (cases rule: client_step.cases) (auto simp: conserved_def under_way_def split: if_splits)
  qed
qed

lemma conserved_reachable: "mt_reachable k s \<Longrightarrow> conserved s"
proof (induction rule: mt_reachable.induct)
  case mt_init
  show ?case by (simp add: conserved_def under_way_def new_main_thread_executor_def)
qed (blast intro: conserved_step)

definition mt_inv :: "'k \<Rightarrow> ('k, 'a) main_thread \<Rightarrow> bool" where
  "mt_inv k s \<longleftrightarrow>
     mt_world s = local_world (history s) k \<and>
     (\<forall>(c, f) \<in> set (req_queue s). asked s c f) \<and>
     (\<forall>c f. server s = Running c f \<longrightarrow> asked s c f) \<and>
     (\<forall>c. of_client c (local_answers (history s) k) = of_client c (answers s) @ unreceived s c) \<and>
     length (req_queue s) \<le> CHANNEL_SIZE"

lemma mt_inv_init: "mt_inv k (new_main_thread_executor k)" "flight_inv (new_main_thread_executor k)"
  by (simp_all add: mt_inv_def flight_inv_def flight_of_def new_main_thread_executor_def in_flight_def of_client_def unreceived_def)

lemma in_flight_step:
  assumes "mt_step s s'" "flight_inv s"
  shows "flight_inv s'"
proof -
  have flight: "flight_of s c" for c using assms(2) by (simp add: flight_inv_def)
  have gone: "receiver s \<or> server_gone s" using assms(2) by (auto simp: flight_inv_def)
  from assms(1) consider "serve_step s s'" | "client_step s s'" by (auto simp: mt_step_def)
  then show ?thesis
  proof cases
    case 1
    have "flight_of s' c" for c
      using 1 flight [of c] gone
      by (cases rule: serve_step.cases) (auto simp: in_flight_def flight_of_def server_gone_def split: if_splits)
    moreover have "receiver s' \<or> server_gone s'"
      using 1 gone by (cases rule: serve_step.cases) (auto simp: server_gone_def)
    ultimately show ?thesis by (auto simp: flight_inv_def)
  next
    case 2
    have "flight_of s' c" for c
      using 2 flight [of c] gone
      by (cases rule: client_step.cases) (auto simp: in_flight_def flight_of_def server_gone_def split: if_splits)
    moreover have "receiver s' \<or> server_gone s'"
      using 2 gone by (cases rule: client_step.cases) (auto simp: server_gone_def)
    ultimately show ?thesis by (auto simp: flight_inv_def)
  qed
qed

text \<open>A client whose request is in the channel or being run has no result yet.\<close>

lemma flight_no_result:
  assumes "flight_inv s"
  shows "server s = Running c f \<Longrightarrow> result_of s c = None"
    and "(c, f) \<in> set (req_queue s) \<Longrightarrow> result_of s c = None"
proof -
  have le: "in_flight s c \<le> 1" using assms by (rule flight_le)
  show "result_of s c = None" if "server s = Running c f"
    using le that by (auto simp: in_flight_def split: if_splits)
  show "result_of s c = None" if "(c, f) \<in> set (req_queue s)"
  proof -
    have "filter (\<lambda>r. fst r = c) (req_queue s) \<noteq> []" using that by (force simp: filter_empty_conv)
    then have "length (filter (\<lambda>r. fst r = c) (req_queue s)) \<ge> 1" by (simp add: Suc_le_eq)
    then show ?thesis using le by (auto simp: in_flight_def split: if_splits)
  qed
qed

lemma serve_step_inv:
  assumes "mt_inv k s" "flight_inv s" "serve_step s s'"
  shows "mt_inv k s'"
  using assms(3)
proof (cases rule: serve_step.cases)
  case (serve_run c f a w)
  then have "clients s c = AwaitResult f" using assms(1) by (simp add: mt_inv_def asked_def)
  moreover have "result_of s c = None" using flight_no_result(1) [OF assms(2)] serve_run by blast
  ultimately show ?thesis
    using assms(1) serve_run
    by (auto simp: mt_inv_def asked_def of_client_def unreceived_def split: client_pc.splits option.splits)
qed (use assms(1) in \<open>auto simp: mt_inv_def asked_def CHANNEL_SIZE_def unreceived_def\<close>)

lemma client_step_inv:
  assumes "mt_inv k s" "flight_inv s" "client_step s s'"
  shows "mt_inv k s'"
  using assms(3)
proof (cases rule: client_step.cases)
  case (execute_send c f)
  moreover have "in_flight s c = 0" using assms(2) execute_send by (simp add: flight_outside)
  ultimately have "result_of s c = None" by (auto simp: in_flight_def split: if_splits)
  then show ?thesis
    using assms(1) execute_send
    by (auto simp: mt_inv_def asked_def CHANNEL_SIZE_def unreceived_def split: client_pc.splits option.splits)
next
  case (execute_recv_error c f)
  then have "req_queue s = []" "\<And>d g. server s \<noteq> Running d g"
    using assms(2) by (auto simp: flight_inv_def server_gone_def)
  then show ?thesis
    using assms(1) execute_recv_error
    by (auto simp: mt_inv_def asked_def unreceived_def split: client_pc.splits option.splits)
next
  case (execute_recv c f a w)
  have "(c, g) \<notin> set (req_queue s)" "server s \<noteq> Running c g" for g
    using flight_no_result [OF assms(2)] execute_recv by auto
  moreover have "unreceived s c = [(c, f, w, a)]" using execute_recv by (simp add: unreceived_def)
  ultimately show ?thesis
    using assms(1) execute_recv
    by (auto simp: mt_inv_def asked_def of_client_def unreceived_def)
qed (use assms(1) in \<open>auto simp: mt_inv_def asked_def unreceived_def\<close>)

lemma mt_reachable_inv: "mt_reachable k s \<Longrightarrow> mt_inv k s \<and> flight_inv s"
proof (induction rule: mt_reachable.induct)
  case (mt_next s s')
  then show ?case using serve_step_inv client_step_inv in_flight_step by (metis mt_step_def)
qed (simp add: mt_inv_init)

section \<open>Progress\<close>

text \<open>The steps of the server alone, and what they do for the first request in the channel.\<close>

definition answered :: "('k, 'a) main_thread \<Rightarrow> client \<Rightarrow> bool" where
  "answered s c \<longleftrightarrow> (\<exists>s'. serve_step\<^sup>*\<^sup>* s s' \<and> result_of s' c \<noteq> None \<and> clients s' = clients s)"

lemma answered_step: "serve_step s s' \<Longrightarrow> clients s' = clients s \<Longrightarrow> answered s' c \<Longrightarrow> answered s c"
  by (auto simp: answered_def intro: converse_rtranclp_into_rtranclp)

lemma answered_running: "server s = Running c f \<Longrightarrow> answered s c"
proof -
  assume run: "server s = Running c f"
  obtain a k where "f (mt_world s) = (a, k)" by fastforce
  from serve_run [OF run this] show ?thesis
    unfolding answered_def by (intro exI conjI, rule r_into_rtranclp) simp_all
qed

lemma answered_receiving: "server s = Receiving \<Longrightarrow> req_queue s = (c, f) # q \<Longrightarrow> answered s c"
  by (rule answered_step [OF serve_receive], assumption, assumption, simp, rule answered_running, simp)

lemma answered_loop_head:
  "server s = LoopHead \<Longrightarrow> should_serve s \<Longrightarrow> req_queue s = (c, f) # q \<Longrightarrow> answered s c"
  by (rule answered_step [OF serve_again]) (simp_all add: answered_receiving [where f = f and q = q])

lemma answered_after_run:
  assumes "server s = Running d g" "should_serve s" "req_queue s = (c, f) # q"
  shows "answered s c"
proof -
  obtain a k where "g (mt_world s) = (a, k)" by fastforce
  from serve_run [OF assms(1) this] show ?thesis
    by (rule answered_step) (simp_all add: answered_loop_head [where f = f and q = q] assms)
qed

section \<open>Properties\<close>

text \<open>
  C9.  The executor of the main thread refines the local client, however threads interleave.  The closures that were sent
  are, in the order of sending, those that ran, the one that is running, those in the channel and those that were dropped: none
  runs twice and none is lost while the server has its end of the channel, and until then no client gets an error.  The
  world is the one after the closures that ran, one after the other; and the results that a client has returned,
  with the one that waits for it, are the results that the local client gives for its closures among these.  Once
  the server is gone the closures that it left in the channel never run and their clients get an error.
\<close>

theorem main_thread_refines_local:
  assumes "mt_reachable k s"
  shows "mt_world s = local_world (history s) k \<and>
    (\<forall>c. of_client c (local_answers (history s) k) = of_client c (answers s) @ unreceived s c) \<and>
    sent s = history s @ under_way s @ dropped s \<and>
    (if receiver s then dropped s = [] \<and> failures s = [] else under_way s = [])"
  using mt_reachable_inv [OF assms] conserved_reachable [OF assms] by (simp add: mt_inv_def conserved_def)

text \<open>
  C35.  A client gets its answer: while the server serves, a client that waits in \<open>execute\<close> has its result, or gets it
  by steps of the server alone.
\<close>

theorem main_thread_answers:
  assumes "mt_reachable k s" "clients s c = AwaitResult f" "should_serve s"
    and "server s \<noteq> NotStarted" "\<forall>r. server s \<noteq> Returned r"
  shows "\<exists>s'. serve_step\<^sup>*\<^sup>* s s' \<and> result_of s' c \<noteq> None \<and> clients s' = clients s"
proof -
  have inv: "mt_inv k s" "flight_inv s" using mt_reachable_inv [OF assms(1)] by simp_all
  have "receiver s" using inv(2) assms(4,5) by (auto simp: flight_inv_def server_gone_def)
  then have one: "in_flight s c = 1" using inv(2) assms(2) by (auto simp: flight_inv_def flight_of_def)
  have "answered s c"
  proof (cases "result_of s c = None \<and> (\<forall>g. server s \<noteq> Running c g)")
    case True
    then have "filter (\<lambda>r. fst r = c) (req_queue s) \<noteq> []" using one by (auto simp: in_flight_def split: server_pc.splits if_splits)
    moreover have "length (req_queue s) \<le> 1" using inv(1) by (simp add: mt_inv_def CHANNEL_SIZE_def)
    ultimately obtain g where q: "req_queue s = [(c, g)]" by (cases "req_queue s") (auto split: if_splits)
    show ?thesis
      using answered_loop_head [OF _ assms(3) q] answered_receiving [OF _ q] answered_after_run [OF _ assms(3) q] assms(4,5)
      by (cases "server s") auto
  next
    case False
    then show ?thesis using answered_running by (auto simp: answered_def)
  qed
  then show ?thesis by (simp add: answered_def)
qed

text \<open>A client sends a closure that adds one, and the server runs it.\<close>

definition count_up :: "(nat, nat) closure" where
  "count_up n = (n, n + 1)"

definition sent_example :: "(nat, nat) main_thread" where
  "sent_example = (new_main_thread_executor 5)\<lparr>should_serve := True, server := LoopHead, req_queue := [(0, count_up)],
     clients := (\<lambda>_. Outside)(0 := AwaitResult count_up), sent := [(0, count_up)]\<rparr>"

definition run_example :: "(nat, nat) main_thread" where
  "run_example = sent_example\<lparr>mt_world := 6, req_queue := [], result_of := (\<lambda>_. None)(0 := Some 5), history := [(0, count_up)],
     pending_world := (\<lambda>_. None)(0 := Some 5)\<rparr>"

lemma example_mt: "mt_reachable 5 sent_example"
proof -
  let ?s0 = "new_main_thread_executor 5 :: (nat, nat) main_thread"
  let ?s1 = "?s0\<lparr>should_serve := True, server := LoopHead\<rparr>"
  have "serve_step ?s0 ?s1" by (rule serve_start) (simp_all add: new_main_thread_executor_def)
  then have reach: "mt_reachable 5 ?s1" by (intro mt_next [OF mt_init]) (simp add: mt_step_def)
  have "client_step ?s1 (?s1\<lparr>req_queue := req_queue ?s1 @ [(0, count_up)], clients := (clients ?s1)(0 := AwaitResult count_up),
      sent := sent ?s1 @ [(0, count_up)]\<rparr>)"
    by (rule execute_send) (simp_all add: new_main_thread_executor_def CHANNEL_SIZE_def)
  then have "client_step ?s1 sent_example" by (simp add: sent_example_def new_main_thread_executor_def)
  then show ?thesis by (intro mt_next [OF reach]) (simp add: mt_step_def)
qed

lemma example_run: "mt_reachable 5 run_example"
proof -
  let ?s1 = "sent_example\<lparr>server := Receiving\<rparr>"
  let ?s2 = "sent_example\<lparr>req_queue := [], server := Running 0 count_up\<rparr>"
  have "serve_step sent_example ?s1" by (rule serve_again) (simp_all add: sent_example_def)
  then have r1: "mt_reachable 5 ?s1" by (intro mt_next [OF example_mt]) (simp add: mt_step_def)
  have "serve_step ?s1 (?s1\<lparr>req_queue := [], server := Running 0 count_up\<rparr>)"
    by (rule serve_receive) (simp_all add: sent_example_def)
  then have "serve_step ?s1 ?s2" by (simp add: sent_example_def)
  then have r2: "mt_reachable 5 ?s2" by (intro mt_next [OF r1]) (simp add: mt_step_def)
  have "serve_step ?s2 (?s2\<lparr>mt_world := 6, server := LoopHead, result_of := (result_of ?s2)(0 := Some 5),
      history := history ?s2 @ [(0, count_up)], pending_world := (pending_world ?s2)(0 := Some (mt_world ?s2))\<rparr>)"
    by (rule serve_run [where f = count_up]) (simp_all add: sent_example_def new_main_thread_executor_def count_up_def)
  then have "serve_step ?s2 run_example"
    by (simp add: run_example_def sent_example_def new_main_thread_executor_def)
  then show ?thesis by (intro mt_next [OF r2]) (simp add: mt_step_def)
qed

theorem main_thread_refines_local_witness:
  "mt_world run_example = local_world [(0, count_up)] 5 \<and> of_client 0 (local_answers [(0, count_up)] 5) = [(0, count_up, 5, 5)] \<and>
   sent run_example = [(0, count_up)] \<and> failures run_example = []"
proof -
  have s: "history run_example = [(0, count_up)]" "receiver run_example" "answers run_example = []"
    "unreceived run_example 0 = [(0, count_up, 5, 5)]" "under_way run_example = []"
    by (simp_all add: run_example_def sent_example_def new_main_thread_executor_def unreceived_def under_way_def)
  show ?thesis using main_thread_refines_local [OF example_run] s by (auto simp: of_client_def local_execute_def count_up_def)
qed

theorem main_thread_answers_witness:
  "\<exists>s'. clients sent_example 0 = AwaitResult count_up \<and> serve_step\<^sup>*\<^sup>* sent_example s' \<and> result_of s' 0 \<noteq> None"
proof -
  have s: "clients sent_example 0 = AwaitResult count_up" "should_serve sent_example" "server sent_example = LoopHead"
    by (simp_all add: sent_example_def)
  show ?thesis using main_thread_answers [OF example_mt s(1,2)] s by auto
qed

end
