(* ===== verification/Command_Line.thy ===== *)
theory Command_Line
  imports Handler_Sync Main_Thread_Executor
begin

text \<open>
  The program itself: \<open>main/src/main.rs\<close> with the options of the command line, and \<open>start\<close> of \<open>ptrace/src/lib.rs\<close>,
  which creates the shared memory file and the first tracee.

  The calls of the kernel that only these functions make are a parameter, \<open>launch_api\<close>.  \<open>fork\<close> returns in two
  processes; the parameter says in which of them the model goes on.  Parsing of the options by \<open>clap\<close>, the log and
  the printed texts are left out.
\<close>

section \<open>Calls of the kernel\<close>

datatype fork_result = Parent pid | Child

text \<open>
  \<open>exec\<close> only returns when it fails: \<open>Inr ()\<close> stands for a process that goes on as the command.  \<open>getuid\<close> and \<open>getgid\<close> do
  not change while the program runs.
\<close>

record 'k launch_api =
  memfd_create :: "string \<Rightarrow> 'k \<Rightarrow> (errno + int) \<times> 'k"
  close_fd :: "int \<Rightarrow> 'k \<Rightarrow> 'k"
  ftruncate :: "int \<Rightarrow> usize \<Rightarrow> 'k \<Rightarrow> (errno + unit) \<times> 'k"
  mmap_shared :: "usize \<Rightarrow> int \<Rightarrow> 'k \<Rightarrow> (errno + usize) \<times> 'k"
  fork :: "'k \<Rightarrow> (errno + fork_result) \<times> 'k"
  traceme :: "'k \<Rightarrow> (errno + unit) \<times> 'k"
  raise_signal :: "signal \<Rightarrow> 'k \<Rightarrow> (errno + unit) \<times> 'k"
  exec_command :: "string \<Rightarrow> 'k \<Rightarrow> (errno + unit) \<times> 'k"
  own_uid :: u32
  own_gid :: u32

datatype 'a started = Started 'a | Replaced_By_Command

section \<open>The first tracee\<close>

text \<open>An \<open>OwnedFd\<close> is closed when it is dropped.\<close>

definition drop_fd :: "'k launch_api \<Rightarrow> int \<Rightarrow> 'k direct_world \<Rightarrow> 'k direct_world" where
  "drop_fd L fd w = w\<lparr>kern := close_fd L fd (kern w)\<rparr>"

text \<open>\<open>collect\<close> into a \<open>Result\<close>: the first error drops the files so far.\<close>

fun empty_fds :: "'k launch_api \<Rightarrow> nat \<Rightarrow> int list \<Rightarrow> ('k direct_world, ptrace_error, int list) io" where
  "empty_fds L 0 fds w = (Inr fds, w)"
| "empty_fds L (Suc n) fds w =
     (case on_kern (memfd_create L ''empty'') w of
        (Inl e, w) \<Rightarrow> (Inl (Err (CreateMemoryFile e)), fold (drop_fd L) fds w)
      | (Inr fd, w) \<Rightarrow> empty_fds L n (fds @ [fd]) w)"

definition NUM_EMPTY_FDS :: nat where "NUM_EMPTY_FDS = 27"

text \<open>The block for \<open>shared_fd\<close>: the empty files are dropped at its end.\<close>

definition create_shared_fd :: "'k launch_api \<Rightarrow> ('k direct_world, ptrace_error, int) io" where
  "create_shared_fd L =
     m_then (empty_fds L NUM_EMPTY_FDS []) (\<lambda>fds w.
     case on_kern (memfd_create L ''shared_from_tracer'') w of
       (Inl e, w) \<Rightarrow> (Inl (Err (CreateMemoryFile e)), fold (drop_fd L) fds w)
     | (Inr fd, w) \<Rightarrow> (Inr fd, fold (drop_fd L) fds w))"

definition map_shared_fd :: "'k launch_api \<Rightarrow> int \<Rightarrow> ('k direct_world, ptrace_error, usize) io" where
  "map_shared_fd L shared_fd =
     m_then (on_kern (call CreateMemoryFile (ftruncate L shared_fd SHARED_MMAP_SIZE))) (\<lambda>_.
     on_kern (call CreateMemoryFile (mmap_shared L SHARED_MMAP_SIZE shared_fd)))"

text \<open>\<open>unwrap\<close> of a call.\<close>

definition unwrap_call :: "('k \<Rightarrow> (errno + 'a) \<times> 'k) \<Rightarrow> ('k direct_world, ptrace_error, 'a) io" where
  "unwrap_call c w = (case on_kern c w of (Inl e, w) \<Rightarrow> (Inl Panic, w) | (Inr a, w) \<Rightarrow> (Inr a, w))"

definition run_command :: "'k launch_api \<Rightarrow> string \<Rightarrow> bool \<Rightarrow> ('k direct_world, ptrace_error, 'a started) io" where
  "run_command L cmd no_attach =
     m_then (if no_attach then unwrap_call (traceme L) else unwrap_call (raise_signal L SIGSTOP)) (\<lambda>_ w.
     case on_kern (exec_command L cmd) w of
       (Inl e, w) \<Rightarrow> (Inl (Err (InitCmdFailed e)), w)
     | (Inr _, w) \<Rightarrow> (Inr Replaced_By_Command, w))"

definition fork_tracee ::
  "'k launch_api \<Rightarrow> string \<Rightarrow> bool \<Rightarrow> int \<Rightarrow> usize \<Rightarrow> ('k direct_world, ptrace_error, (pid \<times> int \<times> usize) started) io" where
  "fork_tracee L cmd no_attach shared_fd mmap_addr w =
     (case on_kern (fork L) w of
        (Inl e, w) \<Rightarrow> (Inl (Err (StartInitCmd e)), w)
      | (Inr (Parent child), w) \<Rightarrow> (Inr (Started (child, shared_fd, mmap_addr)), w)
      | (Inr Child, w) \<Rightarrow> run_command L cmd no_attach w)"

text \<open>
  The shared file is an \<open>OwnedFd\<close> too: whatever the result, it is dropped when \<open>start\<close> returns, and so the number that is
  returned is the one of the tracee, which inherits the file.
\<close>

definition start ::
  "'k launch_api \<Rightarrow> string \<Rightarrow> bool \<Rightarrow> ('k direct_world, ptrace_error, (pid \<times> int \<times> usize) started) io" where
  "start L cmd no_attach =
     m_then (create_shared_fd L) (\<lambda>shared_fd w.
     case m_then (map_shared_fd L shared_fd) (\<lambda>mmap_addr.
          m_then (start_regions [0..<MAX_NUM_TRACEES]) (\<lambda>_.
          fork_tracee L cmd no_attach shared_fd mmap_addr)) w of
       (Inr Replaced_By_Command, w) \<Rightarrow> (Inr Replaced_By_Command, w)
     | (r, w) \<Rightarrow> (r, drop_fd L shared_fd w))"

section \<open>Options\<close>

record cli_args =
  strace :: bool
  chroot :: "path option"
  fix_attach :: bool
  fix_sigsys :: bool
  fix_mmap :: bool
  root :: bool
  rootfs :: "path option"
  sudo :: bool
  show_syscalls :: bool
  cmd :: string
  fail_fast :: bool
  gdb :: bool
  gdb_at :: "usize option"
  use_native_loader :: bool

datatype cli_error =
    CLI_InternalExecutor executor_error
  | CLI_Ptrace ptrace_error
  | CLI_SysAugErr sysaug_error
  | ParseArgs string
  | UnableToComplete
  | PathCanonicalization path errno

section \<open>Starting the handler\<close>

definition canonicalize_clone ::
  "('k, 'regex) host_api \<Rightarrow> path option \<Rightarrow> ('k direct_world, cli_error, path option) io" where
  "canonicalize_clone fs maybe_path =
     (case maybe_path of
        Some p \<Rightarrow> m_then (on_kern (call (PathCanonicalization p) (fs_canonicalize fs p))) (\<lambda>new_path. ret (Some new_path))
      | None \<Rightarrow> ret None)"

definition perms_mode_of :: "cli_args \<Rightarrow> perms_mode" where
  "perms_mode_of a = (if root a then RootOnly else if sudo a then SudoOnly else Passthrough)"

definition sysaug_args_of :: "('k, 'regex) host_api \<Rightarrow> cli_args \<Rightarrow> ('k direct_world, cli_error, sysaug_args) io" where
  "sysaug_args_of fs a =
     m_then (canonicalize_clone fs (chroot a)) (\<lambda>chroot_copy.
     m_then (canonicalize_clone fs (chroot a)) (\<lambda>new_chroot.
     m_then (canonicalize_clone fs (rootfs a)) (\<lambda>new_rootfs.
     ret \<lparr>args_chroot = new_chroot,
          args_rootfs = (case new_rootfs of Some p \<Rightarrow> Some p | None \<Rightarrow> chroot_copy),
          args_perms_mode = perms_mode_of a,
          args_fail_fast = fail_fast a,
          args_fix_sigsys = fix_sigsys a,
          args_fix_mmap = fix_mmap a \<or> fix_attach a,
          args_gdb = gdb a,
          args_gdb_at = gdb_at a,
          args_use_native_loader = use_native_loader a\<rparr>)))"

text \<open>
  \<open>launch_ptrace\<close> gives the environment in which the thread of the first handler runs: the kernel and \<open>libc\<close> come
  from the environment \<open>e\<close>, the client and the handler are new.
\<close>

definition launch_ptrace ::
  "'k launch_api \<Rightarrow> ('k, 'regex) env \<Rightarrow> ('k, 'regex) host_api \<Rightarrow> cli_args \<Rightarrow> ptrace_client \<Rightarrow>
     ('k direct_world, cli_error, ('k, 'regex) env started) io" where
  "launch_ptrace L e fs a client =
     m_then (on_err CLI_Ptrace (start L (cmd a) (fix_attach a))) (\<lambda>started.
     case started of
       Replaced_By_Command \<Rightarrow> ret Replaced_By_Command
     | Started (pid1, shared_fd, mmap_addr) \<Rightarrow>
         m_then (sysaug_args_of fs a) (\<lambda>args2.
         let states = \<lparr>consts_args = args2, consts_config = default_sysaug_config (own_uid L) (own_gid L), consts_root_pid = pid1\<rparr>
         in ret (Started (e\<lparr>client_of := client,
              handler_of := handler_new pid1 states None shared_fd mmap_addr\<rparr>))))"

section \<open>The program\<close>

text \<open>What becomes of \<open>actual_main\<close>: it lists the system calls, returns, ends the process, or goes on as the command.\<close>

datatype main_result = Lists "syscall_info option list option" | Returns | Exits int | Becomes_Command

text \<open>
  The thread of the first handler runs and \<open>join\<close> gives its result; the callback \<open>stop\<close> of the clients does not change
  the state of the tracer.  \<open>served\<close> is the value with which \<open>serve\<close> returned in the theory
  \<open>Main_Thread_Executor\<close>.
\<close>

definition join_handler ::
  "nat \<Rightarrow> ('k, 'regex) env \<Rightarrow> ('k, 'regex) host_api \<Rightarrow> ('k direct_world, cli_error, u8 option) io" where
  "join_handler fuel e fs w =
     (case start_body fuel e fs id w (\<lambda>_. RwLock False {}) of
        (Inr (code, _), w) \<Rightarrow> (Inr code, w)
      | (Inl Panic, w) \<Rightarrow> (Inl (Err UnableToComplete), w)
      | (Inl (Err x), w) \<Rightarrow> (Inl (Err (CLI_SysAugErr x)), w)
      | (Inl UndefinedBehaviour, w) \<Rightarrow> (Inl UndefinedBehaviour, w)
      | (Inl OutOfFuel, w) \<Rightarrow> (Inl OutOfFuel, w))"

definition exit_process :: "u8 option \<Rightarrow> ('k direct_world, cli_error, main_result) io" where
  "exit_process retcode = (case retcode of None \<Rightarrow> (\<lambda>w. (Inl Panic, w)) | Some c \<Rightarrow> ret (Exits (uint c)))"

definition run_tracees ::
  "nat \<Rightarrow> 'k launch_api \<Rightarrow> ('k, 'regex) env \<Rightarrow> ('k, 'regex) host_api \<Rightarrow> executor_error + unit \<Rightarrow> cli_args \<Rightarrow>
     ('k direct_world, cli_error, main_result) io" where
  "run_tracees fuel L e fs served a =
     m_then (launch_ptrace L e fs a (if fix_attach a then MainThreadClient else LocalPtraceClient)) (\<lambda>launched.
     case launched of
       Replaced_By_Command \<Rightarrow> ret Becomes_Command
     | Started e' \<Rightarrow>
         m_then (if fix_attach a
                 then (\<lambda>w. case join_handler fuel e' fs w of
                        (r, w) \<Rightarrow> (case served of Inl x \<Rightarrow> (Inl (Err (CLI_InternalExecutor x)), w) | Inr _ \<Rightarrow> (r, w)))
                 else join_handler fuel e' fs) exit_process)"

definition actual_main ::
  "nat \<Rightarrow> 'k launch_api \<Rightarrow> ('k, 'regex) env \<Rightarrow> ('k, 'regex) host_api \<Rightarrow> executor_error + unit \<Rightarrow> cli_args \<Rightarrow>
     ('k direct_world, cli_error, main_result) io" where
  "actual_main fuel L e fs served a =
     (if show_syscalls a then ret (Lists (map_option (filter (\<lambda>s. s \<noteq> None)) (RAW_SYSCALL_INFOS (env_libc e))))
      else if root a \<and> sudo a then ret Returns
      else if chroot a \<noteq> None \<and> rootfs a \<noteq> None then ret Returns
      else run_tracees fuel L e fs served a)"

text \<open>The tracee is started before the paths of the options are checked.\<close>

lemma launch_ptrace_bad_chroot:
  assumes "start L (cmd a) (fix_attach a) w = (Inr (Started t), w1)" "chroot a = Some p"
    and "fs_canonicalize fs p (kern w1) = (Inl x, k)"
  shows "launch_ptrace L e fs a client w = (Inl (Err (PathCanonicalization p x)), w1\<lparr>kern := k\<rparr>)"
  using assms
  by (cases t) (simp add: launch_ptrace_def m_then_def on_err_def sysaug_args_of_def canonicalize_clone_def on_kern_def call_def)

section \<open>File descriptors\<close>

text \<open>
  What the code relies on: a new file gets the lowest number that is not open, \<open>close\<close> frees a number, and the other
  calls leave the open files as they are.
\<close>

definition opens_lowest :: "('k \<Rightarrow> int set) \<Rightarrow> ('k \<Rightarrow> (errno + int) \<times> 'k) \<Rightarrow> bool" where
  "opens_lowest fds c \<longleftrightarrow> (\<forall>k. case c k of
     (Inl _, k') \<Rightarrow> fds k' = fds k
   | (Inr fd, k') \<Rightarrow> 0 \<le> fd \<and> fd \<notin> fds k \<and> {0..<fd} \<subseteq> fds k \<and> fds k' = insert fd (fds k))"

definition keeps_fds :: "('k \<Rightarrow> int set) \<Rightarrow> ('k \<Rightarrow> 'a \<times> 'k) \<Rightarrow> bool" where
  "keeps_fds fds c \<longleftrightarrow> (\<forall>k. fds (snd (c k)) = fds k)"

definition fd_laws :: "'k launch_api \<Rightarrow> ('k \<Rightarrow> int set) \<Rightarrow> bool" where
  "fd_laws L fds \<longleftrightarrow>
     (\<forall>name. opens_lowest fds (memfd_create L name)) \<and>
     (\<forall>fd k. fds (close_fd L fd k) = fds k - {fd}) \<and>
     (\<forall>fd n. keeps_fds fds (ftruncate L fd n)) \<and> (\<forall>n fd. keeps_fds fds (mmap_shared L n fd)) \<and>
     keeps_fds fds (fork L) \<and> keeps_fds fds (traceme L) \<and> (\<forall>s. keeps_fds fds (raise_signal L s)) \<and>
     (\<forall>c. keeps_fds fds (exec_command L c))"

lemma fd_laws_create:
  assumes "fd_laws L fds" "on_kern (memfd_create L name) w = (r, w')"
  shows "case r of Inl _ \<Rightarrow> fds (kern w') = fds (kern w)
    | Inr fd \<Rightarrow> 0 \<le> fd \<and> fd \<notin> fds (kern w) \<and> {0..<fd} \<subseteq> fds (kern w) \<and> fds (kern w') = insert fd (fds (kern w))"
proof -
  obtain k' where c: "memfd_create L name (kern w) = (r, k')" "w' = w\<lparr>kern := k'\<rparr>"
    using assms(2) by (auto simp: on_kern_def split: prod.splits)
  have "opens_lowest fds (memfd_create L name)" using assms(1) by (simp add: fd_laws_def)
  then have "case memfd_create L name (kern w) of
      (Inl _, k') \<Rightarrow> fds k' = fds (kern w)
    | (Inr fd, k') \<Rightarrow> 0 \<le> fd \<and> fd \<notin> fds (kern w) \<and> {0..<fd} \<subseteq> fds (kern w) \<and> fds k' = insert fd (fds (kern w))"
    unfolding opens_lowest_def by (rule spec)
  then show ?thesis unfolding c by (cases r) simp_all
qed

lemma fd_laws_drop: "fd_laws L fds \<Longrightarrow> fds (kern (drop_fd L fd w)) = fds (kern w) - {fd}"
  by (simp add: fd_laws_def drop_fd_def)

lemma fd_laws_drops: "fd_laws L fds \<Longrightarrow> fds (kern (fold (drop_fd L) xs w)) = fds (kern w) - set xs"
  by (induction xs arbitrary: w) (auto simp: fd_laws_drop)

text \<open>The files of the loop are new, and all numbers up to each of them are open.\<close>

definition fresh_fds :: "int set \<Rightarrow> int list \<Rightarrow> bool" where
  "fresh_fds A xs \<longleftrightarrow> distinct xs \<and> set xs \<inter> A = {} \<and> (\<forall>x \<in> set xs. 0 \<le> x \<and> {0..x} \<subseteq> A \<union> set xs)"

lemma fresh_fds_snoc:
  assumes "fresh_fds A xs" "0 \<le> fd" "fd \<notin> A \<union> set xs" "{0..<fd} \<subseteq> A \<union> set xs"
  shows "fresh_fds A (xs @ [fd])"
proof -
  have "{0..fd} = insert fd {0..<fd}" using assms(2) by auto
  then show ?thesis using assms unfolding fresh_fds_def by auto
qed

lemma fresh_fds_high:
  assumes "fresh_fds A xs" "0 \<le> fd" "fd \<notin> A \<union> set xs"
  shows "int (length xs) \<le> fd"
proof -
  have "x < fd" if "x \<in> set xs" for x
  proof (rule ccontr)
    assume "\<not> x < fd"
    then have "fd \<in> {0..x}" using assms(2) by simp
    then show False using assms(1,3) that unfolding fresh_fds_def by blast
  qed
  then have "set xs \<subseteq> {0..<fd}" using assms(1) by (auto simp: fresh_fds_def)
  then have "card (set xs) \<le> card {0..<fd}" by (rule card_mono [rotated]) simp
  then show ?thesis using assms(1,2) by (simp add: fresh_fds_def distinct_card)
qed

lemma empty_fds_correct:
  assumes "fd_laws L fds" "fresh_fds A xs" "fds (kern w) = A \<union> set xs" "empty_fds L n xs w = (r, w')"
  shows "case r of
      Inr ys \<Rightarrow> fresh_fds A ys \<and> length ys = length xs + n \<and> fds (kern w') = A \<union> set ys
    | Inl f \<Rightarrow> fds (kern w') = A"
  using assms(2-4)
proof (induction n arbitrary: xs w)
  case (Suc n)
  obtain m w1 where m: "on_kern (memfd_create L ''empty'') w = (m, w1)" by fastforce
  note law = fd_laws_create [OF assms(1) m]
  show ?case
  proof (cases m)
    case (Inl e)
    then have "fds (kern w') = A \<union> set xs - set xs"
      using Suc.prems m law by (auto simp: fd_laws_drops [OF assms(1)])
    then show ?thesis using Suc.prems m Inl by (auto simp: fresh_fds_def)
  next
    case (Inr fd)
    have "fresh_fds A (xs @ [fd])" using fresh_fds_snoc Suc.prems law Inr by simp
    moreover have "fds (kern w1) = A \<union> set (xs @ [fd])" using Suc.prems law Inr by auto
    moreover have "empty_fds L n (xs @ [fd]) w1 = (r, w')" using Suc.prems m Inr by simp
    ultimately show ?thesis using Suc.IH [of "xs @ [fd]" w1] by (simp split: sum.splits)
  qed
qed auto

lemma create_shared_fd_correct:
  assumes "fd_laws L fds" "create_shared_fd L w = (r, w')"
  shows "case r of
      Inr fd \<Rightarrow> int NUM_EMPTY_FDS \<le> fd \<and> fd \<notin> fds (kern w) \<and> fds (kern w') = insert fd (fds (kern w))
    | Inl f \<Rightarrow> fds (kern w') = fds (kern w)"
proof -
  obtain m w1 where m: "empty_fds L NUM_EMPTY_FDS [] w = (m, w1)" by fastforce
  have "fresh_fds (fds (kern w)) []" by (simp add: fresh_fds_def)
  note inv = empty_fds_correct [OF assms(1) this _ m]
  show ?thesis
  proof (cases m)
    case (Inl f)
    then show ?thesis using assms(2) m inv by (auto simp: create_shared_fd_def m_then_def)
  next
    case (Inr ys)
    then have ys: "fresh_fds (fds (kern w)) ys" "length ys = NUM_EMPTY_FDS" "fds (kern w1) = fds (kern w) \<union> set ys"
      using inv by simp_all
    have apart: "set ys \<inter> fds (kern w) = {}" using ys(1) by (simp add: fresh_fds_def)
    obtain n w2 where n: "on_kern (memfd_create L ''shared_from_tracer'') w1 = (n, w2)" by fastforce
    note law = fd_laws_create [OF assms(1) n]
    have w': "w' = fold (drop_fd L) ys w2" and r: "r = (case n of Inl e \<Rightarrow> Inl (Err (CreateMemoryFile e)) | Inr fd \<Rightarrow> Inr fd)"
      using assms(2) m n Inr by (auto simp: create_shared_fd_def m_then_def split: sum.splits)
    show ?thesis
    proof (cases n)
      case (Inl e)
      then show ?thesis using law ys(3) apart r w' by (auto simp: fd_laws_drops [OF assms(1)])
    next
      case (Inr fd)
      have "int (length ys) \<le> fd" using fresh_fds_high [OF ys(1)] law Inr ys(3) by simp
      then show ?thesis using law Inr ys apart r w' by (auto simp: fd_laws_drops [OF assms(1)])
    qed
  qed
qed

text \<open>After the shared file is there, nothing opens or closes files until it is dropped.\<close>

definition io_keeps_fds :: "('k \<Rightarrow> int set) \<Rightarrow> ('k direct_world, 'e, 'a) io \<Rightarrow> bool" where
  "io_keeps_fds fds m \<longleftrightarrow> (\<forall>w. fds (kern (snd (m w))) = fds (kern w))"

named_theorems fd_intros

lemma keeps_fdsD: "keeps_fds fds c \<Longrightarrow> c k = (r, k') \<Longrightarrow> fds k' = fds k"
  by (auto simp: keeps_fds_def dest: spec [of _ k])

lemma io_keeps_m_then [fd_intros]:
  "io_keeps_fds fds m \<Longrightarrow> (\<And>a. io_keeps_fds fds (f a)) \<Longrightarrow> io_keeps_fds fds (m_then m f)"
  unfolding io_keeps_fds_def m_then_def by (simp split: prod.splits sum.splits) (metis snd_conv)

lemma io_keeps_call [fd_intros]: "keeps_fds fds c \<Longrightarrow> io_keeps_fds fds (on_kern (call f c))"
  by (auto simp: io_keeps_fds_def on_kern_def call_def dest: keeps_fdsD split: prod.splits sum.splits)

lemma io_keeps_unwrap_call [fd_intros]: "keeps_fds fds c \<Longrightarrow> io_keeps_fds fds (unwrap_call c)"
  by (auto simp: io_keeps_fds_def unwrap_call_def on_kern_def dest: keeps_fdsD split: prod.splits sum.splits)

lemma io_keeps_start_regions [fd_intros]: "io_keeps_fds fds (start_regions is)"
proof (induction "is")
  case (Cons i "is")
  then show ?case
    by (simp add: io_keeps_fds_def m_then_def get_w_def put_w_def lift_r_def throw_def ret_def split: sum.splits)
qed (simp add: io_keeps_fds_def ret_def)

lemma io_keeps_run_command [fd_intros]:
  assumes "fd_laws L fds"
  shows "io_keeps_fds fds (run_command L c b)"
proof -
  have ex: "io_keeps_fds fds (\<lambda>w. case on_kern (exec_command L c) w of
      (Inl e, w) \<Rightarrow> (Inl (Err (InitCmdFailed e)), w) | (Inr _, w) \<Rightarrow> (Inr Replaced_By_Command, w))"
    using assms by (auto simp: fd_laws_def io_keeps_fds_def on_kern_def dest!: keeps_fdsD split: prod.splits sum.splits)
  show ?thesis
    unfolding run_command_def using assms by (intro io_keeps_m_then ex) (auto simp: fd_laws_def intro: fd_intros)
qed

lemma io_keeps_fork_tracee [fd_intros]:
  assumes "fd_laws L fds"
  shows "io_keeps_fds fds (fork_tracee L c b fd addr)"
proof -
  have fork: "keeps_fds fds (fork L)" using assms by (simp add: fd_laws_def)
  show ?thesis
    using io_keeps_run_command [OF assms, where 'b = "pid \<times> int \<times> usize"] unfolding io_keeps_fds_def fork_tracee_def
    by (auto simp: on_kern_def dest: keeps_fdsD [OF fork] split: prod.splits sum.splits fork_result.splits)
qed

text \<open>
  C37.  The tracee gets its shared memory file under a number of at least 27, so that the numbers that shell scripts use
  stay free, and the number was not in use; and on every way out of \<open>start\<close>, errors and panics included, the tracer has
  the same files open as before.
\<close>

theorem start_descriptors:
  assumes "fd_laws L fds" "start L command no_attach w = (r, w')" "r \<noteq> Inr Replaced_By_Command"
  shows "fds (kern w') = fds (kern w) \<and>
    (\<forall>pid fd addr. r = Inr (Started (pid, fd, addr)) \<longrightarrow> 27 \<le> fd \<and> fd \<notin> fds (kern w))"
proof -
  obtain m w1 where m: "create_shared_fd L w = (m, w1)" by fastforce
  note created = create_shared_fd_correct [OF assms(1) m]
  show ?thesis
  proof (cases m)
    case (Inl f)
    then show ?thesis using assms(2) m created by (auto simp: start_def m_then_def)
  next
    case (Inr fd)
    define rest where "rest = m_then (map_shared_fd L fd) (\<lambda>mmap_addr.
      m_then (start_regions [0..<MAX_NUM_TRACEES]) (\<lambda>_. fork_tracee L command no_attach fd mmap_addr))"
    have "io_keeps_fds fds rest"
      unfolding rest_def map_shared_fd_def using assms(1)
      by (intro fd_intros) (simp_all add: fd_laws_def)
    moreover obtain q w2 where q: "rest w1 = (q, w2)" by fastforce
    ultimately have w2: "fds (kern w2) = fds (kern w1)" by (simp add: io_keeps_fds_def) (metis snd_conv)
    have rest: "r = q" "w' = drop_fd L fd w2"
      using assms(2,3) m q Inr
      by (auto simp: start_def m_then_def [of "create_shared_fd L"] rest_def [symmetric] split: sum.splits started.splits)
    have "27 \<le> fd \<and> fd \<notin> fds (kern w)" "fds (kern w1) = insert fd (fds (kern w))"
      using created Inr by (simp_all add: NUM_EMPTY_FDS_def)
    moreover have "fd' = fd" if "q = Inr (Started (p, fd', addr))" for p fd' addr
      using q that by (auto simp: rest_def fork_tracee_def run_command_def m_then_def split: prod.splits sum.splits fork_result.splits)
    ultimately show ?thesis using rest w2 by (auto simp: fd_laws_drop [OF assms(1)])
  qed
qed

text \<open>A kernel whose state is the list of open files.\<close>

definition lowest_free :: "int list \<Rightarrow> int" where
  "lowest_free s = hd (filter (\<lambda>x. x \<notin> set s) [0..int (length s)])"

definition sim_launch :: "int list launch_api" where
  "sim_launch = \<lparr>
     memfd_create = (\<lambda>_ s. (Inr (lowest_free s), lowest_free s # s)),
     close_fd = (\<lambda>fd s. filter (\<lambda>x. x \<noteq> fd) s),
     ftruncate = (\<lambda>_ _ s. (Inr (), s)), mmap_shared = (\<lambda>_ _ s. (Inr 0x7f0000000000, s)),
     fork = (\<lambda>s. (Inr (Parent 100), s)), traceme = (\<lambda>s. (Inr (), s)), raise_signal = (\<lambda>_ s. (Inr (), s)),
     exec_command = (\<lambda>_ s. (Inr (), s)), own_uid = 1000, own_gid = 1000\<rparr>"

lemma sim_launch_simps [simp]:
  "memfd_create sim_launch name s = (Inr (lowest_free s), lowest_free s # s)"
  "ftruncate sim_launch fd n s = (Inr (), s)" "mmap_shared sim_launch n fd s = (Inr 0x7f0000000000, s)"
  "fork sim_launch s = (Inr (Parent 100), s)"
  by (simp_all add: sim_launch_def)

lemma lowest_free_correct: "0 \<le> lowest_free s \<and> lowest_free s \<notin> set s \<and> {0..<lowest_free s} \<subseteq> set s"
proof -
  let ?xs = "filter (\<lambda>x. x \<notin> set s) [0..int (length s)]"
  have "\<not> {0..int (length s)} \<subseteq> set s"
  proof
    assume "{0..int (length s)} \<subseteq> set s"
    then have "card {0..int (length s)} \<le> card (set s)" by (rule card_mono [rotated]) simp
    then show False using card_length [of s] by simp
  qed
  then have "?xs \<noteq> []" by (auto simp: filter_empty_conv)
  then obtain y ys where xs: "?xs = y # ys" by (cases ?xs) auto
  have "set ?xs = {0..int (length s)} - set s" by auto
  moreover have "sorted ?xs" by (simp add: sorted_wrt_filter)
  ultimately have "y \<in> {0..int (length s)} - set s" "\<forall>x \<in> {0..int (length s)} - set s. y \<le> x"
    unfolding xs by auto
  then have y: "0 \<le> y" "y \<le> int (length s)" "y \<notin> set s" "\<And>x. 0 \<le> x \<Longrightarrow> x < y \<Longrightarrow> x \<in> set s"
    by simp_all (meson Diff_iff atLeastAtMost_iff le_less_trans less_imp_le not_le)
  have "lowest_free s = y" unfolding lowest_free_def xs by simp
  then show ?thesis using y by auto
qed

lemma sim_launch_laws: "fd_laws sim_launch set"
  using lowest_free_correct
  by (auto simp: fd_laws_def opens_lowest_def keeps_fds_def sim_launch_def)

lemma sim_empty_fds: "\<exists>ys s. empty_fds sim_launch n xs w = (Inr ys, w\<lparr>kern := s\<rparr>)"
proof (induction n arbitrary: xs w)
  case 0
  have "empty_fds sim_launch 0 xs w = (Inr xs, w\<lparr>kern := kern w\<rparr>)" by simp
  then show ?case by blast
next
  case (Suc n)
  have "on_kern (memfd_create sim_launch ''empty'') w = (Inr (lowest_free (kern w)), w\<lparr>kern := lowest_free (kern w) # kern w\<rparr>)"
    by (simp add: on_kern_def sim_launch_def)
  then show ?case using Suc [of "xs @ [lowest_free (kern w)]" "w\<lparr>kern := lowest_free (kern w) # kern w\<rparr>"] by simp
qed

lemma kern_drops: "\<exists>s. fold (drop_fd L) xs w = w\<lparr>kern := s\<rparr>"
proof (induction xs arbitrary: w)
  case Nil
  have "w = w\<lparr>kern := kern w\<rparr>" by simp
  then show ?case by (metis fold_simps(1))
next
  case (Cons x xs)
  show ?case using Cons [of "drop_fd L x w"] by (auto simp: drop_fd_def)
qed

lemma sim_start:
  "\<exists>fd w'. start sim_launch ''bash'' False (initial_globals s) = (Inr (Started (100, fd, 0x7f0000000000)), w')"
proof -
  let ?w = "initial_globals s"
  obtain ys s1 where ys: "empty_fds sim_launch NUM_EMPTY_FDS [] ?w = (Inr ys, ?w\<lparr>kern := s1\<rparr>)"
    using sim_empty_fds by blast
  obtain s2 where s2: "fold (drop_fd sim_launch) ys (?w\<lparr>kern := lowest_free s1 # s1\<rparr>) = initial_globals s2"
    using kern_drops [of sim_launch ys "?w\<lparr>kern := lowest_free s1 # s1\<rparr>"] by (auto simp: initial_globals_def)
  have "create_shared_fd sim_launch ?w = (Inr (lowest_free s1), initial_globals s2)"
    using s2 by (simp add: create_shared_fd_def m_then_def ys on_kern_def)
  moreover obtain w2 where "start_regions [0..<MAX_NUM_TRACEES] (initial_globals s2) = (Inr (), w2)"
    using start_regions_initial [of s2] by blast
  ultimately show ?thesis
    by (simp add: start_def m_then_def map_shared_fd_def on_kern_def call_def fork_tracee_def)
qed

theorem start_descriptors_witness:
  "\<exists>fd w'. start sim_launch ''bash'' False (initial_globals [0, 1, 2]) = (Inr (Started (100, fd, 0x7f0000000000)), w') \<and>
     27 \<le> fd \<and> set (kern w') = {0, 1, 2}"
proof -
  obtain fd w' where run: "start sim_launch ''bash'' False (initial_globals [0, 1, 2]) =
      (Inr (Started (100, fd, 0x7f0000000000)), w')"
    using sim_start by blast
  have "set (kern w') = set (kern (initial_globals [0, 1, 2])) \<and> 27 \<le> fd"
    using start_descriptors [OF sim_launch_laws run] by simp
  then have "27 \<le> fd \<and> set (kern w') = {0, 1, 2}" by (simp add: initial_globals_def)
  with run show ?thesis by blast
qed

end
