(* ===== verification/Mem_Equivalence.thy ===== *)
theory Mem_Equivalence
  imports Mem_Slow Mem_Direct
begin

text \<open>
  A tracer thread starts with \<open>SLOW_MEM_HELPERS\<close> and changes to \<open>DIRECT_MEM_HELPERS\<close> once the shared region is mapped
  in its tracee (\<open>MEM\<close> in \<open>sysaug/src/handler_async.rs\<close>).  This theory shows where the readers can be exchanged: inside
  mapped memory they return the same bytes, strings and structures; at the end of a mapping they can differ.
\<close>

text \<open>Where the bytes and eight more bytes after them are mapped, the readers agree.\<close>

lemma mem_readers_agree:
  fixes k :: "('k, 'x) direct_api_scheme"
  assumes "slow_holds k view (kern w) pid a bs" "direct_holds k view is_mem t pid w pid a bs"
  shows "(length bs \<le> length buf \<longrightarrow>
      fst (mh_read_bytes (SLOW_MEM_HELPERS k) pid a (of_nat (length bs)) buf (kern w)) = Inr (bs @ drop (length bs) buf) \<and>
      fst (mh_read_bytes (DIRECT_MEM_HELPERS k t) pid a (of_nat (length bs)) buf w) = Inr (bs @ drop (length bs) buf)) \<and>
    (scan_zeroes n0 bs (0, []) = Inl r \<longrightarrow>
      fst (mh_read_bytes_until_num_zeroes (SLOW_MEM_HELPERS k) pid a n0 (kern w)) = Inr r \<and>
      fst (mh_read_bytes_until_num_zeroes (DIRECT_MEM_HELPERS k t) pid a n0 w) = Inr r) \<and>
    (bs = concat cs \<and> (\<forall>c \<in> set cs. item_ok T c) \<and> type_ok T \<and> length cs \<le> fuel \<longrightarrow>
      fst (read_bytes_to_structs T fuel pid a (of_nat (length bs)) (SLOW_MEM_HELPERS k) (kern w)) = Inr (map (padded T) cs) \<and>
      fst (read_bytes_to_structs T fuel pid a (of_nat (length bs)) (DIRECT_MEM_HELPERS k t) w) = Inr (map (padded T) cs))"
proof (intro conjI impI; (elim conjE)?)
  show "fst (mh_read_bytes (SLOW_MEM_HELPERS k) pid a (of_nat (length bs)) buf (kern w)) = Inr (bs @ drop (length bs) buf)"
    if "length bs \<le> length buf" using slow_reader.read_bytes_law [OF assms(1) that] by auto
  show "fst (mh_read_bytes (DIRECT_MEM_HELPERS k t) pid a (of_nat (length bs)) buf w) = Inr (bs @ drop (length bs) buf)"
    if "length bs \<le> length buf" using direct_reader.read_bytes_law [OF assms(2) that] by auto
  show "fst (mh_read_bytes_until_num_zeroes (SLOW_MEM_HELPERS k) pid a n0 (kern w)) = Inr r"
    if "scan_zeroes n0 bs (0, []) = Inl r" using slow_reader.until_law [OF assms(1) that] by auto
  show "fst (mh_read_bytes_until_num_zeroes (DIRECT_MEM_HELPERS k t) pid a n0 w) = Inr r"
    if "scan_zeroes n0 bs (0, []) = Inl r" using direct_reader.until_law [OF assms(2) that] by auto
next
  assume c: "bs = concat cs" "\<forall>c \<in> set cs. item_ok T c" "type_ok T" "length cs \<le> fuel"
  have n: "(of_nat (length bs) :: usize) = of_nat (length (concat cs))" using c(1) by simp
  show "fst (read_bytes_to_structs T fuel pid a (of_nat (length bs)) (SLOW_MEM_HELPERS k) (kern w)) = Inr (map (padded T) cs)"
    using slow_reader.read_structs [OF assms(1) [unfolded c(1)] c(2,3) n c(4)] by auto
  show "fst (read_bytes_to_structs T fuel pid a (of_nat (length bs)) (DIRECT_MEM_HELPERS k t) w) = Inr (map (padded T) cs)"
    using direct_reader.read_structs [OF assms(2) [unfolded c(1)] c(2,3) n c(4)] by auto
qed

text \<open>
  C11.  The reader that peeks word by word and the reader of \<open>/proc/<pid>/mem\<close> are equivalent inside mapped memory: where the
  bytes \<open>bs\<close> are mapped, and the eight bytes after them as well, both read exactly these bytes, stop a string of several
  parts at the same zero byte, and read the same structures of variable size.  At the end of a mapping they differ: for a
  number of bytes that is not a multiple of eight the first reader peeks the whole last word and fails when the kernel refuses
  it, while the second reader still returns the bytes.
\<close>

theorem mem_helpers_agree:
  fixes k :: "('k, 'x) direct_api_scheme"
  assumes "peek_law k view" "direct_holds k view is_mem t pid w pid a bs"
  shows "((\<exists>tail. length tail = 8 \<and> mapped_at view (kern w) pid a (bs @ tail)) \<longrightarrow>
      (length bs \<le> length buf \<longrightarrow>
        fst (mh_read_bytes (SLOW_MEM_HELPERS k) pid a (of_nat (length bs)) buf (kern w)) = Inr (bs @ drop (length bs) buf) \<and>
        fst (mh_read_bytes (DIRECT_MEM_HELPERS k t) pid a (of_nat (length bs)) buf w) = Inr (bs @ drop (length bs) buf)) \<and>
      (scan_zeroes n0 bs (0, []) = Inl r \<longrightarrow>
        fst (mh_read_bytes_until_num_zeroes (SLOW_MEM_HELPERS k) pid a n0 (kern w)) = Inr r \<and>
        fst (mh_read_bytes_until_num_zeroes (DIRECT_MEM_HELPERS k t) pid a n0 w) = Inr r) \<and>
      (bs = concat cs \<and> (\<forall>c \<in> set cs. item_ok T c) \<and> type_ok T \<and> length cs \<le> fuel \<longrightarrow>
        fst (read_bytes_to_structs T fuel pid a (of_nat (length bs)) (SLOW_MEM_HELPERS k) (kern w)) = Inr (map (padded T) cs) \<and>
        fst (read_bytes_to_structs T fuel pid a (of_nat (length bs)) (DIRECT_MEM_HELPERS k t) w) = Inr (map (padded T) cs))) \<and>
    (length bs mod 8 \<noteq> 0 \<and> length bs + 8 < 2 ^ 64 \<and> length bs \<le> length buf \<and>
        fst (sys_ptrace_read k pid (a + of_nat (8 * (length bs div 8))) (kern w)) = Inl errno \<longrightarrow>
      fst (mh_read_bytes (SLOW_MEM_HELPERS k) pid a (of_nat (length bs)) buf (kern w)) = Inl (Err (ReadE errno)) \<and>
      fst (mh_read_bytes (DIRECT_MEM_HELPERS k t) pid a (of_nat (length bs)) buf w) = Inr (bs @ drop (length bs) buf))"
proof (rule conjI; rule impI)
  assume "\<exists>tail. length tail = 8 \<and> mapped_at view (kern w) pid a (bs @ tail)"
  then have "slow_holds k view (kern w) pid a bs" using assms(1) by (simp add: slow_holds_def)
  from mem_readers_agree [OF this assms(2)] show "(length bs \<le> length buf \<longrightarrow>
        fst (mh_read_bytes (SLOW_MEM_HELPERS k) pid a (of_nat (length bs)) buf (kern w)) = Inr (bs @ drop (length bs) buf) \<and>
        fst (mh_read_bytes (DIRECT_MEM_HELPERS k t) pid a (of_nat (length bs)) buf w) = Inr (bs @ drop (length bs) buf)) \<and>
      (scan_zeroes n0 bs (0, []) = Inl r \<longrightarrow>
        fst (mh_read_bytes_until_num_zeroes (SLOW_MEM_HELPERS k) pid a n0 (kern w)) = Inr r \<and>
        fst (mh_read_bytes_until_num_zeroes (DIRECT_MEM_HELPERS k t) pid a n0 w) = Inr r) \<and>
      (bs = concat cs \<and> (\<forall>c \<in> set cs. item_ok T c) \<and> type_ok T \<and> length cs \<le> fuel \<longrightarrow>
        fst (read_bytes_to_structs T fuel pid a (of_nat (length bs)) (SLOW_MEM_HELPERS k) (kern w)) = Inr (map (padded T) cs) \<and>
        fst (read_bytes_to_structs T fuel pid a (of_nat (length bs)) (DIRECT_MEM_HELPERS k t) w) = Inr (map (padded T) cs))" .
next
  assume h: "length bs mod 8 \<noteq> 0 \<and> length bs + 8 < 2 ^ 64 \<and> length bs \<le> length buf \<and>
    fst (sys_ptrace_read k pid (a + of_nat (8 * (length bs div 8))) (kern w)) = Inl errno"
  then obtain k' where "sys_ptrace_read k pid (a + of_nat (8 * (length bs div 8))) (kern w) = (Inl errno, k')" by (metis prod.collapse)
  moreover have "mapped_at view (kern w) pid a bs" using assms(2) by (simp add: direct_holds_def)
  ultimately have "slow_read_bytes k pid a (of_nat (length bs)) buf (kern w) = (Inl (Err (ReadE errno)), k')"
    using h slow_read_bytes_end [OF assms(1)] by blast
  moreover have "fst (mh_read_bytes (DIRECT_MEM_HELPERS k t) pid a (of_nat (length bs)) buf w) = Inr (bs @ drop (length bs) buf)"
    using direct_reader.read_bytes_law [OF assms(2), of buf] h by auto
  ultimately show "fst (mh_read_bytes (SLOW_MEM_HELPERS k) pid a (of_nat (length bs)) buf (kern w)) = Inl (Err (ReadE errno)) \<and>
      fst (mh_read_bytes (DIRECT_MEM_HELPERS k t) pid a (of_nat (length bs)) buf w) = Inr (bs @ drop (length bs) buf)"
    by (simp add: SLOW_MEM_HELPERS_def)
qed

text \<open>A machine with one open file: its state is the memory and the position in the file.\<close>

definition mapped_prefix :: "machine \<Rightarrow> pid \<Rightarrow> usize \<Rightarrow> nat \<Rightarrow> u8 list" where
  "mapped_prefix m pid a n =
     map the (takeWhile (\<lambda>b. b \<noteq> None) (map (\<lambda>i. m_bytes m pid (a + of_nat i)) [0..<n]))"

definition file_api :: "(machine \<times> usize) direct_api" where
  "file_api = \<lparr>
     sys_ptrace_read = (\<lambda>pid a (m, p). (fst (sys_ptrace_read machine_api pid a m), m, p)),
     sys_ptrace_write = (\<lambda>pid a v (m, p). case sys_ptrace_write machine_api pid a v m of (r, m) \<Rightarrow> (r, m, p)),
     sys_getregset = (\<lambda>pid (m, p). case sys_getregset machine_api pid m of (r, m) \<Rightarrow> (r, m, p)),
     sys_setregset = (\<lambda>pid v (m, p). case sys_setregset machine_api pid v m of (r, m) \<Rightarrow> (r, m, p)),
     sys_geteventmsg = (\<lambda>pid (m, p). case sys_geteventmsg machine_api pid m of (r, m) \<Rightarrow> (r, m, p)),
     sys_waitpid = (\<lambda>pid f (m, p). case sys_waitpid machine_api pid f m of (r, m) \<Rightarrow> (r, m, p)),
     sys_open_mem = (\<lambda>pid (m, p). (Inr pid, m, 0)),
     sys_lseek = (\<lambda>fd a (m, p). (Inr (), m, a)),
     sys_fd_read = (\<lambda>fd n (m, p). (Inr (mapped_prefix m fd p (unat n)), m, p))\<rparr>"

definition file_view :: "(machine \<times> usize) view" where
  "file_view s = m_bytes (fst s)"

definition file_is_mem :: "machine \<times> usize \<Rightarrow> fd \<Rightarrow> pid \<Rightarrow> bool" where
  "file_is_mem s fd pid \<longleftrightarrow> fd = pid"

lemma file_peek_law: "peek_law file_api file_view"
  unfolding peek_law_def
proof (intro allI impI)
  fix w pid addr and bs :: "u8 list"
  assume h: "length bs = 8 \<and> (\<forall>i < 8. file_view w pid (addr + of_nat i) = Some (bs ! i))"
  then have "sys_ptrace_read machine_api pid addr (fst w) = (Inr (from_ne_bytes bs), fst w)"
    using machine_peek_law unfolding peek_law_def file_view_def by blast
  then show "sys_ptrace_read file_api pid addr w = (Inr (from_ne_bytes bs), w)"
    by (cases w) (simp add: file_api_def)
qed

lemma mapped_prefix_take:
  assumes "mapped_at file_view (m, p) pid a cs" "length cs \<le> n"
  shows "take (length cs) (mapped_prefix m pid a n) = cs" "length (mapped_prefix m pid a n) \<le> n"
proof -
  let ?bs = "map (\<lambda>i. m_bytes m pid (a + of_nat i)) [0..<n]"
  have "[0..<n] = [0..<length cs] @ [length cs..<n]" using assms(2) by (metis le_add_diff_inverse upt_add_eq_append zero_le)
  then have "?bs = map (\<lambda>i. m_bytes m pid (a + of_nat i)) [0..<length cs] @
      map (\<lambda>i. m_bytes m pid (a + of_nat i)) [length cs..<n]"
    by simp
  moreover have "map (\<lambda>i. m_bytes m pid (a + of_nat i)) [0..<length cs] = map Some cs"
    using assms(1) by (intro nth_equalityI) (auto simp: mapped_at_def file_view_def)
  ultimately obtain rest where bs: "?bs = map Some cs @ rest" by simp
  have "takeWhile (\<lambda>b. b \<noteq> None) ?bs = map Some cs @ takeWhile (\<lambda>b. b \<noteq> None) rest"
    unfolding bs by (intro takeWhile_append2) auto
  then show "take (length cs) (mapped_prefix m pid a n) = cs"
    by (simp add: mapped_prefix_def o_def)
  show "length (mapped_prefix m pid a n) \<le> n"
    unfolding mapped_prefix_def using length_takeWhile_le [of "\<lambda>b. b \<noteq> None" ?bs] by simp
qed

lemma file_proc_mem_law: "proc_mem_law file_api file_view file_is_mem"
  unfolding proc_mem_law_def
proof (intro conjI allI impI; (elim conjE)?)
  show "\<exists>fd w'. sys_open_mem file_api pid w = (Inr fd, w') \<and> file_is_mem w' fd pid \<and> file_view w' = file_view w" for pid w
    by (cases w) (simp add: file_api_def file_is_mem_def file_view_def)
  fix w fd pid a cs and n :: usize
  assume h: "file_is_mem w fd pid" "mapped_at file_view w pid a cs" "length cs \<le> unat n"
  obtain m p where w: "w = (m, p)" by fastforce
  have "sys_lseek file_api fd a w = (Inr (), m, a)" "sys_fd_read file_api fd n (m, a) = (Inr (mapped_prefix m fd a (unat n)), m, a)"
    by (simp_all add: file_api_def w)
  moreover have "file_view (m, a) = file_view w" "file_is_mem (m, a) fd pid" "fd = pid"
    using h(1) by (simp_all add: file_view_def file_is_mem_def w)
  ultimately show "\<exists>w1 w2 out. sys_lseek file_api fd a w = (Inr (), w1) \<and> sys_fd_read file_api fd n w1 = (Inr out, w2) \<and>
      take (length cs) out = cs \<and> length out \<le> unat n \<and> file_view w2 = file_view w \<and> file_is_mem w2 fd pid"
    using mapped_prefix_take h(2,3) unfolding w by blast
qed

definition hello_machine :: machine where
  "hello_machine = \<lparr>m_bytes = (\<lambda>pid a. if pid = 1 \<and> unat a < 64 then Some (if a < 5 then 104 else 0) else None), m_regs = (\<lambda>_. [])\<rparr>"

lemma hello_mapped: "n \<le> 59 \<Longrightarrow> mapped_at file_view (hello_machine, 0) 1 0 (replicate 5 104 @ replicate n 0)"
  by (auto simp: mapped_at_def file_view_def hello_machine_def unat_of_nat_64 nth_append word_less_nat_alt)

text \<open>
  Five letters and a zero byte, read by both as one string; and the last three bytes of the mapping, which only the second reader can
  read.
\<close>

theorem mem_helpers_agree_witness:
  "fst (mh_read_bytes_until_num_zeroes (SLOW_MEM_HELPERS file_api) 1 0 1 (hello_machine, 0)) =
     (Inr (replicate 5 104) :: ptrace_error fault + u8 list) \<and>
   fst (mh_read_bytes_until_num_zeroes (DIRECT_MEM_HELPERS file_api 0) 1 0 1 (initial_globals (hello_machine, 0))) =
     (Inr (replicate 5 104) :: ptrace_error fault + u8 list) \<and>
   fst (mh_read_bytes (SLOW_MEM_HELPERS file_api) 1 61 3 [1, 1, 1] (hello_machine, 0)) = Inl (Err (ReadE 5)) \<and>
   fst (mh_read_bytes (DIRECT_MEM_HELPERS file_api 0) 1 61 3 [1, 1, 1] (initial_globals (hello_machine, 0))) = Inr [0, 0, 0]"
proof -
  let ?w = "initial_globals (hello_machine, 0)" and ?bs = "replicate 5 104 @ [0]"
  have kern: "kern ?w = (hello_machine, 0)" by (simp add: initial_globals_def)
  have m: "mapped_at file_view (hello_machine, 0) 1 0 (?bs @ replicate 8 0)"
    using hello_mapped [of 9] by (simp add: numeral_eq_Suc)
  have "direct_holds file_api file_view file_is_mem 0 1 ?w 1 0 ?bs"
    unfolding direct_holds_def kern using file_proc_mem_law hello_mapped [of 1] by (simp add: initial_globals_def)
  moreover have "scan_zeroes 1 ?bs (0, []) = Inl (replicate 5 104)"
    using scan_zeroes_first [of "replicate 5 104" "[]" "[]"] by simp
  moreover have "\<exists>tail. length tail = 8 \<and> mapped_at file_view (hello_machine, 0) 1 0 (?bs @ tail)"
    using m by (intro exI [of _ "replicate 8 0"]) simp
  ultimately have string: "fst (mh_read_bytes_until_num_zeroes (SLOW_MEM_HELPERS file_api) 1 0 1 (kern ?w)) =
      (Inr (replicate 5 104) :: ptrace_error fault + u8 list)"
    "fst (mh_read_bytes_until_num_zeroes (DIRECT_MEM_HELPERS file_api 0) 1 0 1 ?w) = (Inr (replicate 5 104) :: ptrace_error fault + u8 list)"
    using mem_helpers_agree [OF file_peek_law, of file_is_mem 0 1 ?w 0 ?bs "[]" 1 "replicate 5 104"] unfolding kern by blast+
  have "mapped_at file_view (hello_machine, 0) 1 61 [0, 0, 0]"
    by (auto simp: mapped_at_def file_view_def hello_machine_def less_Suc_eq numeral_3_eq_3 word_less_nat_alt unat_word_ariths)
  then have d: "direct_holds file_api file_view file_is_mem 0 1 ?w 1 61 [0, 0, 0]"
    unfolding direct_holds_def kern using file_proc_mem_law by (simp add: initial_globals_def)
  have "\<not> machine_mapped hello_machine 1 61"
    by (auto simp: machine_mapped_def hello_machine_def word_less_nat_alt unat_word_ariths intro!: bexI [of _ 3])
  then have "fst (sys_ptrace_read file_api 1 61 (hello_machine, 0)) = Inl 5" by (simp add: file_api_def machine_api_def)
  then have "fst (mh_read_bytes (SLOW_MEM_HELPERS file_api) 1 61 3 [1, 1, 1] (kern ?w)) = Inl (Err (ReadE 5)) \<and>
      fst (mh_read_bytes (DIRECT_MEM_HELPERS file_api 0) 1 61 3 [1, 1, 1] ?w) = Inr [0, 0, 0]"
    using mem_helpers_agree [OF file_peek_law d, of "[1, 1, 1]"] unfolding kern by auto
  then show ?thesis using string unfolding kern by blast
qed

end
