(* ===== verification/Metadata_Store.thy ===== *)
theory Metadata_Store
  imports Aug_Common
begin

text \<open>
  The metadata of the files of the root file system as a store: what \<open>save_metadata_for_file\<close> of
  \<open>sysaug/src/aug_common.rs\<close> writes is what \<open>read_metadata_for_file\<close> returns, under laws of the file system of the host.
\<close>

section \<open>Laws of the host\<close>

text \<open>
  A view of the state of the host: the contents of files, the position of open files, where a path leads, and which
  directories are there.
\<close>

record 'k store_view =
  v_files :: "'k \<Rightarrow> path \<rightharpoonup> u8 list"
  v_open :: "'k \<Rightarrow> fd \<rightharpoonup> path \<times> nat"
  v_canon :: "'k \<Rightarrow> path \<rightharpoonup> path"
  v_dir :: "'k \<Rightarrow> path \<Rightarrow> bool"

text \<open>A state in which files have new contents and positions, while paths lead where they led before.\<close>

definition store_next :: "'k store_view \<Rightarrow> 'k \<Rightarrow> (path \<rightharpoonup> u8 list) \<Rightarrow> (fd \<rightharpoonup> path \<times> nat) \<Rightarrow> 'k \<Rightarrow> bool" where
  "store_next V k files opened k' \<longleftrightarrow> v_files V k' = files \<and> v_open V k' = opened \<and>
     (\<forall>p c. v_canon V k p = Some c \<longrightarrow> v_canon V k' p = Some c)"

text \<open>What \<open>stat(2)\<close>, \<open>realpath(3)\<close> and \<open>mkdir(2)\<close> promise: a directory that is made does not make its entries.\<close>

definition path_laws :: "('k, 'regex) host_api \<Rightarrow> 'k store_view \<Rightarrow> bool" where
  "path_laws x V \<longleftrightarrow>
     (\<forall>p k. fs_exists x p k = (Inr (v_canon V k p \<noteq> None), k)) \<and>
     (\<forall>p k c. v_canon V k p = Some c \<longrightarrow> fs_canonicalize x p k = (Inr c, k)) \<and>
     (\<forall>p k. \<exists>k'. fs_create_dir_all x p k = (Inr (), k') \<and> store_next V k (v_files V k) (v_open V k) k' \<and> v_dir V k' p \<and>
        (\<forall>q. path_parent q = Some p \<longrightarrow> v_canon V k' q = v_canon V k q))"

text \<open>Opening: an existing file keeps its contents, and a new one is made in a directory that is there.\<close>

definition open_laws :: "('k, 'regex) host_api \<Rightarrow> 'k store_view \<Rightarrow> bool" where
  "open_laws x V \<longleftrightarrow>
     (\<forall>p k bs. v_files V k p = Some bs \<longrightarrow>
        (\<exists>fd k'. fs_open_ro x p k = (Inr fd, k') \<and> store_next V k (v_files V k) ((v_open V k)(fd \<mapsto> (p, 0))) k')) \<and>
     (\<forall>p k bs. v_files V k p = Some bs \<longrightarrow>
        (\<exists>fd k'. fs_open_rw x p k = (Inr fd, k') \<and> store_next V k (v_files V k) ((v_open V k)(fd \<mapsto> (p, 0))) k')) \<and>
     (\<forall>p d k. v_canon V k p = None \<and> path_parent p = Some d \<and> v_dir V k d \<longrightarrow>
        (\<exists>fd k'. fs_open_rw x p k = (Inr fd, k') \<and> v_canon V k' p \<noteq> None \<and>
           store_next V k ((v_files V k)(p \<mapsto> [])) ((v_open V k)(fd \<mapsto> (p, 0))) k'))"

text \<open>Open files: \<open>flock(2)\<close>, \<open>read(2)\<close>, \<open>lseek(2)\<close>, \<open>ftruncate(2)\<close>, \<open>write(2)\<close> and \<open>close(2)\<close>.\<close>

definition file_laws :: "('k, 'regex) host_api \<Rightarrow> 'k store_view \<Rightarrow> bool" where
  "file_laws x V \<longleftrightarrow> (\<forall>k fd p n bs. v_open V k fd = Some (p, n) \<and> v_files V k p = Some bs \<longrightarrow>
     (\<exists>k'. fs_lock_exclusive x fd k = (Inr (), k') \<and> store_next V k (v_files V k) (v_open V k) k') \<and>
     (\<exists>k' m. fs_read_rest x fd k = (Inr (drop n bs), k') \<and> store_next V k (v_files V k) ((v_open V k)(fd \<mapsto> (p, m))) k') \<and>
     (\<exists>k'. fs_seek x fd 0 k = (Inr (), k') \<and> store_next V k (v_files V k) ((v_open V k)(fd \<mapsto> (p, 0))) k') \<and>
     (\<exists>k'. fs_set_len x fd 0 k = (Inr (), k') \<and> store_next V k ((v_files V k)(p \<mapsto> [])) (v_open V k) k') \<and>
     (\<forall>cs. \<exists>k' m. fs_write_all x fd cs k = (Inr (), k') \<and>
        store_next V k ((v_files V k)(p \<mapsto> take n bs @ cs @ drop (n + length cs) bs)) ((v_open V k)(fd \<mapsto> (p, m))) k') \<and>
     (\<exists>k' r. fs_close x fd k = (r, k') \<and> store_next V k (v_files V k) ((v_open V k)(fd := None)) k'))"

text \<open>Reading what was written with \<open>serde_json\<close>.\<close>

definition json_laws :: "('k, 'regex) host_api \<Rightarrow> bool" where
  "json_laws x \<longleftrightarrow> (\<forall>m. json_read_metadata x (json_write_metadata x m) = Inr m \<and>
     json_read_metadata_option x (json_write_metadata x m) = Inr (Some m))"

definition store_laws :: "('k, 'regex) host_api \<Rightarrow> 'k store_view \<Rightarrow> bool" where
  "store_laws x V \<longleftrightarrow> path_laws x V \<and> open_laws x V \<and> file_laws x V \<and> json_laws x"

section \<open>Calls\<close>

abbreviation kern_of :: "'k handler \<Rightarrow> 'k" where
  "kern_of h \<equiv> kern (globals h)"

definition with_kern :: "'k \<Rightarrow> 'k handler \<Rightarrow> 'k handler" where
  "with_kern k h = h\<lparr>globals := (globals h)\<lparr>kern := k\<rparr>\<rparr>"

lemma with_kern_simps [simp]: "kern_of (with_kern k h) = k" "with_kern k (with_kern k' h) = with_kern k h"
  "with_kern (kern_of h) h = h"
  by (simp_all add: with_kern_def)

lemma nix_eq: "c (kern_of h) = (r, k) \<Longrightarrow> nix c h = (Inr r, with_kern k h)"
  by (simp add: nix_def on_kern_def with_kern_def)

lemma nix_call_eq: "c (kern_of h) = (Inr a, k) \<Longrightarrow> nix_call f c h = (Inr a, with_kern k h)"
  by (simp add: nix_call_def m_then_def nix_eq map_err_def lift_r_def ret_def)

lemma nix_call_at: "c k = (Inr a, k') \<Longrightarrow> nix_call f c (with_kern k h) = (Inr a, with_kern k' h)"
  using nix_call_eq [of c "with_kern k h" a k' f] by simp

lemma ignore_result_eq: "c (kern_of h) = (r, k) \<Longrightarrow> ignore_result c h = (Inr (), with_kern k h)"
  by (simp add: ignore_result_def m_then_def nix_eq ret_def)

lemma path_exists_eq: "path_laws x V \<Longrightarrow> path_exists x p h = (Inr (v_canon V (kern_of h) p \<noteq> None), h)"
  by (simp add: path_exists_def m_then_def path_laws_def nix_eq [where r = "Inr b" for b] or_false_def ret_def)

lemma m_then_Inr: "m h = (Inr a, h') \<Longrightarrow> m_then m f h = f a h'"
  by (simp add: m_then_def)

text \<open>The path of the metadata only depends on where the path of the file leads.\<close>

lemma get_metadata_path_stable:
  assumes "path_laws x V" "get_metadata_path e x p h = (Inr (Some mp), h1)"
    and "\<forall>q c. v_canon V (kern_of h) q = Some c \<longrightarrow> v_canon V (kern_of h') q = Some c"
  shows "h1 = h \<and> get_metadata_path e x p h' = (Inr (Some mp), h') \<and> args_rootfs (args_of e) \<noteq> None"
proof -
  obtain rootfs where r: "args_rootfs (args_of e) = Some rootfs" "\<not> path_eq rootfs [SLASH]"
    using assms(2) by (auto simp: get_metadata_path_def resolve_metadata_path_def ret_def split: if_splits option.splits)
  then obtain c where c: "v_canon V (kern_of h) p = Some c"
    using assms(1,2)
    by (auto simp: get_metadata_path_def resolve_metadata_path_def m_then_def ret_def path_exists_eq split: if_splits option.splits)
  then have "v_canon V (kern_of h') p = Some c" using assms(3) by blast
  then have canon: "nix (fs_canonicalize x p) h = (Inr (Inr c), h)" "nix (fs_canonicalize x p) h' = (Inr (Inr c), h')"
    using c assms(1) by (simp_all add: path_laws_def nix_eq [where r = "Inr c"])
  show ?thesis
    using assms(1,2) r c \<open>v_canon V (kern_of h') p = Some c\<close> canon
    by (auto simp: get_metadata_path_def resolve_metadata_path_def m_then_def ret_def path_exists_eq panic_def split: option.splits)
qed

lemma read_json_eq:
  assumes "file_laws x V" "v_open V (kern_of h) fd = Some (mp, 0)" "v_files V (kern_of h) mp = Some bs" "parse bs = Inr a"
  shows "\<exists>k m. read_json x fd parse h = (Inr a, with_kern k h) \<and>
    store_next V (kern_of h) (v_files V (kern_of h)) ((v_open V (kern_of h))(fd \<mapsto> (mp, m))) k"
proof -
  obtain k m where k: "fs_read_rest x fd (kern_of h) = (Inr bs, k)"
      "store_next V (kern_of h) (v_files V (kern_of h)) ((v_open V (kern_of h))(fd \<mapsto> (mp, m))) k"
    using assms(1-3) unfolding file_laws_def by (metis drop0)
  have "read_json x fd parse h = (Inr a, with_kern k h)"
    by (simp add: read_json_def m_then_def nix_call_eq [where a = bs and k = k] k(1) assms(4) map_err_def lift_r_def ret_def)
  with k(2) show ?thesis by blast
qed

text \<open>What is done with the open metadata file: lock it, read it, cut it and write it.\<close>

definition save_body ::
  "('k, 'regex) host_api \<Rightarrow> fd \<Rightarrow> bool \<Rightarrow> (rootfs_metadata \<Rightarrow> rootfs_metadata) \<Rightarrow> ('k handler, sysaug_error, unit) io" where
  "save_body x file exists update_fn =
     m_then (nix_call (\<lambda>_. LockRootFsMetadata) (fs_lock_exclusive x file)) (\<lambda>_.
     m_then (if \<not> exists then ret default_rootfs_metadata else read_json x file (json_read_metadata x)) (\<lambda>curr_data.
     m_then (if exists
             then m_then (nix_call WriteRootFsMetadata (fs_seek x file 0)) (\<lambda>_.
                  nix_call WriteRootFsMetadata (fs_set_len x file 0))
             else ret ()) (\<lambda>_.
     nix_call (\<lambda>n. WriteRootFsMetadata2 (errno_message x n))
       (fs_write_all x file (json_write_metadata x (update_fn curr_data))))))"

lemma save_metadata_unfold:
  "save_metadata_for_file e x p f =
     (if args_rootfs (args_of e) = None then ret ()
      else
      m_then (get_metadata_path e x p) (\<lambda>maybe_meta_path.
      case maybe_meta_path of
        None \<Rightarrow> ret ()
      | Some mp \<Rightarrow>
          m_then (nix_call CheckRootFsMetadata (fs_exists x mp)) (\<lambda>exists.
          case path_parent mp of
            None \<Rightarrow> panic
          | Some d \<Rightarrow>
          m_then (ignore_result (fs_create_dir_all x d)) (\<lambda>_.
          m_then (nix_call (\<lambda>n. WriteMetadata (errno_message x n)) (fs_open_rw x mp)) (\<lambda>file.
          with_file x file (save_body x file exists f))))))"
  by (simp only: save_metadata_for_file_def save_body_def)

lemma save_body_eq:
  assumes laws: "file_laws x V" "json_laws x"
    and fd: "v_open V (kern_of h) fd = Some (mp, 0)" "v_files V (kern_of h) mp = Some bs"
    and bs: "bs = (case old of None \<Rightarrow> [] | Some m \<Rightarrow> json_write_metadata x m)"
  shows "\<exists>k opened pos. save_body x fd (old \<noteq> None) f h = (Inr (), with_kern k h) \<and>
    store_next V (kern_of h) ((v_files V (kern_of h))(mp \<mapsto>
      json_write_metadata x (f (case old of None \<Rightarrow> default_rootfs_metadata | Some m \<Rightarrow> m)))) opened k \<and>
    opened fd = Some (mp, pos)"
proof -
  obtain k1 where k1: "fs_lock_exclusive x fd (kern_of h) = (Inr (), k1)"
      "store_next V (kern_of h) (v_files V (kern_of h)) (v_open V (kern_of h)) k1"
    using laws(1) fd unfolding file_laws_def by meson
  let ?h1 = "with_kern k1 h"
  have steps: "nix_call g (fs_lock_exclusive x fd) h = (Inr (), ?h1)" for g using k1(1) by (rule nix_call_eq)
  have fd1: "v_open V (kern_of ?h1) fd = Some (mp, 0)" "v_files V (kern_of ?h1) mp = Some bs"
    using fd k1(2) by (simp_all add: store_next_def)
  show ?thesis
  proof (cases old)
    case None
    let ?c = "json_write_metadata x (f default_rootfs_metadata)"
    obtain k2 m where k2: "fs_write_all x fd ?c (kern_of ?h1) = (Inr (), k2)"
      "store_next V (kern_of ?h1) ((v_files V (kern_of ?h1))(mp \<mapsto> ?c)) ((v_open V (kern_of ?h1))(fd \<mapsto> (mp, m))) k2"
      using laws(1) fd1 bs None unfolding file_laws_def by fastforce
    have "save_body x fd (old \<noteq> None) f h = (Inr (), with_kern k2 h)"
      using steps nix_call_at [where c = "fs_write_all x fd ?c", OF k2(1) [unfolded with_kern_simps]]
      by (simp add: save_body_def None m_then_def ret_def)
    moreover have "store_next V (kern_of h) ((v_files V (kern_of h))(mp \<mapsto> ?c)) ((v_open V (kern_of ?h1))(fd \<mapsto> (mp, m))) k2"
      using k1(2) k2(2) by (simp add: store_next_def)
    ultimately show ?thesis using None by (metis (mono_tags, lifting) fun_upd_same option.simps(4))
  next
    case (Some old_data)
    have "json_read_metadata x bs = Inr old_data" using laws(2) bs Some by (simp add: json_laws_def)
    then obtain k2 m2 where k2: "read_json x fd (json_read_metadata x) ?h1 = (Inr old_data, with_kern k2 ?h1)"
      "store_next V (kern_of ?h1) (v_files V (kern_of ?h1)) ((v_open V (kern_of ?h1))(fd \<mapsto> (mp, m2))) k2"
      using read_json_eq [OF laws(1) fd1, of "json_read_metadata x" old_data] by blast
    have fd2: "v_open V k2 fd = Some (mp, m2)" "v_files V k2 mp = Some bs" using fd1 k2(2) by (simp_all add: store_next_def)
    obtain k3 where k3: "fs_seek x fd 0 k2 = (Inr (), k3)"
      "store_next V k2 (v_files V k2) ((v_open V k2)(fd \<mapsto> (mp, 0))) k3"
      using laws(1) fd2 unfolding file_laws_def by meson
    have fd3: "v_open V k3 fd = Some (mp, 0)" "v_files V k3 mp = Some bs" using fd2 k3(2) by (simp_all add: store_next_def)
    obtain k4 where k4: "fs_set_len x fd 0 k3 = (Inr (), k4)" "store_next V k3 ((v_files V k3)(mp \<mapsto> [])) (v_open V k3) k4"
      using laws(1) fd3 unfolding file_laws_def by meson
    have fd4: "v_open V k4 fd = Some (mp, 0)" "v_files V k4 mp = Some []" using fd3 k4(2) by (simp_all add: store_next_def)
    let ?c = "json_write_metadata x (f old_data)"
    obtain k5 m where k5: "fs_write_all x fd ?c k4 = (Inr (), k5)"
      "store_next V k4 ((v_files V k4)(mp \<mapsto> ?c)) ((v_open V k4)(fd \<mapsto> (mp, m))) k5"
      using laws(1) fd4 unfolding file_laws_def by fastforce
    have "save_body x fd (old \<noteq> None) f h = (Inr (), with_kern k5 h)"
      using steps k2(1) nix_call_at [where c = "fs_seek x fd 0", OF k3(1)] nix_call_at [where c = "fs_set_len x fd 0", OF k4(1)]
        nix_call_at [where c = "fs_write_all x fd ?c", OF k5(1)]
      by (simp add: save_body_def Some m_then_def)
    moreover have "store_next V (kern_of h) ((v_files V (kern_of h))(mp \<mapsto> ?c)) ((v_open V k4)(fd \<mapsto> (mp, m))) k5"
      using k1(2) k2(2) k3(2) k4(2) k5(2) by (simp add: store_next_def)
    ultimately show ?thesis using Some by (metis (mono_tags, lifting) fun_upd_same option.simps(5))
  qed
qed

section \<open>Saving and reading\<close>

lemma no_parent_no_name:
  assumes "path_parent q = None"
  shows "NormalDir n \<notin> set (components q)"
proof -
  have nil: "comps ss = []" if "trim_segments ss = []" for ss using that comps_trim [of ss] by (simp add: comps_def)
  show ?thesis
    using assms nil [of "segments (tl q)"] nil [of "segments q"]
    by (auto simp: path_parent_def components_def Let_def split: if_splits)
qed

lemma path_parent_push_name:
  assumes "normal_name n"
  shows "path_parent (path_push q n) \<noteq> None"
proof -
  have "NormalDir n \<in> set (components (path_push q n))"
  proof (cases "q = []")
    case True
    then show ?thesis using assms by (simp add: path_push_def normal_name_simps components_bytes)
  qed (use assms in \<open>simp add: components_push_name\<close>)
  then show ?thesis using no_parent_no_name by blast
qed

lemma metadata_path_parent: "metadata_path_in rootfs name c = Some mp \<Longrightarrow> path_parent mp \<noteq> None"
  using path_parent_push_name CHLD_META(2)
  by (auto simp: metadata_path_in_def Let_def split: option.splits)

lemma get_metadata_path_parent: "get_metadata_path e x p h = (Inr (Some mp), h') \<Longrightarrow> path_parent mp \<noteq> None"
  using metadata_path_parent
  by (auto simp: get_metadata_path_def resolve_metadata_path_def m_then_def ret_def panic_def
      split: if_splits option.splits prod.splits sum.splits)

text \<open>The metadata file of a path in a state: there is none yet, or it holds metadata that was written before.\<close>

definition holds_metadata ::
  "('k, 'regex) host_api \<Rightarrow> 'k store_view \<Rightarrow> 'k \<Rightarrow> path \<Rightarrow> rootfs_metadata option \<Rightarrow> bool" where
  "holds_metadata x V k mp old \<longleftrightarrow>
     v_files V k mp = map_option (json_write_metadata x) old \<and> (v_canon V k mp = None \<longleftrightarrow> old = None)"

lemma with_file_eq:
  assumes "file_laws x V" "m h = (r, with_kern k h)" "v_open V k fd = Some (p, n)" "v_files V k p = Some bs"
  shows "\<exists>k' opened. with_file x fd m h = (r, with_kern k' h) \<and> store_next V k (v_files V k) opened k'"
proof -
  obtain k' c where "fs_close x fd k = (c, k')" "store_next V k (v_files V k) ((v_open V k)(fd := None)) k'"
    using assms(1,3,4) unfolding file_laws_def by meson
  moreover from this(1) have "ignore_result (fs_close x fd) (with_kern k h) = (Inr (), with_kern k' h)"
    using ignore_result_eq [of "fs_close x fd" "with_kern k h"] by simp
  ultimately show ?thesis using assms(2) by (auto simp: with_file_def)
qed

lemma exists_metadata:
  assumes "store_laws x V" "holds_metadata x V (kern_of h) mp old"
  shows "nix_call g (fs_exists x mp) h = (Inr (old \<noteq> None), h)"
proof -
  have "fs_exists x mp (kern_of h) = (Inr (v_canon V (kern_of h) mp \<noteq> None), kern_of h)"
    using assms(1) unfolding store_laws_def path_laws_def by blast
  moreover have "(v_canon V (kern_of h) mp \<noteq> None) = (old \<noteq> None)" using assms(2) by (simp add: holds_metadata_def)
  ultimately have "fs_exists x mp (kern_of h) = (Inr (old \<noteq> None), kern_of h)" by simp
  then have "nix_call g (fs_exists x mp) h = (Inr (old \<noteq> None), with_kern (kern_of h) h)" by (rule nix_call_eq)
  then show ?thesis by simp
qed

lemma read_metadata_eq:
  assumes laws: "store_laws x V" and mp: "get_metadata_path e x p h = (Inr (Some mp), h)" "args_rootfs (args_of e) \<noteq> None"
    and old: "holds_metadata x V (kern_of h) mp old"
  shows "\<exists>h'. read_metadata_for_file e x p h = (Inr old, h')"
proof -
  note exists = exists_metadata [OF laws old]
  have parts: "open_laws x V" "file_laws x V" "json_laws x" using laws by (simp_all add: store_laws_def)
  show ?thesis
  proof (cases old)
    case None
    then show ?thesis using mp exists by (auto simp: read_metadata_for_file_def m_then_def ret_def)
  next
    case (Some m)
    let ?bs = "json_write_metadata x m"
    have f: "v_files V (kern_of h) mp = Some ?bs" using old Some by (simp add: holds_metadata_def)
    then obtain fd k1 where k1: "fs_open_ro x mp (kern_of h) = (Inr fd, k1)"
        "store_next V (kern_of h) (v_files V (kern_of h)) ((v_open V (kern_of h))(fd \<mapsto> (mp, 0))) k1"
      using parts(1) unfolding open_laws_def by meson
    let ?h1 = "with_kern k1 h"
    have fd: "v_open V (kern_of ?h1) fd = Some (mp, 0)" "v_files V (kern_of ?h1) mp = Some ?bs"
      using k1(2) f by (simp_all add: store_next_def)
    have "json_read_metadata_option x ?bs = Inr (Some m)" using parts(3) by (simp add: json_laws_def)
    then obtain k2 n where k2: "read_json x fd (json_read_metadata_option x) ?h1 = (Inr (Some m), with_kern k2 ?h1)"
        "store_next V (kern_of ?h1) (v_files V (kern_of ?h1)) ((v_open V (kern_of ?h1))(fd \<mapsto> (mp, n))) k2"
      using read_json_eq [OF parts(2) fd, of "json_read_metadata_option x"] by blast
    then have fd2: "v_open V k2 fd = Some (mp, n)" "v_files V k2 mp = Some ?bs" using fd by (simp_all add: store_next_def)
    obtain k3 where "with_file x fd (read_json x fd (json_read_metadata_option x)) ?h1 = (Inr (Some m), with_kern k3 ?h1)"
      using with_file_eq [where m = "read_json x fd (json_read_metadata_option x)", OF parts(2) k2(1) fd2] by blast
    moreover have "nix_call g (fs_open_ro x mp) h = (Inr fd, ?h1)" for g using k1(1) by (rule nix_call_eq)
    ultimately show ?thesis
      using mp exists Some by (auto simp: read_metadata_for_file_def m_then_def)
  qed
qed

text \<open>Opening the metadata file for writing, which makes it when there is none.\<close>

lemma open_metadata:
  assumes "store_laws x V" "holds_metadata x V k mp old" "path_parent mp = Some d" "v_dir V k d"
  shows "\<exists>fd k'. fs_open_rw x mp k = (Inr fd, k') \<and> v_open V k' fd = Some (mp, 0) \<and>
    v_files V k' mp = Some (case old of None \<Rightarrow> [] | Some m \<Rightarrow> json_write_metadata x m) \<and> v_canon V k' mp \<noteq> None \<and>
    (\<forall>q c. v_canon V k q = Some c \<longrightarrow> v_canon V k' q = Some c)"
proof (cases old)
  case None
  then have "v_canon V k mp = None" using assms(2) by (simp add: holds_metadata_def)
  then obtain fd k' where "fs_open_rw x mp k = (Inr fd, k')" "v_canon V k' mp \<noteq> None"
      "store_next V k ((v_files V k)(mp \<mapsto> [])) ((v_open V k)(fd \<mapsto> (mp, 0))) k'"
    using assms(1,3,4) unfolding store_laws_def open_laws_def by meson
  then show ?thesis using None by (auto simp: store_next_def)
next
  case (Some m)
  then have f: "v_files V k mp = Some (json_write_metadata x m)" and c: "v_canon V k mp \<noteq> None"
    using assms(2) by (simp_all add: holds_metadata_def)
  obtain fd k' where "fs_open_rw x mp k = (Inr fd, k')"
      "store_next V k (v_files V k) ((v_open V k)(fd \<mapsto> (mp, 0))) k'"
    using f assms(1) unfolding store_laws_def open_laws_def by meson
  then show ?thesis using Some f c by (auto simp: store_next_def)
qed

lemma save_metadata_eq:
  assumes laws: "store_laws x V" and mp: "get_metadata_path e x p h = (Inr (Some mp), h)" "args_rootfs (args_of e) \<noteq> None"
    and old: "holds_metadata x V (kern_of h) mp old"
  shows "\<exists>k'. save_metadata_for_file e x p f h = (Inr (), with_kern k' h) \<and>
    holds_metadata x V k' mp (Some (f (case old of None \<Rightarrow> default_rootfs_metadata | Some m \<Rightarrow> m))) \<and>
    (\<forall>q c. v_canon V (kern_of h) q = Some c \<longrightarrow> v_canon V k' q = Some c)"
proof -
  have parts: "path_laws x V" "file_laws x V" "json_laws x" using laws by (simp_all add: store_laws_def)
  obtain d where d: "path_parent mp = Some d" using get_metadata_path_parent [OF mp(1)] by blast
  obtain k1 where k1: "fs_create_dir_all x d (kern_of h) = (Inr (), k1)" "v_dir V k1 d" "v_canon V k1 mp = v_canon V (kern_of h) mp"
      "store_next V (kern_of h) (v_files V (kern_of h)) (v_open V (kern_of h)) k1"
    using parts(1) d unfolding path_laws_def by meson
  have "holds_metadata x V k1 mp old" using old k1(3,4) by (simp add: holds_metadata_def store_next_def)
  from open_metadata [OF laws this d k1(2)] obtain fd k2 where
    k2: "fs_open_rw x mp k1 = (Inr fd, k2)" "v_open V k2 fd = Some (mp, 0)"
      "v_files V k2 mp = Some (case old of None \<Rightarrow> [] | Some m \<Rightarrow> json_write_metadata x m)" "v_canon V k2 mp \<noteq> None"
      "\<forall>q c. v_canon V k1 q = Some c \<longrightarrow> v_canon V k2 q = Some c"
    by blast
  let ?h2 = "with_kern k2 h" and ?new = "f (case old of None \<Rightarrow> default_rootfs_metadata | Some m \<Rightarrow> m)"
  obtain k3 opened pos where k3: "save_body x fd (old \<noteq> None) f ?h2 = (Inr (), with_kern k3 ?h2)" "opened fd = Some (mp, pos)"
      "store_next V k2 ((v_files V k2)(mp \<mapsto> json_write_metadata x ?new)) opened k3"
    using save_body_eq [OF parts(2,3), of ?h2 fd mp _ old f] k2(2,3) by auto
  then have fd3: "v_open V k3 fd = Some (mp, pos)" "v_files V k3 mp = Some (json_write_metadata x ?new)"
    by (simp_all add: store_next_def)
  obtain k4 opened' where k4: "with_file x fd (save_body x fd (old \<noteq> None) f) ?h2 = (Inr (), with_kern k4 ?h2)"
      "store_next V k3 (v_files V k3) opened' k4"
    using with_file_eq [where m = "save_body x fd (old \<noteq> None) f", OF parts(2) k3(1) fd3] by blast
  have "nix_call g (fs_open_rw x mp) (with_kern k1 h) = (Inr fd, ?h2)" for g using k2(1) by (rule nix_call_at)
  moreover have "ignore_result (fs_create_dir_all x d) h = (Inr (), with_kern k1 h)" using k1(1) by (rule ignore_result_eq)
  ultimately have "save_metadata_for_file e x p f h = (Inr (), with_kern k4 h)"
    using mp d k4(1) exists_metadata [OF laws old]
    by (auto simp: save_metadata_unfold m_then_def)
  moreover have canon: "\<forall>q c. v_canon V k2 q = Some c \<longrightarrow> v_canon V k4 q = Some c" "v_files V k4 = v_files V k3"
    using k3(3) k4(2) by (simp_all add: store_next_def)
  moreover have "\<forall>q c. v_canon V (kern_of h) q = Some c \<longrightarrow> v_canon V k1 q = Some c" using k1(4) by (simp add: store_next_def)
  ultimately show ?thesis using fd3(2) k2(4,5) by (auto simp: holds_metadata_def)
qed

text \<open>
  C10.  What is recorded for a file is what is read back: with a root file system, saving an update succeeds, and
  reading afterwards returns the update of what a read before would have returned, or of the default metadata when there was
  none.
\<close>

theorem metadata_save_then_read:
  assumes "store_laws x V" "get_metadata_path e x p h = (Inr (Some mp), h0)" "holds_metadata x V (kern_of h) mp old"
  shows "\<exists>h1 h2 h3. read_metadata_for_file e x p h = (Inr old, h1) \<and>
    save_metadata_for_file e x p f h = (Inr (), h2) \<and>
    read_metadata_for_file e x p h2 = (Inr (Some (f (case old of None \<Rightarrow> default_rootfs_metadata | Some m \<Rightarrow> m))), h3)"
proof -
  have laws: "path_laws x V" using assms(1) by (simp add: store_laws_def)
  have mp: "get_metadata_path e x p h = (Inr (Some mp), h)" "args_rootfs (args_of e) \<noteq> None"
    using get_metadata_path_stable [OF laws assms(2), of h] assms(2) by auto
  obtain h1 where h1: "read_metadata_for_file e x p h = (Inr old, h1)" using read_metadata_eq [OF assms(1) mp assms(3)] by blast
  obtain k where k: "save_metadata_for_file e x p f h = (Inr (), with_kern k h)"
      "holds_metadata x V k mp (Some (f (case old of None \<Rightarrow> default_rootfs_metadata | Some m \<Rightarrow> m)))"
      "\<forall>q c. v_canon V (kern_of h) q = Some c \<longrightarrow> v_canon V k q = Some c"
    using save_metadata_eq [OF assms(1) mp assms(3)] by blast
  have "get_metadata_path e x p (with_kern k h) = (Inr (Some mp), with_kern k h)"
    using get_metadata_path_stable [OF laws assms(2), of "with_kern k h"] k(3) by simp
  then show ?thesis using h1 k(1) read_metadata_eq [OF assms(1) _ mp(2), of p "with_kern k h" mp] k(2) by simp
qed

text \<open>The host with the files of the small kernel satisfies the laws.\<close>

definition sim_store :: "sim_kernel store_view" where
  "sim_store = \<lparr>
     v_files = (\<lambda>s p. case sim_nodes s p of Some (SimFile bs) \<Rightarrow> Some bs | _ \<Rightarrow> None),
     v_open = sim_fds,
     v_canon = (\<lambda>s p. if sim_nodes s p = None then None else Some p),
     v_dir = (\<lambda>_ _. True)\<rparr>"

lemma sim_store_simps [simp]:
  "v_open sim_store s = sim_fds s" "v_dir sim_store s d" "v_canon sim_store s p = None \<longleftrightarrow> sim_nodes s p = None"
  "v_canon sim_store s p = Some c \<longleftrightarrow> sim_nodes s p \<noteq> None \<and> c = p"
  "v_files sim_store s p = Some bs \<longleftrightarrow> sim_nodes s p = Some (SimFile bs)"
  "v_files sim_store (s\<lparr>sim_fds := fds\<rparr>) = v_files sim_store s"
  "v_files sim_store (s\<lparr>sim_fds := fds, sim_nodes := (sim_nodes s)(p \<mapsto> SimFile bs)\<rparr>) = (v_files sim_store s)(p \<mapsto> bs)"
  "v_files sim_store (s\<lparr>sim_nodes := (sim_nodes s)(p \<mapsto> SimFile bs)\<rparr>) = (v_files sim_store s)(p \<mapsto> bs)"
  by (auto simp: sim_store_def split: option.splits sim_node.splits)

lemma sim_nodes_triv: "sim_nodes s p = Some (SimFile bs) \<Longrightarrow> (v_files sim_store s)(p \<mapsto> bs) = v_files sim_store s"
  by (rule fun_upd_idem) simp

lemma sim_path_laws: "path_laws sim_host sim_store"
  by (auto simp: path_laws_def store_next_def) (auto simp: sim_host_def sim_store_def)

lemma sim_host_open:
  "sim_nodes s p = Some (SimFile bs) \<Longrightarrow> fs_open_ro sim_host p s = (Inr 7, s\<lparr>sim_fds := (sim_fds s)(7 \<mapsto> (p, 0))\<rparr>)"
  "sim_nodes s p = Some (SimFile bs) \<Longrightarrow> fs_open_rw sim_host p s = (Inr 7, s\<lparr>sim_fds := (sim_fds s)(7 \<mapsto> (p, 0))\<rparr>)"
  "sim_nodes s p = None \<Longrightarrow> fs_open_rw sim_host p s =
     (Inr 7, s\<lparr>sim_nodes := (sim_nodes s)(p \<mapsto> SimFile []), sim_fds := (sim_fds s)(7 \<mapsto> (p, 0))\<rparr>)"
  by (simp_all add: sim_host_def sim_open_def)

lemma sim_open_laws: "open_laws sim_host sim_store"
  unfolding open_laws_def by (auto simp: sim_host_open store_next_def)

lemma sim_host_file:
  assumes "sim_fds s fd = Some (p, n)" "sim_nodes s p = Some (SimFile bs)"
  shows "fs_lock_exclusive sim_host fd s = (Inr (), s)" "fs_read_rest sim_host fd s = (Inr (drop n bs), s)"
    "fs_seek sim_host fd 0 s = (Inr (), sim_set_file fd p 0 bs s)" "fs_set_len sim_host fd 0 s = (Inr (), sim_set_file fd p n [] s)"
    "fs_write_all sim_host fd cs s = (Inr (), sim_set_file fd p (n + length cs) (take n bs @ cs @ drop (n + length cs) bs) s)"
    "fs_close sim_host fd s = (Inr (), s\<lparr>sim_fds := (sim_fds s)(fd := None)\<rparr>)"
  using assms by (simp_all add: sim_host_def on_file_def sim_file_def)

lemma sim_file_laws: "file_laws sim_host sim_store"
  unfolding file_laws_def
proof (intro allI impI, elim conjE)
  fix s fd p n bs
  assume "v_open sim_store s fd = Some (p, n)" "v_files sim_store s p = Some bs"
  then have h: "sim_fds s fd = Some (p, n)" "sim_nodes s p = Some (SimFile bs)" by simp_all
  then have triv: "(sim_fds s)(fd \<mapsto> (p, n)) = sim_fds s" by (simp add: fun_upd_idem)
  note sim = sim_host_file [OF h] sim_nodes_triv [OF h(2)]
  show "(\<exists>k'. fs_lock_exclusive sim_host fd s = (Inr (), k') \<and> store_next sim_store s (v_files sim_store s) (v_open sim_store s) k') \<and>
     (\<exists>k' m. fs_read_rest sim_host fd s = (Inr (drop n bs), k') \<and>
        store_next sim_store s (v_files sim_store s) ((v_open sim_store s)(fd \<mapsto> (p, m))) k') \<and>
     (\<exists>k'. fs_seek sim_host fd 0 s = (Inr (), k') \<and> store_next sim_store s (v_files sim_store s) ((v_open sim_store s)(fd \<mapsto> (p, 0))) k') \<and>
     (\<exists>k'. fs_set_len sim_host fd 0 s = (Inr (), k') \<and> store_next sim_store s ((v_files sim_store s)(p \<mapsto> [])) (v_open sim_store s) k') \<and>
     (\<forall>cs. \<exists>k' m. fs_write_all sim_host fd cs s = (Inr (), k') \<and>
        store_next sim_store s ((v_files sim_store s)(p \<mapsto> take n bs @ cs @ drop (n + length cs) bs)) ((v_open sim_store s)(fd \<mapsto> (p, m))) k') \<and>
     (\<exists>k' r. fs_close sim_host fd s = (r, k') \<and> store_next sim_store s (v_files sim_store s) ((v_open sim_store s)(fd := None)) k')"
    using triv by (intro conjI) (auto simp: sim sim_set_file_def store_next_def intro: exI [of _ n])
qed

lemma sim_store_laws: "store_laws sim_host sim_store"
  using sim_path_laws sim_open_laws sim_file_laws
  by (simp add: store_laws_def json_laws_def) (simp add: sim_host_def)

text \<open>The file \<open>/r/a\<close> of the root file system \<open>/r\<close>, whose mode is recorded for the first time.\<close>

definition example_args :: sysaug_args where
  "example_args = default_sysaug_args\<lparr>args_rootfs := Some [47, 114]\<rparr>"

definition example_files :: "sim_kernel handler" where
  "example_files = sim_files None [[47, 114, 47, 97] \<mapsto> SimFile []]"

lemma example_metadata_path:
  "\<exists>mp. get_metadata_path (sim_env L example_args) sim_host [47, 114, 47, 97] example_files = (Inr (Some mp), example_files) \<and>
     mp \<noteq> [47, 114, 47, 97]"
proof -
  note eval = components_def comps_def segment_component_def skipped_segment_def SLASH_def DOT_def file_name_def
    canonical_def starts_with_def path_eq_def is_absolute_def
  let ?h = example_files and ?p = "[47, 114, 47, 97] :: path"
  have node: "v_canon sim_store (kern_of ?h) ?p = Some ?p" by (simp add: example_files_def)
  have root: "file_name [47, 114] = Some [114]" "\<not> path_eq [47, 114] [SLASH]" by (simp_all add: eval)
  obtain m where m: "metadata_path_in [47, 114] [114] ?p = Some m" and c: "components m =
      (butlast (components [47, 114]) @ [NormalDir ([114] @ bytes_of_string ''.metadata''), NormalDir (bytes_of_string ''rootfs'')]) @
      children (drop (length (components [47, 114])) (components ?p)) @ [NormalDir META]"
    using metadata_path_components [of "[47, 114]" "[114]" ?p] by (auto simp: eval)
  have "m \<noteq> ?p"
  proof
    assume "m = ?p"
    then have "length (components m) = 3" by (simp add: eval)
    then show False unfolding c by (simp add: eval)
  qed
  moreover have "nix (fs_canonicalize sim_host ?p) ?h = (Inr (Inr ?p), ?h)"
    using node sim_path_laws nix_eq [of "fs_canonicalize sim_host ?p" ?h "Inr ?p" "kern_of ?h"] unfolding path_laws_def by simp
  ultimately show ?thesis
    using m node root
    by (simp add: get_metadata_path_def resolve_metadata_path_def m_then_def ret_def path_exists_eq [OF sim_path_laws] sim_simps example_args_def)
qed

theorem metadata_save_then_read_witness:
  "\<exists>h2 h3. save_metadata_for_file
       (sim_env \<lparr>SYS = (\<lambda>_. 39), AT_SYMLINK_NOFOLLOW = 256\<rparr> example_args) sim_host [47, 114, 47, 97]
       (\<lambda>m. m\<lparr>md_chmod := Some 493\<rparr>) example_files =
       (Inr (), h2) \<and>
     read_metadata_for_file (sim_env \<lparr>SYS = (\<lambda>_. 39), AT_SYMLINK_NOFOLLOW = 256\<rparr> example_args) sim_host [47, 114, 47, 97] h2 =
       (Inr (Some (default_rootfs_metadata\<lparr>md_chmod := Some 493\<rparr>)), h3)"
proof -
  obtain mp where mp: "get_metadata_path (sim_env \<lparr>SYS = (\<lambda>_. 39), AT_SYMLINK_NOFOLLOW = 256\<rparr> example_args) sim_host [47, 114, 47, 97] example_files =
      (Inr (Some mp), example_files)" "mp \<noteq> [47, 114, 47, 97]"
    using example_metadata_path by blast
  then have "holds_metadata sim_host sim_store (kern_of example_files) mp None"
    by (simp add: holds_metadata_def example_files_def) (simp add: sim_store_def)
  from metadata_save_then_read [OF sim_store_laws mp(1) this, of "\<lambda>m. m\<lparr>md_chmod := Some 493\<rparr>"]
  show ?thesis by auto
qed

end
