(* ===== verification/File_Results.thy ===== *)
theory File_Results
  imports Aug_Paths Metadata_Store
begin

text \<open>
  What a tracee sees of the metadata that is recorded for files: the results of \<open>stat\<close> as
  \<open>replace_statbuf_result\<close> of \<open>sysaug/src/aug_paths.rs\<close> changes them.
\<close>

unbundle bit_operations_syntax

section \<open>Fields of structures\<close>

lemma length_set_field [simp]: "i + n \<le> length bs \<Longrightarrow> n \<le> 8 \<Longrightarrow> length (set_field i n v bs) = length bs"
  by (simp add: set_field_def)

lemma nth_set_field:
  assumes "i + n \<le> length bs" "n \<le> 8" "j < length bs"
  shows "set_field i n v bs ! j = (if i \<le> j \<and> j < i + n then to_ne_bytes v ! (j - i) else bs ! j)"
proof -
  have len: "length (take i bs) = i" "length (take n (to_ne_bytes v)) = n" using assms(1,2) by simp_all
  consider "j < i" | "i \<le> j" "j < i + n" | "i + n \<le> j" by linarith
  then show ?thesis
  proof cases
    case 1
    then show ?thesis unfolding set_field_def using len(1) by (simp add: nth_append_left)
  next
    case 2
    then have "j = length (take i bs) + (j - i)" "j - i < n" using len(1) by simp_all
    then have "set_field i n v bs ! j = (take n (to_ne_bytes v) @ drop (i + n) bs) ! (j - i)"
      unfolding set_field_def by (metis nth_append_length_plus)
    also have "\<dots> = to_ne_bytes v ! (j - i)" using \<open>j - i < n\<close> len(2) by (simp add: nth_append_left)
    finally show ?thesis using 2 by simp
  next
    case 3
    have "set_field i n v bs = (take i bs @ take n (to_ne_bytes v)) @ drop (i + n) bs" by (simp add: set_field_def)
    moreover have "length (take i bs @ take n (to_ne_bytes v)) = i + n" using len by (simp only: length_append)
    ultimately have "set_field i n v bs ! j = drop (i + n) bs ! (j - (i + n))" using 3 by (metis nth_append_right)
    also have "\<dots> = bs ! j" using 3 assms(1,3) by simp
    finally show ?thesis using 3 by simp
  qed
qed

lemma get_set_field:
  assumes "i + n \<le> length bs" "n \<le> 8"
  shows "get_field i n (set_field i n v bs) = take_bit (8 * n) v"
proof -
  have "get_field i n (set_field i n v bs) = from_ne_bytes (take n (to_ne_bytes v))"
    using assms by (simp add: get_field_def set_field_def)
  also have "\<dots> = take_bit (8 * n) v"
  proof (rule bit_word_eqI)
    fix m assume m: "m < LENGTH(64)"
    then have q: "m div 8 < 8" by simp
    have "bit (to_ne_bytes v ! (m div 8)) (m mod 8) = bit v m"
      using m q by (simp add: to_ne_bytes_def bit_ucast_iff bit_drop_bit_eq)
    moreover have "m div 8 < n \<longleftrightarrow> m < 8 * n" by (simp add: less_mult_imp_div_less mult.commute div_less_iff_less_mult)
    ultimately show "bit (from_ne_bytes (take n (to_ne_bytes v))) m = bit (take_bit (8 * n) v) m"
      using m assms(2) unfolding bit_from_ne_bytes by (auto simp: bit_take_bit_iff)
  qed
  finally show ?thesis .
qed

lemma get_set_other:
  assumes "i + n \<le> length bs" "n \<le> 8" "j + m \<le> length bs" "i + n \<le> j \<or> j + m \<le> i"
  shows "get_field j m (set_field i n v bs) = get_field j m bs"
proof -
  have "take m (drop j (set_field i n v bs)) = take m (drop j bs)"
  proof (rule nth_equalityI)
    fix l assume "l < length (take m (drop j (set_field i n v bs)))"
    then have l: "l < m" "j + l < length bs" using assms by simp_all
    have "\<not> (i \<le> j + l \<and> j + l < i + n)" using l(1) assms(4) by linarith
    then have "set_field i n v bs ! (j + l) = bs ! (j + l)" by (simp only: nth_set_field [OF assms(1,2) l(2)] if_False)
    then show "take m (drop j (set_field i n v bs)) ! l = take m (drop j bs) ! l" using l assms(1,2) by simp
  qed (simp add: length_set_field [OF assms(1,2)])
  then show ?thesis by (simp add: get_field_def)
qed

lemma get_field_bound: "n \<le> 8 \<Longrightarrow> take_bit (8 * n) (get_field i n bs) = get_field i n bs"
proof (rule bit_word_eqI)
  fix m assume "n \<le> 8" "m < LENGTH(64)"
  have "bit (get_field i n bs) m \<Longrightarrow> m < 8 * n"
    unfolding get_field_def bit_from_ne_bytes by (simp add: div_less_iff_less_mult mult.commute)
  then show "bit (take_bit (8 * n) (get_field i n bs)) m = bit (get_field i n bs) m" by (auto simp: bit_take_bit_iff)
qed

text \<open>A field that is changed when there is a value for it.\<close>

definition opt_field :: "nat \<Rightarrow> nat \<Rightarrow> usize option \<Rightarrow> u8 list \<Rightarrow> u8 list" where
  "opt_field i n v bs = (case v of None \<Rightarrow> bs | Some x \<Rightarrow> set_field i n x bs)"

lemma opt_field_props:
  assumes "i + n \<le> length bs" "n \<le> 8"
  shows length_opt_field: "length (opt_field i n v bs) = length bs"
    and get_opt_field: "get_field i n (opt_field i n v bs) = (case v of None \<Rightarrow> get_field i n bs | Some x \<Rightarrow> take_bit (8 * n) x)"
    and get_opt_other: "j + m \<le> length bs \<Longrightarrow> i + n \<le> j \<or> j + m \<le> i \<Longrightarrow> get_field j m (opt_field i n v bs) = get_field j m bs"
    and nth_opt_other: "j < length bs \<Longrightarrow> \<not> (i \<le> j \<and> j < i + n) \<Longrightarrow> opt_field i n v bs ! j = bs ! j"
proof -
  show "length (opt_field i n v bs) = length bs"
    by (cases v) (simp_all only: opt_field_def option.case length_set_field [OF assms])
  show "get_field i n (opt_field i n v bs) = (case v of None \<Rightarrow> get_field i n bs | Some x \<Rightarrow> take_bit (8 * n) x)"
    by (cases v) (simp_all only: opt_field_def option.case get_set_field [OF assms])
  show "get_field j m (opt_field i n v bs) = get_field j m bs" if "j + m \<le> length bs" "i + n \<le> j \<or> j + m \<le> i"
    by (cases v) (simp_all only: opt_field_def option.case get_set_other [OF assms that])
  show "opt_field i n v bs ! j = bs ! j" if "j < length bs" "\<not> (i \<le> j \<and> j < i + n)"
    by (cases v) (simp_all only: opt_field_def option.case nth_set_field [OF assms that(1)] that(2) if_False)
qed

section \<open>The results of stat\<close>

text \<open>The three structures have their fields inside and apart.\<close>

definition stat_layout :: "istat \<Rightarrow> bool" where
  "stat_layout T \<longleftrightarrow> T = libc_stat \<or> T = libc_stat64 \<or> T = libc_statx"

definition stat_field :: "istat \<Rightarrow> nat \<Rightarrow> bool" where
  "stat_field T i \<longleftrightarrow> mode_at T \<le> i \<and> i < mode_at T + mode_len T \<or> uid_at T \<le> i \<and> i < uid_at T + 4 \<or>
     gid_at T \<le> i \<and> i < gid_at T + 4"

lemma stat_layoutD:
  assumes "stat_layout T"
  shows "mode_len T = 2 \<or> mode_len T = 4" "mode_at T + mode_len T \<le> unat (stat_size T)"
    "uid_at T + 4 \<le> unat (stat_size T)" "gid_at T + 4 \<le> unat (stat_size T)" "uid_at T + 4 \<le> gid_at T"
    "mode_at T + mode_len T \<le> uid_at T \<or> gid_at T + 4 \<le> mode_at T"
  using assms by (auto simp: stat_layout_def libc_stat_def libc_stat64_def libc_statx_def)

lemma fake_mode_bound:
  assumes "n = 2 \<or> n = 4"
  shows "take_bit (8 * n) ((get_field i n bs AND NOT FILE_PERMS_MASK) OR (c AND FILE_PERMS_MASK)) =
    (get_field i n bs AND NOT FILE_PERMS_MASK) OR (c AND FILE_PERMS_MASK)"
proof -
  have "take_bit (8 * n) (c AND FILE_PERMS_MASK) = c AND FILE_PERMS_MASK"
  proof -
    have "FILE_PERMS_MASK = mask 12" by (simp add: FILE_PERMS_MASK_def mask_eq_exp_minus_1)
    then have "c AND FILE_PERMS_MASK = take_bit 12 c" by (simp add: take_bit_eq_mask)
    then show ?thesis using assms by (auto simp: take_bit_take_bit min_def)
  qed
  moreover have "take_bit (8 * n) (get_field i n bs AND NOT FILE_PERMS_MASK) = get_field i n bs AND NOT FILE_PERMS_MASK"
  proof -
    have "n \<le> 8" using assms by auto
    then have "bit (get_field i n bs) m \<Longrightarrow> m < 8 * n" for m
      using get_field_bound [of n i bs] by (metis bit_take_bit_iff)
    then show ?thesis by (intro bit_word_eqI) (auto simp: bit_take_bit_iff bit_and_iff)
  qed
  ultimately show ?thesis by (simp add: take_bit_or del: take_bit_and)
qed

text \<open>
  C36.  With recorded metadata the tracee sees the recorded permission bits, owner and group, and the
  real file for everything else: the file type and all other bytes of the structure stay as the kernel
  wrote them.
\<close>

theorem fake_stat_fields:
  assumes "stat_layout T" "length st = unat (stat_size T)"
  shows "length (fake_stat T meta st) = length st \<and>
    get_mode T (fake_stat T meta st) =
      (case md_chmod meta of None \<Rightarrow> get_mode T st
       | Some c \<Rightarrow> (get_mode T st AND NOT FILE_PERMS_MASK) OR (c AND FILE_PERMS_MASK)) \<and>
    get_field (uid_at T) 4 (fake_stat T meta st) =
      (case md_chown_owner meta of None \<Rightarrow> get_field (uid_at T) 4 st | Some uid \<Rightarrow> take_bit 32 uid) \<and>
    get_field (gid_at T) 4 (fake_stat T meta st) =
      (case md_chown_group meta of None \<Rightarrow> get_field (gid_at T) 4 st | Some gid \<Rightarrow> take_bit 32 gid) \<and>
    (\<forall>i < length st. \<not> stat_field T i \<longrightarrow> fake_stat T meta st ! i = st ! i)"
proof -
  note lay = stat_layoutD [OF assms(1), folded assms(2)]
  have ml: "mode_len T \<le> 8" using lay(1) by auto
  let ?mode = "map_option (\<lambda>c. (get_mode T st AND NOT FILE_PERMS_MASK) OR (c AND FILE_PERMS_MASK)) (md_chmod meta)"
  define st1 where "st1 = opt_field (mode_at T) (mode_len T) ?mode st"
  define st2 where "st2 = opt_field (uid_at T) 4 (md_chown_owner meta) st1"
  have fake: "fake_stat T meta st = opt_field (gid_at T) 4 (md_chown_group meta) st2"
    unfolding st1_def st2_def opt_field_def fake_stat_def Let_def set_mode_def set_uid_def set_gid_def
    by (simp split: option.split)
  note p1 = opt_field_props [OF lay(2) ml, where v = ?mode, folded st1_def]
  have u: "uid_at T + 4 \<le> length st1" using lay(3) p1(1) by simp
  note p2 = opt_field_props [OF u, where v = "md_chown_owner meta", simplified, folded st2_def]
  have g: "gid_at T + 4 \<le> length st2" using lay(4) p1(1) p2(1) by simp
  note p3 = opt_field_props [OF g, where v = "md_chown_group meta", simplified]
  have mode: "get_field (mode_at T) (mode_len T) (fake_stat T meta st) = get_field (mode_at T) (mode_len T) st1"
    unfolding fake using lay p1(1) p2(1,3) p3(3) by auto
  have uid: "get_field (uid_at T) 4 (fake_stat T meta st) = get_field (uid_at T) 4 st2"
    unfolding fake using lay p1(1) p2(1) p3(3) by auto
  have uid1: "get_field (uid_at T) 4 st1 = get_field (uid_at T) 4 st" using lay p1(3) by auto
  have gid2: "get_field (gid_at T) 4 st2 = get_field (gid_at T) 4 st" using lay p1(1,3) p2(3) by auto
  have nth: "fake_stat T meta st ! i = st ! i" if "i < length st" "\<not> stat_field T i" for i
    using that p1(1,4) p2(1,4) p3(4) unfolding fake stat_field_def by simp
  have "get_mode T (fake_stat T meta st) = (case md_chmod meta of None \<Rightarrow> get_mode T st
      | Some c \<Rightarrow> (get_mode T st AND NOT FILE_PERMS_MASK) OR (c AND FILE_PERMS_MASK))"
    unfolding get_mode_def mode p1(2) using fake_mode_bound [OF lay(1)] by (simp add: get_mode_def split: option.split)
  then show ?thesis
    using nth p1(1) p2(1,2) p3(1,2) uid uid1 gid2 unfolding fake by (simp add: fake split: option.splits)
qed

text \<open>A regular file with mode 644 that was changed to 4755 and given to the user 1000.\<close>

definition example_stat :: "u8 list" where
  "example_stat = set_field 24 4 33188 (replicate 144 0)"

theorem fake_stat_fields_witness:
  "get_mode libc_stat (fake_stat libc_stat \<lparr>md_chmod = Some 2541, md_chown_owner = Some 1000, md_chown_group = None\<rparr> example_stat) = 35309 \<and>
   get_field 28 4 (fake_stat libc_stat \<lparr>md_chmod = Some 2541, md_chown_owner = Some 1000, md_chown_group = None\<rparr> example_stat) = 1000"
proof -
  have lay: "stat_layout libc_stat" by (simp add: stat_layout_def)
  have len: "length example_stat = unat (stat_size libc_stat)" by (simp add: example_stat_def libc_stat_def)
  have mode: "get_mode libc_stat example_stat = 33188"
    using get_set_field [of 24 4 "replicate 144 0" 33188] by (simp add: get_mode_def example_stat_def libc_stat_def)
  show ?thesis
    using fake_stat_fields [OF lay len, of "\<lparr>md_chmod = Some 2541, md_chown_owner = Some 1000, md_chown_group = None\<rparr>"] mode
    by (simp add: FILE_PERMS_MASK_def) (simp add: libc_stat_def)
qed

end
