(* ===== verification/Scratch_Memory.thy ===== *)
theory Scratch_Memory
  imports Handler_Async
begin

text \<open>
  The scratch area where a handler puts bytes for its tracee (\<open>tracee_stack_append\<close> of \<open>sysaug/src/handler_async.rs\<close>):
  the stack of the tracee or the shared region, whichever helpers the thread uses.  The contract of writing is
  extended by the room that is left; both implementations keep it, and so does \<open>tracee_stack_append\<close> on top of them.
\<close>

section \<open>The contract of writing with the room that is left\<close>

text \<open>
  \<open>room w off n\<close>: in world \<open>w\<close> at least \<open>n\<close> bytes of the area are left from offset \<open>off\<close> on.  A write may use
  up to eight bytes more than it is given.
\<close>

locale mem_space = mem_writer wr ready placed
  for wr :: "usize \<Rightarrow> u8 list \<Rightarrow> ('w, ptrace_error, usize \<times> usize) io"
    and ready :: "'w \<Rightarrow> bool"
    and placed :: "'w \<Rightarrow> usize \<Rightarrow> usize \<Rightarrow> u8 list \<Rightarrow> bool" +
  fixes room :: "'w \<Rightarrow> usize \<Rightarrow> nat \<Rightarrow> bool"
  assumes write_returns: "ready w \<Longrightarrow> room w off n \<Longrightarrow> length bs + 8 \<le> n \<Longrightarrow>
      \<exists>start off' w'. wr off bs w = (Inr (start, off'), w') \<and> room w' off' (n - (length bs + 8))"
    and room_bound: "room w off n \<Longrightarrow> n < 2 ^ 63"
begin

lemma write_in_room:
  assumes "ready w" "room w off n" "length bs + 8 \<le> n"
  shows "\<exists>start off' w'. wr off bs w = (Inr (start, off'), w') \<and> ready w' \<and> room w' off' (n - (length bs + 8)) \<and>
    placed w' off' start bs \<and> (\<forall>s cs. placed w off s cs \<longrightarrow> placed w' off' s cs)"
proof -
  have len: "length bs < 2 ^ 63" using room_bound [OF assms(2)] assms(3) by simp
  obtain start off' w' where wr: "wr off bs w = (Inr (start, off'), w')" "room w' off' (n - (length bs + 8))"
    using write_returns [OF assms] by blast
  then show ?thesis
    using write_ready [OF assms(1) len wr(1)] write_placed [OF assms(1) len wr(1)] write_keeps [OF assms(1) len _ wr(1)]
    by blast
qed

text \<open>A sequence of writes for which there is room returns.\<close>

lemma write_all_returns:
  assumes "ready w" "room w off n" "(\<Sum>bs\<leftarrow>bss. length bs + 8) \<le> n"
  shows "\<exists>starts off' w'. write_all off bss w = (Inr (starts, off'), w')"
  using assms
proof (induction bss arbitrary: off w n)
  case (Cons bs bss)
  have "length bs + 8 \<le> n" using Cons.prems(3) by simp
  from write_in_room [OF Cons.prems(1,2) this]
  obtain start off1 w1 where wr: "wr off bs w = (Inr (start, off1), w1)" "ready w1" "room w1 off1 (n - (length bs + 8))"
    by blast
  moreover have "(\<Sum>bs\<leftarrow>bss. length bs + 8) \<le> n - (length bs + 8)" using Cons.prems(3) by simp
  ultimately obtain starts off' w' where "write_all off1 bss w1 = (Inr (starts, off'), w')"
    using Cons.IH by blast
  with wr(1) show ?case by (simp add: m_then_apply ret_apply)
qed (simp add: ret_apply)

end

section \<open>The stack of the tracee\<close>

definition slow_room :: "'w view \<Rightarrow> pid \<Rightarrow> usize \<Rightarrow> 'w \<Rightarrow> usize \<Rightarrow> nat \<Rightarrow> bool" where
  "slow_room view pid stack_top w off n \<longleftrightarrow>
     8 dvd unat off \<and> n < 2 ^ 63 \<and> stack_mapped view w pid stack_top (unat off + 16384 + n)"

lemma stack_mapped_less: "stack_mapped view w pid stack_top n \<Longrightarrow> m \<le> n \<Longrightarrow> stack_mapped view w pid stack_top m"
  unfolding stack_mapped_def by (meson add_left_mono order_trans)

interpretation slow_space: mem_space "slow_write_bytes_to_tracee k pid" "slow_ready k view pid stack_top"
    "slow_placed view pid stack_top" "slow_room view pid stack_top"
  for k :: "('w, 'x) ptrace_api_scheme" and view pid stack_top
proof
  fix w off n and bs :: "u8 list"
  assume ready: "slow_ready k view pid stack_top w" and room: "slow_room view pid stack_top w off n" and n: "length bs + 8 \<le> n"
  have r: "8 dvd unat off" "n < 2 ^ 63" "stack_mapped view w pid stack_top (unat off + 16384 + n)"
    using room by (simp_all add: slow_room_def)
  have len: "length bs < 2 ^ 63" "8 * (length bs div 8 + 1) \<le> length bs + 8" using r(2) n by simp_all
  then have "unat off + 8 * (length bs div 8 + 1) + 16384 \<le> unat off + 16384 + n" using n by linarith
  from slow_write_returns [OF ready len(1) r(1,3) this]
  obtain start off' w' where wr: "slow_write_bytes_to_tracee k pid off bs w = (Inr (start, off'), w')"
    by blast
  note off' = slow_write_success(2) [OF ready len(1) wr]
  have "unat off' \<le> unat off + (length bs + 8)" unfolding off' by (rule add_left_mono [OF len(2)])
  then have "unat off' + 16384 + (n - (length bs + 8)) \<le> unat off + 16384 + n" using n by simp
  from stack_mapped_less [OF slow_write_stack_mapped [OF ready len(1) wr r(3)] this]
  have "stack_mapped view w' pid stack_top (unat off' + 16384 + (n - (length bs + 8)))" .
  then have "slow_room view pid stack_top w' off' (n - (length bs + 8))"
    using r(1,2) off' by (simp add: slow_room_def)
  with wr show "\<exists>start off' w'. slow_write_bytes_to_tracee k pid off bs w = (Inr (start, off'), w') \<and>
      slow_room view pid stack_top w' off' (n - (length bs + 8))" by blast
qed (simp add: slow_room_def)

section \<open>The shared region\<close>

definition direct_room :: "tid \<Rightarrow> usize \<Rightarrow> 'k direct_world \<Rightarrow> usize \<Rightarrow> nat \<Rightarrow> bool" where
  "direct_room t base w off n \<longleftrightarrow>
     (available w \<noteq> [] \<or> cached w t \<noteq> None) \<and> unat base + zone < 2 ^ 64 \<and> unat off + n \<le> zone"

interpretation direct_space: mem_space "direct_write_bytes_to_tracee t pid" "direct_ready t pid live base"
    "direct_placed t base" "direct_room t base"
  for t pid live base
proof
  fix w :: "'k direct_world" and off n and bs :: "u8 list"
  assume ready: "direct_ready t pid live base w" and room: "direct_room t base w off n" and n: "length bs + 8 \<le> n"
  have "unat off < zone" "unat off + length bs \<le> zone" using room n by (simp_all add: direct_room_def)
  then obtain start off' w' where "direct_write_bytes_to_tracee t pid off bs w = (Inr (start, off'), w')"
      "unat off' = unat off + length bs" "cached w' t \<noteq> None"
    using direct_write_returns [OF ready] room unfolding direct_room_def by blast
  then show "\<exists>start off' w'. direct_write_bytes_to_tracee t pid off bs w = (Inr (start, off'), w') \<and>
      direct_room t base w' off' (n - (length bs + 8))"
    using room n by (auto simp: direct_room_def)
next
  show "n < 2 ^ 63" if "direct_room t base w off n" for w :: "'k direct_world" and off n
    using that zone_eq by (simp add: direct_room_def)
qed

section \<open>The area of a handler\<close>

text \<open>A world with a kernel keeps every contract that the kernel keeps.\<close>

lemma on_kern_Inr: "on_kern c w = (Inr a, w') \<longleftrightarrow> (\<exists>k. c (kern w) = (Inr a, k) \<and> w' = w\<lparr>kern := k\<rparr>)"
  by (auto simp: on_kern_def split: prod.split)

lemma kern_space:
  assumes s: "mem_space wr ready placed room"
  shows "mem_space (\<lambda>off bs. on_kern (wr off bs)) (\<lambda>w :: 'k direct_world. ready (kern w)) (\<lambda>w. placed (kern w)) (\<lambda>w. room (kern w))"
proof -
  note m = mem_space.axioms(1) [OF s]
  show ?thesis
  proof unfold_locales
    fix w :: "'k direct_world" and off bs start off' w'
    assume h: "ready (kern w)" "length bs < 2 ^ 63" "on_kern (wr off bs) w = (Inr (start, off'), w')"
    then obtain k where k: "wr off bs (kern w) = (Inr (start, off'), k)" "kern w' = k" by (auto simp: on_kern_Inr)
    show "ready (kern w')" unfolding k(2) by (rule mem_writer.write_ready [OF m h(1,2) k(1)])
    show "placed (kern w') off' start bs" unfolding k(2) by (rule mem_writer.write_placed [OF m h(1,2) k(1)])
    show "placed (kern w') off' s cs" if "placed (kern w) off s cs" for s cs
      unfolding k(2) by (rule mem_writer.write_keeps [OF m h(1,2) that k(1)])
  next
    show "\<exists>start off' w'. on_kern (wr off bs) w = (Inr (start, off'), w') \<and> room (kern w') off' (n - (length bs + 8))"
      if "ready (kern w)" "room (kern w) off n" "length bs + 8 \<le> n" for w :: "'k direct_world" and off n and bs :: "u8 list"
      using mem_space.write_returns [OF s that] by (auto simp: on_kern_Inr)
    show "n < 2 ^ 63" if "room (kern w) off n" for w :: "'k direct_world" and off n
      using mem_space.room_bound [OF s that] .
  qed
qed

text \<open>
  What the handler relies on: for the stack, how the kernel shows the memory of the tracee and the stack pointer; for
  the region, the live tracees and where the tracee has mapped its region.
\<close>

record 'k scratch =
  sc_view :: "'k view"
  sc_top :: usize
  sc_live :: "tid \<rightharpoonup> pid"
  sc_base :: usize

definition scratch_ready :: "('k, 'regex) env \<Rightarrow> 'k scratch \<Rightarrow> mem_kind \<Rightarrow> 'k direct_world \<Rightarrow> bool" where
  "scratch_ready e s kind w = (case kind of
     SlowMem \<Rightarrow> slow_ready (api e) (sc_view s) (pid_of e) (sc_top s) (kern w)
   | DirectMem \<Rightarrow> direct_ready (thread e) (pid_of e) (sc_live s) (sc_base s) w)"

definition scratch_placed ::
  "('k, 'regex) env \<Rightarrow> 'k scratch \<Rightarrow> mem_kind \<Rightarrow> 'k direct_world \<Rightarrow> usize \<Rightarrow> usize \<Rightarrow> u8 list \<Rightarrow> bool" where
  "scratch_placed e s kind w = (case kind of
     SlowMem \<Rightarrow> slow_placed (sc_view s) (pid_of e) (sc_top s) (kern w)
   | DirectMem \<Rightarrow> direct_placed (thread e) (sc_base s) w)"

definition scratch_room ::
  "('k, 'regex) env \<Rightarrow> 'k scratch \<Rightarrow> mem_kind \<Rightarrow> 'k direct_world \<Rightarrow> usize \<Rightarrow> nat \<Rightarrow> bool" where
  "scratch_room e s kind w = (case kind of
     SlowMem \<Rightarrow> slow_room (sc_view s) (pid_of e) (sc_top s) (kern w)
   | DirectMem \<Rightarrow> direct_room (thread e) (sc_base s) w)"

interpretation scratch: mem_space "mh_write_bytes_to_tracee (mem_helpers_of e kind) (pid_of e)" "scratch_ready e s kind"
    "scratch_placed e s kind" "scratch_room e s kind"
  for e :: "('k, 'regex) env" and s kind
proof (cases kind)
  case SlowMem
  show "mem_space (mh_write_bytes_to_tracee (mem_helpers_of e kind) (pid_of e)) (scratch_ready e s kind)
      (scratch_placed e s kind) (scratch_room e s kind)"
    using kern_space [OF slow_space.mem_space_axioms [of "api e" "pid_of e" "sc_view s" "sc_top s"]]
    by (simp add: SlowMem mem_helpers_of_def on_kern_mem_def SLOW_MEM_HELPERS_def
        scratch_ready_def [abs_def] scratch_placed_def [abs_def] scratch_room_def [abs_def])
next
  case DirectMem
  show "mem_space (mh_write_bytes_to_tracee (mem_helpers_of e kind) (pid_of e)) (scratch_ready e s kind)
      (scratch_placed e s kind) (scratch_room e s kind)"
    using direct_space.mem_space_axioms [of "thread e" "pid_of e" "sc_live s" "sc_base s"]
    by (simp add: DirectMem mem_helpers_of_def DIRECT_MEM_HELPERS_def
        scratch_ready_def [abs_def] scratch_placed_def [abs_def] scratch_room_def [abs_def])
qed

text \<open>The handler can write \<open>n\<close> bytes; the tracee sees \<open>bs\<close> at the address \<open>a\<close>.\<close>

definition has_room :: "('k, 'regex) env \<Rightarrow> 'k scratch \<Rightarrow> 'k handler \<Rightarrow> nat \<Rightarrow> bool" where
  "has_room e s h n \<longleftrightarrow> scratch_ready e s (MEM h) (globals h) \<and>
     scratch_room e s (MEM h) (globals h) (tracee_stack_offset h) n"

definition tracee_sees :: "('k, 'regex) env \<Rightarrow> 'k scratch \<Rightarrow> 'k handler \<Rightarrow> usize \<Rightarrow> u8 list \<Rightarrow> bool" where
  "tracee_sees e s h a bs \<longleftrightarrow> scratch_placed e s (MEM h) (globals h) (tracee_stack_offset h) a bs"

lemma has_room_less: "has_room e s h n \<Longrightarrow> m \<le> n \<Longrightarrow> has_room e s h m"
  by (cases "MEM h") (auto simp: has_room_def scratch_room_def slow_room_def direct_room_def intro: stack_mapped_less)

lemma tracee_stack_append_places:
  assumes "has_room e s h n" "length bs + 8 \<le> n"
  obtains a h' where "tracee_stack_append e bs h = (Inr a, h')" "has_room e s h' (n - (length bs + 8))"
    "tracee_sees e s h' a bs" "\<forall>a' cs. tracee_sees e s h a' cs \<longrightarrow> tracee_sees e s h' a' cs"
proof -
  have "scratch_ready e s (MEM h) (globals h)" "scratch_room e s (MEM h) (globals h) (tracee_stack_offset h) n"
    using assms(1) by (simp_all add: has_room_def)
  from scratch.write_in_room [OF this assms(2)]
  obtain a off' g where g: "mh_write_bytes_to_tracee (mem_helpers_of e (MEM h)) (pid_of e) (tracee_stack_offset h) bs (globals h) =
        (Inr (a, off'), g)"
      "scratch_ready e s (MEM h) g" "scratch_room e s (MEM h) g off' (n - (length bs + 8))"
      "scratch_placed e s (MEM h) g off' a bs"
      "\<forall>a' cs. scratch_placed e s (MEM h) (globals h) (tracee_stack_offset h) a' cs \<longrightarrow> scratch_placed e s (MEM h) g off' a' cs"
    by blast
  let ?h = "h\<lparr>globals := g, tracee_stack_offset := off'\<rparr>"
  have "tracee_stack_append e bs h = (Inr a, ?h)"
    using g(1) by (simp add: tracee_stack_append_def get_mem_helper_def on_globals_def on_err_def m_then_apply io_simps)
  moreover have "has_room e s ?h (n - (length bs + 8))" "tracee_sees e s ?h a bs"
    using g(2-4) by (simp_all add: has_room_def tracee_sees_def)
  moreover have "\<forall>a' cs. tracee_sees e s h a' cs \<longrightarrow> tracee_sees e s ?h a' cs"
    using g(5) by (simp add: tracee_sees_def)
  ultimately show thesis by (rule that)
qed

end
