(* ===== verification/Pointer_Arrays.thy ===== *)
theory Pointer_Arrays
  imports Tracee_Memory
begin

text \<open>
  Arrays of pointers that end with a null pointer, such as the arguments of \<open>execve\<close>.  The readers of
  \<open>MemHelpers\<close> find the end of such an array by counting zero bytes (\<open>read_bytes_until_num_zeroes\<close> with
  \<open>USIZE_SIZE\<close>), without regard to where the pointers begin.  This theory says for which arrays that is the null
  pointer, and which bytes the reader then returns.
\<close>

section \<open>Zero bytes of a word\<close>

abbreviation leading_zeroes :: "u8 list \<Rightarrow> nat" where
  "leading_zeroes bs \<equiv> length (takeWhile (\<lambda>b. b = 0) bs)"

text \<open>The zero bytes at the lower addresses of a stored word, and those at the higher addresses.\<close>

definition low_zeroes :: "usize \<Rightarrow> nat" where
  "low_zeroes w = leading_zeroes (to_ne_bytes w)"

definition high_zeroes :: "usize \<Rightarrow> nat" where
  "high_zeroes w = leading_zeroes (rev (to_ne_bytes w))"

text \<open>
  The pointers are not null, and the zero bytes where two of them meet are fewer than those of a null pointer.
\<close>

fun pointers_apart :: "usize list \<Rightarrow> bool" where
  "pointers_apart [] = True"
| "pointers_apart [p] = (p \<noteq> 0)"
| "pointers_apart (p # q # ps) = (p \<noteq> 0 \<and> high_zeroes p + low_zeroes q < 8 \<and> pointers_apart (q # ps))"

lemma leading_zeroes_nth: "i < length bs \<Longrightarrow> bs ! i \<noteq> 0 \<Longrightarrow> leading_zeroes bs \<le> i"
  by (metis (mono_tags, lifting) leI nth_mem set_takeWhileD takeWhile_nth)

lemma leading_zeroes_append: "leading_zeroes xs \<le> leading_zeroes (xs @ ys)"
  by (induction xs) auto

lemma leading_zeroes_split:
  "bs = replicate (leading_zeroes bs) 0 @ drop (leading_zeroes bs) bs"
  by (induction bs) auto

lemma zero_bytes: "(\<forall>b \<in> set (to_ne_bytes w). b = 0) \<longleftrightarrow> w = 0"
proof
  assume z: "\<forall>b \<in> set (to_ne_bytes w). b = 0"
  have "to_ne_bytes w = to_ne_bytes 0"
    using z by (intro nth_equalityI) (auto simp: to_ne_bytes_def [of 0])
  then show "w = 0" by (simp only: to_ne_bytes_inject)
qed (simp add: to_ne_bytes_def)

lemma nonzero_byte:
  assumes "w \<noteq> 0"
  obtains c rest where "to_ne_bytes w = replicate (low_zeroes w) 0 @ c # rest" "c \<noteq> 0" "length rest < 8"
proof -
  let ?bs = "to_ne_bytes w"
  have split: "?bs = replicate (low_zeroes w) 0 @ dropWhile (\<lambda>b. b = 0) ?bs"
    using leading_zeroes_split [of ?bs] unfolding low_zeroes_def dropWhile_eq_drop .
  have "dropWhile (\<lambda>b. b = 0) ?bs \<noteq> []" using assms by (auto simp: zero_bytes)
  then obtain c rest where c: "dropWhile (\<lambda>b. b = 0) ?bs = c # rest" by (meson list.exhaust)
  then have "c \<noteq> 0" using hd_dropWhile [of "\<lambda>b. b = 0" ?bs] by simp
  moreover have "length rest < 8"
    using arg_cong [OF split, of length] c by simp
  ultimately show thesis using that split c by metis
qed

lemma zeroes_bounds: "w \<noteq> 0 \<Longrightarrow> low_zeroes w < 8" "w \<noteq> 0 \<Longrightarrow> high_zeroes w < 8"
proof -
  assume "w \<noteq> 0"
  then obtain b where b: "b \<in> set (to_ne_bytes w)" "b \<noteq> 0" by (auto simp flip: zero_bytes)
  then obtain i where "i < 8" "to_ne_bytes w ! i \<noteq> 0" by (auto simp: in_set_conv_nth)
  then show "low_zeroes w < 8" using leading_zeroes_nth [of i "to_ne_bytes w"] by (simp add: low_zeroes_def)
  obtain j where "j < 8" "rev (to_ne_bytes w) ! j \<noteq> 0" using b by (metis in_set_conv_nth length_rev length_to_ne_bytes set_rev)
  then show "high_zeroes w < 8" using leading_zeroes_nth [of j "rev (to_ne_bytes w)"] by (simp add: high_zeroes_def)
qed

section \<open>The scan\<close>

lemma scan_zeroes_run:
  "z + n < unat n0 \<Longrightarrow>
   scan_zeroes n0 (replicate n 0) (of_nat z, acc) = Inr (of_nat (z + n), acc @ replicate n 0)"
proof (induction n arbitrary: z acc)
  case (Suc n)
  have "unat (of_nat z + 1 :: usize) = Suc z"
    using Suc.prems unat_less_64 [of n0] unat_of_nat_64 [of "Suc z"] by (simp add: add.commute)
  then have "\<not> of_nat z + 1 \<ge> n0" using Suc.prems by (simp add: word_le_nat_alt)
  then show ?case
    using Suc.IH [of "Suc z" "acc @ [0]"] Suc.prems by (simp add: add.commute replicate_append_same)
qed simp

lemma scan_zeroes_stop:
  assumes "z < unat n0" "unat n0 \<le> z + n"
  shows "scan_zeroes n0 (replicate n 0 @ rest) (of_nat z, acc) = Inl (acc @ replicate (unat n0 - 1 - z) 0)"
proof -
  define m where "m = unat n0 - 1 - z"
  have zm: "z + m < unat n0" "unat n0 = Suc (z + m)" using assms(1) by (simp_all add: m_def)
  have n: "replicate n (0 :: u8) = replicate m 0 @ 0 # replicate (n - Suc m) 0"
    using assms zm(2) by (simp flip: replicate_Suc replicate_add)
  have "unat (of_nat (z + m) + 1 :: usize) = Suc (z + m)"
    using zm(2) unat_less_64 [of n0] unat_of_nat_64 [of "Suc (z + m)"] by (simp add: add.commute)
  then have "of_nat (z + m) + 1 \<ge> n0" using zm(2) by (simp add: word_le_nat_alt del: of_nat_add)
  then show ?thesis
    using scan_zeroes_run [OF zm(1), of acc] unfolding n by (simp add: scan_zeroes_append m_def del: of_nat_add)
qed

lemma scan_zeroes_short:
  "length bs < unat n0 \<Longrightarrow>
   scan_zeroes n0 bs (0, acc) = Inr (of_nat (leading_zeroes (rev bs)), acc @ bs)"
proof (induction bs rule: rev_induct)
  case (snoc b bs)
  have "leading_zeroes (rev bs) \<le> length bs" using length_takeWhile_le [of _ "rev bs"] by (metis length_rev)
  then have "unat (of_nat (leading_zeroes (rev bs)) + 1 :: usize) = Suc (leading_zeroes (rev bs))"
    "Suc (leading_zeroes (rev bs)) < unat n0"
    using snoc.prems unat_less_64 [of n0] unat_of_nat_64 [of "Suc (leading_zeroes (rev bs))"] by (simp_all add: add.commute)
  then show ?case using snoc by (simp add: scan_zeroes_append word_le_nat_alt add.commute)
qed simp

lemma scan_word:
  assumes "w \<noteq> 0" "z + low_zeroes w < 8"
  shows "scan_zeroes usize_size (to_ne_bytes w) (of_nat z, acc) = Inr (of_nat (high_zeroes w), acc @ to_ne_bytes w)"
proof -
  obtain c rest where w: "to_ne_bytes w = replicate (low_zeroes w) 0 @ c # rest" "c \<noteq> 0" "length rest < 8"
    by (rule nonzero_byte [OF assms(1)])
  have n0: "unat usize_size = 8" by (simp add: usize_size_def)
  have "high_zeroes w = leading_zeroes (rev rest)"
    using takeWhile_tail [of "\<lambda>b. b = 0" c "rev rest" "replicate (low_zeroes w) 0"] w(2)
    unfolding high_zeroes_def w(1) by simp
  then show ?thesis
    using scan_zeroes_run [of z "low_zeroes w" usize_size acc] assms(2) w(2,3)
      scan_zeroes_short [of rest usize_size "acc @ replicate (low_zeroes w) 0 @ [c]"]
    by (simp add: w(1) scan_zeroes_append n0 del: of_nat_add)
qed

lemma scan_words:
  "pointers_apart (p # ps) \<Longrightarrow> z + low_zeroes p < 8 \<Longrightarrow>
   scan_zeroes usize_size (words_bytes (p # ps)) (of_nat z, acc) =
     Inr (of_nat (high_zeroes (last (p # ps))), acc @ words_bytes (p # ps))"
proof (induction ps arbitrary: p z acc)
  case Nil
  then show ?case using scan_word [of p z acc] by simp
next
  case (Cons q ps)
  then show ?case
    using scan_word [of p z acc] Cons.IH [of q "high_zeroes p" "acc @ to_ne_bytes p"]
    by (simp add: scan_zeroes_append)
qed

text \<open>
  The scan goes on to the end of pointers that are apart, and stops as soon as the zero bytes of the last pointer and
  those that follow are as many as in a null pointer.
\<close>

lemma scan_pointers:
  assumes "pointers_apart ps" "ps \<noteq> []" "8 \<le> high_zeroes (last ps) + leading_zeroes tail"
  shows "scan_zeroes usize_size (words_bytes ps @ tail) (0, []) =
    Inl (words_bytes ps @ replicate (7 - high_zeroes (last ps)) 0)"
proof -
  obtain p ps' where ps: "ps = p # ps'" using assms(2) by (cases ps) auto
  have "p \<noteq> 0" using assms(1) unfolding ps by (cases ps') simp_all
  then have scan: "scan_zeroes usize_size (words_bytes ps) (0, []) = Inr (of_nat (high_zeroes (last ps)), words_bytes ps)"
    using scan_words [of p ps' 0 "[]"] assms(1) zeroes_bounds(1) [of p] by (simp add: ps)
  have "last ps \<noteq> 0" using assms(1,2) by (induction ps rule: pointers_apart.induct) auto
  then have "high_zeroes (last ps) < unat usize_size" using zeroes_bounds(2) by (simp add: usize_size_def)
  from scan_zeroes_stop [OF this, of "leading_zeroes tail" "drop (leading_zeroes tail) tail" "words_bytes ps"]
  have "scan_zeroes usize_size tail (of_nat (high_zeroes (last ps)), words_bytes ps) =
      Inl (words_bytes ps @ replicate (7 - high_zeroes (last ps)) 0)"
    using assms(3) leading_zeroes_split [of tail, symmetric] by (simp add: usize_size_def)
  then show ?thesis by (simp add: scan_zeroes_append scan)
qed

section \<open>Addresses of user space\<close>

text \<open>Pointers to the stack and to mapped files of a process on x86_64 are apart.\<close>

lemma user_pointers_apart:
  assumes "\<forall>p \<in> set ps. 2 ^ 40 \<le> unat p \<and> unat p < 2 ^ 48"
  shows "pointers_apart ps"
proof -
  have bounds: "p \<noteq> 0 \<and> low_zeroes p \<le> 5 \<and> high_zeroes p \<le> 2" if "2 ^ 40 \<le> unat p" "unat p < 2 ^ 48" for p
  proof -
    have "unat (to_ne_bytes p ! 5) = unat p div 2 ^ 40 mod 2 ^ 8"
      by (simp add: to_ne_bytes_def unsigned_ucast_eq unat_drop_bit_eq drop_bit_eq_div take_bit_eq_mod unat_div_distrib)
    moreover have "unat p div 2 ^ 40 < 2 ^ 8" using that(2) by (simp add: div_less_iff_less_mult)
    moreover have "0 < unat p div 2 ^ 40" using that(1) by (simp add: div_greater_zero_iff)
    ultimately have "to_ne_bytes p ! 5 \<noteq> 0" by (metis mod_less not_gr_zero unat_0)
    moreover have "rev (to_ne_bytes p) ! 2 = to_ne_bytes p ! 5" by (simp add: rev_nth)
    moreover have "p \<noteq> 0" using that(1) by auto
    ultimately show ?thesis
      using leading_zeroes_nth [of 5 "to_ne_bytes p"] leading_zeroes_nth [of 2 "rev (to_ne_bytes p)"]
      by (simp add: low_zeroes_def high_zeroes_def)
  qed
  have "\<forall>p \<in> set ps. p \<noteq> 0 \<and> low_zeroes p \<le> 5 \<and> high_zeroes p \<le> 2" using assms bounds by blast
  then show ?thesis by (induction ps rule: pointers_apart.induct) auto
qed

end
