(* ===== verification/Exec_Arguments.thy ===== *)
theory Exec_Arguments
  imports Kernel_Frame Scratch_Memory Pointer_Arrays
begin

text \<open>
  The arguments that \<open>execve\<close> gets after its expansion (\<open>sysaug/src/aug_exec.rs\<close>): what the tracee sees at the
  addresses in the new registers, whichever memory helpers the thread uses.
\<close>

section \<open>What the file system leaves alone\<close>

text \<open>The registers and the memory of the tracee; the globals with such a view of the kernel; all that writing depends on.\<close>

definition tracee_side :: "('k, 'regex) env \<Rightarrow> 'k scratch \<Rightarrow> 'k \<Rightarrow> (errno + usize list) \<times> (pid \<Rightarrow> usize \<Rightarrow> u8 option)" where
  "tracee_side e s k = (fst (sys_getregset (api e) (pid_of e) k), sc_view s k)"

definition world_view :: "('k \<Rightarrow> 'v) \<Rightarrow> 'k direct_world \<Rightarrow> 'v direct_world" where
  "world_view G w = \<lparr>kern = G (kern w), SHARED_REGIONS = SHARED_REGIONS w, AVAILABLE_REGION_IDS = AVAILABLE_REGION_IDS w,
     REGION_IDS_BY_PID = REGION_IDS_BY_PID w, thread_local = thread_local w\<rparr>"

definition scratch_view where
  "scratch_view e s h = (MEM h, tracee_stack_offset h, world_view (tracee_side e s) (globals h))"

interpretation scratch_frame: host_frame "scratch_view e s" "tracee_side e s" for e s
  by unfold_locales (simp add: scratch_view_def world_view_def)

lemma scratch_view_room:
  assumes "scratch_view e s h' = scratch_view e s h" "has_room e s h n"
  shows "has_room e s h' n"
proof -
  have eqs: "MEM h' = MEM h" "tracee_stack_offset h' = tracee_stack_offset h"
      "fst (sys_getregset (api e) (pid_of e) (kern (globals h'))) = fst (sys_getregset (api e) (pid_of e) (kern (globals h)))"
      "sc_view s (kern (globals h')) = sc_view s (kern (globals h))"
      "SHARED_REGIONS (globals h') = SHARED_REGIONS (globals h)" "AVAILABLE_REGION_IDS (globals h') = AVAILABLE_REGION_IDS (globals h)"
      "REGION_IDS_BY_PID (globals h') = REGION_IDS_BY_PID (globals h)" "thread_local (globals h') = thread_local (globals h)"
    using assms(1) by (simp_all add: scratch_view_def world_view_def tracee_side_def)
  have "region (globals h') = region (globals h)" using eqs by (simp add: region_def fun_eq_iff)
  then show ?thesis
    using assms(2) eqs
    by (cases "MEM h") (simp_all add: has_room_def scratch_ready_def scratch_room_def slow_ready_def slow_room_def
        stack_mapped_def direct_ready_def direct_room_def tracer_inv_def pool_ok_def locks_ok_def ids_ok_def zeroed_def)
qed

lemma held_room: "holds (scratch_view e s) m \<Longrightarrow> m h = (r, h') \<Longrightarrow> has_room e s h n \<Longrightarrow> has_room e s h' n"
  using scratch_view_room [OF holdsD [of "scratch_view e s" m h r h']] by blast

section \<open>New arguments\<close>

lemma put_argv_places:
  assumes "has_room e s h n" "argv = words_bytes (p # ps) @ replicate k 0" "8 * (length addrs + length ps) + k + 16 \<le> n"
  obtains a h' where "put_argv e addrs argv h = (Inr a, h')"
    "tracee_sees e s h' a (words_bytes (addrs @ ps @ [0]) @ replicate k 0)"
    "\<forall>a' cs. tracee_sees e s h a' cs \<longrightarrow> tracee_sees e s h' a' cs"
proof -
  let ?out = "words_bytes (addrs @ ps @ [0]) @ replicate k 0"
  have rest: "argv_tail argv = ret (words_bytes ps @ replicate k 0)"
    by (simp add: argv_tail_def assms(2) USIZE_SIZE_def)
  have out: "concat (map to_ne_bytes addrs) @ (words_bytes ps @ replicate k 0) @ to_ne_bytes 0 = ?out"
    unfolding zero_word_bytes words_bytes_def by (simp add: zero_word_bytes flip: replicate_add)
  have "put_argv e addrs argv h = tracee_stack_append e ?out h"
    by (simp only: put_argv_def rest m_then_ret out)
  moreover have "length ?out + 8 \<le> n" using assms(3) by simp
  ultimately show thesis
    using tracee_stack_append_places [OF assms(1), of ?out] that by metis
qed

text \<open>The bytes that the reader returns for a vector of pointers.\<close>

lemma read_argv:
  assumes "pointers_apart (p # ps)" "scan_zeroes usize_size (words_bytes (p # ps) @ to_ne_bytes 0) (0, []) = Inl argv"
  obtains k where "argv = words_bytes (p # ps) @ replicate k 0" "k \<le> 7"
  using scan_pointers [OF assms(1), of "to_ne_bytes 0"] assms(2) by (force simp: zero_word_bytes)

section \<open>Properties\<close>

text \<open>
  C14.  A program with an interpreter is started by its interpreter with the right arguments: when the
  interpreter is found and its path is translated, then \<open>arg0\<close> points to the path of the interpreter, and \<open>arg1\<close> to a
  null-terminated vector whose pointers are that of the interpreter, one to the path of the program in the container,
  and those of the original vector without the first.
\<close>

theorem exec_interp_arguments:
  assumes "has_room e s h n" "host_holds (tracee_side e s) x"
    and "pointers_apart (p # ps)" "scan_zeroes usize_size (words_bytes (p # ps) @ to_ne_bytes 0) (0, []) = Inl argv"
    and "read_interp_path x file header h = (Inr interp, h1)" "calc_real_path e x interp info args h1 = (Inr act, h2)"
    and "container_path e x elf h2 = (Inr elf', h3)"
    and "final_interp = (if args_chroot (args_of e) \<noteq> None \<and> \<not> args_use_native_loader (args_of e)
      then case act of Override new_path \<Rightarrow> new_path | _ \<Rightarrow> interp else interp)"
    and "length final_interp + length elf' + 8 * length ps + 57 \<le> n"
  shows "\<exists>interp_addr elf_addr argv_addr k h'.
    exec_interp e x regs info args elf argv file header h =
      (Inr (True, regs\<lparr>arg0 := interp_addr, arg1 := argv_addr\<rparr>), h') \<and>
    tracee_sees e s h' interp_addr (final_interp @ [0]) \<and> tracee_sees e s h' elf_addr (elf' @ [0]) \<and>
    tracee_sees e s h' argv_addr (words_bytes ([interp_addr, elf_addr] @ ps @ [0]) @ replicate k 0)"
proof -
  obtain k where k: "argv = words_bytes (p # ps) @ replicate k 0" "k \<le> 7" by (rule read_argv [OF assms(3,4)])
  have "has_room e s h1 n"
    by (rule held_room [OF scratch_frame.holds_exec_lookup(2) [OF assms(2)] assms(5,1)])
  then have "has_room e s h2 n"
    by (rule held_room [OF scratch_frame.holds_real_path [OF assms(2)] assms(6)])
  then have r3: "has_room e s h3 n"
    by (rule held_room [OF scratch_frame.holds_exec_lookup(1) [OF assms(2)] assms(7)])
  have "length (final_interp @ [0]) + 8 \<le> n" using assms(9) by simp
  then obtain i h4 where i: "tracee_stack_append e (final_interp @ [0]) h3 = (Inr i, h4)"
      "has_room e s h4 (n - (length (final_interp @ [0]) + 8))" "tracee_sees e s h4 i (final_interp @ [0])"
    by (rule tracee_stack_append_places [OF r3])
  have "length (elf' @ [0]) + 8 \<le> n - (length (final_interp @ [0]) + 8)" using assms(9) by simp
  then obtain j h5 where j: "tracee_stack_append e (elf' @ [0]) h4 = (Inr j, h5)"
      "has_room e s h5 (n - (length (final_interp @ [0]) + 8) - (length (elf' @ [0]) + 8))" "tracee_sees e s h5 j (elf' @ [0])"
      "\<forall>a' cs. tracee_sees e s h4 a' cs \<longrightarrow> tracee_sees e s h5 a' cs"
    by (rule tracee_stack_append_places [OF i(2)])
  have "8 * (length [i, j] + length ps) + k + 16 \<le> n - (length (final_interp @ [0]) + 8) - (length (elf' @ [0]) + 8)"
    using assms(9) k(2) by simp
  then obtain a h6 where a: "put_argv e [i, j] argv h5 = (Inr a, h6)"
      "tracee_sees e s h6 a (words_bytes ([i, j] @ ps @ [0]) @ replicate k 0)"
      "\<forall>a' cs. tracee_sees e s h5 a' cs \<longrightarrow> tracee_sees e s h6 a' cs"
    by (rule put_argv_places [OF j(2) k(1)])
  have "exec_interp e x regs info args elf argv file header h = (Inr (True, regs\<lparr>arg0 := i, arg1 := a\<rparr>), h6)"
    by (simp only: exec_interp_def tracee_stack_append_path_def Let_def m_then_apply prod.case sum.case ret_apply
        assms(5-7) assms(8) [symmetric] i(1) j(1) a(1))
  then show ?thesis using i(3) j(3,4) a(2,3) by blast
qed

text \<open>
  C15.  A script is handed to the interpreter of its first line: \<open>arg0\<close> points to the path of the
  interpreter, and the vector at \<open>arg1\<close> is the interpreter, its one optional argument, the path of the script as it was
  given, and the original arguments without the first, ended by a null pointer.
\<close>

theorem exec_shebang_arguments:
  assumes "has_room e s h n" "pointers_apart (p # ps)"
    and "scan_zeroes usize_size (words_bytes (p # ps) @ to_ne_bytes 0) (0, []) = Inl argv"
    and "split_on 32 shebang = interp # opt" "length opt \<le> 1"
    and "length interp + length (concat opt) + 8 * length ps + 65 \<le> n"
  shows "\<exists>interp_addr opt_addrs argv_addr k h'.
    exec_shebang e regs argv shebang h = (Inr (Some (regs\<lparr>arg0 := interp_addr, arg1 := argv_addr\<rparr>)), h') \<and>
    tracee_sees e s h' interp_addr (interp @ [0]) \<and>
    list_all2 (\<lambda>a bs. tracee_sees e s h' a (bs @ [0])) opt_addrs opt \<and>
    tracee_sees e s h' argv_addr (words_bytes ([interp_addr] @ opt_addrs @ [arg0 regs] @ ps @ [0]) @ replicate k 0)"
proof -
  obtain k where k: "argv = words_bytes (p # ps) @ replicate k 0" "k \<le> 7" by (rule read_argv [OF assms(2,3)])
  have valid: "\<not> (length (split_on 32 shebang) > 2 \<or> split_on 32 shebang = [])" using assms(4,5) by simp
  have "length (interp @ [0]) + 8 \<le> n" using assms(6) by simp
  then obtain i h1 where i: "tracee_stack_append e (interp @ [0]) h = (Inr i, h1)"
      "has_room e s h1 (n - (length (interp @ [0]) + 8))" "tracee_sees e s h1 i (interp @ [0])"
    by (rule tracee_stack_append_places [OF assms(1)])
  let ?opt = "if length (split_on 32 shebang) = 2
      then m_then (tracee_stack_append_str e (split_on 32 shebang ! 1)) (\<lambda>part1_addr. ret [part1_addr]) else ret []"
  let ?m = "8 * length ps + 47"
  obtain os h2 where o: "?opt h1 = (Inr os, h2)" "has_room e s h2 ?m"
      "list_all2 (\<lambda>a bs. tracee_sees e s h2 a (bs @ [0])) os opt"
      "\<forall>a' cs. tracee_sees e s h1 a' cs \<longrightarrow> tracee_sees e s h2 a' cs"
  proof (cases opt)
    case Nil
    have "has_room e s h1 ?m" using i(2) by (rule has_room_less) (use assms(6) in simp)
    moreover have "?opt h1 = (Inr [], h1)" by (simp add: assms(4) Nil ret_apply)
    ultimately show thesis using that Nil by blast
  next
    case (Cons o1 rest)
    then have opt: "opt = [o1]" using assms(5) by simp
    have "length (o1 @ [0]) + 8 \<le> n - (length (interp @ [0]) + 8)" using assms(6) opt by simp
    then obtain b h2 where b: "tracee_stack_append e (o1 @ [0]) h1 = (Inr b, h2)"
        "has_room e s h2 (n - (length (interp @ [0]) + 8) - (length (o1 @ [0]) + 8))" "tracee_sees e s h2 b (o1 @ [0])"
        "\<forall>a' cs. tracee_sees e s h1 a' cs \<longrightarrow> tracee_sees e s h2 a' cs"
      by (rule tracee_stack_append_places [OF i(2)])
    have "has_room e s h2 ?m" using b(2) by (rule has_room_less) (use assms(6) opt in simp)
    moreover have "?opt h1 = (Inr [b], h2)"
      using b(1) by (simp add: assms(4) opt tracee_stack_append_str_def m_then_apply ret_apply)
    ultimately show thesis using that b(3,4) opt by simp
  qed
  have "8 * (length ([i] @ os @ [arg0 regs]) + length ps) + k + 16 \<le> ?m"
    using k(2) list_all2_lengthD [OF o(3)] assms(5) by simp
  then obtain a h3 where a: "put_argv e ([i] @ os @ [arg0 regs]) argv h2 = (Inr a, h3)"
      "tracee_sees e s h3 a (words_bytes (([i] @ os @ [arg0 regs]) @ ps @ [0]) @ replicate k 0)"
      "\<forall>a' cs. tracee_sees e s h2 a' cs \<longrightarrow> tracee_sees e s h3 a' cs"
    by (rule put_argv_places [OF o(2) k(1)])
  have first: "split_on 32 shebang ! 0 = interp" by (simp add: assms(4))
  have "exec_shebang e regs argv shebang h = (Inr (Some (regs\<lparr>arg0 := i, arg1 := a\<rparr>)), h3)"
    by (simp only: exec_shebang_def Let_def if_not_P [OF valid] first tracee_stack_append_str_def [of e interp]
        m_then_apply [of _ _ h] m_then_apply [of _ _ h1] m_then_apply [of _ _ h2] i(1) o(1) a(1) prod.case sum.case ret_apply)
  moreover have "list_all2 (\<lambda>a bs. tracee_sees e s h3 a (bs @ [0])) os opt"
    using o(3) by (rule list_all2_mono) (use a(3) in blast)
  ultimately show ?thesis using i(3) o(4) a(2,3) by (metis append.assoc)
qed

text \<open>
  C39.  The end of the vector is taken to be at the first eight zero bytes, also where they are not a
  pointer: when the zero bytes at the end of one pointer and at the start of the next are eight or more, then the new
  vector ends there, and the program is started without the pointers \<open>q # qs\<close>.
\<close>

theorem exec_argv_truncated:
  assumes "has_room e s h n" "pointers_apart (p # ps)" "8 \<le> high_zeroes (last (p # ps)) + low_zeroes q"
    and "8 * (length addrs + length ps) + 23 \<le> n"
  shows "\<exists>argv a k h'.
    scan_zeroes usize_size (words_bytes ((p # ps) @ q # qs) @ to_ne_bytes 0) (0, []) = Inl argv \<and>
    put_argv e addrs argv h = (Inr a, h') \<and>
    tracee_sees e s h' a (words_bytes (addrs @ ps @ [0]) @ replicate k 0)"
proof -
  let ?tail = "words_bytes (q # qs) @ to_ne_bytes 0" and ?k = "7 - high_zeroes (last (p # ps))"
  from leading_zeroes_append [of "to_ne_bytes q" "words_bytes qs @ to_ne_bytes 0"]
  have "8 \<le> high_zeroes (last (p # ps)) + leading_zeroes ?tail"
    using assms(3) unfolding low_zeroes_def words_bytes_simps append.assoc by linarith
  from scan_pointers [OF assms(2) _ this]
  have scan: "scan_zeroes usize_size (words_bytes ((p # ps) @ q # qs) @ to_ne_bytes 0) (0, []) =
      Inl (words_bytes (p # ps) @ replicate ?k 0)"
    by (simp only: words_bytes_simps append.assoc list.distinct not_False_eq_True)
  have "8 * (length addrs + length ps) + ?k + 16 \<le> n" using assms(4) by simp
  then show ?thesis using put_argv_places [OF assms(1) refl] scan by metis
qed

section \<open>Instances\<close>

text \<open>A tracee with a mapped stack; the open file is a program that starts with the path of its interpreter.\<close>

definition exec_handler :: "sim_kernel handler" where
  "exec_handler =
     (let h = sim_handler (zero_regs\<lparr>sp := 65536\<rparr>) SeccompStop False True
      in h\<lparr>path_prefix_excludes := [[SLASH]], globals := (globals h)\<lparr>kern := (kern (globals h))\<lparr>
           sim_mem := (\<lambda>pid a. if pid = 1 \<and> a < 65536 then Some 0 else None),
           sim_nodes := [[SLASH, 101] \<mapsto> SimFile [SLASH, 108, 0]], sim_fds := [3 \<mapsto> ([SLASH, 101], 0)]\<rparr>\<rparr>\<rparr>)"

definition exec_scratch :: "sim_kernel scratch" where
  "exec_scratch = \<lparr>sc_view = sim_mem, sc_top = 65536, sc_live = Map.empty, sc_base = 0\<rparr>"

abbreviation exec_env :: "(sim_kernel, unit) env" where
  "exec_env \<equiv> sim_env \<lparr>SYS = (\<lambda>_. 59), AT_SYMLINK_NOFOLLOW = 256\<rparr> default_sysaug_args"

lemma exec_has_room: "has_room exec_env exec_scratch exec_handler 20000"
proof -
  let ?k = "kern (globals exec_handler)"
  have "fst (sys_getregset sim_api 1 ?k) = Inr (regs_words (zero_regs\<lparr>sp := 65536\<rparr>))"
    by (simp add: sim_api_def exec_handler_def Let_def sim_handler_def initial_globals_def)
  moreover have "sp (words_regs (regs_words (zero_regs\<lparr>sp := 65536\<rparr>))) = 65536"
    by (simp add: words_regs_def regs_words_def)
  ultimately have "slow_ready sim_api sim_mem 1 65536 ?k"
    by (simp add: slow_ready_def sim_memory_laws)
  moreover have "slow_room sim_mem 1 65536 ?k 0 20000"
    by (auto simp: slow_room_def stack_mapped_def exec_handler_def Let_def sim_handler_def word_less_nat_alt)
  ultimately show ?thesis
    by (simp add: has_room_def scratch_ready_def scratch_room_def exec_handler_def Let_def sim_handler_def
        sim_env_def exec_scratch_def)
qed

lemma exec_host: "host_holds (tracee_side exec_env exec_scratch) sim_host"
  by (auto simp: host_holds_def holds_def tracee_side_def exec_scratch_def sim_env_def sim_api_def sim_host_def sim_open_def
      on_file_def sim_file_def sim_set_file_def split: option.split sim_node.split)

lemma exec_pointers: "pointers_apart [2 ^ 40 + 1, 2 ^ 40 + 2]"
  by (rule user_pointers_apart) simp

lemma nix_call_Inr:
  "c (kern (globals h)) = (Inr a, k) \<Longrightarrow> nix_call f c h = (Inr a, h\<lparr>globals := (globals h)\<lparr>kern := k\<rparr>\<rparr>)"
  by (simp add: nix_call_def nix_def on_kern_def m_then_apply ret_apply)

lemma exec_scan:
  obtains argv where "scan_zeroes usize_size (words_bytes [2 ^ 40 + 1, 2 ^ 40 + 2] @ to_ne_bytes 0) (0, []) = Inl argv"
proof -
  have "8 \<le> high_zeroes (last [2 ^ 40 + 1, 2 ^ 40 + 2]) + leading_zeroes (to_ne_bytes 0)"
    by (simp add: zero_word_bytes)
  from scan_pointers [OF exec_pointers _ this] show thesis using that by blast
qed

theorem exec_interp_arguments_witness:
  "\<exists>argv i j a k h'.
     exec_interp exec_env sim_host zero_regs default_syscall_info [] [SLASH, 101] argv 3 \<lparr>progtype = 3, ph_offset = 0, ph_filesz = 3\<rparr>
       exec_handler = (Inr (True, zero_regs\<lparr>arg0 := i, arg1 := a\<rparr>), h') \<and>
     tracee_sees exec_env exec_scratch h' i ([SLASH, 108] @ [0]) \<and>
     tracee_sees exec_env exec_scratch h' a (words_bytes ([i, j] @ [2 ^ 40 + 2] @ [0]) @ replicate k 0)"
proof -
  let ?header = "\<lparr>progtype = 3, ph_offset = 0, ph_filesz = 3\<rparr>"
  obtain argv where scan: "scan_zeroes usize_size (words_bytes [2 ^ 40 + 1, 2 ^ 40 + 2] @ to_ne_bytes 0) (0, []) = Inl argv"
    by (rule exec_scan)
  define k1 where "k1 = sim_set_file 3 [SLASH, 101] 0 [SLASH, 108, 0] (kern (globals exec_handler))"
  define h1 where "h1 = exec_handler\<lparr>globals := (globals exec_handler)\<lparr>kern := k1\<rparr>\<rparr>"
  have "fs_seek sim_host 3 0 (kern (globals exec_handler)) = (Inr (), k1)"
    by (simp add: k1_def sim_host_def on_file_def sim_file_def exec_handler_def Let_def)
  then have seek: "nix_call ReadBin (fs_seek sim_host 3 0) exec_handler = (Inr (), h1)"
    by (simp add: nix_call_Inr h1_def)
  have "fs_read_exact sim_host 3 3 k1 = (Inr [SLASH, 108, 0], k1)"
    by (simp add: k1_def sim_host_def on_file_def sim_file_def sim_set_file_def)
  then have read: "nix_call ReadBin (fs_read_exact sim_host 3 3) h1 = (Inr [SLASH, 108, 0], h1)"
    by (simp add: nix_call_Inr h1_def)
  have run: "read_interp_path sim_host 3 ?header exec_handler = (Inr [SLASH, 108], h1)"
    by (simp add: read_interp_path_def m_then_apply seek read ret_apply path_from_bytes_def SLASH_def)
  have h1: "path_prefix h1 = None" "path_prefix_excludes h1 = [[SLASH]]"
    by (simp_all add: h1_def exec_handler_def sim_handler_def Let_def)
  have renames: "no_renames exec_env" by (simp add: sim_env_def default_sysaug_config_def default_rootfs_config_def)
  have root: "starts_with [SLASH, 108] [SLASH]"
    by (simp add: starts_with_def components_def comps_def segment_component_def skipped_segment_def SLASH_def DOT_def)
  have "calc_real_path_recurse (Suc n) exec_env sim_host [SLASH, 108] info v args h1 = (Inr NoAction, h1)" for n info v args
    using h1 renames root by (simp add: calc_real_path_simple_def get_mod_path_none Let_def io_simps)
  from this [of 39] have "calc_real_path exec_env sim_host [SLASH, 108] default_syscall_info [] h1 = (Inr NoAction, h1)"
    by (simp add: calc_real_path_def)
  moreover have "container_path exec_env sim_host [SLASH, 101] h1 = (Inr [SLASH, 101], h1)"
    by (simp add: container_path_def is_absolute_def ret_apply)
  ultimately show ?thesis
    using exec_interp_arguments [OF exec_has_room exec_host exec_pointers scan run, of default_syscall_info "[]" NoAction h1
        "[SLASH, 101]" "[SLASH, 101]" h1 "[SLASH, 108]" zero_regs]
    by (simp add: sim_simps default_sysaug_args_def) blast
qed

theorem exec_shebang_arguments_witness:
  "\<exists>argv i bs a k h'.
     exec_shebang exec_env (zero_regs\<lparr>arg0 := 9\<rparr>) argv [SLASH, 115, 32, 101] exec_handler =
       (Inr (Some (zero_regs\<lparr>arg0 := i, arg1 := a\<rparr>)), h') \<and>
     list_all2 (\<lambda>b str. tracee_sees exec_env exec_scratch h' b (str @ [0])) bs [[101]] \<and>
     tracee_sees exec_env exec_scratch h' a (words_bytes ([i] @ bs @ [9] @ [2 ^ 40 + 2] @ [0]) @ replicate k 0)"
proof -
  obtain argv where scan: "scan_zeroes usize_size (words_bytes [2 ^ 40 + 1, 2 ^ 40 + 2] @ to_ne_bytes 0) (0, []) = Inl argv"
    by (rule exec_scan)
  have "split_on 32 [SLASH, 115, 32, 101] = [[SLASH, 115], [101]]" by (simp add: SLASH_def)
  from exec_shebang_arguments [OF exec_has_room exec_pointers scan this, of "zero_regs\<lparr>arg0 := 9\<rparr>"]
  show ?thesis by simp blast
qed

theorem exec_argv_truncated_witness:
  "\<exists>argv a k h'.
     scan_zeroes usize_size (words_bytes ([2 ^ 22] @ [2 ^ 40 + 2 ^ 24]) @ to_ne_bytes 0) (0, []) = Inl argv \<and>
     put_argv exec_env [5] argv exec_handler = (Inr a, h') \<and>
     tracee_sees exec_env exec_scratch h' a (words_bytes ([5] @ [] @ [0]) @ replicate k 0)"
proof -
  have "8 \<le> high_zeroes (last [2 ^ 22]) + low_zeroes (2 ^ 40 + 2 ^ 24)"
    by (simp add: high_zeroes_def low_zeroes_def) code_simp
  then show ?thesis using exec_argv_truncated [OF exec_has_room, of "2 ^ 22" "[]" "2 ^ 40 + 2 ^ 24" "[5]" "[]"] by simp
qed

end
