(* ===== verification/Struct_Writes.thy ===== *)
theory Struct_Writes
  imports Mem_Slow
begin

text \<open>
  What \<open>write_structs_to_tracee\<close> (\<open>ptrace/src/common.rs\<close>) stores.  Of a run of zero words after the header of an item only the first
  \<open>shrink_criteria\<close> words are written, and when words were left out the header gets the new size; the tracee, or
  \<open>read_bytes_to_structs\<close>, finds the items again by these sizes.
\<close>

section \<open>Shrinking\<close>

text \<open>The words that are written, when \<open>c\<close> zero words came just before: zero words only up to \<open>sc\<close> in a row.\<close>

fun squeeze :: "nat \<Rightarrow> nat \<Rightarrow> usize list \<Rightarrow> usize list" where
  "squeeze sc c [] = []"
| "squeeze sc c (v # vs) =
     (if v = 0 then if sc < Suc c then squeeze sc (Suc c) vs else v # squeeze sc (Suc c) vs else v # squeeze sc 0 vs)"

fun zero_count :: "nat \<Rightarrow> usize list \<Rightarrow> nat" where
  "zero_count c [] = c"
| "zero_count c (v # vs) = (if v = 0 then zero_count (Suc c) vs else zero_count 0 vs)"

lemma squeeze_append: "squeeze sc c (xs @ ys) = squeeze sc c xs @ squeeze sc (zero_count c xs) ys"
  by (induction xs arbitrary: c) simp_all

lemma squeeze_zeroes: "squeeze sc c (replicate n 0) = replicate (min n (sc - c)) 0"
proof (induction n arbitrary: c)
  case (Suc n)
  show ?case
  proof (cases "sc < Suc c")
    case False
    then have "min (Suc n) (sc - c) = Suc (min n (sc - Suc c))" by simp
    then show ?thesis using False Suc by simp
  qed (use Suc in simp)
qed simp

lemma squeeze_nonzero: "0 \<notin> set ws \<Longrightarrow> squeeze sc 0 (ws @ ys) = ws @ squeeze sc 0 ys"
  by (induction ws) auto

lemma length_squeeze: "length (squeeze sc c ws) \<le> length ws"
  by (induction ws arbitrary: c) (auto intro: le_SucI)

definition item_words :: "cstruct \<Rightarrow> u8 list \<Rightarrow> usize list" where
  "item_words T item = drop (unat (header_size T) div 8) (chunk_words item)"

text \<open>The words of an item that are written after its header, and the size that they have with the header.\<close>

definition kept_words :: "cstruct \<Rightarrow> usize \<Rightarrow> u8 list \<Rightarrow> usize list" where
  "kept_words T sc item = squeeze (unat sc) 0 (item_words T item)"

definition shrunk_size :: "cstruct \<Rightarrow> usize \<Rightarrow> u8 list \<Rightarrow> nat" where
  "shrunk_size T sc item = unat (header_size T) + 8 * length (kept_words T sc item)"

definition new_header :: "cstruct \<Rightarrow> usize \<Rightarrow> u8 list \<Rightarrow> u8 list" where
  "new_header T sc item = item_size_updater T (of_nat (shrunk_size T sc item)) (take (unat (header_size T)) item)"

text \<open>
  The bytes that are written for an item; the item that they stand for, with the kept words moved together and zeroes after
  them; and the item itself with the new size.
\<close>

definition shrunk :: "cstruct \<Rightarrow> usize \<Rightarrow> u8 list \<Rightarrow> u8 list" where
  "shrunk T sc item = new_header T sc item @ words_bytes (kept_words T sc item)"

definition squeezed :: "cstruct \<Rightarrow> usize \<Rightarrow> u8 list \<Rightarrow> u8 list" where
  "squeezed T sc item = new_header T sc item @
     words_bytes (kept_words T sc item @ replicate (length (item_words T item) - length (kept_words T sc item)) 0)"

definition resized :: "cstruct \<Rightarrow> usize \<Rightarrow> u8 list \<Rightarrow> u8 list" where
  "resized T sc item = new_header T sc item @ drop (unat (header_size T)) item"

text \<open>
  A word of the item is left out.  The words that are left out are at its end: before its last zero words there are no
  more than \<open>sc\<close> zero words in a row.  The header has a field for the size.
\<close>

definition shrinks :: "cstruct \<Rightarrow> usize \<Rightarrow> u8 list \<Rightarrow> bool" where
  "shrinks T sc item \<longleftrightarrow> length item = unat (t_size T) \<and> length (kept_words T sc item) < length (item_words T item)"

definition zeroes_last :: "cstruct \<Rightarrow> usize \<Rightarrow> u8 list \<Rightarrow> bool" where
  "zeroes_last T sc item \<longleftrightarrow> (\<exists>ws m. item_words T item = ws @ replicate m 0 \<and> squeeze (unat sc) 0 ws = ws)"

definition sized_type :: "cstruct \<Rightarrow> bool" where
  "sized_type T \<longleftrightarrow> type_ok T \<and> 8 dvd unat (header_size T) \<and> 0 < unat (header_size T) \<and>
     (\<forall>n bs. n \<le> t_size T \<and> length bs = unat (header_size T) \<longrightarrow>
        length (item_size_updater T n bs) = unat (header_size T) \<and> item_size_deducer T (item_size_updater T n bs) = n)"

lemma chunk_words_append: "8 dvd length xs \<Longrightarrow> chunk_words (xs @ ys) = chunk_words xs @ chunk_words ys"
proof (induction xs rule: chunk_words.induct)
  case (1 xs)
  show ?case
  proof (cases "length xs < 8")
    case True
    then have "xs = []" using "1.prems" by (metis dvd_imp_le length_0_conv not_le not_gr_zero)
    then show ?thesis by (simp add: chunk_words.simps [of "[]"] USIZE_SIZE_def)
  next
    case False
    then have "chunk_words (drop 8 xs @ ys) = chunk_words (drop 8 xs) @ chunk_words ys"
      using 1 by (simp add: USIZE_SIZE_def dvd_diff_nat)
    then show ?thesis
      using False by (simp add: chunk_words.simps [of "xs @ ys"] chunk_words.simps [of xs] USIZE_SIZE_def)
  qed
qed

lemma words_bytes_chunk_words: "8 dvd length bs \<Longrightarrow> words_bytes (chunk_words bs) = bs"
  using chunk_words_exact [of bs] by auto

lemma sized_typeD:
  assumes "sized_type T"
  shows "unat (header_size T) \<le> unat (t_size T)" "8 dvd unat (header_size T)" "8 dvd unat (t_size T)"
    "unat (t_size T) \<le> unat MAX_STRUCT_SIZE" "0 < unat (header_size T)"
  using assms dvd_8_unat [of "t_size T"]
  by (auto simp: sized_type_def type_ok_def check_item_type_def check_header_size_def usize_size_def word_le_nat_alt
      word_less_nat_alt split: if_splits)

text \<open>Lengths and positions.\<close>

lemma item_words_bytes:
  assumes "sized_type T" "length item = unat (t_size T)"
  shows "words_bytes (item_words T item) = drop (unat (header_size T)) item"
    "chunk_words item = chunk_words (take (unat (header_size T)) item) @ item_words T item"
proof -
  note T = sized_typeD [OF assms(1)]
  let ?h = "unat (header_size T)"
  have len: "length (take ?h item) = ?h" using T(1) assms(2) by simp
  have split: "chunk_words (take ?h item @ drop ?h item) = chunk_words (take ?h item) @ chunk_words (drop ?h item)"
    by (rule chunk_words_append) (simp only: len T(2))
  then have "item_words T item = chunk_words (drop ?h item)"
    unfolding item_words_def append_take_drop_id using len by (simp add: length_chunk_words)
  then show "words_bytes (item_words T item) = drop ?h item" "chunk_words item = chunk_words (take ?h item) @ item_words T item"
    using split T(2,3) assms(2) by (simp_all add: words_bytes_chunk_words)
qed

lemma item_sizes:
  assumes "sized_type T" "length item = unat (t_size T)"
  shows "unat (t_size T) = unat (header_size T) + 8 * length (item_words T item)"
  using arg_cong [OF item_words_bytes(1) [OF assms], of length] sized_typeD(1) [OF assms(1)] assms(2) by simp

lemma shrinks_less: "sized_type T \<Longrightarrow> shrinks T sc item \<Longrightarrow> shrunk_size T sc item < unat (t_size T)"
  using item_sizes [of T item] by (simp add: shrinks_def shrunk_size_def)

lemma new_header_props:
  assumes "sized_type T" "shrinks T sc item"
  shows "length (new_header T sc item) = unat (header_size T)"
    "item_size_deducer T (new_header T sc item) = of_nat (shrunk_size T sc item)"
    "length (shrunk T sc item) = shrunk_size T sc item"
proof -
  have m: "shrunk_size T sc item < unat (t_size T)" by (rule shrinks_less [OF assms])
  then have "unat (of_nat (shrunk_size T sc item) :: usize) = shrunk_size T sc item"
    using unat_less_64 [of "t_size T"] by (intro unat_of_nat_64) simp
  then have "of_nat (shrunk_size T sc item) \<le> t_size T" using m by (simp add: word_le_nat_alt)
  moreover have "length (take (unat (header_size T)) item) = unat (header_size T)"
    using sized_typeD(1) [OF assms(1)] assms(2) by (simp add: shrinks_def)
  ultimately show h: "length (new_header T sc item) = unat (header_size T)"
    and "item_size_deducer T (new_header T sc item) = of_nat (shrunk_size T sc item)"
    using assms(1) unfolding sized_type_def new_header_def by blast+
  show "length (shrunk T sc item) = shrunk_size T sc item"
    using h by (simp add: shrunk_def shrunk_size_def)
qed

lemma zero_words_bytes: "words_bytes (replicate n 0) = replicate (8 * n) 0"
  by (induction n) (simp_all add: zero_word_bytes flip: replicate_add)

text \<open>What is written is an item that announces its length; when only zeroes at the end are left out it stands for the item with the new size.\<close>

lemma shrunk_item:
  assumes "sized_type T" "shrinks T sc item"
  shows "item_ok T (shrunk T sc item)" "padded T (shrunk T sc item) = squeezed T sc item"
proof -
  note m = shrinks_less [OF assms] and h = new_header_props [OF assms]
  have "take (unat (header_size T)) (shrunk T sc item) = new_header T sc item" using h(1) by (simp add: shrunk_def)
  then show "item_ok T (shrunk T sc item)"
    using h(2,3) m sized_typeD [OF assms(1)] by (simp add: item_ok_def shrunk_size_def)
  have "length item = unat (t_size T)" using assms(2) by (simp add: shrinks_def)
  then have "unat (t_size T) - shrunk_size T sc item = 8 * (length (item_words T item) - length (kept_words T sc item))"
    using item_sizes [OF assms(1), of item] by (simp add: shrunk_size_def diff_mult_distrib2)
  then show "padded T (shrunk T sc item) = squeezed T sc item"
    unfolding padded_def h(3) by (simp add: shrunk_def squeezed_def zero_words_bytes)
qed

lemma squeezed_resized:
  assumes "sized_type T" "length item = unat (t_size T)" "zeroes_last T sc item"
  shows "squeezed T sc item = resized T sc item"
proof -
  obtain ws m where ws: "item_words T item = ws @ replicate m 0" "squeeze (unat sc) 0 ws = ws"
    using assms(3) by (auto simp: zeroes_last_def)
  have "kept_words T sc item = ws @ replicate (min m (unat sc - zero_count 0 ws)) 0"
    by (simp add: kept_words_def ws squeeze_append squeeze_zeroes)
  then have "kept_words T sc item @ replicate (length (item_words T item) - length (kept_words T sc item)) 0 = item_words T item"
    by (simp add: ws(1) flip: replicate_add)
  then show ?thesis using item_words_bytes(1) [OF assms(1,2)] by (simp add: squeezed_def resized_def)
qed

section \<open>Writing\<close>

lemma write_remainder_zero:
  assumes "c + 1 < 2 ^ 64" "s + 1 < 2 ^ 64"
  shows "write_remainder k pid max_addr sc (of_nat c) (of_nat s) a (0 # ws) w =
    (if unat sc < Suc c then write_remainder k pid max_addr sc (of_nat (Suc c)) (of_nat (Suc s)) a ws w
     else m_then (checked_write k pid a max_addr 0) (\<lambda>_. m_then (lift_r (checked_add a usize_size)) (\<lambda>a.
       write_remainder k pid max_addr sc (of_nat (Suc c)) (of_nat s) a ws)) w)"
proof -
  have u: "unat (of_nat c :: usize) = c" "unat (of_nat s :: usize) = s" "unat (of_nat (Suc c) :: usize) = Suc c"
    using assms by (intro unat_of_nat_64; simp)+
  have "checked_add (of_nat c) 1 = Inr (of_nat (Suc c))" "checked_add (of_nat s) 1 = Inr (of_nat (Suc s))"
    using assms u by (simp_all add: checked_add_def add.commute)
  moreover have "of_nat (Suc c) > sc \<longleftrightarrow> unat sc < Suc c" using u(3) by (simp add: word_less_nat_alt del: of_nat_Suc)
  ultimately show ?thesis by (simp add: m_then_apply lift_r_apply del: of_nat_Suc)
qed

lemma write_remainder_word:
  assumes "poke_law k view" "writable view w pid a (8 + n)" "unat a + 8 \<le> unat max_addr"
  obtains w1 where "m_then (checked_write k pid a max_addr v) (\<lambda>_. m_then (lift_r (checked_add a usize_size)) f) w = f (a + 8) w1"
    "view w1 = (view w)(pid := overlay a (to_ne_bytes v) (view w pid))" "writable view w1 pid (a + 8) n" "unat (a + 8) = unat a + 8"
proof -
  have "\<forall>i < 8. view w pid (a + of_nat i) \<noteq> None" using assms(2) by (simp add: writable_def)
  then obtain w1 where w1: "sys_ptrace_write k pid a v w = (Inr (), w1)"
      "view w1 = (view w)(pid := overlay a (to_ne_bytes v) (view w pid))"
    using assms(1) unfolding poke_law_def poke_view_overlay by blast
  have "\<not> a \<ge> max_addr" using assms(3) by (simp add: word_le_nat_alt)
  then have chk: "checked_write k pid a max_addr v w = (Inr (), w1)"
    using w1(1) by (simp add: checked_write_def write_word_def call_apply)
  have add: "checked_add a usize_size = Inr (a + 8)" "unat (a + 8) = unat a + 8"
    using assms(2) by (simp_all add: checked_add_def usize_size_def writable_def unat_add_no_overflow)
  have "writable view w1 pid (a + 8) n" using writable_drop [OF writable_overlay [OF assms(2) w1(2)]] by simp
  then show thesis using that [of w1] chk add w1(2) by (simp add: m_then_apply lift_r_apply)
qed

text \<open>The loop writes exactly the kept words and counts the others.\<close>

lemma write_remainder_stores:
  assumes "poke_law k view" "c + length ws < 2 ^ 64" "s + length ws < 2 ^ 64"
    and "writable view w pid a (8 * length (squeeze (unat sc) c ws))"
    and "unat a + 8 * length (squeeze (unat sc) c ws) \<le> unat max_addr"
  shows "\<exists>w'. write_remainder k pid max_addr sc (of_nat c) (of_nat s) a ws w =
      (Inr (of_nat (s + (length ws - length (squeeze (unat sc) c ws))), a + of_nat (8 * length (squeeze (unat sc) c ws))), w') \<and>
    view w' = (view w)(pid := overlay a (words_bytes (squeeze (unat sc) c ws)) (view w pid))"
  using assms(2-)
proof (induction ws arbitrary: c s a w)
  case (Cons v ws)
  show ?case
  proof (cases "v = 0 \<and> unat sc < Suc c")
    case True
    have sq: "squeeze (unat sc) c (v # ws) = squeeze (unat sc) (Suc c) ws" using True by simp
    have "Suc c + length ws < 2 ^ 64" "Suc s + length ws < 2 ^ 64" using Cons.prems(1,2) by simp_all
    note IH = Cons.IH [OF this Cons.prems(3,4) [unfolded sq]]
    have "s + (length (v # ws) - length (squeeze (unat sc) (Suc c) ws)) = Suc s + (length ws - length (squeeze (unat sc) (Suc c) ws))"
      using length_squeeze [of "unat sc" "Suc c" ws] by simp
    moreover have "write_remainder k pid max_addr sc (of_nat c) (of_nat s) a (v # ws) w =
        write_remainder k pid max_addr sc (of_nat (Suc c)) (of_nat (Suc s)) a ws w"
      using True Cons.prems(1,2) by (simp add: write_remainder_zero del: of_nat_Suc write_remainder.simps)
    ultimately show ?thesis using IH unfolding sq by metis
  next
    case False
    define c' where "c' = (if v = 0 then Suc c else 0)"
    have sq: "squeeze (unat sc) c (v # ws) = v # squeeze (unat sc) c' ws" using False by (auto simp: c'_def)
    let ?ws = "squeeze (unat sc) c' ws"
    have wr: "writable view w pid a (8 + 8 * length ?ws)" and lim: "unat a + 8 \<le> unat max_addr"
      using Cons.prems(3,4) unfolding sq by simp_all
    have step: "write_remainder k pid max_addr sc (of_nat c) (of_nat s) a (v # ws) w =
        m_then (checked_write k pid a max_addr v) (\<lambda>_. m_then (lift_r (checked_add a usize_size)) (\<lambda>a.
          write_remainder k pid max_addr sc (of_nat c') (of_nat s) a ws)) w"
    proof (cases "v = 0")
      case True
      then show ?thesis
        using False Cons.prems(1,2) by (simp add: write_remainder_zero c'_def del: of_nat_Suc write_remainder.simps)
    qed (simp add: c'_def)
    obtain w1 where w1: "write_remainder k pid max_addr sc (of_nat c) (of_nat s) a (v # ws) w =
          write_remainder k pid max_addr sc (of_nat c') (of_nat s) (a + 8) ws w1"
        "view w1 = (view w)(pid := overlay a (to_ne_bytes v) (view w pid))" "writable view w1 pid (a + 8) (8 * length ?ws)"
        "unat (a + 8) = unat a + 8"
      using write_remainder_word [OF assms(1) wr lim, of v "\<lambda>a. write_remainder k pid max_addr sc (of_nat c') (of_nat s) a ws"]
      unfolding step by blast
    have "c' + length ws < 2 ^ 64" "s + length ws < 2 ^ 64" using Cons.prems(1,2) by (simp_all add: c'_def)
    moreover have "unat (a + 8) + 8 * length ?ws \<le> unat max_addr" using Cons.prems(4) w1(4) unfolding sq by simp
    ultimately obtain w2 where w2: "write_remainder k pid max_addr sc (of_nat c') (of_nat s) (a + 8) ws w1 =
          (Inr (of_nat (s + (length ws - length ?ws)), a + 8 + of_nat (8 * length ?ws)), w2)"
        "view w2 = (view w1)(pid := overlay (a + 8) (words_bytes ?ws) (view w1 pid))"
      using Cons.IH [OF _ _ w1(3)] by blast
    have "length (to_ne_bytes v @ words_bytes ?ws) < 2 ^ 64" using wr by (simp add: writable_def)
    from overlay_append [OF this, of a "view w pid"]
    have "view w2 = (view w)(pid := overlay a (words_bytes (v # ?ws)) (view w pid))" using w1(2) w2(2) by simp
    then show ?thesis using w1(1) w2(1) unfolding sq by (auto simp: add.assoc)
  qed
qed (simp add: ret_apply)

lemma overlay_before:
  assumes "length (xs @ ys) < 2 ^ 64"
  shows "overlay a xs (overlay (a + of_nat (length xs)) ys m) = overlay a (xs @ ys) m"
proof
  fix b
  let ?d = "unat (b - a)"
  have xs: "unat (of_nat (length xs) :: usize) = length xs" using assms by (intro unat_of_nat_64) simp
  have d: "b - (a + of_nat (length xs)) = (b - a) - of_nat (length xs)" by simp
  show "overlay a xs (overlay (a + of_nat (length xs)) ys m) b = overlay a (xs @ ys) m b"
  proof (cases "?d < length xs")
    case False
    then have "unat ((b - a) - of_nat (length xs)) = ?d - length xs" using xs by (simp add: unat_sub word_le_nat_alt)
    then have e: "unat (b - (a + of_nat (length xs))) = ?d - length xs" by (simp only: d)
    have "?d - length xs < length ys \<longleftrightarrow> ?d < length (xs @ ys)" using False by auto
    then show ?thesis unfolding overlay_def e using False by (simp add: nth_append)
  qed (simp add: overlay_def nth_append)
qed

lemma writable_take: "writable view w pid a n \<Longrightarrow> m \<le> n \<Longrightarrow> writable view w pid a m"
  by (simp add: writable_def)

lemma write_struct_stores:
  assumes "poke_law k view" "sized_type T" "shrinks T sc item"
    and "writable view w pid a (shrunk_size T sc item)" "unat a + shrunk_size T sc item \<le> unat max_addr"
  shows "\<exists>w'. write_struct k T pid max_addr sc (of_nat (unat (header_size T) div 8)) (header_size T) a item w =
      (Inr (a + of_nat (shrunk_size T sc item)), w') \<and>
    view w' = (view w)(pid := overlay a (shrunk T sc item) (view w pid))"
proof -
  note T = sized_typeD [OF assms(2)] and h = new_header_props [OF assms(2,3)]
  have len: "length item = unat (t_size T)" and less: "length (kept_words T sc item) < length (item_words T item)"
    using assms(3) by (simp_all add: shrinks_def)
  let ?hs = "unat (header_size T)" and ?ws = "kept_words T sc item" and ?m = "length (item_words T item) - length (kept_words T sc item)"
  note sizes = item_sizes [OF assms(2) len]
  have small: "unat (t_size T) < 2 ^ 62" using T(4) by (simp add: MAX_STRUCT_SIZE_def)
  have size: "shrunk_size T sc item = ?hs + 8 * length ?ws" by (simp add: shrunk_size_def)
  have q: "unat (of_nat (?hs div 8) :: usize) = ?hs div 8" using T(1) small by (intro unat_of_nat_64) simp
  have add: "checked_add a (header_size T) = Inr (a + header_size T)" and ua: "unat (a + header_size T) = unat a + ?hs"
    using assms(4) size by (simp_all add: checked_add_def writable_def unat_add_no_overflow)
  have guard: "\<not> a + header_size T > max_addr" using assms(5) ua size by (simp add: word_less_nat_alt)
  have words: "drop (unat (of_nat (?hs div 8) :: usize)) (chunk_words item) = item_words T item" by (simp only: q item_words_def)
  have "writable view w pid a (?hs + 8 * length ?ws)" using assms(4) size by simp
  from writable_drop [OF this] have wr: "writable view w pid (a + header_size T) (8 * length ?ws)" by simp
  have lim: "unat (a + header_size T) + 8 * length ?ws \<le> unat max_addr" using assms(5) ua size by simp
  have few: "0 + length (item_words T item) < 2 ^ 64" using sizes small by simp
  from write_remainder_stores [OF assms(1) few few wr [unfolded kept_words_def] lim [unfolded kept_words_def]]
  obtain w1 where w1: "write_remainder k pid max_addr sc 0 0 (a + header_size T) (item_words T item) w =
        (Inr (of_nat ?m, a + of_nat (shrunk_size T sc item)), w1)"
      "view w1 = (view w)(pid := overlay (a + header_size T) (words_bytes ?ws) (view w pid))"
    unfolding size by (auto simp: kept_words_def add.assoc)
  have us: "unat (of_nat ?m :: usize) = ?m" using few by (intro unat_of_nat_64) simp
  have skipped: "of_nat ?m > (0 :: usize)" using less us by (simp add: word_less_nat_alt)
  have mul: "unat (of_nat ?m * usize_size) = ?m * 8"
    using us sizes small by (simp add: unat_word_ariths usize_size_def)
  have le: "of_nat ?m * usize_size \<le> t_size T" using mul sizes by (simp add: word_le_nat_alt)
  then have "unat (t_size T - of_nat ?m * usize_size) = shrunk_size T sc item"
    using mul sizes less by (simp add: unat_sub shrunk_size_def diff_mult_distrib)
  then have "t_size T - of_nat ?m * usize_size = of_nat (shrunk_size T sc item)"
    by (metis of_nat_unat ucast_id)
  then have obj: "checked_sub (t_size T) (of_nat ?m * usize_size) = Inr (of_nat (shrunk_size T sc item))"
    using le by (simp add: checked_sub_def)
  have head: "take (unat (of_nat (?hs div 8) :: usize)) (chunk_words (new_header T sc item @ drop ?hs item)) = chunk_words (new_header T sc item)"
    using h(1) T(2) by (simp add: q chunk_words_append length_chunk_words)
  have hw: "words_bytes (chunk_words (new_header T sc item)) = new_header T sc item" "8 * length (chunk_words (new_header T sc item)) = ?hs"
    using h(1) T(2) by (simp_all add: words_bytes_chunk_words length_chunk_words)
  have "writable view w1 pid a (8 * length (chunk_words (new_header T sc item)))"
    using writable_overlay [OF assms(4) w1(2)] by (rule writable_take) (simp add: hw(2) size)
  then obtain w2 where w2: "write_words k pid a (chunk_words (new_header T sc item)) w1 = (Inr (a + of_nat ?hs), w2)"
      "view w2 = (view w1)(pid := overlay a (new_header T sc item) (view w1 pid))"
    using write_words_stores [OF assms(1)] hw by metis
  have "length (new_header T sc item @ words_bytes ?ws) < 2 ^ 64" using h(1) shrinks_less [OF assms(2,3)] small size by simp
  from overlay_before [OF this, of a "view w pid"]
  have "view w2 = (view w)(pid := overlay a (shrunk T sc item) (view w pid))"
    using w1(2) w2(2) h(1) by (simp add: shrunk_def)
  moreover have "write_struct k T pid max_addr sc (of_nat (?hs div 8)) (header_size T) a item w =
      (Inr (a + of_nat (shrunk_size T sc item)), w2)"
    unfolding write_struct_def words
    using add guard w1(1) skipped obj w2(1) head by (simp add: m_then_apply lift_r_apply ret_apply new_header_def)
  ultimately show ?thesis by blast
qed

definition written :: "cstruct \<Rightarrow> usize \<Rightarrow> u8 list list \<Rightarrow> u8 list" where
  "written T sc items = concat (map (shrunk T sc) items)"

lemma write_structs_loop_stores:
  assumes "poke_law k view" "sized_type T" "\<forall>item \<in> set items. shrinks T sc item"
    and "writable view w pid a (length (written T sc items))" "unat a + length (written T sc items) \<le> unat max_addr"
  shows "\<exists>w'. write_structs_loop k T pid max_addr sc (of_nat (unat (header_size T) div 8)) (header_size T) a items w =
      (Inr (a + of_nat (length (written T sc items))), w') \<and>
    view w' = (view w)(pid := overlay a (written T sc items) (view w pid))"
  using assms(3-)
proof (induction items arbitrary: a w)
  case Nil
  then show ?case by (simp add: written_def ret_apply)
next
  case (Cons item items)
  have sh: "shrinks T sc item" and rest: "\<forall>item \<in> set items. shrinks T sc item" using Cons.prems(1) by simp_all
  note len = new_header_props(3) [OF assms(2) sh]
  let ?n = "shrunk_size T sc item" and ?r = "written T sc items"
  have total: "written T sc (item # items) = shrunk T sc item @ ?r" by (simp add: written_def)
  have wr: "writable view w pid a (?n + length ?r)" using Cons.prems(2) len by (simp add: total)
  have "writable view w pid a ?n" "unat a + ?n \<le> unat max_addr"
    using writable_take [OF wr] Cons.prems(3) len by (simp_all add: total)
  then obtain w1 where w1: "write_struct k T pid max_addr sc (of_nat (unat (header_size T) div 8)) (header_size T) a item w =
        (Inr (a + of_nat ?n), w1)" "view w1 = (view w)(pid := overlay a (shrunk T sc item) (view w pid))"
    using write_struct_stores [OF assms(1,2) sh] by blast
  have u: "unat (a + of_nat ?n) = unat a + ?n" using wr by (intro unat_add_of_nat) (simp add: writable_def)
  have "writable view w1 pid (a + of_nat ?n) (length ?r)" by (rule writable_drop [OF writable_overlay [OF wr w1(2)]])
  moreover have "unat (a + of_nat ?n) + length ?r \<le> unat max_addr" using Cons.prems(3) u len by (simp add: total)
  ultimately obtain w2 where w2: "write_structs_loop k T pid max_addr sc (of_nat (unat (header_size T) div 8)) (header_size T)
        (a + of_nat ?n) items w1 = (Inr (a + of_nat ?n + of_nat (length ?r)), w2)"
      "view w2 = (view w1)(pid := overlay (a + of_nat ?n) ?r (view w1 pid))"
    using Cons.IH [OF rest] by blast
  have "length (shrunk T sc item @ ?r) < 2 ^ 64" using wr len by (simp add: writable_def)
  from overlay_append [OF this, of a "view w pid"]
  have "view w2 = (view w)(pid := overlay a (written T sc (item # items)) (view w pid))"
    using w1(2) w2(2) len by (simp add: total)
  then show ?case using w1(1) w2(1) len by (auto simp: total m_then_apply add.assoc)
qed

lemma aligned_header:
  assumes "sized_type T"
  shows "r_then (aligned (header_size T)) (\<lambda>a. checked_div a usize_size) = Inr (of_nat (unat (header_size T) div 8))"
    "checked_mul (of_nat (unat (header_size T) div 8)) usize_size = Inr (header_size T)"
proof -
  note T = sized_typeD [OF assms]
  let ?h = "unat (header_size T)"
  have small: "?h < 2 ^ 62" using T(1,4) by (simp add: MAX_STRUCT_SIZE_def)
  obtain q where q: "?h = 8 * q" using T(2) by (auto simp: dvd_def)
  have h: "header_size T = of_nat ?h" by simp
  have "aligned (header_size T) = Inr (header_size T)"
    unfolding aligned_eq using small q h by simp
  moreover have "unat (header_size T div 8) = ?h div 8" by (simp add: unat_div_distrib)
  then have "header_size T div 8 = of_nat (?h div 8)" by (metis of_nat_unat ucast_id)
  ultimately show "r_then (aligned (header_size T)) (\<lambda>a. checked_div a usize_size) = Inr (of_nat (?h div 8))"
    by (simp add: checked_div_def usize_size_def)
  have u: "unat (of_nat q :: usize) = q" using small q by (intro unat_of_nat_64) simp
  have "of_nat q * 8 = header_size T" using q h by (metis mult.commute of_nat_mult of_nat_numeral)
  then show "checked_mul (of_nat (?h div 8)) usize_size = Inr (header_size T)"
    using u small q by (simp add: checked_mul_def usize_size_def)
qed

lemma write_structs_stores:
  assumes "poke_law k view" "sized_type T" "\<forall>item \<in> set items. shrinks T sc item"
    and "writable view w pid addr (length (written T sc items))" "length (written T sc items) \<le> unat buffer_size"
    and "unat addr + unat buffer_size < 2 ^ 64"
  shows "\<exists>w'. write_structs_to_tracee k T pid addr buffer_size items sc w = (Inr (of_nat (length (written T sc items))), w') \<and>
    view w' = (view w)(pid := overlay addr (written T sc items) (view w pid))"
proof -
  have add: "checked_add addr buffer_size = Inr (addr + buffer_size)" "unat (addr + buffer_size) = unat addr + unat buffer_size"
    using assms(6) by (simp_all add: checked_add_def unat_add_no_overflow)
  have "check_item_type (t_size T) = Inr ()" "check_header_size T = Inr ()"
    using assms(2) by (simp_all add: sized_type_def type_ok_def)
  moreover have "unat addr + length (written T sc items) \<le> unat (addr + buffer_size)" using assms(5) add(2) by simp
  ultimately show ?thesis
    using write_structs_loop_stores [OF assms(1-4)] add(1) aligned_header [OF assms(2)]
    by (fastforce simp: write_structs_to_tracee_def m_then_apply lift_r_apply ret_apply)
qed

section \<open>Reading back\<close>

text \<open>
  C22.  Structures of variable size that \<open>write_structs_to_tracee\<close> wrote to a mapped buffer are found again by
  \<open>read_bytes_to_structs\<close>.  This is for items of which at least one word is left out, so that their header is updated.  Each
  is read back with its announced size changed to the number of bytes that were written for it and with its kept words moved
  together, followed by zeroes.  When an item has more than \<open>shrink_criteria\<close> zero words in a row only at its end, nothing moves:
  it is read back unchanged except for its size, although its last zero words were not written.
\<close>

theorem structs_round_trip:
  assumes "poke_law k view" "peek_law k view"
    and "sized_type T" "\<forall>item \<in> set items. shrinks T sc item"
    and "writable view w pid addr (length (written T sc items) + 8)" "length (written T sc items) \<le> unat buffer_size"
    and "unat addr + unat buffer_size < 2 ^ 64"
  shows "(\<exists>n w' w''. write_structs_to_tracee k T pid addr buffer_size items sc w = (Inr n, w') \<and>
      unat n = sum_list (map (shrunk_size T sc) items) \<and>
      read_bytes_to_structs T (length items) pid addr n (SLOW_MEM_HELPERS k) w' = (Inr (map (squeezed T sc) items), w'')) \<and>
    (\<forall>item \<in> set items. zeroes_last T sc item \<longrightarrow> squeezed T sc item = resized T sc item)"
proof -
  have "writable view w pid addr (length (written T sc items))" using writable_take [OF assms(5)] by simp
  then obtain w' where w': "write_structs_to_tracee k T pid addr buffer_size items sc w = (Inr (of_nat (length (written T sc items))), w')"
      "view w' = (view w)(pid := overlay addr (written T sc items) (view w pid))"
    using write_structs_stores [OF assms(1,3,4) _ assms(6,7)] by blast
  have "slow_holds k view w' pid addr (concat (map (shrunk T sc) items))"
    using slow_holds_written [OF assms(2,5) w'(2)] by (simp add: written_def)
  moreover have "\<forall>c \<in> set (map (shrunk T sc) items). item_ok T c" using shrunk_item(1) [OF assms(3)] assms(4) by simp
  moreover have "type_ok T" using assms(3) by (simp add: sized_type_def)
  ultimately obtain w'' where "read_bytes_to_structs T (length items) pid addr (of_nat (length (written T sc items))) (SLOW_MEM_HELPERS k) w' =
      (Inr (map (padded T) (map (shrunk T sc) items)), w'')"
    using slow_reader.read_structs [where fuel = "length items"] by (fastforce simp: written_def)
  moreover have "map (padded T) (map (shrunk T sc) items) = map (squeezed T sc) items"
    using shrunk_item(2) [OF assms(3)] assms(4) by simp
  moreover have "length (written T sc items) = sum_list (map (shrunk_size T sc) items)"
    using new_header_props(3) [OF assms(3)] assms(4) by (induction items) (simp_all add: written_def)
  moreover have "unat (of_nat (length (written T sc items)) :: usize) = length (written T sc items)"
    using assms(5) by (intro unat_of_nat_64) (simp add: writable_def)
  moreover have "\<forall>item \<in> set items. zeroes_last T sc item \<longrightarrow> squeezed T sc item = resized T sc item"
    using squeezed_resized [OF assms(3)] assms(4) by (simp add: shrinks_def)
  ultimately show ?thesis using w'(1) by metis
qed

text \<open>Two items of 40 bytes: zeroes at the end are not written and come back; zeroes inside are lost, and the last word moves.\<close>

definition wide_cstruct :: cstruct where
  "wide_cstruct = example_cstruct\<lparr>t_size := 40\<rparr>"

lemma wide_sized: "sized_type wide_cstruct"
  by (simp add: sized_type_def type_ok_def wide_cstruct_def example_cstruct_def check_item_type_def check_header_size_def
      usize_size_def MAX_STRUCT_SIZE_def)

theorem structs_round_trip_witness:
  "\<exists>n w' w''. write_structs_to_tracee machine_api wide_cstruct 1 4096 64 [words_bytes [40, 7, 9, 0, 0], words_bytes [40, 7, 0, 0, 9]] 1 example_machine = (Inr n, w') \<and>
     read_bytes_to_structs wide_cstruct 2 1 4096 n (SLOW_MEM_HELPERS machine_api) w' =
       (Inr [words_bytes [32, 7, 9, 0, 0], words_bytes [32, 7, 0, 9, 0]], w'')"
proof -
  let ?i = "words_bytes [40, 7, 9, 0, 0]" and ?j = "words_bytes [40, 7, 0, 0, 9]"
  have words: "item_words wide_cstruct ?i = [7, 9, 0, 0]" "item_words wide_cstruct ?j = [7, 0, 0, 9]"
    by (simp_all only: item_words_def chunk_words_words_bytes) (simp_all add: wide_cstruct_def example_cstruct_def)
  then have kept: "kept_words wide_cstruct 1 ?i = [7, 9, 0]" "kept_words wide_cstruct 1 ?j = [7, 0, 9]" by (simp_all add: kept_words_def)
  have sh: "shrinks wide_cstruct 1 ?i" "shrinks wide_cstruct 1 ?j"
    unfolding shrinks_def words kept by (simp_all add: wide_cstruct_def)
  have size: "shrunk_size wide_cstruct 1 ?i = 32" "shrunk_size wide_cstruct 1 ?j = 32"
    by (simp_all only: shrunk_size_def kept) (simp_all add: wide_cstruct_def example_cstruct_def)
  then have "length (written wide_cstruct 1 [?i, ?j]) = 64"
    using new_header_props(3) [OF wide_sized sh(1)] new_header_props(3) [OF wide_sized sh(2)] by (simp add: written_def del: words_bytes_simps)
  moreover have "writable m_bytes example_machine 1 4096 72"
    by (auto simp: writable_def example_machine_def word_le_nat_alt word_less_nat_alt unat_word_ariths unat_of_nat)
  moreover have "squeezed wide_cstruct 1 ?i = words_bytes [32, 7, 9, 0, 0]" "squeezed wide_cstruct 1 ?j = words_bytes [32, 7, 0, 9, 0]"
    by (simp_all only: squeezed_def new_header_def size words kept) (simp_all add: wide_cstruct_def example_cstruct_def)
  ultimately show ?thesis
    using structs_round_trip [OF machine_poke_law machine_peek_law wide_sized, of "[?i, ?j]" 1 example_machine 1 4096 64] sh
    by (auto simp flip: numeral_2_eq_2 simp del: words_bytes_simps)
qed

end
