(* ===== verification/Wait_Results.thy ===== *)
theory Wait_Results
  imports Aug_Process
begin

text \<open>
  What a tracee sees of \<open>wait4\<close> (\<open>sysaug/src/aug_waitpid.rs\<close>).  A child of a tracee is stopped by the tracer when it
  is created; \<open>augment_sys_waitpid\<close> hides this stop from the parent and reports every other change of the child as the
  kernel does.
\<close>

section \<open>Reading and writing a word\<close>

text \<open>Both memory helpers read a single word with \<open>ptrace\<close>.\<close>

lemma mh_read_of: "mh_read (mem_helpers_of e kind) pid a = on_kern (call ReadE (sys_ptrace_read (api e) pid a))"
  by (cases kind) (simp_all add: mem_helpers_of_def on_kern_mem_def SLOW_MEM_HELPERS_def DIRECT_MEM_HELPERS_def
      slow_read_def [abs_def] direct_read_def [abs_def] fun_eq_iff on_kern_def call_apply split: prod.split)

lemma read_mapped:
  assumes "peek_law (api e) view" "mapped_at view (kern (globals h)) pid a (to_ne_bytes v)"
  shows "on_globals (mh_read (mem_helpers_of e kind) pid a) h = (Inr v, h)"
proof -
  have "length (to_ne_bytes v) = 8 \<and> (\<forall>i < 8. view (kern (globals h)) pid (a + of_nat i) = Some (to_ne_bytes v ! i))"
    using assms(2) by (simp add: mapped_at_def)
  then have "sys_ptrace_read (api e) pid a (kern (globals h)) = (Inr (from_ne_bytes (to_ne_bytes v)), kern (globals h))"
    using assms(1) unfolding peek_law_def by blast
  then show ?thesis by (simp add: mh_read_of on_globals_def on_err_def on_kern_def call_apply)
qed

text \<open>What \<open>ptrace(2)\<close> promises in addition: setting registers leaves memory alone, and poking memory leaves registers alone.\<close>

definition apart_law :: "('k, 'x) ptrace_api_scheme \<Rightarrow> 'k tracee_view \<Rightarrow> 'k view \<Rightarrow> bool" where
  "apart_law k V view \<longleftrightarrow>
     (\<forall>pid ws s. view (snd (sys_setregset k pid ws s)) = view s) \<and>
     (\<forall>pid a v s. view_regs V (snd (sys_ptrace_write k pid a v s)) = view_regs V s)"

lemma write_mapped:
  assumes "poke_law (api e) view" "apart_law (api e) V view" "mapped_at view (kern (globals h)) pid a (to_ne_bytes v0)"
  obtains k where "in_kernel (write_word (api e) pid a v) h = (Inr (), h\<lparr>globals := (globals h)\<lparr>kern := k\<rparr>\<rparr>)"
    "mapped_at view k pid a (to_ne_bytes v)" "view_regs V k = view_regs V (kern (globals h))"
proof -
  have "\<forall>i < 8. view (kern (globals h)) pid (a + of_nat i) \<noteq> None" using assms(3) by (simp add: mapped_at_def)
  then obtain k where k: "sys_ptrace_write (api e) pid a v (kern (globals h)) = (Inr (), k)"
    using assms(1) unfolding poke_law_def by blast
  then have "view k = (view (kern (globals h)))(pid := overlay a (to_ne_bytes v) (view (kern (globals h)) pid))"
    using assms(1) unfolding poke_law_def poke_view_overlay by blast
  then have "mapped_at view k pid a (to_ne_bytes v)"
    by (rule overlay_same) (use mapped_at_bound [OF assms(3)] in simp)
  moreover have "in_kernel (write_word (api e) pid a v) h = (Inr (), h\<lparr>globals := (globals h)\<lparr>kern := k\<rparr>\<rparr>)"
    by (rule in_kernel_Inr) (simp add: write_word_def call_apply k)
  moreover have "view_regs V k = view_regs V (kern (globals h))"
    using assms(2) k unfolding apart_law_def by (metis snd_conv)
  ultimately show thesis using that by blast
qed

lemma setregs_mapped:
  assumes "setregs_law (api e) V" "apart_law (api e) V view" "phase_of e V h \<noteq> UserCode"
  obtains h' where "in_kernel (setregs (api e) (pid_of e) r) h = (Inr (), h')" "with_regs e V r h h'"
    "view (kern (globals h')) = view (kern (globals h))"
proof -
  obtain h' where h': "in_kernel (setregs (api e) (pid_of e) r) h = (Inr (), h')" "with_regs e V r h h'"
    using in_kernel_setregs [OF assms(1,3)] by blast
  have "kern (globals h') = snd (sys_setregset (api e) (pid_of e) (regs_words r) (kern (globals h)))"
    using h'(1) by (auto simp: in_kernel_def on_globals_def on_err_def on_kern_def setregs_def call_apply
        split: prod.splits sum.splits fault.splits)
  then have "view (kern (globals h')) = view (kern (globals h))" using assms(2) by (simp add: apart_law_def)
  then show thesis using that h' by blast
qed

section \<open>Properties\<close>

text \<open>
  C16.  When \<open>wait4\<close> reports that a child in the set of ignored stops was stopped by \<open>SIGSTOP\<close>, the parent does not see
  it: the call returns \<open>-EINTR\<close>, or zero with \<open>WNOHANG\<close>, the word at the status pointer is what it was before the call,
  and the stop is ignored only once.  In every other case the call returns exactly what the kernel returned.
\<close>

theorem waitpid_hides_sigstop:
  assumes laws: "kernel_laws e V legacy w" "in_step e V legacy h" "is_after_syscall_entry h"
    and mem: "peek_law (api e) view" "poke_law (api e) view" "apart_law (api e) V view"
    and before: "mapped_at view (kern (globals h)) (pid_of e) (arg1 orig) (to_ne_bytes old)"
    and call: "run w (do_resume_syscall e) h = (Inr regs, h1)"
    and after: "mapped_at view (kern (globals h1)) (pid_of e) (arg1 regs) (to_ne_bytes status)"
    and pids: "ignore_sigstops h1 (pid_of e) = RwLock False pids"
  shows "\<exists>h2. run w (augment_sys_waitpid e orig info) h = (Inr (), h2) \<and>
    (let child = as_i32 (syscall_retval regs)
     in if 0 < child \<and> child \<in> pids \<and> is_sigstop (wait_status_from_raw e child (as_i32 status))
        then syscall_retval (regs_of e V h2) = (if arg2 regs AND WNOHANG = 0 then of_int (- EINTR) else 0) \<and>
          mapped_at view (kern (globals h2)) (pid_of e) (arg1 regs) (to_ne_bytes old) \<and>
          ignore_sigstops h2 (pid_of e) = RwLock False (pids - {child})
        else h2 = h1)"
proof -
  define child where "child = as_i32 (syscall_retval regs)"
  let ?mem = "mem_helpers_of e (MEM h)"
  have run: "run w (augment_sys_waitpid e orig info) h = hide_sigstop e ?mem old regs h1"
    using read_mapped [OF mem(1) before] call
    by (simp add: augment_sys_waitpid_def run_simps m_then_apply get_mem_helper_def gets_modify_apply)
  have phase: "phase_of e V h1 \<noteq> UserCode" using do_resume [OF laws] call by (auto simp: moved_def)
  note status = read_mapped [OF mem(1) after, of "MEM h"]
  show ?thesis
  proof (cases "0 < child \<and> child \<in> pids \<and> is_sigstop (wait_status_from_raw e child (as_i32 status))")
    case True
    let ?v = "if arg2 regs AND WNOHANG = 0 then of_int (- EINTR) else 0"
    have "setregs_law (api e) V" using laws(1) by (simp add: kernel_laws_def)
    then obtain h2 where h2: "in_kernel (setregs (api e) (pid_of e) (set_syscall_retval ?v regs)) h1 = (Inr (), h2)"
        "with_regs e V (set_syscall_retval ?v regs) h1 h2" "view (kern (globals h2)) = view (kern (globals h1))"
      by (rule setregs_mapped [OF _ mem(3) phase])
    have "mapped_at view (kern (globals h2)) (pid_of e) (arg1 regs) (to_ne_bytes status)"
      using after h2(3) by (simp add: mapped_at_def)
    then obtain k where k: "in_kernel (write_word (api e) (pid_of e) (arg1 regs) old) h2 = (Inr (), h2\<lparr>globals := (globals h2)\<lparr>kern := k\<rparr>\<rparr>)"
        "mapped_at view k (pid_of e) (arg1 regs) (to_ne_bytes old)" "view_regs V k = view_regs V (kern (globals h2))"
      by (rule write_mapped [OF mem(2,3)])
    let ?h3 = "h2\<lparr>globals := (globals h2)\<lparr>kern := k\<rparr>, ignore_sigstops := (ignore_sigstops h2)(pid_of e := RwLock False (pids - {child}))\<rparr>"
    have "hide_sigstop e ?mem old regs h1 = (Inr (), ?h3)"
      using True pids status h2(1) k(1)
      by (simp add: hide_sigstop_def child_def [symmetric] Let_def m_then_apply gets_modify_apply rwlock_write_def lift_r_apply)
    moreover have "syscall_retval (regs_of e V ?h3) = ?v"
      using k(3) h2(2) by (simp add: with_regs_def syscall_retval_def set_syscall_retval_def)
    ultimately show ?thesis using True k(2) run by (simp add: child_def Let_def)
  next
    case False
    then have "hide_sigstop e ?mem old regs h1 = (Inr (), h1)"
      using pids status
      by (auto simp: hide_sigstop_def child_def [symmetric] Let_def m_then_apply gets_modify_apply rwlock_write_def lift_r_apply ret_apply)
    with False run show ?thesis by (auto simp: child_def Let_def)
  qed
qed

text \<open>
  C40.  The word at the status pointer is read before the call and a failure is not handled: a parent that passes a
  pointer that can not be read, such as the null pointer that \<open>wait4\<close> allows, does not wait at all and its handler ends
  with an error.
\<close>

theorem waitpid_needs_status:
  assumes "sys_ptrace_read (api e) (pid_of e) (arg1 orig) (kern (globals h)) = (Inl n, k)"
  shows "run w (augment_sys_waitpid e orig info) h =
    (Inl (Err (Ptrace (ReadE n))), h\<lparr>globals := (globals h)\<lparr>kern := k\<rparr>\<rparr>)"
  using assms
  by (simp add: augment_sys_waitpid_def run_simps m_then_apply get_mem_helper_def gets_modify_apply mh_read_of
      on_globals_def on_err_def on_kern_def call_apply)

text \<open>
  A parent whose status word is mapped; while it waits the kernel stores the status of a child that was stopped by \<open>SIGSTOP\<close>
  and returns its id.
\<close>

abbreviation wait_env :: "(sim_kernel, unit) env" where
  "wait_env \<equiv> sim_env \<lparr>SYS = (\<lambda>_. 61), AT_SYMLINK_NOFOLLOW = 256\<rparr> default_sysaug_args"

definition wait_handler :: "sim_kernel handler" where
  "wait_handler =
     (let h = sim_handler (zero_regs\<lparr>arg1 := 4096\<rparr>) SeccompStop False True
      in h\<lparr>ignore_sigstops := (\<lambda>_. RwLock False {7}), globals := (globals h)\<lparr>kern := (kern (globals h))\<lparr>
           sim_mem := (\<lambda>pid a. if a < 65536 then Some 0 else None)\<rparr>\<rparr>\<rparr>)"

definition wait_between :: "sim_kernel handler between" where
  "wait_between t h = (case sim_between False 1 t h of (r, h) \<Rightarrow>
     (r, if t = WaitForPtraceSyscall
         then h\<lparr>globals := (globals h)\<lparr>kern := (kern (globals h))\<lparr>
           sim_mem := (sim_mem (kern (globals h)))(1 := overlay 4096 (to_ne_bytes (256 * 19 + 127)) (sim_mem (kern (globals h)) 1)),
           sim_regs := (sim_regs (kern (globals h)))(1 := (sim_regs (kern (globals h)) 1)\<lparr>rax := 7\<rparr>)\<rparr>\<rparr>\<rparr>
         else h))"

lemma wait_laws: "kernel_laws wait_env sim_view False wait_between"
  by (auto simp: kernel_laws_def getregs_law_def setregs_law_def stop_law_def reaches_def outside_step_def wait_between_def
      sim_env_def sim_api_def sim_view_def sim_between_def sim_syscall_stop_def Let_def fun_eq_iff)

lemma sim_apart_law: "apart_law sim_api sim_view sim_mem"
  by (simp add: apart_law_def sim_api_def sim_view_def split: prod.split)

lemma wait_handler_simps:
  "in_step wait_env sim_view False wait_handler" "is_after_syscall_entry wait_handler"
  "tracee_seccomp_init_complete wait_handler" "\<not> is_legacy_seccomp wait_handler"
  "ignore_sigstops wait_handler = (\<lambda>_. RwLock False {7})" "sim_phase (kern (globals wait_handler)) 1 = SeccompStop"
  "sim_regs (kern (globals wait_handler)) 1 = zero_regs\<lparr>arg1 := 4096\<rparr>"
  by (simp_all add: in_step_def wait_handler_def Let_def sim_handler_def sim_view_def sim_env_def initial_globals_def)

lemma wait_handler_mapped: "mapped_at sim_mem (kern (globals wait_handler)) 1 4096 (to_ne_bytes 0)"
  by (auto simp: mapped_at_def wait_handler_def Let_def sim_handler_def zero_word_bytes word_less_nat_alt unat_word_ariths unat_of_nat)

lemma wait_call:
  obtains h1 where "run wait_between (do_resume_syscall wait_env) wait_handler = (Inr (zero_regs\<lparr>arg1 := 4096, rax := 7\<rparr>), h1)"
    "ignore_sigstops h1 1 = RwLock False {7}" "mapped_at sim_mem (kern (globals h1)) 1 4096 (to_ne_bytes 4991)"
proof -
  obtain h1 where h1: "run wait_between wait_for_syscall wait_handler = (Inr (PtraceSyscall 1), h1)"
      "sim_regs (kern (globals h1)) 1 = zero_regs\<lparr>arg1 := 4096, rax := 7\<rparr>" "ignore_sigstops h1 1 = RwLock False {7}"
      "sim_mem (kern (globals h1)) =
        (sim_mem (kern (globals wait_handler)))(1 := overlay 4096 (to_ne_bytes 4991) (sim_mem (kern (globals wait_handler)) 1))"
    by (auto simp: wait_for_syscall_exit wait_handler_simps await_def run_simps m_then_apply ret_apply gets_modify_apply
        wait_between_def sim_between_def sim_syscall_stop_def is_seccomp_event_def Let_def)
  have "run wait_between (do_resume_syscall wait_env) wait_handler = (Inr (zero_regs\<lparr>arg1 := 4096, rax := 7\<rparr>), h1)"
    using h1(1,2) by (simp add: do_resume_syscall_def run_simps m_then_apply in_kernel_Inr getregs_def io_simps sim_env_def sim_api_def)
  moreover have "mapped_at sim_mem (kern (globals h1)) 1 4096 (to_ne_bytes 4991)"
    using overlay_same [where view = sim_mem, OF h1(4)] by simp
  ultimately show thesis using that h1(3) by blast
qed

theorem waitpid_hides_sigstop_witness:
  "\<exists>h2. run wait_between (augment_sys_waitpid wait_env (zero_regs\<lparr>arg1 := 4096\<rparr>) default_syscall_info) wait_handler = (Inr (), h2) \<and>
     syscall_retval (sim_regs (kern (globals h2)) 1) = of_int (- 4) \<and> ignore_sigstops h2 1 = RwLock False {}"
proof -
  let ?r = "zero_regs\<lparr>arg1 := 4096, rax := 7\<rparr>"
  obtain h1 where h1: "run wait_between (do_resume_syscall wait_env) wait_handler = (Inr ?r, h1)"
      "ignore_sigstops h1 1 = RwLock False {7}" "mapped_at sim_mem (kern (globals h1)) 1 4096 (to_ne_bytes 4991)"
    by (rule wait_call)
  have "as_i32 7 = 7" "as_i32 4991 = 4991" by (simp_all add: as_i32_def)
  then have "is_sigstop (sim_from_raw (as_i32 (syscall_retval ?r)) (as_i32 4991))" "as_i32 (syscall_retval ?r) = 7"
    "arg2 ?r AND WNOHANG = 0"
    by (simp_all add: is_sigstop_def sim_from_raw_def SIGSTOP_def syscall_retval_def zero_regs_def words_regs_def)
  with waitpid_hides_sigstop [OF wait_laws wait_handler_simps(1,2) _ _ _ _ h1(1), of sim_mem "zero_regs\<lparr>arg1 := 4096\<rparr>" 0 4991 "{7}" default_syscall_info]
  show ?thesis
    using sim_memory_laws sim_apart_law wait_handler_mapped h1(2,3)
    by (auto simp: sim_simps sim_env_def sim_view_def EINTR_def)
qed

theorem waitpid_needs_status_witness:
  "run wait_between (augment_sys_waitpid wait_env zero_regs default_syscall_info) (sim_handler zero_regs SeccompStop False True) =
    (Inl (Err (Ptrace (ReadE 5))), sim_handler zero_regs SeccompStop False True)"
proof -
  let ?h = "sim_handler zero_regs SeccompStop False True"
  have "sys_ptrace_read (api wait_env) (pid_of wait_env) (arg1 zero_regs) (kern (globals ?h)) = (Inl 5, kern (globals ?h))"
    by (auto simp: sim_env_def sim_api_def machine_api_def machine_mapped_def sim_machine_def sim_handler_def initial_globals_def
        intro: exI [of _ 0])
  from waitpid_needs_status [OF this] show ?thesis by simp
qed

end
