(* ===== verification/Getdents_Results.thy ===== *)
theory Getdents_Results
  imports Struct_Writes File_Results Wait_Results Scratch_Memory Syscall_Protocol
begin

text \<open>
  What a tracee sees of \<open>getdents\<close> and \<open>getdents64\<close>: the entries of a directory as \<open>replace_getdents_result\<close> of
  \<open>sysaug/src/aug_paths.rs\<close> changes them.  The kernel got half of the buffer; the other half is for the zero words that are
  written after each name.
\<close>

section \<open>Reading with the helper of the handler\<close>

text \<open>Both kinds of memory helpers keep the contract of a reader.\<close>

lemma kern_reader:
  assumes r: "mem_reader m holds_at"
  shows "mem_reader (on_kern_mem m) (\<lambda>w :: 'k direct_world. holds_at (kern w))"
proof unfold_locales
  fix w :: "'k direct_world" and pid a bs
  assume h: "holds_at (kern w) pid a bs"
  show "\<exists>w'. mh_read_bytes (on_kern_mem m) pid a (of_nat (length bs)) buf w = (Inr (bs @ drop (length bs) buf), w') \<and>
      (\<forall>p a' cs. holds_at (kern w) p a' cs \<longrightarrow> holds_at (kern w') p a' cs)"
    if "length bs \<le> length buf" for buf
    using mem_reader.read_bytes_law [OF r h that] by (auto simp: on_kern_mem_def on_kern_Inr)
  show "\<exists>w'. mh_read_bytes_until_num_zeroes (on_kern_mem m) pid a n0 w = (Inr r, w') \<and>
      (\<forall>p a' cs. holds_at (kern w) p a' cs \<longrightarrow> holds_at (kern w') p a' cs)"
    if "scan_zeroes n0 bs (0, []) = Inl r" for n0 r
    using mem_reader.until_law [OF r h that] by (auto simp: on_kern_mem_def on_kern_Inr)
  show "unat a + length bs < 2 ^ 64" by (rule mem_reader.holds_bound [OF r h])
next
  show "mh_read_bytes_until_zero (on_kern_mem m) pid a = mh_read_bytes_until_num_zeroes (on_kern_mem m) pid a 1" for pid a
    using mem_reader.until_zero_law [OF r] by (simp add: on_kern_mem_def)
  show "holds_at (kern w) pid a xs \<and> holds_at (kern w) pid (a + of_nat (length xs)) ys"
    if "holds_at (kern w) pid a (xs @ ys)" for w :: "'k direct_world" and pid a xs ys
    by (rule mem_reader.holds_split [OF r that])
qed

definition readable ::
  "('k, 'regex) env \<Rightarrow> 'k view \<Rightarrow> ('k \<Rightarrow> fd \<Rightarrow> pid \<Rightarrow> bool) \<Rightarrow> mem_kind \<Rightarrow> 'k direct_world \<Rightarrow> pid \<Rightarrow> usize \<Rightarrow> u8 list \<Rightarrow> bool" where
  "readable e view is_mem kind w = (case kind of
     SlowMem \<Rightarrow> slow_holds (api e) view (kern w)
   | DirectMem \<Rightarrow> direct_holds (api e) view is_mem (thread e) (pid_of e) w)"

interpretation handler_reader: mem_reader "mem_helpers_of e kind" "readable e view is_mem kind"
  for e :: "('k, 'regex) env" and view is_mem kind
proof (cases kind)
  case SlowMem
  show "mem_reader (mem_helpers_of e kind) (readable e view is_mem kind)"
    using kern_reader [OF slow_reader.mem_reader_axioms [of "api e" view]]
    by (simp add: SlowMem mem_helpers_of_def readable_def [abs_def])
next
  case DirectMem
  show "mem_reader (mem_helpers_of e kind) (readable e view is_mem kind)"
    using direct_reader.mem_reader_axioms [of "api e" "thread e" view is_mem "pid_of e"]
    by (simp add: DirectMem mem_helpers_of_def readable_def [abs_def])
qed

lemma readable_mapped: "readable e view is_mem kind w pid a bs \<Longrightarrow> mapped_at view (kern w) pid a bs"
  by (cases kind) (auto simp: readable_def slow_holds_def direct_holds_def mapped_at_append)

lemma mapped_writable: "mapped_at view w pid a bs \<Longrightarrow> n \<le> length bs \<Longrightarrow> writable view w pid a n"
  by (auto simp: mapped_at_def writable_def)

section \<open>Entries\<close>

lemma dirent_sized: "sized_type dirent_layout"
proof -
  have "take_bit 16 n = n" if "n \<le> 536" for n :: usize
  proof -
    have "take_bit 16 n = n mod 65536" by (simp add: take_bit_eq_mod)
    moreover have "unat (n mod 65536) = unat n" using that by (simp add: unat_mod_distrib word_le_nat_alt)
    ultimately have "unat (take_bit 16 n) = unat n" by simp
    then show ?thesis by (simp only: word_unat_eq_iff)
  qed
  then show ?thesis
    by (simp add: sized_type_def type_ok_def dirent_layout_def check_item_type_def check_header_size_def usize_size_def
        MAX_STRUCT_SIZE_def get_set_field)
qed

text \<open>
  An entry as the kernel stores it: its header announces its length, a multiple of the word size, and the name and
  its padding leave no zero word before the last word.
\<close>

definition dirent_ok :: "u8 list \<Rightarrow> bool" where
  "dirent_ok c \<longleftrightarrow> item_ok dirent_layout c \<and> 8 dvd length c \<and> length c \<le> 512 \<and> 0 \<notin> set (butlast (drop 3 (chunk_words c)))"

lemma item_words_padded:
  assumes "dirent_ok c"
  shows "item_words dirent_layout (padded dirent_layout c) = drop 3 (chunk_words c) @ replicate (67 - length c div 8) 0"
proof -
  have len: "8 dvd length c" "length c \<le> 512" "24 \<le> length c"
    using assms by (simp_all add: dirent_ok_def item_ok_def dirent_layout_def)
  have "536 - length c = 8 * (67 - length c div 8)" using len(1,2) by auto
  then have "chunk_words (padded dirent_layout c) = chunk_words c @ replicate (67 - length c div 8) 0"
    using len(1) chunk_words_words_bytes [of "replicate (67 - length c div 8) 0"]
    by (simp add: padded_def dirent_layout_def chunk_words_append zero_words_bytes)
  then show ?thesis using len(3) by (simp add: item_words_def dirent_layout_def length_chunk_words)
qed

lemma dirent_shrinks:
  assumes "dirent_ok c"
  shows "shrinks dirent_layout 2 (padded dirent_layout c)" "zeroes_last dirent_layout 2 (padded dirent_layout c)"
    "length c < shrunk_size dirent_layout 2 (padded dirent_layout c)"
    "shrunk_size dirent_layout 2 (padded dirent_layout c) \<le> length c + 16"
proof -
  let ?p = "padded dirent_layout c" and ?ws = "drop 3 (chunk_words c)" and ?k = "67 - length c div 8"
  have len: "8 dvd length c" "length c \<le> 512" "24 \<le> length c" "0 \<notin> set (butlast ?ws)"
    using assms by (simp_all add: dirent_ok_def item_ok_def dirent_layout_def)
  note words = item_words_padded [OF assms]
  have k: "2 < ?k" using len(2) by linarith
  have lw: "length ?ws = length c div 8 - 3" "8 * (length c div 8) = length c"
    using len(1) by (simp_all add: length_chunk_words)
  obtain ws n where ws: "item_words dirent_layout ?p = ws @ replicate n 0" "0 \<notin> set ws" "?k \<le> n"
      "length ws = length ?ws \<or> Suc (length ws) = length ?ws"
  proof (cases "?ws = [] \<or> last ?ws \<noteq> 0")
    case True
    have "set ?ws = set (butlast ?ws) \<union> (if ?ws = [] then {} else {last ?ws})"
      by (cases ?ws rule: rev_cases) (simp_all del: drop_eq_Nil)
    then have "0 \<notin> set ?ws" using len(4) True by auto
    then show thesis using that [OF words] by simp
  next
    case False
    then have "?ws = butlast ?ws @ [0]" by (metis append_butlast_last_id)
    then have "item_words dirent_layout ?p = butlast ?ws @ replicate (Suc ?k) 0"
      unfolding words by (metis append.assoc append_Cons append_Nil replicate_Suc)
    moreover have "Suc (length (butlast ?ws)) = length ?ws" using False by (metis Suc_pred' length_butlast length_greater_0_conv)
    ultimately show thesis using that [of "butlast ?ws" "Suc ?k"] len(4) by simp
  qed
  have kept: "kept_words dirent_layout 2 ?p = ws @ [0, 0]" and last: "zeroes_last dirent_layout 2 ?p"
  proof -
    have "replicate (min n 2) (0 :: usize) = [0, 0]" using ws(3) k by (simp add: min_absorb2 numeral_2_eq_2)
    then show "kept_words dirent_layout 2 ?p = ws @ [0, 0]"
      by (simp add: kept_words_def ws(1) squeeze_nonzero [OF ws(2)] squeeze_zeroes)
    show "zeroes_last dirent_layout 2 ?p"
      unfolding zeroes_last_def using ws(1) squeeze_nonzero [OF ws(2), of _ "[]"] by auto
  qed
  have "length ?p = 536" using len(2) by (simp add: padded_def dirent_layout_def)
  then show "shrinks dirent_layout 2 ?p" "zeroes_last dirent_layout 2 ?p"
    unfolding shrinks_def kept using ws(1,3) k last by (simp_all add: dirent_layout_def)
  show "length c < shrunk_size dirent_layout 2 ?p" "shrunk_size dirent_layout 2 ?p \<le> length c + 16"
    unfolding shrunk_size_def kept using ws(4) lw len(3) by (auto simp: dirent_layout_def)
qed

text \<open>What becomes of an entry that is not renamed: only its length changes.\<close>

lemma dirent_written:
  assumes "dirent_ok c"
  shows "item_ok dirent_layout (shrunk dirent_layout 2 (padded dirent_layout c))"
    "length (shrunk dirent_layout 2 (padded dirent_layout c)) = shrunk_size dirent_layout 2 (padded dirent_layout c)"
    "padded dirent_layout (shrunk dirent_layout 2 (padded dirent_layout c)) =
      set_field 16 2 (of_nat (shrunk_size dirent_layout 2 (padded dirent_layout c))) (padded dirent_layout c)"
proof -
  note sh = dirent_shrinks(1) [OF assms]
  have "length (padded dirent_layout c) = unat (t_size dirent_layout)" using sh by (simp add: shrinks_def)
  note same = squeezed_resized [OF dirent_sized this dirent_shrinks(2) [OF assms]]
  show "item_ok dirent_layout (shrunk dirent_layout 2 (padded dirent_layout c))"
    "length (shrunk dirent_layout 2 (padded dirent_layout c)) = shrunk_size dirent_layout 2 (padded dirent_layout c)"
    using shrunk_item(1) [OF dirent_sized sh] new_header_props(3) [OF dirent_sized sh] .
  have "resized dirent_layout 2 p = set_field 16 2 (of_nat (shrunk_size dirent_layout 2 p)) p" if "24 \<le> length p" for p
  proof -
    have "take 6 (drop 18 p) @ drop 6 (drop 18 p) = drop 18 p" by (rule append_take_drop_id)
    with that show ?thesis by (simp add: resized_def new_header_def dirent_layout_def set_field_def drop_take)
  qed
  moreover have "24 \<le> length (padded dirent_layout c)" by (simp add: padded_def dirent_layout_def)
  ultimately show "padded dirent_layout (shrunk dirent_layout 2 (padded dirent_layout c)) =
      set_field 16 2 (of_nat (shrunk_size dirent_layout 2 (padded dirent_layout c))) (padded dirent_layout c)"
    using shrunk_item(2) [OF dirent_sized sh] same by simp
qed

text \<open>The buffer is large enough for all that is written.\<close>

lemma written_bound:
  assumes "\<forall>c \<in> set cs. dirent_ok c"
  shows "length (written dirent_layout 2 (map (padded dirent_layout) cs)) \<le> 2 * length (concat cs)"
  using assms
proof (induction cs)
  case (Cons c cs)
  then have c: "dirent_ok c" and "24 \<le> length c" by (simp_all add: dirent_ok_def item_ok_def dirent_layout_def)
  then have "length (shrunk dirent_layout 2 (padded dirent_layout c)) \<le> 2 * length c"
    using dirent_shrinks(4) [OF c] dirent_written(2) [OF c] by simp
  with Cons show ?case by (simp add: written_def)
qed (simp add: written_def)

text \<open>What the rules do with an entry, and the list of those that are shown.\<close>

definition entry_action :: "('k, 'regex) env \<Rightarrow> ('k, 'regex) host_api \<Rightarrow> nat \<Rightarrow> u8 list \<Rightarrow> path_action" where
  "entry_action e x name_at entry = get_mod_path e x (path_from_bytes (get_name name_at entry)) NoAction True"

lemma modify_entries_filter:
  assumes "\<forall>entry \<in> set dirents. \<forall>q. entry_action e x i entry \<noteq> Override q"
  shows "modify_entries e x i dirents h = (Inr (filter (\<lambda>entry. entry_action e x i entry \<noteq> HidePath) dirents), h)"
  using assms
proof (induction dirents)
  case (Cons entry dirents)
  then have "modify_entry e x i entry h = (Inr (if entry_action e x i entry = HidePath then None else Some entry), h)"
    by (cases "entry_action e x i entry") (simp_all add: modify_entry_def entry_action_def Let_def ret_apply)
  with Cons show ?case by (simp add: m_then_apply ret_apply)
qed (simp add: ret_apply)

section \<open>The result\<close>

lemma arg2_doubled: "unat (b :: usize) * 2 < 2 ^ 64 \<Longrightarrow> unat (b * 2) = 2 * unat b"
  by (simp add: unat_word_ariths)

text \<open>The entries are read from the buffer and those that are shown are written to it.\<close>

lemma read_entries:
  assumes "readable e view is_mem (MEM h) (globals h) (pid_of e) a (concat cs @ rest)" "\<forall>c \<in> set cs. dirent_ok c"
  obtains g where "on_globals (read_bytes_to_structs dirent_layout (length (concat cs)) (pid_of e) a (of_nat (length (concat cs)))
        (mem_helpers_of e (MEM h))) h = (Inr (map (padded dirent_layout) cs), h\<lparr>globals := g\<rparr>)"
    "mapped_at view (kern g) (pid_of e) a (concat cs @ rest)"
proof -
  have ok: "\<forall>c \<in> set cs. item_ok dirent_layout c" using assms(2) by (simp add: dirent_ok_def)
  have "length cs \<le> length (concat cs)"
    using ok
  proof (induction cs)
    case (Cons c cs)
    moreover from Cons.prems have "1 \<le> length c" by (simp add: item_ok_def Suc_le_eq del: length_greater_0_conv)
    ultimately show ?case by (simp del: length_greater_0_conv)
  qed simp
  moreover have "readable e view is_mem (MEM h) (globals h) (pid_of e) a (concat cs)"
    using handler_reader.holds_split [OF assms(1)] ..
  moreover have "type_ok dirent_layout" using dirent_sized by (simp add: sized_type_def)
  ultimately obtain g where g: "read_bytes_to_structs dirent_layout (length (concat cs)) (pid_of e) a (of_nat (length (concat cs)))
        (mem_helpers_of e (MEM h)) (globals h) = (Inr (map (padded dirent_layout) cs), g)"
      "readable e view is_mem (MEM h) g (pid_of e) a (concat cs @ rest)"
    using handler_reader.read_structs [where cs = cs and fuel = "length (concat cs)"] ok assms(1) by blast
  then show thesis using that [of g] readable_mapped [OF g(2)] by (simp add: on_globals_def on_err_def)
qed

lemma write_entries:
  assumes "poke_law (api e) view" "\<forall>c \<in> set cs. dirent_ok c" "mapped_at view (kern (globals h)) (pid_of e) a bs"
    and "2 * length (concat cs) \<le> length bs" "length bs = unat buf_size"
  obtains k where "in_kernel (write_structs_to_tracee (api e) dirent_layout (pid_of e) a buf_size (map (padded dirent_layout) cs) 2) h =
      (Inr (of_nat (length (written dirent_layout 2 (map (padded dirent_layout) cs)))), h\<lparr>globals := (globals h)\<lparr>kern := k\<rparr>\<rparr>)"
    "mapped_at view k (pid_of e) a (written dirent_layout 2 (map (padded dirent_layout) cs))"
proof -
  let ?ps = "map (padded dirent_layout) cs"
  have fits: "length (written dirent_layout 2 ?ps) \<le> length bs" using written_bound [OF assms(2)] assms(4) by simp
  have bound: "unat a + length bs < 2 ^ 64" by (rule mapped_at_bound [OF assms(3)])
  have "\<forall>p \<in> set ?ps. shrinks dirent_layout 2 p" using dirent_shrinks(1) assms(2) by simp
  moreover have "writable view (kern (globals h)) (pid_of e) a (length (written dirent_layout 2 ?ps))"
    by (rule mapped_writable [OF assms(3) fits])
  ultimately obtain k where k: "write_structs_to_tracee (api e) dirent_layout (pid_of e) a buf_size ?ps 2 (kern (globals h)) =
        (Inr (of_nat (length (written dirent_layout 2 ?ps))), k)"
      "view k = (view (kern (globals h)))(pid_of e := overlay a (written dirent_layout 2 ?ps) (view (kern (globals h)) (pid_of e)))"
    using write_structs_stores [OF assms(1) dirent_sized, of ?ps 2] fits bound assms(5) by fastforce
  have "mapped_at view k (pid_of e) a (written dirent_layout 2 ?ps)"
    using fits bound by (intro overlay_same [OF k(2)]) simp
  moreover have "in_kernel (write_structs_to_tracee (api e) dirent_layout (pid_of e) a buf_size ?ps 2) h =
      (Inr (of_nat (length (written dirent_layout 2 ?ps))), h\<lparr>globals := (globals h)\<lparr>kern := k\<rparr>\<rparr>)"
    by (rule in_kernel_Inr) (rule k(1))
  ultimately show thesis using that by blast
qed

text \<open>
  C17.  A directory is listed as the kernel lists it, without the hidden entries.  When the kernel has stored entries in its half
  of the buffer and no rule renames one, \<open>replace_getdents_result\<close> returns; the tracee finds exactly the entries that are
  not hidden, in the same order, each with all its fields and its name unchanged except for a larger record length, and the
  returned number of bytes is where they end.  The doubled buffer is always large enough for them, and the argument with
  its size is doubled again.
\<close>

theorem getdents_entries:
  assumes laws: "setregs_law (api e) V" "quiet_laws e x V" "poke_law (api e) view" "apart_law (api e) V view"
    and stopped: "phase_of e V h \<noteq> UserCode" and T: "T = Dirent \<or> T = Dirent64"
    and buffer: "readable e view is_mem (MEM h) (globals h) (pid_of e) (arg1 regs) (concat cs @ rest)"
      "length (concat cs @ rest) = 2 * unat (arg2 regs)"
    and result: "length (concat cs) \<le> unat (arg2 regs)" "syscall_retval regs = of_nat (length (concat cs))"
    and entries: "\<forall>c \<in> set cs. dirent_ok c" "\<forall>c \<in> set cs. \<forall>q. entry_action e x (snd T) (padded (fst T) c) \<noteq> Override q"
  shows "\<exists>h' out. replace_getdents_result e x T regs h = (Inr (), h') \<and>
    list_all2 (\<lambda>c c'. item_ok (fst T) c' \<and> length c < length c' \<and>
        padded (fst T) c' = set_field 16 2 (of_nat (length c')) (padded (fst T) c))
      (filter (\<lambda>c. entry_action e x (snd T) (padded (fst T) c) \<noteq> HidePath) cs) out \<and>
    mapped_at view (kern (globals h')) (pid_of e) (arg1 regs) (concat out) \<and>
    regs_of e V h' = set_syscall_retval (of_nat (length (concat out))) (regs\<lparr>arg2 := 2 * arg2 regs\<rparr>)"
proof -
  have fst: "fst T = dirent_layout" using T by (auto simp: Dirent_def Dirent64_def)
  let ?shown = "filter (\<lambda>c. entry_action e x (snd T) (padded dirent_layout c) \<noteq> HidePath) cs"
  define out where "out = map (\<lambda>c. shrunk dirent_layout 2 (padded dirent_layout c)) ?shown"
  have written: "written dirent_layout 2 (map (padded dirent_layout) ?shown) = concat out"
    by (simp add: written_def out_def comp_def)
  have shown: "\<forall>c \<in> set ?shown. dirent_ok c" using entries(1) by simp
  have bound: "unat (arg1 regs) + length (concat cs @ rest) < 2 ^ 64" by (rule handler_reader.holds_bound [OF buffer(1)])
  then have size: "unat (arg2 regs * 2) = length (concat cs @ rest)" and ret: "unat (syscall_retval regs) = length (concat cs)"
    using buffer(2) result by (simp_all add: arg2_doubled unat_of_nat_64)
  obtain g where g: "on_globals (read_bytes_to_structs dirent_layout (length (concat cs)) (pid_of e) (arg1 regs)
        (of_nat (length (concat cs))) (mem_helpers_of e (MEM h))) h = (Inr (map (padded dirent_layout) cs), h\<lparr>globals := g\<rparr>)"
      "mapped_at view (kern (globals (h\<lparr>globals := g\<rparr>))) (pid_of e) (arg1 regs) (concat cs @ rest)"
    using read_entries [OF buffer(1) entries(1)] by auto
  have mod: "modify_entries e x (snd T) (map (padded dirent_layout) cs) (h\<lparr>globals := g\<rparr>) =
      (Inr (map (padded dirent_layout) ?shown), h\<lparr>globals := g\<rparr>)"
    using modify_entries_filter [of "map (padded dirent_layout) cs" e x "snd T"] entries(2) fst by (simp add: filter_map comp_def)
  have "length (concat ?shown) \<le> length (concat cs)" by (induction cs) simp_all
  then have "2 * length (concat ?shown) \<le> length (concat cs @ rest)" using buffer(2) result(1) by simp
  then obtain k where k: "in_kernel (write_structs_to_tracee (api e) dirent_layout (pid_of e) (arg1 regs) (arg2 regs * 2)
          (map (padded dirent_layout) ?shown) 2) (h\<lparr>globals := g\<rparr>) =
        (Inr (of_nat (length (concat out))), h\<lparr>globals := g\<lparr>kern := k\<rparr>\<rparr>)" "mapped_at view k (pid_of e) (arg1 regs) (concat out)"
    using write_entries [OF laws(3) shown g(2) _ size [symmetric], unfolded written] by auto
  let ?h2 = "h\<lparr>globals := g\<lparr>kern := k\<rparr>\<rparr>"
  note q = quiet_moves(1) [OF laws(2)]
  have "stop_view (moves V (pid_of e)) ?h2 = stop_view (moves V (pid_of e)) h"
    using holdsD [OF holds_on_globals [OF holds_read_structs(1) [OF mem_helpers_of_holds [OF q]]] g(1)]
      holdsD [OF holds_in_kernel [OF holds_write_structs(1) [OF q]] k(1)] by simp
  then have "phase_of e V ?h2 \<noteq> UserCode" using stopped by (simp add: stop_view_def moves_def)
  then obtain h' where h': "in_kernel (setregs (api e) (pid_of e) (set_syscall_retval (of_nat (length (concat out))) (regs\<lparr>arg2 := arg2 regs * 2\<rparr>))) ?h2 = (Inr (), h')"
      "with_regs e V (set_syscall_retval (of_nat (length (concat out))) (regs\<lparr>arg2 := arg2 regs * 2\<rparr>)) ?h2 h'"
      "view (kern (globals h')) = view (kern (globals ?h2))"
    by (rule setregs_mapped [OF laws(1,4)])
  have "replace_getdents_result e x T regs h = (Inr (), h')"
    using g(1) mod k(1) h'(1) ret
    by (simp add: replace_getdents_result_def get_mem_helper_def m_then_apply gets_modify_apply Let_def fst result(2))
  moreover have "list_all2 (\<lambda>c c'. item_ok dirent_layout c' \<and> length c < length c' \<and>
      padded dirent_layout c' = set_field 16 2 (of_nat (length c')) (padded dirent_layout c)) ?shown out"
    using shown dirent_shrinks(3) dirent_written by (simp add: out_def list_all2_map2 list_all2_same)
  moreover have "mapped_at view (kern (globals h')) (pid_of e) (arg1 regs) (concat out)"
    using k(2) h'(3) by (simp add: mapped_at_def)
  ultimately show ?thesis using h'(2) unfolding fst by (auto simp: with_regs_def mult.commute)
qed

text \<open>A directory with the entries \<open>s\<close> and \<open>.\<close>, and a rule that hides the first.\<close>

definition example_entry :: "usize \<Rightarrow> u8 list" where
  "example_entry name = words_bytes [7, 1, 24 + 4 * 65536 + name * 16777216]"

definition dir_host :: "(sim_kernel, unit) host_api" where
  "dir_host = sim_host\<lparr>regex_is_match := (\<lambda>_ bs. bs = [115])\<rparr>"

definition dir_env :: "(sim_kernel, unit) env" where
  "dir_env = wait_env\<lparr>handler_of := (handler_of wait_env)\<lparr>h_consts := (h_consts (handler_of wait_env))\<lparr>consts_config :=
     (default_sysaug_config 0 0)\<lparr>cfg_rootfs := (default_rootfs_config 0 0)\<lparr>rename_guest_paths :=
       [\<lparr>rename_regex = (), replacement = None, should_replace_all = False\<rparr>]\<rparr>\<rparr>\<rparr>\<rparr>\<rparr>"

definition dir_handler :: "sim_kernel handler" where
  "dir_handler =
     (let h = sim_handler zero_regs ExitStop False True
      in h\<lparr>globals := (globals h)\<lparr>kern := (kern (globals h))\<lparr>sim_mem := (sim_mem (kern (globals h)))(1 :=
           overlay 4096 (concat (map example_entry [115, 46]) @ replicate 48 0 @ replicate 8 0) (sim_mem (kern (globals h)) 1))\<rparr>\<rparr>\<rparr>)"

lemma example_entries: "dirent_ok (example_entry 115)" "dirent_ok (example_entry 46)"
  by code_simp+

lemma example_actions:
  "entry_action dir_env dir_host 19 (padded dirent_layout (example_entry 115)) = HidePath"
  "entry_action dir_env dir_host 19 (padded dirent_layout (example_entry 46)) = NoAction"
proof -
  have names: "path_from_bytes (get_name 19 (padded dirent_layout (example_entry 115))) = [115]"
    "path_from_bytes (get_name 19 (padded dirent_layout (example_entry 46))) = [46]"
    by code_simp+
  show "entry_action dir_env dir_host 19 (padded dirent_layout (example_entry 115)) = HidePath"
    "entry_action dir_env dir_host 19 (padded dirent_layout (example_entry 46)) = NoAction"
    by (simp_all add: entry_action_def names get_mod_path_def dir_env_def dir_host_def)
qed

lemma dir_quiet: "quiet_laws dir_env dir_host sim_view"
  using sim_quiet [of "env_libc wait_env" default_sysaug_args]
  by (simp add: quiet_laws_def host_holds_def dir_env_def dir_host_def sim_env_def)

theorem getdents_entries_witness:
  "\<exists>h' c. replace_getdents_result dir_env dir_host Dirent64 (zero_regs\<lparr>arg1 := 4096, arg2 := 48, rax := 48\<rparr>) dir_handler = (Inr (), h') \<and>
     mapped_at sim_mem (kern (globals h')) 1 4096 c \<and>
     padded dirent_layout c = set_field 16 2 (of_nat (length c)) (padded dirent_layout (example_entry 46)) \<and>
     arg2 (sim_regs (kern (globals h')) 1) = 96"
proof -
  let ?cs = "map example_entry [115, 46]" and ?r = "zero_regs\<lparr>arg1 := 4096, arg2 := 48, rax := 48\<rparr>"
  have api: "api dir_env = sim_api" "pid_of dir_env = 1" by (simp_all add: dir_env_def sim_env_def)
  have len: "length (concat ?cs) = 48" by (simp add: example_entry_def)
  have "mapped_at sim_mem (kern (globals dir_handler)) 1 4096 (concat ?cs @ replicate 48 0 @ replicate 8 0)"
  proof (rule overlay_same [where w = "kern (globals (sim_handler zero_regs ExitStop False True))"])
    show "sim_mem (kern (globals dir_handler)) = (sim_mem (kern (globals (sim_handler zero_regs ExitStop False True))))(1 :=
        overlay 4096 (concat ?cs @ replicate 48 0 @ replicate 8 0) (sim_mem (kern (globals (sim_handler zero_regs ExitStop False True))) 1))"
      by (simp add: dir_handler_def Let_def)
  qed (simp add: len del: map_eq_conv list.map concat.simps)
  then have readable: "readable dir_env sim_mem (\<lambda>_ _ _. False) (MEM dir_handler) (globals dir_handler) (pid_of dir_env) (arg1 ?r)
      (concat ?cs @ replicate 48 0)"
    using sim_memory_laws(1) unfolding readable_def slow_holds_def
    by (auto simp: api dir_handler_def Let_def sim_handler_def intro!: exI [of _ "replicate 8 0"])
  have laws: "setregs_law (api dir_env) sim_view" "poke_law (api dir_env) sim_mem" "apart_law (api dir_env) sim_view sim_mem"
    using sim_laws [of "env_libc wait_env" default_sysaug_args False] sim_memory_laws(2) sim_apart_law
    by (simp_all add: api kernel_laws_def sim_env_def)
  have T: "fst Dirent64 = dirent_layout" "snd Dirent64 = 19" by (simp_all add: Dirent64_def)
  have stopped: "phase_of dir_env sim_view dir_handler \<noteq> UserCode"
    by (simp add: api dir_handler_def Let_def sim_handler_def sim_view_def initial_globals_def)
  have result: "length (concat ?cs @ replicate 48 (0 :: u8)) = 2 * unat (arg2 ?r)" "length (concat ?cs) \<le> unat (arg2 ?r)"
    "syscall_retval ?r = of_nat (length (concat ?cs))"
    unfolding length_append len by (simp_all add: syscall_retval_def)
  have entries: "\<forall>c \<in> set ?cs. dirent_ok c"
    "\<forall>c \<in> set ?cs. \<forall>q. entry_action dir_env dir_host (snd Dirent64) (padded (fst Dirent64) c) \<noteq> Override q"
    unfolding T using example_entries example_actions by simp_all
  from getdents_entries [OF laws(1) dir_quiet laws(2,3) stopped disjI2 [OF refl] readable result entries]
  show ?thesis by (auto simp: T example_actions api list_all2_Cons1 sim_view_def set_syscall_retval_def)
qed

end
