(* ===== verification/Futures.thy ===== *)
theory Futures
  imports Krsm Effects
begin

text \<open>
  Rust futures over the runtime of \<open>krsm\<close>.  A future is what polling it and dropping it does to the
  runtime; polling also reads a context (the state outside the runtime that the polled code reads,
  such as \<open>JsonParser::offset\<close>) and may panic (\<open>None\<close>).  A ready poll leaves the finished future
  behind, which is dropped later.  \<open>and_then\<close> is \<open>.await\<close> followed by the rest of an \<open>async\<close> block,
  \<open>try_then\<close> is \<open>.await?\<close>.  \<open>futures_lite::future::or\<close> is library code: \<open>or_law\<close> states what its
  documentation promises, and the models of its clients take it as an argument.
\<close>

section \<open>Futures\<close>

codatatype ('c, 'r, 's, 'a) fut = Fut
  (poll_fut: "'c \<Rightarrow> ('r, 's) async_runtime \<Rightarrow>
     ('a option \<times> ('c, 'r, 's, 'a) fut \<times> ('r, 's) async_runtime) option")
  (drop_fut: "('r, 's) async_runtime \<Rightarrow> ('r, 's) async_runtime option")

text \<open>A finished \<open>async\<close> block: polling it again panics, there is nothing left to drop.\<close>

definition finished :: "('c, 'r, 's, 'a) fut" where
  "finished = Fut (\<lambda>c rt. None) Some"

text \<open>An \<open>async\<close> block that returns without waiting.\<close>

definition ready :: "'a \<Rightarrow> ('c, 'r, 's, 'a) fut" where
  "ready a = Fut (\<lambda>c rt. Some (Some a, finished, rt)) Some"

text \<open>An \<open>async\<close> block whose first action reads the context; nothing runs before the first poll.\<close>

definition with_context :: "('c \<Rightarrow> ('c, 'r, 's, 'a) fut) \<Rightarrow> ('c, 'r, 's, 'a) fut" where
  "with_context f = Fut (\<lambda>c rt. poll_fut (f c) c rt) Some"

text \<open>
  One poll of \<open>f.await\<close> followed by \<open>k\<close>: while \<open>f\<close> is pending the block is suspended in it (\<open>Inr\<close>);
  once it is ready, what is left of it is dropped and the rest of the block runs (\<open>Inl\<close>).
\<close>

definition await_step ::
  "('c, 'r, 's, 'a) fut \<Rightarrow> ('a \<Rightarrow> ('c, 'r, 's, 'b) fut) \<Rightarrow> 'c \<Rightarrow> ('r, 's) async_runtime \<Rightarrow>
     ('b option \<times> (('c, 'r, 's, 'b) fut + ('c, 'r, 's, 'a) fut) \<times> ('r, 's) async_runtime) option" where
  "await_step f k c rt = do {
     (res, f', rt1) \<leftarrow> poll_fut f c rt;
     (case res of
        None \<Rightarrow> Some (None, Inr f', rt1)
      | Some a \<Rightarrow> do {
          rt2 \<leftarrow> drop_fut f' rt1;
          (res', g, rt3) \<leftarrow> poll_fut (k a) c rt2;
          Some (res', Inl g, rt3)
        })
   }"

primcorec and_then ::
  "('c, 'r, 's, 'a) fut \<Rightarrow> ('a \<Rightarrow> ('c, 'r, 's, 'b) fut) \<Rightarrow> ('c, 'r, 's, 'b) fut" where
  "poll_fut (and_then f k) = (\<lambda>c rt. map_option
     (map_prod id (map_prod (\<lambda>x. case x of Inl g \<Rightarrow> g | Inr f' \<Rightarrow> and_then f' k) id)) (await_step f k c rt))"
| "drop_fut (and_then f k) = drop_fut f"

definition try_then ::
  "('c, 'r, 's, 'e + 'a) fut \<Rightarrow> ('a \<Rightarrow> ('c, 'r, 's, 'e + 'b) fut) \<Rightarrow> ('c, 'r, 's, 'e + 'b) fut" where
  "try_then f k = and_then f (\<lambda>res. case res of Inl e \<Rightarrow> ready (Inl e) | Inr a \<Rightarrow> k a)"

text \<open>The future that \<open>new_pending_future\<close> returns, in each of its states.\<close>

primcorec pending_fut ::
  "'r::linorder pending_future \<Rightarrow> ('c, 'r, 's, async_runtime_error fault + 's) fut" where
  "poll_fut (pending_fut p) = (\<lambda>c rt. map_option
     (map_prod (map_option (map_err Err)) (map_prod pending_fut id)) (new_pending_future_poll p rt))"
| "drop_fut (pending_fut p) = new_pending_future_drop p"

definition new_pending_future :: "'r::linorder \<Rightarrow> ('c, 'r, 's, async_runtime_error fault + 's) fut" where
  "new_pending_future t = pending_fut (Unpolled t)"

section \<open>Polling\<close>

named_theorems poll_simps \<open>one poll and the drop of each kind of future\<close>

declare and_then.sel [simp del] pending_fut.sel [simp del]

lemma poll_finished [poll_simps]: "poll_fut finished c rt = None" "drop_fut finished rt = Some rt"
  by (simp_all add: finished_def)

lemma poll_ready [poll_simps]: "poll_fut (ready a) c rt = Some (Some a, finished, rt)"
  "drop_fut (ready a) rt = Some rt"
  by (simp_all add: ready_def)

lemma poll_with_context [poll_simps]: "poll_fut (with_context f) c rt = poll_fut (f c) c rt"
  "drop_fut (with_context f) rt = Some rt"
  by (simp_all add: with_context_def)

lemma poll_and_then [poll_simps]:
  "poll_fut (and_then f k) c rt =
     (case poll_fut f c rt of
        None \<Rightarrow> None
      | Some (None, f', rt1) \<Rightarrow> Some (None, and_then f' k, rt1)
      | Some (Some a, f', rt1) \<Rightarrow>
          (case drop_fut f' rt1 of None \<Rightarrow> None | Some rt2 \<Rightarrow> poll_fut (k a) c rt2))"
  "drop_fut (and_then f k) rt = drop_fut f rt"
  by (simp_all add: and_then.sel await_step_def split: option.splits prod.splits bind_splits)

lemma poll_try_then [poll_simps]:
  "poll_fut (try_then f k) c rt =
     (case poll_fut f c rt of
        None \<Rightarrow> None
      | Some (None, f', rt1) \<Rightarrow> Some (None, try_then f' k, rt1)
      | Some (Some (Inl e), f', rt1) \<Rightarrow>
          (case drop_fut f' rt1 of None \<Rightarrow> None | Some rt2 \<Rightarrow> Some (Some (Inl e), finished, rt2))
      | Some (Some (Inr a), f', rt1) \<Rightarrow>
          (case drop_fut f' rt1 of None \<Rightarrow> None | Some rt2 \<Rightarrow> poll_fut (k a) c rt2))"
  "drop_fut (try_then f k) rt = drop_fut f rt"
  by (simp_all add: try_then_def poll_simps split: option.splits prod.splits sum.splits)

section \<open>The choice between two futures\<close>

text \<open>
  \<open>or\<close> gives the value of the future that completes first and prefers the first one: it polls the
  futures in order, and drops what is left of both in order.
\<close>

definition or_law ::
  "(('c, 'r, 's, 'a) fut \<Rightarrow> ('c, 'r, 's, 'a) fut \<Rightarrow> ('c, 'r, 's, 'a) fut) \<Rightarrow> bool" where
  "or_law or_fut \<longleftrightarrow>
     (\<forall>f g c rt. poll_fut (or_fut f g) c rt =
        (case poll_fut f c rt of
           None \<Rightarrow> None
         | Some (Some a, f', rt1) \<Rightarrow> Some (Some a, or_fut f' g, rt1)
         | Some (None, f', rt1) \<Rightarrow>
             (case poll_fut g c rt1 of
                None \<Rightarrow> None
              | Some (res, g', rt2) \<Rightarrow> Some (res, or_fut f' g', rt2)))) \<and>
     (\<forall>f g rt. drop_fut (or_fut f g) rt = do { rt1 \<leftarrow> drop_fut f rt; drop_fut g rt1 })"

definition or_step ::
  "('c, 'r, 's, 'a) fut \<Rightarrow> ('c, 'r, 's, 'a) fut \<Rightarrow> 'c \<Rightarrow> ('r, 's) async_runtime \<Rightarrow>
     ('a option \<times> (('c, 'r, 's, 'a) fut \<times> ('c, 'r, 's, 'a) fut) \<times> ('r, 's) async_runtime) option" where
  "or_step f g c rt = do {
     (res, f', rt1) \<leftarrow> poll_fut f c rt;
     (case res of
        Some a \<Rightarrow> Some (Some a, (f', g), rt1)
      | None \<Rightarrow> do {
          (res', g', rt2) \<leftarrow> poll_fut g c rt1;
          Some (res', (f', g'), rt2)
        })
   }"

primcorec or_future :: "('c, 'r, 's, 'a) fut \<Rightarrow> ('c, 'r, 's, 'a) fut \<Rightarrow> ('c, 'r, 's, 'a) fut" where
  "poll_fut (or_future f g) = (\<lambda>c rt. map_option
     (map_prod id (map_prod (\<lambda>x. or_future (fst x) (snd x)) id)) (or_step f g c rt))"
| "drop_fut (or_future f g) = (\<lambda>rt. do { rt1 \<leftarrow> drop_fut f rt; drop_fut g rt1 })"

declare or_future.sel [simp del]

lemma or_law_or_future: "or_law or_future"
  by (simp add: or_law_def or_future.sel or_step_def split: option.splits prod.splits bind_splits)

lemma or_lawD:
  assumes "or_law or_fut"
  shows "poll_fut (or_fut f g) c rt =
      (case poll_fut f c rt of
         None \<Rightarrow> None
       | Some (Some a, f', rt1) \<Rightarrow> Some (Some a, or_fut f' g, rt1)
       | Some (None, f', rt1) \<Rightarrow>
           (case poll_fut g c rt1 of
              None \<Rightarrow> None
            | Some (res, g', rt2) \<Rightarrow> Some (res, or_fut f' g', rt2)))"
    and "drop_fut (or_fut f g) rt = (case drop_fut f rt of None \<Rightarrow> None | Some rt1 \<Rightarrow> drop_fut g rt1)"
  using assms by (simp_all add: or_law_def split: option.splits)

section \<open>The pending table as a list of reasons\<close>

text \<open>What registering and dropping a future does to the entries of a table with room left.\<close>

fun add_reason :: "'r::linorder \<Rightarrow> ('r \<times> nat) list \<Rightarrow> ('r \<times> nat) list" where
  "add_reason t [] = [(t, 1)]"
| "add_reason t (e # ps) =
     (if t = fst e then (t, snd e + 1) # ps
      else if fst e < t then (t, 1) # e # ps
      else e # add_reason t ps)"

fun del_reason :: "'r::linorder \<Rightarrow> ('r \<times> nat) list \<Rightarrow> ('r \<times> nat) list" where
  "del_reason t [] = []"
| "del_reason t (e # ps) =
     (if t = fst e then (if snd e > 1 then (t, snd e - 1) # ps else ps) else e # del_reason t ps)"

lemma add_reason_above: "\<forall>e \<in> set hi. t < fst e \<Longrightarrow> add_reason t (hi @ ps) = hi @ add_reason t ps"
  by (induction hi) auto

lemma del_reason_above: "\<forall>e \<in> set hi. t < fst e \<Longrightarrow> del_reason t (hi @ ps) = hi @ del_reason t ps"
  by (induction hi) auto

lemma add_reason_below: "\<forall>e \<in> set lo. fst e < t \<Longrightarrow> add_reason t lo = (t, 1) # lo"
  by (cases lo) auto

lemma del_reason_below: "\<forall>e \<in> set lo. fst e < t \<Longrightarrow> del_reason t lo = lo"
  by (induction lo) auto

lemma descending_add_reason:
  assumes "descending ps"
  shows "descending (add_reason t ps)"
  by (rule descending_split [OF assms, where t = t])
    (use assms in \<open>auto simp: add_reason_above add_reason_below descending_def sorted_wrt_append\<close>)

lemma descending_del_reason:
  assumes "descending ps"
  shows "descending (del_reason t ps)"
  by (rule descending_split [OF assms, where t = t])
    (use assms in \<open>auto simp: del_reason_above del_reason_below descending_def sorted_wrt_append\<close>)

lemma length_add_reason: "length (add_reason t ps) \<le> length ps + 1"
  by (induction ps) auto

lemma length_del_reason: "length (del_reason t ps) \<le> length ps"
  by (induction ps) auto

text \<open>A runtime of \<open>n\<close> slots with given entries, at least two of its slots free.\<close>

definition runtime_with ::
  "nat \<Rightarrow> ('r \<times> 's) option \<Rightarrow> bool \<Rightarrow> ('r \<times> nat) list \<Rightarrow> ('r, 's) async_runtime" where
  "runtime_with n u b ps =
     \<lparr>has_unblock = u, has_new_future = b, pending_futures = table ps (n - length ps)\<rparr>"

definition roomy :: "nat \<Rightarrow> ('r::linorder \<times> nat) list \<Rightarrow> bool" where
  "roomy n ps \<longleftrightarrow> descending ps \<and> length ps + 2 \<le> n"

lemma add_pending_future_list:
  assumes "roomy n ps"
  shows "add_pending_future t (table ps (n - length ps)) =
    Some (Inr (table (add_reason t ps) (n - length (add_reason t ps))))"
proof -
  from assms have d: "descending ps" by (simp add: roomy_def)
  show ?thesis
  proof (cases rule: descending_split [OF d, where t = t])
    case (1 hi c lo)
    then show ?thesis by (simp add: add_reason_above add_present)
  next
    case (2 hi lo)
    then obtain m where "n - length ps = Suc m" "n - (length ps + 1) = m"
      using assms by (cases "n - length ps") (auto simp: roomy_def)
    then show ?thesis using 2 by (simp add: add_reason_above add_reason_below add_absent)
  qed
qed

lemma remove_pending_future_list:
  assumes "roomy n ps"
  shows "remove_pending_future t (table ps (n - length ps)) =
    Some (table (del_reason t ps) (n - length (del_reason t ps)))"
proof -
  from assms have d: "descending ps" by (simp add: roomy_def)
  show ?thesis
  proof (cases rule: descending_split [OF d, where t = t])
    case (1 hi c lo)
    obtain m where m: "n - length ps = Suc (Suc m)"
      using assms by (intro that [of "n - length ps - 2"]) (auto simp: roomy_def)
    show ?thesis
    proof (cases "c = 1")
      case True
      then have "n - (length hi + length lo) = Suc (Suc (Suc m))" using m 1 by simp
      then show ?thesis
        using 1 m True remove_last [of hi t lo m] by (simp add: del_reason_above)
    next
      case False
      then show ?thesis using 1 remove_many [of hi t lo c] by (simp add: del_reason_above)
    qed
  next
    case (2 hi lo)
    then show ?thesis by (simp add: del_reason_above del_reason_below remove_absent)
  qed
qed

lemma poll_pending_unpolled:
  assumes "roomy n ps" "roomy n (add_reason t ps)"
  shows "poll_fut (pending_fut (Unpolled t)) c (runtime_with n u b ps) =
    (case u of
       Some (q, s) \<Rightarrow>
         if q = t then Some (Some (Inr s), pending_fut Finished,
           runtime_with n None True (del_reason t (add_reason t ps)))
         else Some (None, pending_fut (Waiting t), runtime_with n u True (add_reason t ps))
     | None \<Rightarrow> Some (None, pending_fut (Waiting t), runtime_with n u True (add_reason t ps)))"
  using assms by (auto simp: pending_fut.sel runtime_with_def add_pending_future_list poll_waiting_def
      guard_poll_def guard_drop_def remove_pending_future_list split: option.splits)

lemma poll_pending_waiting:
  assumes "roomy n ps"
  shows "poll_fut (pending_fut (Waiting t)) c (runtime_with n u b ps) =
    (case u of
       Some (q, s) \<Rightarrow>
         if q = t then Some (Some (Inr s), pending_fut Finished, runtime_with n None b (del_reason t ps))
         else Some (None, pending_fut (Waiting t), runtime_with n u b ps)
     | None \<Rightarrow> Some (None, pending_fut (Waiting t), runtime_with n u b ps))"
  using assms by (auto simp: pending_fut.sel runtime_with_def poll_waiting_def
      guard_poll_def guard_drop_def remove_pending_future_list split: option.splits)

lemma drop_pending_waiting:
  "roomy n ps \<Longrightarrow> drop_fut (pending_fut (Waiting t)) (runtime_with n u b ps) =
     Some (runtime_with n u b (del_reason t ps))"
  by (simp add: pending_fut.sel runtime_with_def guard_drop_def remove_pending_future_list)

lemma drop_pending_done [simp]:
  "drop_fut (pending_fut Finished) rt = Some rt" "drop_fut (pending_fut (Unpolled t)) rt = Some rt"
  by (simp_all add: pending_fut.sel)

lemma check_runtime_with:
  "check_pending_reasons func (runtime_with n u b ps) =
     map_option fst (find (\<lambda>e. func (Some (fst e))) ps)"
  by (rule check_pending_table [where k = "n - length ps"]) (simp add: runtime_with_def)

lemma filter_runtime_with:
  assumes "length ps \<le> n"
  shows "filter_valid_futures func (runtime_with n u b ps) =
    runtime_with n u b (filter (\<lambda>e. func (Some (fst e))) ps)"
proof -
  let ?rt = "runtime_with n u b ps"
  have "pending_futures (filter_valid_futures func ?rt) =
      table (filter (\<lambda>e. func (Some (fst e))) ps) (length ps + (n - length ps) - length (filter (\<lambda>e. func (Some (fst e))) ps))"
    by (rule filter_valid_table) (simp add: runtime_with_def)
  then show ?thesis
    using assms by (intro async_runtime.equality)
      (auto simp: runtime_with_def filter_valid_futures_def Let_def split: prod.splits)
qed

lemma unblock_runtime_with:
  "roomy n ps \<Longrightarrow> unblock_futures t s (runtime_with n None b ps) =
     Some (Inr (), runtime_with n (Some (t, s)) b (del_reason t ps))"
  by (simp add: unblock_futures_def runtime_with_def remove_pending_future_list)

lemma async_runtime_new_with: "async_runtime_new n = runtime_with n None False []"
  by (simp add: async_runtime_new_def runtime_with_def table_def)

lemma run_step_runtime_with:
  "run_async_step poll fut (runtime_with n u b ps) =
     (case poll fut (runtime_with n u False ps) of
        None \<Rightarrow> None
      | Some (res, fut', rt) \<Rightarrow> Some (res, fut', rt\<lparr>has_unblock := None\<rparr>))"
  by (simp add: run_async_step_def runtime_with_def split: option.splits bind_splits)

lemma runtime_with_unblock [simp]:
  "(runtime_with n u b ps)\<lparr>has_unblock := v\<rparr> = runtime_with n v b ps"
  by (simp add: runtime_with_def)

end
