(* ===== verification/Json_Parser.thy ===== *)
theory Json_Parser
  imports Futures
begin

text \<open>
  The JSON parser of \<open>krsm/examples/json_parser.rs\<close>: \<open>async\<close> functions written like the rules of a
  grammar wait for pieces of the input as yield reasons of the \<open>krsm\<close> runtime, and \<open>run_parser\<close> feeds
  them the input.  The futures are those of theory \<open>Futures\<close>; their context is \<open>JsonParser::offset\<close>,
  which only \<open>run_parser\<close> sets.  Strings are their UTF-8 bytes and a Rust \<open>char\<close> is its code point.
  Offsets are natural numbers: they never exceed the length of the input by more than five.
  The grammar is recursive, so its functions count fuel (every nested call takes one unit), and so
  do the loops of \<open>run_parser\<close>; without fuel the result is \<open>OutOfFuel\<close>.  \<open>futures_lite::future::or\<close>
  is an argument, one function for each type the parser uses it at.
\<close>

section \<open>Yield reasons\<close>

datatype json_parser_yield_reason =
    LiteralArrayStart nat
  | LiteralArrayEnd nat
  | LiteralObjectStart nat
  | LiteralObjectEnd nat
  | LiteralStringStart nat
  | LiteralStringEnd nat
  | LiteralColon nat
  | LiteralComma nat
  | LiteralPeriod nat
  | LiteralTrue nat
  | LiteralFalse nat
  | LiteralNull nat
  | LiteralSlash nat
  | LiteralHexEscapeChar nat
  | RegexCharAnyExceptQuoteOrSlash nat
  | RegexEscapedCharAfterSlash nat
  | RegexCharExponent nat
  | RegexCharInHex nat
  | RegexCharInDigit nat
  | RegexCharNumberSign nat
  | RegexCharWhitespace nat
  | EmptyString

text \<open>The derived order: by the position of the variant, then by the index.\<close>

primrec reason_key :: "json_parser_yield_reason \<Rightarrow> nat \<times> nat" where
  "reason_key (LiteralArrayStart j) = (0, j)"
| "reason_key (LiteralArrayEnd j) = (1, j)"
| "reason_key (LiteralObjectStart j) = (2, j)"
| "reason_key (LiteralObjectEnd j) = (3, j)"
| "reason_key (LiteralStringStart j) = (4, j)"
| "reason_key (LiteralStringEnd j) = (5, j)"
| "reason_key (LiteralColon j) = (6, j)"
| "reason_key (LiteralComma j) = (7, j)"
| "reason_key (LiteralPeriod j) = (8, j)"
| "reason_key (LiteralTrue j) = (9, j)"
| "reason_key (LiteralFalse j) = (10, j)"
| "reason_key (LiteralNull j) = (11, j)"
| "reason_key (LiteralSlash j) = (12, j)"
| "reason_key (LiteralHexEscapeChar j) = (13, j)"
| "reason_key (RegexCharAnyExceptQuoteOrSlash j) = (14, j)"
| "reason_key (RegexEscapedCharAfterSlash j) = (15, j)"
| "reason_key (RegexCharExponent j) = (16, j)"
| "reason_key (RegexCharInHex j) = (17, j)"
| "reason_key (RegexCharInDigit j) = (18, j)"
| "reason_key (RegexCharNumberSign j) = (19, j)"
| "reason_key (RegexCharWhitespace j) = (20, j)"
| "reason_key EmptyString = (21, 0)"

lemma reason_key_inject: "reason_key r = reason_key q \<longleftrightarrow> r = q"
  by (cases r; cases q) simp_all

instantiation json_parser_yield_reason :: linorder
begin

definition less_eq_json_parser_yield_reason ::
  "json_parser_yield_reason \<Rightarrow> json_parser_yield_reason \<Rightarrow> bool" where
  "r \<le> q \<longleftrightarrow> fst (reason_key r) < fst (reason_key q) \<or>
     fst (reason_key r) = fst (reason_key q) \<and> snd (reason_key r) \<le> snd (reason_key q)"

definition less_json_parser_yield_reason ::
  "json_parser_yield_reason \<Rightarrow> json_parser_yield_reason \<Rightarrow> bool" where
  "r < q \<longleftrightarrow> fst (reason_key r) < fst (reason_key q) \<or>
     fst (reason_key r) = fst (reason_key q) \<and> snd (reason_key r) < snd (reason_key q)"

instance
proof
  fix r q s :: json_parser_yield_reason
  show "r = q" if "r \<le> q" "q \<le> r"
    using that reason_key_inject [of r q]
    by (auto simp: less_eq_json_parser_yield_reason_def intro: prod_eqI)
qed (auto simp: less_eq_json_parser_yield_reason_def less_json_parser_yield_reason_def)

end

section \<open>Values and futures\<close>

type_synonym json_parser_yield_response = string
type_synonym json_runtime = "(json_parser_yield_reason, json_parser_yield_response) async_runtime"
type_synonym rust_char = nat

datatype json =
    Object "string \<rightharpoonup> json"
  | Array "json list"
  | Number string
  | String string
  | Boolean bool
  | Null

type_synonym 'a jresult = "async_runtime_error fault + 'a"
type_synonym 'a jfut = "(nat, json_parser_yield_reason, json_parser_yield_response, 'a jresult) fut"

text \<open>\<open>futures_lite::future::or\<close> at the types of the parser.\<close>

record futures_lite =
  or_json :: "json jfut \<Rightarrow> json jfut \<Rightarrow> json jfut"
  or_members :: "(string \<rightharpoonup> json) jfut \<Rightarrow> (string \<rightharpoonup> json) jfut \<Rightarrow> (string \<rightharpoonup> json) jfut"
  or_elements :: "json list jfut \<Rightarrow> json list jfut \<Rightarrow> json list jfut"
  or_chars :: "rust_char list jfut \<Rightarrow> rust_char list jfut \<Rightarrow> rust_char list jfut"
  or_char :: "rust_char jfut \<Rightarrow> rust_char jfut \<Rightarrow> rust_char jfut"
  or_string :: "string jfut \<Rightarrow> string jfut \<Rightarrow> string jfut"
  or_unit :: "unit jfut \<Rightarrow> unit jfut \<Rightarrow> unit jfut"

definition or_laws :: "futures_lite \<Rightarrow> bool" where
  "or_laws lib \<longleftrightarrow> or_law (or_json lib) \<and> or_law (or_members lib) \<and> or_law (or_elements lib) \<and>
     or_law (or_chars lib) \<and> or_law (or_char lib) \<and> or_law (or_string lib) \<and> or_law (or_unit lib)"

text \<open>An instance that has the laws.\<close>

definition futures_lite_or :: futures_lite where
  "futures_lite_or = \<lparr>or_json = or_future, or_members = or_future, or_elements = or_future,
     or_chars = or_future, or_char = or_future, or_string = or_future, or_unit = or_future\<rparr>"

lemma or_laws_futures_lite_or: "or_laws futures_lite_or"
  by (simp add: or_laws_def futures_lite_or_def or_law_or_future)

definition no_fuel :: "'a jfut" where
  "no_fuel = ready (Inl OutOfFuel)"

section \<open>Characters\<close>

text \<open>The UTF-8 encoding of a \<open>char\<close>, and the first \<open>char\<close> of a string.\<close>

definition encode_utf8 :: "rust_char \<Rightarrow> string" where
  "encode_utf8 c =
     (if c < 128 then [char_of c]
      else if c < 2048 then [char_of (192 + c div 64), char_of (128 + c mod 64)]
      else if c < 65536 then
        [char_of (224 + c div 4096), char_of (128 + c div 64 mod 64), char_of (128 + c mod 64)]
      else [char_of (240 + c div 262144), char_of (128 + c div 4096 mod 64),
        char_of (128 + c div 64 mod 64), char_of (128 + c mod 64)])"

fun utf8_tail :: "nat \<Rightarrow> nat \<Rightarrow> string \<Rightarrow> rust_char" where
  "utf8_tail (Suc n) acc (b # bs) = utf8_tail n (acc * 64 + of_char b mod 64) bs"
| "utf8_tail _ acc _ = acc"

text \<open>\<open>str.chars().next().unwrap()\<close>\<close>

fun str_to_char :: "string \<Rightarrow> rust_char jresult" where
  "str_to_char [] = Inl Panic"
| "str_to_char (b # bs) = Inr
     (let c = of_char b
      in if c < 128 then c
         else if c < 224 then utf8_tail 1 (c mod 32) bs
         else if c < 240 then utf8_tail 2 (c mod 16) bs
         else utf8_tail 3 (c mod 8) bs)"

definition unescape :: "string \<Rightarrow> string" where
  "unescape s =
     (if s = ''b'' then [CHR 0x08]
      else if s = ''f'' then [CHR 0x0C]
      else if s = ''n'' then [CHR 0x0A]
      else if s = ''r'' then [CHR 0x0D]
      else if s = ''t'' then ''t''
      else s)"

text \<open>\<open>u32::from_str_radix\<close> with radix 16: an optional \<open>+\<close>, then digits that fit in 32 bits.\<close>

definition hex_digit :: "char \<Rightarrow> nat option" where
  "hex_digit ch = (let c = of_char ch :: nat
     in if 48 \<le> c \<and> c < 58 then Some (c - 48)
        else if 97 \<le> c \<and> c < 103 then Some (c - 87)
        else if 65 \<le> c \<and> c < 71 then Some (c - 55)
        else None)"

fun hex_digits :: "nat \<Rightarrow> string \<Rightarrow> nat option" where
  "hex_digits acc [] = Some acc"
| "hex_digits acc (ch # s) =
     (case hex_digit ch of
        None \<Rightarrow> None
      | Some d \<Rightarrow> if acc * 16 + d < 2 ^ 32 then hex_digits (acc * 16 + d) s else None)"

definition from_str_radix_16 :: "string \<Rightarrow> nat option" where
  "from_str_radix_16 s =
     (case s of
        [] \<Rightarrow> None
      | ch # s' \<Rightarrow> if ch = CHR ''+'' \<and> s' \<noteq> [] then hex_digits 0 s' else hex_digits 0 s)"

definition char_from_u32 :: "nat \<Rightarrow> rust_char option" where
  "char_from_u32 v = (if v < 0xD800 \<or> 0xE000 \<le> v \<and> v < 0x110000 then Some v else None)"

definition hex_escape :: "string \<Rightarrow> rust_char jresult" where
  "hex_escape hex_str =
     (case from_str_radix_16 hex_str of
        None \<Rightarrow> Inl Panic
      | Some hex_val \<Rightarrow> (case char_from_u32 hex_val of None \<Rightarrow> Inl Panic | Some c \<Rightarrow> Inr c))"

section \<open>The grammar\<close>

primrec parse_whitespaces :: "futures_lite \<Rightarrow> nat \<Rightarrow> unit jfut" where
  "parse_whitespaces lib 0 = no_fuel"
| "parse_whitespaces lib (Suc n) = with_context (\<lambda>curr_offset.
     or_unit lib
       (try_then (new_pending_future (RegexCharWhitespace curr_offset)) (\<lambda>_.
        try_then (parse_whitespaces lib n) (\<lambda>_. ready (Inr ()))))
       (try_then (new_pending_future EmptyString) (\<lambda>_. ready (Inr ()))))"

primrec parse_digits :: "futures_lite \<Rightarrow> nat \<Rightarrow> string jfut" where
  "parse_digits lib 0 = no_fuel"
| "parse_digits lib (Suc n) = with_context (\<lambda>curr_offset.
     try_then (new_pending_future (RegexCharInDigit curr_offset)) (\<lambda>digit.
     or_string lib
       (try_then (parse_digits lib n) (\<lambda>digits. ready (Inr (digit @ digits))))
       (try_then (new_pending_future EmptyString) (\<lambda>_. ready (Inr digit)))))"

definition parse_integer :: "futures_lite \<Rightarrow> nat \<Rightarrow> string jfut" where
  "parse_integer lib n = with_context (\<lambda>curr_offset.
     try_then (or_string lib (new_pending_future (RegexCharNumberSign curr_offset))
       (new_pending_future EmptyString)) (\<lambda>sign.
     try_then (parse_digits lib n) (\<lambda>digits. ready (Inr (sign @ digits)))))"

definition parse_fraction :: "futures_lite \<Rightarrow> nat \<Rightarrow> string jfut" where
  "parse_fraction lib n = with_context (\<lambda>curr_offset.
     or_string lib
       (try_then (new_pending_future (LiteralPeriod curr_offset)) (\<lambda>_.
        try_then (parse_digits lib n) (\<lambda>digits. ready (Inr (''.'' @ digits)))))
       (and_then (new_pending_future EmptyString) ready))"

definition parse_exponent :: "futures_lite \<Rightarrow> nat \<Rightarrow> string jfut" where
  "parse_exponent lib n = with_context (\<lambda>curr_offset.
     or_string lib
       (try_then (new_pending_future (RegexCharExponent curr_offset)) (\<lambda>exp.
        try_then (parse_digits lib n) (\<lambda>digits. ready (Inr (exp @ digits)))))
       (and_then (new_pending_future EmptyString) ready))"

definition parse_number :: "futures_lite \<Rightarrow> nat \<Rightarrow> json jfut" where
  "parse_number lib n =
     try_then (parse_integer lib n) (\<lambda>integer.
     try_then (parse_fraction lib n) (\<lambda>fraction.
     try_then (parse_exponent lib n) (\<lambda>exponent.
     ready (Inr (Number (integer @ fraction @ exponent))))))"

definition parse_boolean :: "futures_lite \<Rightarrow> json jfut" where
  "parse_boolean lib = with_context (\<lambda>curr_offset.
     or_json lib
       (try_then (new_pending_future (LiteralTrue curr_offset)) (\<lambda>_. ready (Inr (Boolean True))))
       (try_then (new_pending_future (LiteralFalse curr_offset)) (\<lambda>_. ready (Inr (Boolean False)))))"

definition parse_null :: "json jfut" where
  "parse_null = with_context (\<lambda>curr_offset.
     try_then (new_pending_future (LiteralNull curr_offset)) (\<lambda>_. ready (Inr Null)))"

definition parse_character :: "futures_lite \<Rightarrow> rust_char jfut" where
  "parse_character lib = with_context (\<lambda>curr_offset.
     or_char lib
       (try_then (new_pending_future (RegexCharAnyExceptQuoteOrSlash curr_offset)) (\<lambda>str.
        ready (str_to_char str)))
       (or_char lib
         (try_then (new_pending_future (LiteralSlash curr_offset)) (\<lambda>_.
          try_then (new_pending_future (RegexEscapedCharAfterSlash (curr_offset + 1))) (\<lambda>str.
          ready (str_to_char (unescape str)))))
         (try_then (new_pending_future (LiteralSlash curr_offset)) (\<lambda>_.
          try_then (new_pending_future (LiteralHexEscapeChar (curr_offset + 1))) (\<lambda>_.
          try_then (new_pending_future (RegexCharInHex (curr_offset + 2))) (\<lambda>hex1.
          try_then (new_pending_future (RegexCharInHex (curr_offset + 3))) (\<lambda>hex2.
          try_then (new_pending_future (RegexCharInHex (curr_offset + 4))) (\<lambda>hex3.
          try_then (new_pending_future (RegexCharInHex (curr_offset + 5))) (\<lambda>hex4.
          ready (hex_escape (''0x'' @ hex1 @ hex2 @ hex3 @ hex4)))))))))))"

text \<open>The characters of a string, in reverse.\<close>

primrec parse_characters_reversed :: "futures_lite \<Rightarrow> nat \<Rightarrow> rust_char list jfut" where
  "parse_characters_reversed lib 0 = no_fuel"
| "parse_characters_reversed lib (Suc n) =
     or_chars lib
       (try_then (parse_character lib) (\<lambda>ch.
        try_then (parse_characters_reversed lib n) (\<lambda>chs. ready (Inr (chs @ [ch])))))
       (try_then (new_pending_future EmptyString) (\<lambda>_. ready (Inr [])))"

definition parse_string :: "futures_lite \<Rightarrow> nat \<Rightarrow> string jfut" where
  "parse_string lib n = with_context (\<lambda>curr_offset.
     try_then (new_pending_future (LiteralStringStart curr_offset)) (\<lambda>_.
     try_then (parse_characters_reversed lib n) (\<lambda>reversed.
     let result = concat (map encode_utf8 (rev reversed))
     in with_context (\<lambda>curr_offset2.
        try_then (new_pending_future (LiteralStringEnd curr_offset2)) (\<lambda>_. ready (Inr result))))))"

definition parse_string_value :: "futures_lite \<Rightarrow> nat \<Rightarrow> json jfut" where
  "parse_string_value lib n = try_then (parse_string lib n) (\<lambda>s. ready (Inr (String s)))"

text \<open>The mutually recursive rules.\<close>

fun parse_value :: "futures_lite \<Rightarrow> nat \<Rightarrow> json jfut"
  and parse_object :: "futures_lite \<Rightarrow> nat \<Rightarrow> json jfut"
  and parse_members :: "futures_lite \<Rightarrow> nat \<Rightarrow> (string \<rightharpoonup> json) jfut"
  and parse_member :: "futures_lite \<Rightarrow> nat \<Rightarrow> (string \<times> json) jfut"
  and parse_array :: "futures_lite \<Rightarrow> nat \<Rightarrow> json jfut"
  and parse_elements :: "futures_lite \<Rightarrow> nat \<Rightarrow> json list jfut"
  and parse_elements_reversed :: "futures_lite \<Rightarrow> nat \<Rightarrow> json list jfut"
  and parse_element :: "futures_lite \<Rightarrow> nat \<Rightarrow> json jfut" where
  "parse_value lib 0 = no_fuel"
| "parse_value lib (Suc n) =
     or_json lib
       (or_json lib (parse_object lib n)
         (or_json lib (parse_array lib n) (parse_string_value lib n)))
       (or_json lib (parse_number lib n) (or_json lib (parse_boolean lib) parse_null))"
| "parse_object lib 0 = no_fuel"
| "parse_object lib (Suc n) = with_context (\<lambda>curr_offset.
     try_then (new_pending_future (LiteralObjectStart curr_offset)) (\<lambda>_.
     try_then (or_json lib
       (try_then (parse_members lib n) (\<lambda>m. ready (Inr (Object m))))
       (try_then (parse_whitespaces lib n) (\<lambda>_. ready (Inr (Object Map.empty))))) (\<lambda>result.
     with_context (\<lambda>curr_offset2.
     try_then (new_pending_future (LiteralObjectEnd curr_offset2)) (\<lambda>_. ready (Inr result))))))"
| "parse_members lib 0 = no_fuel"
| "parse_members lib (Suc n) =
     try_then (parse_member lib n) (\<lambda>(key, val).
     try_then (or_members lib
       (with_context (\<lambda>curr_offset.
        try_then (new_pending_future (LiteralComma curr_offset)) (\<lambda>_. parse_members lib n)))
       (try_then (new_pending_future EmptyString) (\<lambda>_. ready (Inr Map.empty)))) (\<lambda>m.
     ready (Inr (m(key \<mapsto> val)))))"
| "parse_member lib 0 = no_fuel"
| "parse_member lib (Suc n) =
     try_then (parse_whitespaces lib n) (\<lambda>_.
     try_then (parse_string lib n) (\<lambda>key.
     try_then (parse_whitespaces lib n) (\<lambda>_.
     with_context (\<lambda>curr_offset.
     try_then (new_pending_future (LiteralColon curr_offset)) (\<lambda>_.
     try_then (parse_element lib n) (\<lambda>val. ready (Inr (key, val))))))))"
| "parse_array lib 0 = no_fuel"
| "parse_array lib (Suc n) = with_context (\<lambda>curr_offset.
     try_then (new_pending_future (LiteralArrayStart curr_offset)) (\<lambda>_.
     try_then (or_json lib
       (try_then (parse_elements lib n) (\<lambda>xs. ready (Inr (Array xs))))
       (try_then (parse_whitespaces lib n) (\<lambda>_. ready (Inr (Array []))))) (\<lambda>result.
     with_context (\<lambda>curr_offset2.
     try_then (new_pending_future (LiteralArrayEnd curr_offset2)) (\<lambda>_. ready (Inr result))))))"
| "parse_elements lib 0 = no_fuel"
| "parse_elements lib (Suc n) =
     try_then (parse_elements_reversed lib n) (\<lambda>xs. ready (Inr (rev xs)))"
| "parse_elements_reversed lib 0 = no_fuel"
| "parse_elements_reversed lib (Suc n) =
     try_then (parse_element lib n) (\<lambda>item.
     try_then (or_elements lib
       (with_context (\<lambda>curr_offset.
        try_then (new_pending_future (LiteralComma curr_offset)) (\<lambda>_. parse_elements_reversed lib n)))
       (try_then (new_pending_future EmptyString) (\<lambda>_. ready (Inr [])))) (\<lambda>xs.
     ready (Inr (xs @ [item]))))"
| "parse_element lib 0 = no_fuel"
| "parse_element lib (Suc n) =
     try_then (parse_whitespaces lib n) (\<lambda>_.
     try_then (parse_value lib n) (\<lambda>val.
     try_then (parse_whitespaces lib n) (\<lambda>_. ready (Inr val))))"

definition parse :: "futures_lite \<Rightarrow> nat \<Rightarrow> json jfut" where
  "parse lib n = parse_element lib n"

section \<open>Feeding the input\<close>

datatype json_error =
    InternalError async_runtime_error
  | UnexpectedEnd
  | UnexpectedCharacter string

text \<open>\<open>result.map_err(...)?\<close> on what the future returned.\<close>

definition finish :: "'a jresult \<Rightarrow> json_error fault + 'a" where
  "finish result = map_err (\<lambda>e. case e of
       Err x \<Rightarrow> Err (InternalError x)
     | Panic \<Rightarrow> Panic
     | UndefinedBehaviour \<Rightarrow> UndefinedBehaviour
     | OutOfFuel \<Rightarrow> OutOfFuel) result"

definition str_starts_with :: "string \<Rightarrow> string \<Rightarrow> bool" where
  "str_starts_with s p \<longleftrightarrow> take (length p) s = p"

text \<open>
  \<open>&full_str[index..index + 1]\<close>: panics when \<open>index + 1\<close> is inside a character, that is when the
  byte at the boundary \<open>index\<close> starts a longer one.
\<close>

definition slice_one :: "string \<Rightarrow> nat \<Rightarrow> string option" where
  "slice_one full_str index =
     (if (of_char (full_str ! index) :: nat) < 128 then Some [full_str ! index] else None)"

text \<open>The closures: reasons that wait for this index, and reasons the next input satisfies.\<close>

definition valid_at :: "nat \<Rightarrow> json_parser_yield_reason option \<Rightarrow> bool" where
  "valid_at index reason =
     (case reason of
        Some (LiteralArrayStart j) \<Rightarrow> j = index
      | Some (LiteralArrayEnd j) \<Rightarrow> j = index
      | Some (LiteralObjectStart j) \<Rightarrow> j = index
      | Some (LiteralObjectEnd j) \<Rightarrow> j = index
      | Some (LiteralStringStart j) \<Rightarrow> j = index
      | Some (LiteralStringEnd j) \<Rightarrow> j = index
      | Some (LiteralColon j) \<Rightarrow> j = index
      | Some (LiteralComma j) \<Rightarrow> j = index
      | Some (LiteralPeriod j) \<Rightarrow> j = index
      | Some (LiteralTrue j) \<Rightarrow> j = index
      | Some (LiteralFalse j) \<Rightarrow> j = index
      | Some (LiteralNull j) \<Rightarrow> j = index
      | Some (LiteralSlash j) \<Rightarrow> j = index
      | Some (LiteralHexEscapeChar j) \<Rightarrow> j = index
      | Some (RegexCharAnyExceptQuoteOrSlash j) \<Rightarrow> j = index
      | Some (RegexEscapedCharAfterSlash j) \<Rightarrow> j = index
      | Some (RegexCharExponent j) \<Rightarrow> j = index
      | Some (RegexCharInHex j) \<Rightarrow> j = index
      | Some (RegexCharInDigit j) \<Rightarrow> j = index
      | Some (RegexCharNumberSign j) \<Rightarrow> j = index
      | Some (RegexCharWhitespace j) \<Rightarrow> j = index
      | _ \<Rightarrow> True)"

definition is_empty_string :: "json_parser_yield_reason option \<Rightarrow> bool" where
  "is_empty_string reason = (case reason of Some EmptyString \<Rightarrow> True | _ \<Rightarrow> False)"

definition str_contains :: "string \<Rightarrow> string \<Rightarrow> bool" where
  "str_contains s p \<longleftrightarrow> (\<exists>i \<in> {..length s}. str_starts_with (drop i s) p)"

definition satisfied :: "string \<Rightarrow> nat \<Rightarrow> string \<Rightarrow> json_parser_yield_reason option \<Rightarrow> bool" where
  "satisfied full_str index single_char reason =
     (case reason of
        Some (LiteralArrayStart _) \<Rightarrow> single_char = ''[''
      | Some (LiteralArrayEnd _) \<Rightarrow> single_char = '']''
      | Some (LiteralObjectStart _) \<Rightarrow> single_char = ''{''
      | Some (LiteralObjectEnd _) \<Rightarrow> single_char = ''}''
      | Some (LiteralStringStart _) \<Rightarrow> single_char = [CHR 0x22]
      | Some (LiteralStringEnd _) \<Rightarrow> single_char = [CHR 0x22]
      | Some (LiteralColon _) \<Rightarrow> single_char = '':''
      | Some (LiteralComma _) \<Rightarrow> single_char = '',''
      | Some (LiteralPeriod _) \<Rightarrow> single_char = ''.''
      | Some (LiteralTrue _) \<Rightarrow> str_starts_with (drop index full_str) ''true''
      | Some (LiteralFalse _) \<Rightarrow> str_starts_with (drop index full_str) ''false''
      | Some (LiteralNull _) \<Rightarrow> str_starts_with (drop index full_str) ''null''
      | Some (LiteralSlash _) \<Rightarrow> single_char = [CHR 0x5C]
      | Some (LiteralHexEscapeChar _) \<Rightarrow> single_char = ''u''
      | Some (RegexCharAnyExceptQuoteOrSlash _) \<Rightarrow> single_char \<noteq> [CHR 0x22] \<and> single_char \<noteq> [CHR 0x5C]
      | Some (RegexEscapedCharAfterSlash _) \<Rightarrow> str_contains (CHR 0x22 # CHR 0x5C # ''/bfnrt'') single_char
      | Some (RegexCharExponent _) \<Rightarrow> single_char = ''e'' \<or> single_char = ''E''
      | Some (RegexCharInHex _) \<Rightarrow> str_contains ''0123456789abcdefABCDEF'' single_char
      | Some (RegexCharInDigit _) \<Rightarrow> str_contains ''0123456789'' single_char
      | Some (RegexCharNumberSign _) \<Rightarrow> str_contains ''+-'' single_char
      | Some (RegexCharWhitespace _) \<Rightarrow> str_contains [CHR 0x20, CHR 0x09, CHR 0x0A, CHR 0x0D] single_char
      | _ \<Rightarrow> False)"

text \<open>The response to the chosen reason and the index after it.\<close>

definition respond :: "json_parser_yield_reason \<Rightarrow> nat \<Rightarrow> string \<Rightarrow> string \<times> nat" where
  "respond unblock_reason index single_char =
     (if unblock_reason = LiteralTrue index then (''true'', index + 4)
      else if unblock_reason = LiteralFalse index then (''false'', index + 5)
      else if unblock_reason = LiteralNull index then (''null'', index + 4)
      else if unblock_reason \<noteq> EmptyString then (single_char, index + 1)
      else ([], index))"

definition choose_reason :: "string \<Rightarrow> nat \<Rightarrow> string \<Rightarrow> json_runtime \<Rightarrow> json_parser_yield_reason option" where
  "choose_reason full_str index single_char rt =
     (case check_pending_reasons (satisfied full_str index single_char) rt of
        Some unblock_reason_normal \<Rightarrow> Some unblock_reason_normal
      | None \<Rightarrow> check_pending_reasons is_empty_string rt)"

definition step_future ::
  "nat \<Rightarrow> 'a jfut \<Rightarrow> json_runtime \<Rightarrow> ('a jresult option \<times> 'a jfut \<times> json_runtime) option" where
  "step_future index = run_async_step (\<lambda>fut. poll_fut fut index)"

text \<open>The loop at the end of the input.\<close>

primrec exit_loop :: "nat \<Rightarrow> nat \<Rightarrow> 'a jfut \<Rightarrow> json_runtime \<Rightarrow> json_error fault + 'a" where
  "exit_loop 0 index future rt = Inl OutOfFuel"
| "exit_loop (Suc n) index future rt =
     (case check_pending_reasons is_empty_string rt of
        None \<Rightarrow> Inl (Err UnexpectedEnd)
      | Some _ \<Rightarrow>
          (case unblock_futures EmptyString [] rt of
             None \<Rightarrow> Inl Panic
           | Some (Inl e, _) \<Rightarrow> Inl (Err (InternalError e))
           | Some (Inr _, rt1) \<Rightarrow>
               (case step_future index future rt1 of
                  None \<Rightarrow> Inl Panic
                | Some (Some result, _, _) \<Rightarrow> finish result
                | Some (None, future', rt2) \<Rightarrow> exit_loop n index future' rt2)))"

primrec run_loop :: "nat \<Rightarrow> string \<Rightarrow> nat \<Rightarrow> 'a jfut \<Rightarrow> json_runtime \<Rightarrow> json_error fault + 'a" where
  "run_loop 0 full_str index future rt = Inl OutOfFuel"
| "run_loop (Suc n) full_str index future rt =
     (case step_future index future rt of
        None \<Rightarrow> Inl Panic
      | Some (Some result, _, _) \<Rightarrow> finish result
      | Some (None, future', rt1) \<Rightarrow>
          if index \<ge> length full_str then exit_loop n index future' rt1
          else
            (case slice_one full_str index of
               None \<Rightarrow> Inl Panic
             | Some single_char \<Rightarrow>
                 (let rt2 = filter_valid_futures (valid_at index) rt1
                  in case choose_reason full_str index single_char rt2 of
                       None \<Rightarrow> Inl (Err (UnexpectedCharacter single_char))
                     | Some unblock_reason \<Rightarrow>
                         (let (response, index') = respond unblock_reason index single_char
                          in case unblock_futures unblock_reason response rt2 of
                               None \<Rightarrow> Inl Panic
                             | Some (Inl e, _) \<Rightarrow> Inl (Err (InternalError e))
                             | Some (Inr _, rt3) \<Rightarrow> run_loop n full_str index' future' rt3))))"

definition run_parser :: "nat \<Rightarrow> string \<Rightarrow> 'a jfut \<Rightarrow> json_runtime \<Rightarrow> json_error fault + 'a" where
  "run_parser n full_str future rt = run_loop n full_str 0 future rt"

text \<open>
  \<open>main\<close> on the text of its standard input, with the default capacity of the runtime; an error of
  the parser is unwrapped.
\<close>

definition JSON_MAX_PENDING :: nat where
  "JSON_MAX_PENDING = 1024"

definition json_main :: "futures_lite \<Rightarrow> nat \<Rightarrow> string \<Rightarrow> json_error fault + json" where
  "json_main lib n input =
     (case run_parser n input (parse lib n) (async_runtime_new JSON_MAX_PENDING) of
        Inl (Err _) \<Rightarrow> Inl Panic
      | result \<Rightarrow> result)"

end
