(* ===== verification/Json_Runs.thy ===== *)
theory Json_Runs
  imports Json_Parser
begin

text \<open>
  How \<open>run_parser\<close> runs a future of the JSON parser, from one poll to the next (\<open>leads\<close>): \<open>tab\<close> says
  what the pending table holds when the loop looks at it, \<open>starts\<close> what the first poll of a future
  registers, \<open>takes\<close> what a future does with a response, \<open>sleeping\<close> which futures a response passes by,
  and \<open>ctx\<close> the futures around the one that is at work.  \<open>parses\<close> is the correctness of a parsing
  future; it has one rule for each way the parser combines futures.
\<close>

section \<open>The loop of the parser, from poll to poll\<close>

abbreviation jrt :: "(json_parser_yield_reason \<times> string) option \<Rightarrow> bool \<Rightarrow>
    (json_parser_yield_reason \<times> nat) list \<Rightarrow> json_runtime" where
  "jrt u b ps \<equiv> runtime_with JSON_MAX_PENDING u b ps"

abbreviation roomy_json :: "(json_parser_yield_reason \<times> nat) list \<Rightarrow> bool" where
  "roomy_json ps \<equiv> roomy JSON_MAX_PENDING ps"

definition tail :: "nat \<Rightarrow> string \<Rightarrow> nat \<Rightarrow> 'a jfut \<Rightarrow> json_runtime \<Rightarrow> json_error fault + 'a" where
  "tail n s i F rt =
     (if i \<ge> length s then exit_loop n i F rt
      else
        (case slice_one s i of
           None \<Rightarrow> Inl Panic
         | Some single_char \<Rightarrow>
             (let rt2 = filter_valid_futures (valid_at i) rt
              in case choose_reason s i single_char rt2 of
                   None \<Rightarrow> Inl (Err (UnexpectedCharacter single_char))
                 | Some r \<Rightarrow>
                     (case unblock_futures r (fst (respond r i single_char)) rt2 of
                        None \<Rightarrow> Inl Panic
                      | Some (Inl e, _) \<Rightarrow> Inl (Err (InternalError e))
                      | Some (Inr _, rt3) \<Rightarrow> run_loop n s (snd (respond r i single_char)) F rt3))))"

definition after :: "nat \<Rightarrow> string \<Rightarrow> nat \<Rightarrow> ('a jresult option \<times> 'a jfut \<times> json_runtime) option \<Rightarrow>
    json_error fault + 'a" where
  "after n s i x =
     (case x of
        None \<Rightarrow> Inl Panic
      | Some (Some res, _, _) \<Rightarrow> finish res
      | Some (None, F, rt) \<Rightarrow> tail n s i F (rt\<lparr>has_unblock := None\<rparr>))"

lemma run_loop_after:
  "run_loop (Suc n) s i F (jrt u b ps) = after n s i (poll_fut F i (jrt u False ps))"
  by (auto simp: after_def tail_def step_future_def run_step_runtime_with Let_def split_def
      split: option.splits sum.splits)

lemma exit_loop_after:
  "length s \<le> i \<Longrightarrow> roomy_json ps \<Longrightarrow> EmptyString \<in> fst ` set ps \<Longrightarrow>
   exit_loop (Suc n) i F (jrt None b ps) =
     after n s i (poll_fut F i (jrt (Some (EmptyString, [])) False (del_reason EmptyString ps)))"
  by (auto simp: after_def tail_def step_future_def run_step_runtime_with check_runtime_with
      unblock_runtime_with is_empty_string_def find_None_iff
      split: option.splits prod.splits json_parser_yield_reason.splits)

section \<open>What the pending table holds\<close>

abbreviation idx :: "json_parser_yield_reason \<Rightarrow> nat" where
  "idx r \<equiv> snd (reason_key r)"

abbreviation keys_of :: "('r \<times> nat) list \<Rightarrow> 'r set" where
  "keys_of ps \<equiv> fst ` set ps"

text \<open>The reasons that the input at an index satisfies.\<close>

definition sat :: "string \<Rightarrow> nat \<Rightarrow> json_parser_yield_reason \<Rightarrow> bool" where
  "sat s i r \<longleftrightarrow> i < length s \<and> valid_at i (Some r) \<and> satisfied s i [s ! i] (Some r)"

text \<open>
  The table at index \<open>i\<close> has the reasons \<open>Rg\<close>, which were registered last, and no other reason that
  the input satisfies; all reasons are from this index or one earlier index.
\<close>

definition tab :: "string \<Rightarrow> nat \<Rightarrow> json_parser_yield_reason set \<Rightarrow>
    (json_parser_yield_reason \<times> nat) list \<Rightarrow> bool" where
  "tab s i Rg ps \<longleftrightarrow> descending ps \<and> Rg \<subseteq> keys_of ps \<and>
     (\<exists>a. \<forall>r \<in> keys_of ps. idx r \<in> {0, a, i}) \<and> (\<forall>r \<in> keys_of ps. sat s i r \<longrightarrow> r \<in> Rg)"

lemma fst_reason_key: "fst (reason_key r) < 22"
  by (cases r) simp_all

lemma tab_roomy:
  assumes "tab s i Rg ps"
  shows "roomy_json ps"
proof -
  from assms obtain a where d: "descending ps" and a: "\<forall>r \<in> keys_of ps. idx r \<in> {0, a, i}"
    by (auto simp: tab_def)
  let ?T = "{..<22 :: nat} \<times> {0, a, i}"
  have inj: "inj_on reason_key (reason_key -` ?T)" by (simp add: inj_on_def reason_key_inject)
  have "length ps \<le> card (reason_key -` ?T)"
    using d a fst_reason_key inj
    by (intro descending_card finite_vimage_IntI [of ?T reason_key UNIV, simplified])
      (auto simp: mem_Times_iff inj_def reason_key_inject)
  also have "\<dots> \<le> card ?T"
    using inj by (intro card_inj_on_le [of reason_key]) auto
  also have "\<dots> \<le> 66"
    by (simp add: card_cartesian_product card_insert_if)
  finally show ?thesis using d by (simp add: roomy_def JSON_MAX_PENDING_def)
qed

lemma keys_add_reason: "keys_of (add_reason t ps) = insert t (keys_of ps)"
  by (induction ps) auto

lemma keys_del_reason: "keys_of (del_reason t ps) \<subseteq> keys_of ps"
  by (induction ps) auto

lemma tab_add:
  assumes "tab s i Rg ps" "idx r \<in> {0, i}"
  shows "tab s i (insert r Rg) (add_reason r ps)"
proof -
  from assms(1) obtain a where "\<forall>q \<in> keys_of ps. idx q \<in> {0, a, i}" by (auto simp: tab_def)
  then have "\<forall>q \<in> insert r (keys_of ps). idx q \<in> {0, a, i}" using assms(2) by auto
  then show ?thesis
    using assms(1) descending_add_reason [of ps r] unfolding tab_def keys_add_reason by blast
qed

lemma tab_less:
  assumes "tab s i {} ps" "descending qs" "keys_of qs \<subseteq> keys_of ps"
  shows "tab s i {} qs"
proof -
  from assms(1) obtain a where "\<forall>q \<in> keys_of ps. idx q \<in> {0, a, i}" by (auto simp: tab_def)
  then have "\<forall>q \<in> keys_of qs. idx q \<in> {0, a, i}" by (meson assms(3) subset_iff)
  moreover have "\<forall>q \<in> keys_of qs. sat s i q \<longrightarrow> q \<in> {}"
    using assms(1) by (meson assms(3) subset_iff tab_def)
  ultimately show ?thesis
    unfolding tab_def using assms(2) by (intro conjI exI [of _ a]) simp_all
qed

lemma tab_del: "tab s i {} ps \<Longrightarrow> tab s i {} (del_reason r ps)"
  by (rule tab_less [OF _ _ keys_del_reason]) (simp_all add: tab_def descending_del_reason)

lemma tab_del_all: "tab s i {} ps \<Longrightarrow> tab s i {} (fold del_reason rs ps)"
  by (induction rs arbitrary: ps) (simp_all add: tab_del)


text \<open>What the loop chooses: the one registered reason that the input satisfies, or \<open>EmptyString\<close>.\<close>

lemma valid_at_iff: "valid_at i (Some r) \<longleftrightarrow> r = EmptyString \<or> idx r = i"
  by (cases r) (simp_all add: valid_at_def)

lemma satisfied_empty: "\<not> satisfied s i c (Some EmptyString)"
  by (simp add: satisfied_def)

lemma is_empty_string_iff: "is_empty_string (Some r) \<longleftrightarrow> r = EmptyString"
  by (cases r) (simp_all add: is_empty_string_def)

lemma find_key_unique:
  assumes "r \<in> keys_of ps" "P r" "\<And>q. q \<in> keys_of ps \<Longrightarrow> P q \<Longrightarrow> q = r"
  shows "map_option fst (find (\<lambda>e. P (fst e)) ps) = Some r"
  using assms
proof (induction ps)
  case (Cons e ps)
  show ?case
  proof (cases "P (fst e)")
    case True
    then have "fst e = r" using Cons.prems(3) [of "fst e"] by simp
    then show ?thesis using True by simp
  next
    case False
    then have "r \<in> keys_of ps" using Cons.prems(1,2) by auto
    then show ?thesis using False Cons.IH [OF _ Cons.prems(2)] Cons.prems(3) by simp
  qed
qed simp

lemma find_key_none:
  "(\<And>q. q \<in> keys_of ps \<Longrightarrow> \<not> P q) \<Longrightarrow> find (\<lambda>e. P (fst e)) ps = None"
  by (induction ps) auto

abbreviation kept_at :: "nat \<Rightarrow> (json_parser_yield_reason \<times> nat) list \<Rightarrow> (json_parser_yield_reason \<times> nat) list" where
  "kept_at i ps \<equiv> filter (\<lambda>e. valid_at i (Some (fst e))) ps"

lemma keys_kept: "keys_of (kept_at i ps) = {r \<in> keys_of ps. valid_at i (Some r)}"
  by auto

lemma tab_kept:
  assumes "tab s i Rg ps" "i \<noteq> j \<or> (\<forall>r \<in> Rg. \<not> sat s i r)"
  shows "tab s j {} (kept_at i ps)"
proof -
  have "\<forall>q \<in> keys_of (kept_at i ps). idx q \<in> {0, i, j}"
    by (auto simp: valid_at_iff)
  moreover have "\<not> sat s j q" if "q \<in> keys_of (kept_at i ps)" for q
    using that assms unfolding keys_kept tab_def
    by (cases "q = EmptyString") (auto simp: sat_def valid_at_iff satisfied_empty)
  ultimately show ?thesis
    unfolding tab_def using assms(1) by (intro conjI exI [of _ i]) (simp_all add: tab_def descending_filter)
qed

lemma length_le_roomy: "roomy n ps \<Longrightarrow> length ps \<le> n"
  by (simp add: roomy_def)

lemma roomy_kept: "roomy n ps \<Longrightarrow> roomy n (filter P ps)"
  using order_trans [of "length (filter P ps) + 2" "length ps + 2" n]
  by (simp add: roomy_def descending_filter)

lemma roomy_del: "roomy n ps \<Longrightarrow> roomy n (del_reason r ps)"
  using length_del_reason [of r ps] by (auto simp: roomy_def descending_del_reason)

lemma roomy_del_all: "roomy n ps \<Longrightarrow> roomy n (fold del_reason rs ps)"
  by (induction rs arbitrary: ps) (simp_all add: roomy_del)

definition ascii_at :: "string \<Rightarrow> nat \<Rightarrow> bool" where
  "ascii_at s i \<longleftrightarrow> (of_char (s ! i) :: nat) < 128"

lemma tail_unblock:
  assumes "i < length s" "ascii_at s i" "roomy_json ps"
    "choose_reason s i [s ! i] (jrt None b (kept_at i ps)) = Some r"
  shows "tail (Suc n) s i F (jrt None b ps) =
    after n s (snd (respond r i [s ! i]))
      (poll_fut F (snd (respond r i [s ! i]))
        (jrt (Some (r, fst (respond r i [s ! i]))) False (del_reason r (kept_at i ps))))"
  using assms
  by (simp add: tail_def slice_one_def ascii_at_def filter_runtime_with length_le_roomy Let_def
      unblock_runtime_with roomy_kept run_loop_after del: run_loop.simps)

lemma tail_normal:
  assumes t: "tab s i Rg ps" and r: "r \<in> Rg" "sat s i r" "\<And>q. q \<in> Rg \<Longrightarrow> sat s i q \<Longrightarrow> q = r"
    and a: "ascii_at s i" and j: "respond r i [s ! i] = (x, j)" "j \<noteq> i"
  shows "\<exists>ps'. tab s j {} ps' \<and> (\<forall>n. tail (Suc n) s i F (jrt None b ps) =
    after n s j (poll_fut F j (jrt (Some (r, x)) False ps')))"
proof (intro exI conjI allI)
  have i: "i < length s" using r(2) by (simp add: sat_def)
  have uni: "q = r" if "q \<in> keys_of (kept_at i ps)" "satisfied s i [s ! i] (Some q)" for q
    using that t r(3) i unfolding keys_kept by (auto simp: sat_def tab_def)
  have "r \<in> keys_of (kept_at i ps)" using t r(1,2) unfolding keys_kept by (auto simp: sat_def tab_def)
  moreover have "satisfied s i [s ! i] (Some r)" using r(2) by (simp add: sat_def)
  ultimately have "map_option fst (find (\<lambda>e. satisfied s i [s ! i] (Some (fst e))) (kept_at i ps)) = Some r"
    by (rule find_key_unique) (rule uni)
  then have "choose_reason s i [s ! i] (jrt None b (kept_at i ps)) = Some r"
    unfolding choose_reason_def check_runtime_with by (simp only: option.case)
  from tail_unblock [OF i a tab_roomy [OF t] this] j
  show "tail (Suc n) s i F (jrt None b ps) =
      after n s j (poll_fut F j (jrt (Some (r, x)) False (del_reason r (kept_at i ps))))" for n
    by simp
  show "tab s j {} (del_reason r (kept_at i ps))"
    by (rule tab_del [OF tab_kept [OF t]]) (use j(2) in simp)
qed

lemma tail_empty:
  assumes t: "tab s i Rg ps" and e: "EmptyString \<in> Rg" and r: "\<And>q. q \<in> Rg \<Longrightarrow> \<not> sat s i q"
    and a: "i < length s \<Longrightarrow> ascii_at s i"
  shows "\<exists>ps'. tab s i {} ps' \<and> (\<forall>n. tail (Suc n) s i F (jrt None b ps) =
    after n s i (poll_fut F i (jrt (Some (EmptyString, [])) False ps')))"
proof (cases "i < length s")
  case True
  have "EmptyString \<in> keys_of (kept_at i ps)"
    using t e unfolding keys_kept by (auto simp: tab_def valid_at_iff)
  then have "map_option fst (find (\<lambda>e. is_empty_string (Some (fst e))) (kept_at i ps)) = Some EmptyString"
    by (rule find_key_unique) (simp_all add: is_empty_string_iff)
  moreover have "\<not> satisfied s i [s ! i] (Some q)" if "q \<in> keys_of (kept_at i ps)" for q
    using that t r True unfolding keys_kept by (auto simp: sat_def tab_def)
  then have "find (\<lambda>e. satisfied s i [s ! i] (Some (fst e))) (kept_at i ps) = None"
    by (rule find_key_none)
  ultimately have "choose_reason s i [s ! i] (jrt None b (kept_at i ps)) = Some EmptyString"
    unfolding choose_reason_def check_runtime_with by simp
  from tail_unblock [OF True a [OF True] tab_roomy [OF t] this]
  have "tail (Suc n) s i F (jrt None b ps) = after n s i
      (poll_fut F i (jrt (Some (EmptyString, [])) False (del_reason EmptyString (kept_at i ps))))" for n
    by (simp add: respond_def)
  moreover have "tab s i {} (del_reason EmptyString (kept_at i ps))"
    by (rule tab_del [OF tab_kept [OF t]]) (use r in simp)
  ultimately show ?thesis by blast
next
  case False
  have "tail (Suc n) s i F (jrt None b ps) =
      after n s i (poll_fut F i (jrt (Some (EmptyString, [])) False (del_reason EmptyString ps)))" for n
    using False t e exit_loop_after [of s i ps n F b] tab_roomy [OF t]
    by (auto simp: tail_def tab_def simp del: exit_loop.simps)
  moreover have "tab s i {} (del_reason EmptyString ps)"
    using t False by (intro tab_del) (auto simp: tab_def sat_def)
  ultimately show ?thesis by blast
qed

section \<open>Futures at rest and at work\<close>

text \<open>Dropping the future takes some reasons off the table.\<close>

definition droppable :: "'a jfut \<Rightarrow> bool" where
  "droppable f \<longleftrightarrow> (\<exists>rs. \<forall>u b ps. roomy_json ps \<longrightarrow>
     drop_fut f (jrt u b ps) = Some (jrt u b (fold del_reason rs ps)))"

text \<open>The future waits for reasons of \<open>S\<close> and for no other.\<close>

definition sleeping :: "'a jfut \<Rightarrow> json_parser_yield_reason set \<Rightarrow> bool" where
  "sleeping f S \<longleftrightarrow> droppable f \<and> (\<forall>c u b ps. roomy_json ps \<longrightarrow> (\<forall>r x. u = Some (r, x) \<longrightarrow> r \<notin> S) \<longrightarrow>
     poll_fut f c (jrt u b ps) = Some (None, f, jrt u b ps))"

text \<open>The first poll at offset \<open>i\<close> registers the reasons \<open>Rg\<close> and leaves the future asleep.\<close>

definition starts :: "'a jfut \<Rightarrow> nat \<Rightarrow> json_parser_yield_reason set \<Rightarrow> 'a jfut \<Rightarrow> bool" where
  "starts p i Rg p' \<longleftrightarrow> sleeping p' Rg \<and> (\<forall>s R b ps. tab s i R ps \<longrightarrow>
     (\<exists>ps'. poll_fut p i (jrt None b ps) = Some (None, p', jrt None True ps') \<and> tab s i (R \<union> Rg) ps'))"

text \<open>With the response \<open>x\<close> to \<open>r\<close> the future does what \<open>G\<close> does without one.\<close>

definition takes :: "'a jfut \<Rightarrow> json_parser_yield_reason \<Rightarrow> string \<Rightarrow> 'a jfut \<Rightarrow> bool" where
  "takes p r x G \<longleftrightarrow> (\<forall>c b ps. roomy_json ps \<longrightarrow>
     poll_fut p c (jrt (Some (r, x)) b ps) = poll_fut G c (jrt None b (del_reason r ps)))"

lemma droppableI [intro?]:
  "(\<And>u b ps. roomy_json ps \<Longrightarrow> drop_fut f (jrt u b ps) = Some (jrt u b (fold del_reason rs ps))) \<Longrightarrow>
   droppable f"
  by (auto simp: droppable_def)

lemma droppableE:
  assumes "droppable f"
  obtains rs where "\<And>u b ps. roomy_json ps \<Longrightarrow>
    drop_fut f (jrt u b ps) = Some (jrt u b (fold del_reason rs ps))"
  using assms unfolding droppable_def by blast

lemma droppable_done: "(\<And>rt. drop_fut f rt = Some rt) \<Longrightarrow> droppable f"
  by (rule droppableI [of _ "[]"]) simp

lemma droppable_rules:
  "droppable finished" "droppable (ready a)" "droppable (with_context g)"
  by (rule droppable_done, simp add: poll_simps)+

lemma droppable_then:
  "droppable f \<Longrightarrow> droppable (and_then f k)" "droppable h \<Longrightarrow> droppable (try_then h k')"
  by (simp_all add: droppable_def poll_simps)

lemma droppable_pending: "droppable (pending_fut p)"
proof (cases p)
  case (Waiting r)
  then show ?thesis by (intro droppableI [of _ "[r]"]) (simp add: drop_pending_waiting)
qed (auto intro: droppable_done)

lemma droppable_or:
  assumes "or_law or_fut" "droppable f" "droppable g"
  shows "droppable (or_fut f g)"
proof -
  from assms(2,3) obtain rs qs where
    "\<And>u b ps. roomy_json ps \<Longrightarrow> drop_fut f (jrt u b ps) = Some (jrt u b (fold del_reason rs ps))"
    "\<And>u b ps. roomy_json ps \<Longrightarrow> drop_fut g (jrt u b ps) = Some (jrt u b (fold del_reason qs ps))"
    by (elim droppableE) blast
  then show ?thesis
    by (intro droppableI [of _ "rs @ qs"]) (simp add: or_lawD [OF assms(1)] roomy_del_all)
qed

lemma sleeping_none: "sleeping f S \<Longrightarrow> roomy_json ps \<Longrightarrow>
   poll_fut f c (jrt None b ps) = Some (None, f, jrt None b ps)"
  by (simp add: sleeping_def)

lemma sleeping_other: "sleeping f S \<Longrightarrow> roomy_json ps \<Longrightarrow> r \<notin> S \<Longrightarrow>
   poll_fut f c (jrt (Some (r, x)) b ps) = Some (None, f, jrt (Some (r, x)) b ps)"
  by (simp add: sleeping_def)

lemma sleeping_pending: "sleeping (pending_fut (Waiting r)) {r}"
  by (auto simp: sleeping_def droppable_pending poll_pending_waiting split: option.splits)

lemma sleeping_then:
  "sleeping f S \<Longrightarrow> sleeping (and_then f k) S" "sleeping h S \<Longrightarrow> sleeping (try_then h k') S"
  by (simp_all add: sleeping_def droppable_then poll_simps)

lemma sleeping_or:
  assumes "or_law or_fut" "sleeping f S" "sleeping g T"
  shows "sleeping (or_fut f g) (S \<union> T)"
  using assms by (simp add: sleeping_def droppable_or or_lawD [OF assms(1)])

lemma startsD:
  assumes "starts p i Rg p'" "tab s i R ps"
  obtains ps' where "poll_fut p i (jrt None b ps) = Some (None, p', jrt None True ps')"
    "tab s i (R \<union> Rg) ps'"
  using assms unfolding starts_def by blast

lemma starts_pending:
  assumes "idx r \<in> {0, i}"
  shows "starts (new_pending_future r) i {r} (pending_fut (Waiting r))"
  unfolding starts_def
proof (intro conjI allI impI sleeping_pending)
  fix s R b ps assume t: "tab s i R ps"
  then have t': "tab s i (R \<union> {r}) (add_reason r ps)" using tab_add [OF t assms] by simp
  then show "\<exists>ps'. poll_fut (new_pending_future r) i (jrt None b ps) =
      Some (None, pending_fut (Waiting r), jrt None True ps') \<and> tab s i (R \<union> {r}) ps'"
    unfolding new_pending_future_def poll_pending_unpolled [OF tab_roomy [OF t] tab_roomy [OF t']]
    by auto
qed

lemma starts_wrap:
  assumes "starts p i Rg p'" "sleeping (g p') Rg"
    "\<And>rt rt'. poll_fut p i rt = Some (None, p', rt') \<Longrightarrow> poll_fut (g p) i rt = Some (None, g p', rt')"
  shows "starts (g p) i Rg (g p')"
  using assms unfolding starts_def by meson

lemma starts_then:
  "starts p i Rg p' \<Longrightarrow> starts (and_then p k) i Rg (and_then p' k)"
  "starts q i Rg q' \<Longrightarrow> starts (try_then q k') i Rg (try_then q' k')"
  using starts_wrap [of p i Rg p' "\<lambda>f. and_then f k"] starts_wrap [of q i Rg q' "\<lambda>f. try_then f k'"]
  by (simp_all add: poll_simps starts_def sleeping_then)

lemma starts_context: "starts (f i) i Rg p' \<Longrightarrow> starts (with_context f) i Rg p'"
  by (simp add: starts_def poll_simps)

lemma starts_or:
  assumes o: "or_law or_fut" and p: "starts p i Rg p'" and q: "starts q i Rh q'"
  shows "starts (or_fut p q) i (Rg \<union> Rh) (or_fut p' q')"
  unfolding starts_def
proof (intro conjI allI impI)
  show "sleeping (or_fut p' q') (Rg \<union> Rh)" using p q by (simp add: starts_def sleeping_or [OF o])
  fix s R b ps assume "tab s i R ps"
  then obtain ps1 where 1: "poll_fut p i (jrt None b ps) = Some (None, p', jrt None True ps1)"
      "tab s i (R \<union> Rg) ps1" using startsD [OF p] by blast
  from 1(2) obtain ps2 where 2: "poll_fut q i (jrt None True ps1) = Some (None, q', jrt None True ps2)"
      "tab s i (R \<union> Rg \<union> Rh) ps2" using startsD [OF q] by blast
  from 1 2 show "\<exists>ps'. poll_fut (or_fut p q) i (jrt None b ps) =
      Some (None, or_fut p' q', jrt None True ps') \<and> tab s i (R \<union> (Rg \<union> Rh)) ps'"
    by (auto simp: or_lawD [OF o] Un_assoc)
qed

lemma pending_fut_Finished: "pending_fut Finished = finished"
  by (rule fut.expand) (simp add: pending_fut.sel finished_def fun_eq_iff)

lemma takes_pending: "takes (pending_fut (Waiting r)) r x (ready (Inr x))"
  by (simp add: takes_def poll_pending_waiting poll_simps pending_fut_Finished)

text \<open>The next poll is ready with the value \<open>v\<close>.\<close>

definition done_with :: "'a jfut \<Rightarrow> 'a jresult \<Rightarrow> bool" where
  "done_with F v \<longleftrightarrow> (\<exists>F' rs. droppable F' \<and> (\<forall>c b ps. roomy_json ps \<longrightarrow>
     poll_fut F c (jrt None b ps) = Some (Some v, F', jrt None b (fold del_reason rs ps))))"

lemma done_withI:
  "droppable F' \<Longrightarrow> (\<And>c b ps. roomy_json ps \<Longrightarrow>
     poll_fut F c (jrt None b ps) = Some (Some v, F', jrt None b (fold del_reason rs ps))) \<Longrightarrow>
   done_with F v"
  unfolding done_with_def by blast

lemma done_withE:
  assumes "done_with F v"
  obtains F' rs qs where
    "\<And>c b ps. roomy_json ps \<Longrightarrow>
       poll_fut F c (jrt None b ps) = Some (Some v, F', jrt None b (fold del_reason rs ps))"
    "\<And>u b ps. roomy_json ps \<Longrightarrow> drop_fut F' (jrt u b ps) = Some (jrt u b (fold del_reason qs ps))"
    "droppable F'"
proof -
  from assms obtain F' rs where F: "droppable F'" "\<And>c b ps. roomy_json ps \<Longrightarrow>
      poll_fut F c (jrt None b ps) = Some (Some v, F', jrt None b (fold del_reason rs ps))"
    unfolding done_with_def by blast
  from F(1) show thesis by (rule droppableE) (rule that [OF F(2) _ F(1)])
qed

lemma done_ready: "done_with (ready v) v"
  by (rule done_withI [OF droppable_rules(1), of _ _ "[]"]) (simp add: poll_simps)

lemma done_then:
  assumes "done_with F (Inr a)" "done_with (k a) w"
  shows "done_with (try_then F k) w"
proof -
  from assms(1) obtain F' rs qs where F:
    "\<And>c b ps. roomy_json ps \<Longrightarrow>
       poll_fut F c (jrt None b ps) = Some (Some (Inr a), F', jrt None b (fold del_reason rs ps))"
    "\<And>u b ps. roomy_json ps \<Longrightarrow> drop_fut F' (jrt u b ps) = Some (jrt u b (fold del_reason qs ps))"
    by (rule done_withE) blast
  from assms(2) obtain G' ts where G: "droppable G'" "\<And>c b ps. roomy_json ps \<Longrightarrow>
       poll_fut (k a) c (jrt None b ps) = Some (Some w, G', jrt None b (fold del_reason ts ps))"
    by (rule done_withE) blast
  show ?thesis
    by (rule done_withI [OF G(1), of _ _ "rs @ qs @ ts"]) (simp add: poll_simps F G roomy_del_all)
qed

lemma done_or_first:
  assumes "or_law or_fut" "done_with F v" "droppable g"
  shows "done_with (or_fut F g) v"
proof -
  from assms(2) obtain F' rs where F: "droppable F'" "\<And>c b ps. roomy_json ps \<Longrightarrow>
       poll_fut F c (jrt None b ps) = Some (Some v, F', jrt None b (fold del_reason rs ps))"
    by (rule done_withE) blast
  show ?thesis
    by (rule done_withI [OF droppable_or [OF assms(1) F(1) assms(3)], of _ _ rs])
      (simp add: or_lawD [OF assms(1)] F)
qed

lemma done_or_second:
  assumes "or_law or_fut" "sleeping f S" "done_with G v"
  shows "done_with (or_fut f G) v"
proof -
  from assms(3) obtain G' rs where G: "droppable G'" "\<And>c b ps. roomy_json ps \<Longrightarrow>
       poll_fut G c (jrt None b ps) = Some (Some v, G', jrt None b (fold del_reason rs ps))"
    by (rule done_withE) blast
  have "droppable f" using assms(2) by (simp add: sleeping_def)
  from droppable_or [OF assms(1) this G(1)] show ?thesis
    by (rule done_withI [where rs = rs]) (simp add: or_lawD [OF assms(1)] G sleeping_none [OF assms(2)])
qed

section \<open>Contexts\<close>

text \<open>
  The futures around the one at work, which a response other than to the reasons \<open>A\<close> passes by on its
  way in; they do nothing when the one at work falls asleep.
\<close>

definition ctx :: "('a jfut \<Rightarrow> 'z jfut) \<Rightarrow> json_parser_yield_reason set \<Rightarrow> bool" where
  "ctx K A \<longleftrightarrow>
     (\<forall>G G' c u b ps b' ps'. roomy_json ps \<longrightarrow> roomy_json ps' \<longrightarrow> (\<forall>r x. u = Some (r, x) \<longrightarrow> r \<notin> A) \<longrightarrow>
        poll_fut G c (jrt u b ps) = poll_fut G' c (jrt None b' ps') \<longrightarrow>
        poll_fut (K G) c (jrt u b ps) = poll_fut (K G') c (jrt None b' ps')) \<and>
     (\<forall>G G' c b ps b' ps'. roomy_json ps \<longrightarrow> roomy_json ps' \<longrightarrow>
        poll_fut G c (jrt None b ps) = Some (None, G', jrt None b' ps') \<longrightarrow>
        poll_fut (K G) c (jrt None b ps) = Some (None, K G', jrt None b' ps'))"

lemma ctx_response:
  "ctx K A \<Longrightarrow> roomy_json ps \<Longrightarrow> roomy_json ps' \<Longrightarrow> r \<notin> A \<Longrightarrow>
   poll_fut G c (jrt (Some (r, x)) b ps) = poll_fut G' c (jrt None b' ps') \<Longrightarrow>
   poll_fut (K G) c (jrt (Some (r, x)) b ps) = poll_fut (K G') c (jrt None b' ps')"
  unfolding ctx_def by blast

lemma ctx_same:
  "ctx K A \<Longrightarrow> roomy_json ps \<Longrightarrow> roomy_json ps' \<Longrightarrow>
   poll_fut G c (jrt None b ps) = poll_fut G' c (jrt None b' ps') \<Longrightarrow>
   poll_fut (K G) c (jrt None b ps) = poll_fut (K G') c (jrt None b' ps')"
  unfolding ctx_def by blast

lemma ctx_sleep:
  "ctx K A \<Longrightarrow> roomy_json ps \<Longrightarrow> roomy_json ps' \<Longrightarrow>
   poll_fut G c (jrt None b ps) = Some (None, G', jrt None b' ps') \<Longrightarrow>
   poll_fut (K G) c (jrt None b ps) = Some (None, K G', jrt None b' ps')"
  unfolding ctx_def by blast

lemma ctx_id: "ctx (\<lambda>F. F) {}"
  by (simp add: ctx_def)

lemma ctx_compose:
  assumes "ctx K A" "ctx L B"
  shows "ctx (\<lambda>F. K (L F)) (A \<union> B)"
  using assms unfolding ctx_def by (metis Un_iff)

lemma ctx_try_then: "ctx (\<lambda>F. try_then F k) {}"
  by (simp add: ctx_def poll_simps)

lemma ctx_or_left:
  assumes "or_law or_fut" "sleeping g S"
  shows "ctx (\<lambda>F. or_fut F g) {}"
  by (simp add: ctx_def or_lawD [OF assms(1)] sleeping_none [OF assms(2)])

lemma ctx_or_right:
  assumes "or_law or_fut" "sleeping f S"
  shows "ctx (\<lambda>F. or_fut f F) S"
proof -
  have "poll_fut f c (jrt u b ps) = Some (None, f, jrt u b ps)"
    if "roomy_json ps" "\<forall>r x. u = Some (r, x) \<longrightarrow> r \<notin> S" for c u b ps
    using that assms(2) unfolding sleeping_def by blast
  then show ?thesis
    unfolding ctx_def or_lawD(1) [OF assms(1)] by (simp add: sleeping_none [OF assms(2)])
qed

lemmas ctx_then = ctx_compose [OF _ ctx_try_then, simplified Un_empty_right]
lemmas ctx_or_first = ctx_compose [OF _ ctx_or_left, simplified Un_empty_right]
lemmas ctx_or_second = ctx_compose [OF _ ctx_or_right]

section \<open>Runs\<close>

text \<open>
  From the poll of \<open>F\<close> at index \<open>i\<close>, at most \<open>B\<close> rounds of the loop lead to the poll of \<open>G\<close> at \<open>j\<close>; and
  the same from the point where the loop has just polled and found \<open>F\<close> waiting for the reasons \<open>R\<close>.
\<close>

definition leads :: "nat \<Rightarrow> string \<Rightarrow> 'z jfut \<Rightarrow> nat \<Rightarrow> 'z jfut \<Rightarrow> nat \<Rightarrow> bool" where
  "leads B s F i G j \<longleftrightarrow> (\<exists>m \<le> B. \<forall>b ps. tab s i {} ps \<longrightarrow> (\<exists>b' ps'. tab s j {} ps' \<and>
     (\<forall>n. after (m + n) s i (poll_fut F i (jrt None b ps)) = after n s j (poll_fut G j (jrt None b' ps')))))"

definition waits :: "nat \<Rightarrow> string \<Rightarrow> 'z jfut \<Rightarrow> nat \<Rightarrow> json_parser_yield_reason set \<Rightarrow> 'z jfut \<Rightarrow> nat \<Rightarrow> bool" where
  "waits B s F i R G j \<longleftrightarrow> (\<exists>m \<le> B. \<forall>b ps. tab s i R ps \<longrightarrow> (\<exists>b' ps'. tab s j {} ps' \<and>
     (\<forall>n. tail (m + n) s i F (jrt None b ps) = after n s j (poll_fut G j (jrt None b' ps')))))"

lemma waits_leads:
  assumes "waits B s F i R G j" "leads C s G j H l"
  shows "waits (B + C) s F i R H l"
proof -
  from assms(1) obtain m where m: "m \<le> B" "\<And>b ps. tab s i R ps \<Longrightarrow> \<exists>b' ps'. tab s j {} ps' \<and>
     (\<forall>n. tail (m + n) s i F (jrt None b ps) = after n s j (poll_fut G j (jrt None b' ps')))"
    unfolding waits_def by blast
  from assms(2) obtain k where k: "k \<le> C" "\<And>b ps. tab s j {} ps \<Longrightarrow> \<exists>b' ps'. tab s l {} ps' \<and>
     (\<forall>n. after (k + n) s j (poll_fut G j (jrt None b ps)) = after n s l (poll_fut H l (jrt None b' ps')))"
    unfolding leads_def by blast
  show ?thesis unfolding waits_def
  proof (intro exI [of _ "m + k"] conjI allI impI)
    fix b ps assume "tab s i R ps"
    with m(2) obtain b' ps' where 1: "tab s j {} ps'"
      "\<And>n. tail (m + n) s i F (jrt None b ps) = after n s j (poll_fut G j (jrt None b' ps'))" by blast
    from k(2) [OF 1(1)] obtain b'' ps'' where 2: "tab s l {} ps''"
      "\<And>n. after (k + n) s j (poll_fut G j (jrt None b' ps')) = after n s l (poll_fut H l (jrt None b'' ps''))"
      by blast
    show "\<exists>b' ps'. tab s l {} ps' \<and>
        (\<forall>n. tail (m + k + n) s i F (jrt None b ps) = after n s l (poll_fut H l (jrt None b' ps')))"
      using 1(2) [of "k + n" for n] 2 by (auto simp: add.assoc)
  qed (use m k in simp)
qed

lemma leads_start:
  assumes K: "ctx K A" and p: "starts p i Rg p'" and w: "waits B s (K p') i Rg G j"
  shows "leads B s (K p) i G j"
proof -
  from w obtain m where m: "m \<le> B" "\<And>b ps. tab s i Rg ps \<Longrightarrow> \<exists>b' ps'. tab s j {} ps' \<and>
     (\<forall>n. tail (m + n) s i (K p') (jrt None b ps) = after n s j (poll_fut G j (jrt None b' ps')))"
    unfolding waits_def by blast
  show ?thesis unfolding leads_def
  proof (intro exI [of _ m] conjI allI impI)
    fix b ps assume t: "tab s i {} ps"
    from startsD [OF p t] obtain ps1 where 1:
      "poll_fut p i (jrt None b ps) = Some (None, p', jrt None True ps1)" "tab s i Rg ps1" by auto
    have "poll_fut (K p) i (jrt None b ps) = Some (None, K p', jrt None True ps1)"
      by (rule ctx_sleep [OF K tab_roomy [OF t] tab_roomy [OF 1(2)] 1(1)])
    then show "\<exists>b' ps'. tab s j {} ps' \<and> (\<forall>n. after (m + n) s i (poll_fut (K p) i (jrt None b ps)) =
        after n s j (poll_fut G j (jrt None b' ps')))"
      using m(2) [OF 1(2)] by (simp add: after_def)
  qed (rule m(1))
qed

lemma leads_done:
  assumes K: "ctx K A" and F: "done_with F (Inr v)" and l: "leads B s (K (k v)) i G j"
  shows "leads B s (K (try_then F k)) i G j"
proof -
  from F obtain F' rs qs where F:
    "\<And>c b ps. roomy_json ps \<Longrightarrow>
       poll_fut F c (jrt None b ps) = Some (Some (Inr v), F', jrt None b (fold del_reason rs ps))"
    "\<And>u b ps. roomy_json ps \<Longrightarrow> drop_fut F' (jrt u b ps) = Some (jrt u b (fold del_reason qs ps))"
    by (rule done_withE) blast
  have same: "poll_fut (K (try_then F k)) i (jrt None b ps) =
      poll_fut (K (k v)) i (jrt None b (fold del_reason (rs @ qs) ps))" if "roomy_json ps" for b ps
    by (rule ctx_same [OF K that]) (simp_all add: poll_simps F that roomy_del_all)
  from l obtain m where m: "m \<le> B" "\<And>b ps. tab s i {} ps \<Longrightarrow> \<exists>b' ps'. tab s j {} ps' \<and>
     (\<forall>n. after (m + n) s i (poll_fut (K (k v)) i (jrt None b ps)) = after n s j (poll_fut G j (jrt None b' ps')))"
    unfolding leads_def by blast
  show ?thesis unfolding leads_def
  proof (intro exI [of _ m] conjI allI impI)
    fix b ps assume t: "tab s i {} ps"
    show "\<exists>b' ps'. tab s j {} ps' \<and> (\<forall>n. after (m + n) s i (poll_fut (K (try_then F k)) i (jrt None b ps)) =
        after n s j (poll_fut G j (jrt None b' ps')))"
      unfolding same [OF tab_roomy [OF t]] by (rule m(2) [OF tab_del_all [OF t]])
  qed (rule m(1))
qed

lemma waits_response:
  fixes K :: "string jfut \<Rightarrow> 'z jfut"
  assumes K: "ctx K A" "r \<notin> A"
    and t: "\<And>b ps (F :: 'z jfut). tab s i R ps \<Longrightarrow> \<exists>ps'. tab s j {} ps' \<and> (\<forall>n. tail (Suc n) s i F (jrt None b ps) =
      after n s j (poll_fut F j (jrt (Some (r, x)) False ps')))"
  shows "waits 1 s (K (pending_fut (Waiting r))) i R (K (ready (Inr x))) j"
  unfolding waits_def
proof (intro exI [of _ 1] conjI allI impI order_refl)
  fix b ps assume "tab s i R ps"
  from t [OF this, where b = b and F = "K (pending_fut (Waiting r))"] obtain ps' where ps': "tab s j {} ps'"
    "\<And>n. tail (Suc n) s i (K (pending_fut (Waiting r))) (jrt None b ps) =
      after n s j (poll_fut (K (pending_fut (Waiting r))) j (jrt (Some (r, x)) False ps'))" by blast
  have r: "roomy_json ps'" by (rule tab_roomy [OF ps'(1)])
  have "poll_fut (K (pending_fut (Waiting r))) j (jrt (Some (r, x)) False ps') =
      poll_fut (K (ready (Inr x))) j (jrt None False (del_reason r ps'))"
    by (rule ctx_response [OF K(1) r roomy_del [OF r] K(2)])
      (use takes_pending [of r x] r in \<open>simp add: takes_def\<close>)
  then show "\<exists>b' ps'. tab s j {} ps' \<and> (\<forall>n. tail (1 + n) s i (K (pending_fut (Waiting r))) (jrt None b ps) =
      after n s j (poll_fut (K (ready (Inr x))) j (jrt None b' ps')))"
    using ps'(2) tab_del [OF ps'(1), of r] by auto
qed

section \<open>Futures that parse\<close>

text \<open>
  Started at index \<open>i\<close> of the input, the future registers the reasons \<open>Rg\<close>, takes responses to
  reasons of \<open>D\<close> in at most \<open>B\<close> rounds, and is done with the value \<open>v\<close> at index \<open>j\<close>, whatever futures
  run beside it as long as they do not wait for a reason of \<open>D\<close> before it does.
\<close>

definition parses :: "'z itself \<Rightarrow> json_parser_yield_reason set \<Rightarrow> nat \<Rightarrow> string \<Rightarrow> nat \<Rightarrow> 'a jfut \<Rightarrow>
    json_parser_yield_reason set \<Rightarrow> nat \<Rightarrow> 'a \<Rightarrow> bool" where
  "parses z D B s i p Rg j v \<longleftrightarrow> (\<exists>p' F. starts p i Rg p' \<and> done_with F (Inr v) \<and>
     (\<forall>(K :: 'a jfut \<Rightarrow> 'z jfut) A R. ctx K A \<longrightarrow> A \<inter> D = {} \<longrightarrow> (\<forall>r \<in> R. sat s i r \<longrightarrow> r \<in> Rg) \<longrightarrow>
        waits B s (K p') i (R \<union> Rg) (K F) j))"

lemma parsesI:
  fixes z :: "'z itself"
  assumes "starts p i Rg p'" "done_with F (Inr v)"
    "\<And>(K :: 'a jfut \<Rightarrow> 'z jfut) A R. ctx K A \<Longrightarrow> A \<inter> D = {} \<Longrightarrow> (\<forall>r \<in> R. sat s i r \<longrightarrow> r \<in> Rg) \<Longrightarrow>
       waits B s (K p') i (R \<union> Rg) (K F) j"
  shows "parses z D B s i p Rg j v"
  unfolding parses_def using assms by (intro exI [of _ p'] exI [of _ F]) simp

lemma parsesE:
  fixes z :: "'z itself"
  assumes "parses z D B s i p Rg j v"
  obtains p' F where "starts p i Rg p'" "done_with F (Inr v)"
    "\<And>(K :: 'a jfut \<Rightarrow> 'z jfut) A R. ctx K A \<Longrightarrow> A \<inter> D = {} \<Longrightarrow> (\<forall>r \<in> R. sat s i r \<longrightarrow> r \<in> Rg) \<Longrightarrow>
       waits B s (K p') i (R \<union> Rg) (K F) j"
proof -
  from assms obtain p' F where "starts p i Rg p'" "done_with F (Inr v)" and
    w: "\<forall>(K :: 'a jfut \<Rightarrow> 'z jfut) A R. ctx K A \<longrightarrow> A \<inter> D = {} \<longrightarrow> (\<forall>r \<in> R. sat s i r \<longrightarrow> r \<in> Rg) \<longrightarrow>
        waits B s (K p') i (R \<union> Rg) (K F) j"
    unfolding parses_def by (elim exE conjE)
  then show thesis by (intro that [of p' F]) simp_all
qed

lemma waits_mono: "waits B s F i R G j \<Longrightarrow> B \<le> C \<Longrightarrow> waits C s F i R G j"
  unfolding waits_def using order_trans by blast

lemma parses_weaken:
  fixes z :: "'z itself" and p :: "'a jfut"
  assumes "parses z D B s i p Rg j v" "D \<subseteq> D'" "B \<le> B'"
  shows "parses z D' B' s i p Rg j v"
proof -
  from assms(1) show ?thesis
  proof (rule parsesE)
    fix p' F assume p: "starts p i Rg p'" "done_with F (Inr v)" and w:
      "\<And>(K :: 'a jfut \<Rightarrow> 'z jfut) A R. ctx K A \<Longrightarrow> A \<inter> D = {} \<Longrightarrow> (\<forall>r \<in> R. sat s i r \<longrightarrow> r \<in> Rg) \<Longrightarrow>
         waits B s (K p') i (R \<union> Rg) (K F) j"
    show "parses z D' B' s i p Rg j v"
      using assms(2,3) by (intro parsesI [OF p] waits_mono [OF w]) auto
  qed
qed

lemma parses_context: "parses z D B s i (f i) Rg j v \<Longrightarrow> parses z D B s i (with_context f) Rg j v"
  unfolding parses_def using starts_context by metis

lemma parses_then_done:
  fixes z :: "'z itself" and p :: "'a jfut"
  assumes "parses z D B s i p Rg j v" "done_with (k v) (Inr w)"
  shows "parses z D B s i (try_then p k) Rg j w"
proof -
  from assms(1) show ?thesis
  proof (rule parsesE)
    fix p' F assume p: "starts p i Rg p'" "done_with F (Inr v)" and w:
      "\<And>(K :: 'a jfut \<Rightarrow> 'z jfut) A R. ctx K A \<Longrightarrow> A \<inter> D = {} \<Longrightarrow> (\<forall>r \<in> R. sat s i r \<longrightarrow> r \<in> Rg) \<Longrightarrow>
         waits B s (K p') i (R \<union> Rg) (K F) j"
    show ?thesis
      by (rule parsesI [OF starts_then(2) [OF p(1)] done_then [where k = k, OF p(2) assms(2)]]) (rule w [OF ctx_then])
  qed
qed

lemma parses_then:
  fixes z :: "'z itself" and p :: "'a jfut" and k :: "'a \<Rightarrow> 'b jfut"
  assumes "parses z D B s i p Rg j v" "parses z D' B' s j (k v) Rh l w"
  shows "parses z (D \<union> D') (B + B') s i (try_then p k) Rg l w"
proof -
  from assms(1) show ?thesis
  proof (rule parsesE)
    fix p' F assume p: "starts p i Rg p'" "done_with F (Inr v)" and w:
      "\<And>(K :: 'a jfut \<Rightarrow> 'z jfut) A R. ctx K A \<Longrightarrow> A \<inter> D = {} \<Longrightarrow> (\<forall>r \<in> R. sat s i r \<longrightarrow> r \<in> Rg) \<Longrightarrow>
         waits B s (K p') i (R \<union> Rg) (K F) j"
    from assms(2) show ?thesis
    proof (rule parsesE)
      fix q' G assume q: "starts (k v) j Rh q'" "done_with G (Inr w)" and w2:
        "\<And>(K :: 'b jfut \<Rightarrow> 'z jfut) A R. ctx K A \<Longrightarrow> A \<inter> D' = {} \<Longrightarrow> (\<forall>r \<in> R. sat s j r \<longrightarrow> r \<in> Rh) \<Longrightarrow>
           waits B' s (K q') j (R \<union> Rh) (K G) l"
      show ?thesis
      proof (rule parsesI [OF starts_then(2) [OF p(1)] q(2)])
        fix K :: "'b jfut \<Rightarrow> 'z jfut" and A R
        assume K: "ctx K A" "A \<inter> (D \<union> D') = {}" "\<forall>r \<in> R. sat s i r \<longrightarrow> r \<in> Rg"
        have "waits B s (K (try_then p' k)) i (R \<union> Rg) (K (try_then F k)) j"
          using K by (intro w [OF ctx_then]) auto
        moreover have "leads B' s (K (try_then F k)) j (K G) l"
          using K w2 [OF K(1), of "{}"]
          by (intro leads_done [OF K(1) p(2)] leads_start [OF K(1) q(1)]) auto
        ultimately show "waits (B + B') s (K (try_then p' k)) i (R \<union> Rg) (K G) l"
          by (rule waits_leads)
      qed
    qed
  qed
qed

lemma parses_or_first:
  fixes z :: "'z itself" and p :: "'a jfut"
  assumes o: "or_law or_fut" and "parses z D B s i p Rg j v" and q: "starts q i Rh q'"
    and sat: "\<And>r. r \<in> Rh \<Longrightarrow> sat s i r \<Longrightarrow> r \<in> Rg"
  shows "parses z D B s i (or_fut p q) (Rg \<union> Rh) j v"
proof -
  have q': "sleeping q' Rh" using q by (simp add: starts_def)
  from assms(2) show ?thesis
  proof (rule parsesE)
    fix p' F assume p: "starts p i Rg p'" "done_with F (Inr v)" and w:
      "\<And>(K :: 'a jfut \<Rightarrow> 'z jfut) A R. ctx K A \<Longrightarrow> A \<inter> D = {} \<Longrightarrow> (\<forall>r \<in> R. sat s i r \<longrightarrow> r \<in> Rg) \<Longrightarrow>
         waits B s (K p') i (R \<union> Rg) (K F) j"
    have "done_with (or_fut F q') (Inr v)"
      by (rule done_or_first [OF o p(2)]) (use q' in \<open>simp add: sleeping_def\<close>)
    then show ?thesis
    proof (rule parsesI [OF starts_or [OF o p(1) q]])
      fix K :: "'a jfut \<Rightarrow> 'z jfut" and A R
      assume K: "ctx K A" "A \<inter> D = {}" "\<forall>r \<in> R. sat s i r \<longrightarrow> r \<in> Rg \<union> Rh"
      have "waits B s (K (or_fut p' q')) i ((R \<union> Rh) \<union> Rg) (K (or_fut F q')) j"
        using K sat by (intro w [OF ctx_or_first [OF K(1) o q']]) auto
      then show "waits B s (K (or_fut p' q')) i (R \<union> (Rg \<union> Rh)) (K (or_fut F q')) j"
        by (simp only: Un_ac)
    qed
  qed
qed

lemma parses_or_second:
  fixes z :: "'z itself" and p :: "'a jfut"
  assumes o: "or_law or_fut" and p: "starts p i Rg p'" and "parses z D B s i q Rh j v"
    and sat: "\<And>r. r \<in> Rg \<Longrightarrow> sat s i r \<Longrightarrow> r \<in> Rh" and D: "Rg \<inter> D = {}"
  shows "parses z D B s i (or_fut p q) (Rg \<union> Rh) j v"
proof -
  have p': "sleeping p' Rg" using p by (simp add: starts_def)
  from assms(3) show ?thesis
  proof (rule parsesE)
    fix q' F assume q: "starts q i Rh q'" "done_with F (Inr v)" and w:
      "\<And>(K :: 'a jfut \<Rightarrow> 'z jfut) A R. ctx K A \<Longrightarrow> A \<inter> D = {} \<Longrightarrow> (\<forall>r \<in> R. sat s i r \<longrightarrow> r \<in> Rh) \<Longrightarrow>
         waits B s (K q') i (R \<union> Rh) (K F) j"
    show ?thesis
    proof (rule parsesI [OF starts_or [OF o p q(1)] done_or_second [OF o p' q(2)]])
      fix K :: "'a jfut \<Rightarrow> 'z jfut" and A R
      assume K: "ctx K A" "A \<inter> D = {}" "\<forall>r \<in> R. sat s i r \<longrightarrow> r \<in> Rg \<union> Rh"
      have "waits B s (K (or_fut p' q')) i ((R \<union> Rg) \<union> Rh) (K (or_fut p' F)) j"
        using K sat D by (intro w [OF ctx_or_second [OF K(1) o p']]) auto
      then show "waits B s (K (or_fut p' q')) i (R \<union> (Rg \<union> Rh)) (K (or_fut p' F)) j"
        by (simp only: Un_assoc)
    qed
  qed
qed

lemma parses_await:
  fixes z :: "'z itself"
  assumes "sat s i r" "ascii_at s i" "respond r i [s ! i] = (x, j)" "j \<noteq> i"
  shows "parses z {r} 1 s i (new_pending_future r) {r} j x"
proof (rule parsesI [OF starts_pending done_ready])
  show "idx r \<in> {0, i}" using assms(1) by (auto simp: sat_def valid_at_iff)
  fix K :: "string jfut \<Rightarrow> 'z jfut" and A R
  assume K: "ctx K A" "A \<inter> {r} = {}" "\<forall>q \<in> R. sat s i q \<longrightarrow> q \<in> {r}"
  then show "waits 1 s (K (pending_fut (Waiting r))) i (R \<union> {r}) (K (ready (Inr x))) j"
    using assms by (intro waits_response [OF K(1)] tail_normal) auto
qed

lemma parses_empty:
  fixes z :: "'z itself"
  assumes "i < length s \<Longrightarrow> ascii_at s i"
  shows "parses z {EmptyString} 1 s i (new_pending_future EmptyString) {EmptyString} i []"
proof (rule parsesI [OF starts_pending done_ready])
  fix K :: "string jfut \<Rightarrow> 'z jfut" and A R
  assume K: "ctx K A" "A \<inter> {EmptyString} = {}" "\<forall>q \<in> R. sat s i q \<longrightarrow> q \<in> {EmptyString}"
  have "\<not> sat s i EmptyString" by (simp add: sat_def satisfied_empty)
  then show "waits 1 s (K (pending_fut (Waiting EmptyString))) i (R \<union> {EmptyString}) (K (ready (Inr []))) i"
    using K assms by (intro waits_response [OF K(1)] tail_empty) auto
qed simp

lemma done_and_then_ready:
  assumes "done_with F v"
  shows "done_with (and_then F ready) v"
proof -
  from assms obtain F' rs qs where F:
    "\<And>c b ps. roomy_json ps \<Longrightarrow>
       poll_fut F c (jrt None b ps) = Some (Some v, F', jrt None b (fold del_reason rs ps))"
    "\<And>u b ps. roomy_json ps \<Longrightarrow> drop_fut F' (jrt u b ps) = Some (jrt u b (fold del_reason qs ps))"
    by (rule done_withE) blast
  show ?thesis
    by (rule done_withI [OF droppable_rules(1), of _ _ "rs @ qs"]) (simp add: poll_simps F roomy_del_all)
qed

lemma ctx_and_then: "ctx (\<lambda>F. and_then F k) {}"
  by (simp add: ctx_def poll_simps)

lemma parses_and_then_ready:
  fixes z :: "'z itself" and p :: "'a jfut"
  assumes "parses z D B s i p Rg j v"
  shows "parses z D B s i (and_then p ready) Rg j v"
proof -
  from assms show ?thesis
  proof (rule parsesE)
    fix p' F assume p: "starts p i Rg p'" "done_with F (Inr v)" and w:
      "\<And>(K :: 'a jfut \<Rightarrow> 'z jfut) A R. ctx K A \<Longrightarrow> A \<inter> D = {} \<Longrightarrow> (\<forall>r \<in> R. sat s i r \<longrightarrow> r \<in> Rg) \<Longrightarrow>
         waits B s (K p') i (R \<union> Rg) (K F) j"
    show ?thesis
      by (rule parsesI [OF starts_then(1) [OF p(1)] done_and_then_ready [OF p(2)]])
        (rule w [OF ctx_compose [OF _ ctx_and_then, simplified Un_empty_right]])
  qed
qed

text \<open>The first poll of a future puts it to sleep.\<close>

definition wakes :: "'a jfut \<Rightarrow> nat \<Rightarrow> json_parser_yield_reason set \<Rightarrow> bool" where
  "wakes p i Rg \<longleftrightarrow> (\<exists>p'. starts p i Rg p')"

lemma wakes_rules:
  "idx r \<in> {0, i} \<Longrightarrow> wakes (new_pending_future r) i {r}"
  "wakes p i Rg \<Longrightarrow> wakes (and_then p k) i Rg"
  "wakes q i Rg \<Longrightarrow> wakes (try_then q k') i Rg"
  "wakes (f i) i Rg \<Longrightarrow> wakes (with_context f) i Rg"
  "or_law or_fut \<Longrightarrow> wakes h i Rg \<Longrightarrow> wakes h' i Rh \<Longrightarrow> wakes (or_fut h h') i (Rg \<union> Rh)"
  unfolding wakes_def
  by (blast intro: starts_pending starts_then starts_context starts_or)+

lemma parses_or_left:
  assumes "or_law or_fut" "parses z D B s i p Rg j v" "wakes q i Rh"
    "\<And>r. r \<in> Rh \<Longrightarrow> sat s i r \<Longrightarrow> r \<in> Rg"
  shows "parses z D B s i (or_fut p q) (Rg \<union> Rh) j v"
  using assms unfolding wakes_def by (blast intro: parses_or_first)

lemma parses_or_right:
  assumes "or_law or_fut" "wakes p i Rg" "parses z D B s i q Rh j v"
    "\<And>r. r \<in> Rg \<Longrightarrow> sat s i r \<Longrightarrow> r \<in> Rh" "Rg \<inter> D = {}"
  shows "parses z D B s i (or_fut p q) (Rg \<union> Rh) j v"
  using assms unfolding wakes_def by (blast intro: parses_or_second)

text \<open>A future that parses, run on its own.\<close>

lemma parses_run:
  fixes p :: "'a jfut"
  assumes "parses TYPE('a) D B s 0 p Rg j v" "B < n"
  shows "run_parser n s p (async_runtime_new JSON_MAX_PENDING) = Inr v"
proof -
  from assms(1) show ?thesis
  proof (rule parsesE)
    fix p' F assume p: "starts p 0 Rg p'" and F: "done_with F (Inr v)" and w:
      "\<And>(K :: 'a jfut \<Rightarrow> 'a jfut) A R. ctx K A \<Longrightarrow> A \<inter> D = {} \<Longrightarrow> (\<forall>r \<in> R. sat s 0 r \<longrightarrow> r \<in> Rg) \<Longrightarrow>
         waits B s (K p') 0 (R \<union> Rg) (K F) j"
    have t: "tab s 0 {} []" by (simp add: tab_def descending_def)
    from startsD [OF p t] obtain ps where ps: "tab s 0 Rg ps"
      "poll_fut p 0 (jrt None False []) = Some (None, p', jrt None True ps)" by auto
    from w [OF ctx_id, of "{}"] obtain m where m: "m \<le> B" "\<And>b ps. tab s 0 Rg ps \<Longrightarrow> \<exists>b' ps'. tab s j {} ps' \<and>
     (\<forall>n. tail (m + n) s 0 p' (jrt None b ps) = after n s j (poll_fut F j (jrt None b' ps')))"
      by (auto simp: waits_def)
    from m(2) [OF ps(1)] obtain b' ps' where *: "tab s j {} ps'"
      "\<And>n. tail (m + n) s 0 p' (jrt None True ps) = after n s j (poll_fut F j (jrt None b' ps'))" by blast
    obtain l where n: "n = Suc (m + l)"
      using m(1) assms(2) by (metis le_add_diff_inverse less_iff_Suc_add order_le_less_trans)
    have "run_parser n s p (async_runtime_new JSON_MAX_PENDING) = after (m + l) s 0 (poll_fut p 0 (jrt None False []))"
      unfolding run_parser_def async_runtime_new_with n run_loop_after ..
    also have "\<dots> = after l s j (poll_fut F j (jrt None b' ps'))"
      using *(2) [of l] by (simp add: ps(2) after_def)
    also have "\<dots> = Inr v"
      using F tab_roomy [OF *(1)] by (auto simp: done_with_def after_def finish_def)
    finally show ?thesis .
  qed
qed

end
