(* ===== verification/Json_Grammar.thy ===== *)
theory Json_Grammar
  imports Json_Runs
begin

text \<open>
  The JSON parser accepts its grammar.  The grammar is that of the comments of
  \<open>krsm/examples/json_parser.rs\<close>, without empty arrays and objects and without hexadecimal escapes,
  which the parser does not accept in general.
\<close>

section \<open>The grammar\<close>

definition ws_chars :: "char set" where
  "ws_chars = {CHR 0x20, CHR 0x09, CHR 0x0A, CHR 0x0D}"

definition digit_chars :: "char set" where
  "digit_chars = set ''0123456789''"

definition number_chars :: "char set" where
  "number_chars = digit_chars \<union> set ''.eE''"

definition escape_chars :: "char set" where
  "escape_chars = set (CHR 0x22 # CHR 0x5C # ''/bfnrt'')"

text \<open>The characters of a string and their values.\<close>

inductive characters :: "string \<Rightarrow> string \<Rightarrow> bool" where
  characters_none: "characters [] []"
| characters_plain: "characters t cs \<Longrightarrow> (of_char c :: nat) < 128 \<Longrightarrow> c \<noteq> CHR 0x22 \<Longrightarrow> c \<noteq> CHR 0x5C \<Longrightarrow>
    characters (c # t) (c # cs)"
| characters_escape: "characters t cs \<Longrightarrow> e \<in> escape_chars \<Longrightarrow>
    characters (CHR 0x5C # e # t) (unescape [e] @ cs)"

definition digits :: "string \<Rightarrow> bool" where
  "digits t \<longleftrightarrow> t \<noteq> [] \<and> set t \<subseteq> digit_chars"

definition number :: "string \<Rightarrow> bool" where
  "number t \<longleftrightarrow> (\<exists>sg ds fr ex. t = sg @ ds @ fr @ ex \<and> sg \<in> {[], ''+'', ''-''} \<and> digits ds \<and>
     (fr = [] \<or> (\<exists>fs. fr = ''.'' @ fs \<and> digits fs)) \<and>
     (ex = [] \<or> (\<exists>e es. ex = e # es \<and> e \<in> {CHR ''e'', CHR ''E''} \<and> digits es)))"

inductive val :: "string \<Rightarrow> json \<Rightarrow> bool"
  and element :: "string \<Rightarrow> json \<Rightarrow> bool"
  and elements :: "string \<Rightarrow> json list \<Rightarrow> bool"
  and member :: "string \<Rightarrow> string \<Rightarrow> json \<Rightarrow> bool"
  and members :: "string \<Rightarrow> (string \<rightharpoonup> json) \<Rightarrow> bool" where
  val_number: "number t \<Longrightarrow> val t (Number t)"
| val_string: "characters t cs \<Longrightarrow> val ([CHR 0x22] @ t @ [CHR 0x22]) (String cs)"
| val_true: "val ''true'' (Boolean True)"
| val_false: "val ''false'' (Boolean False)"
| val_null: "val ''null'' Null"
| val_array: "elements t xs \<Longrightarrow> val (''['' @ t @ '']'') (Array xs)"
| val_object: "members t m \<Longrightarrow> val (''{'' @ t @ ''}'') (Object m)"
| element: "set v \<subseteq> ws_chars \<Longrightarrow> val t x \<Longrightarrow> set w \<subseteq> ws_chars \<Longrightarrow> element (v @ t @ w) x"
| elements_one: "element t x \<Longrightarrow> elements t [x]"
| elements_more: "element t x \<Longrightarrow> elements u xs \<Longrightarrow> elements (t @ '','' @ u) (x # xs)"
| member: "set v \<subseteq> ws_chars \<Longrightarrow> characters k cs \<Longrightarrow> set w \<subseteq> ws_chars \<Longrightarrow> element t x \<Longrightarrow>
    member (v @ ([CHR 0x22] @ k @ [CHR 0x22]) @ w @ '':'' @ t) cs x"
| members_one: "member t k x \<Longrightarrow> members t [k \<mapsto> x]"
| members_more: "member t k x \<Longrightarrow> members u m \<Longrightarrow> members (t @ '','' @ u) (m(k \<mapsto> x))"

section \<open>The input at an index\<close>

definition opener :: "json_parser_yield_reason \<Rightarrow> bool" where
  "opener r = (case r of
     LiteralArrayStart _ \<Rightarrow> True | LiteralObjectStart _ \<Rightarrow> True | LiteralStringStart _ \<Rightarrow> True | _ \<Rightarrow> False)"

primrec text_at :: "string \<Rightarrow> nat \<Rightarrow> string \<Rightarrow> bool" where
  "text_at s i [] \<longleftrightarrow> True"
| "text_at s i (c # t) \<longleftrightarrow> i < length s \<and> s ! i = c \<and> text_at s (Suc i) t"

definition stops :: "string \<Rightarrow> nat \<Rightarrow> char set \<Rightarrow> bool" where
  "stops s i C \<longleftrightarrow> (i < length s \<longrightarrow> ascii_at s i \<and> s ! i \<notin> C)"

lemma text_at_append [simp]:
  "text_at s i (t @ u) \<longleftrightarrow> text_at s i t \<and> text_at s (i + length t) u"
  by (induction t arbitrary: i) auto

lemma drop_first: "i < length s \<Longrightarrow> drop i s = s ! i # drop (Suc i) s"
  by (simp add: Cons_nth_drop_Suc)

lemma text_at_take: "text_at s i t \<Longrightarrow> str_starts_with (drop i s) t"
proof (induction t arbitrary: i)
  case (Cons c t)
  then have i: "i < length s" and "s ! i = c" "str_starts_with (drop (Suc i) s) t" by simp_all
  then show ?case by (simp add: str_starts_with_def drop_first [OF i])
qed (simp add: str_starts_with_def)

lemma text_at_self: "text_at (p @ t @ r) (length p) t"
proof (induction t arbitrary: p)
  case (Cons c t)
  from Cons [of "p @ [c]"] show ?case by simp
qed simp

lemma contains_single: "str_contains s [c] \<longleftrightarrow> c \<in> set s"
proof -
  have "str_starts_with (drop i s) [c] \<longleftrightarrow> i < length s \<and> s ! i = c" for i
    using drop_first [of i s] by (cases "i < length s") (auto simp: str_starts_with_def)
  then have "str_contains s [c] \<longleftrightarrow> (\<exists>i \<in> {..length s}. i < length s \<and> s ! i = c)"
    by (simp only: str_contains_def)
  then show ?thesis unfolding in_set_conv_nth by (auto intro: less_imp_le)
qed

lemma sat_simps:
  "sat s i EmptyString \<longleftrightarrow> False"
  "sat s i (LiteralArrayStart i) \<longleftrightarrow> i < length s \<and> s ! i = CHR ''[''"
  "sat s i (LiteralArrayEnd i) \<longleftrightarrow> i < length s \<and> s ! i = CHR '']''"
  "sat s i (LiteralObjectStart i) \<longleftrightarrow> i < length s \<and> s ! i = CHR ''{''"
  "sat s i (LiteralObjectEnd i) \<longleftrightarrow> i < length s \<and> s ! i = CHR ''}''"
  "sat s i (LiteralStringStart i) \<longleftrightarrow> i < length s \<and> s ! i = CHR 0x22"
  "sat s i (LiteralStringEnd i) \<longleftrightarrow> i < length s \<and> s ! i = CHR 0x22"
  "sat s i (LiteralColon i) \<longleftrightarrow> i < length s \<and> s ! i = CHR '':''"
  "sat s i (LiteralComma i) \<longleftrightarrow> i < length s \<and> s ! i = CHR '',''"
  "sat s i (LiteralPeriod i) \<longleftrightarrow> i < length s \<and> s ! i = CHR ''.''"
  "sat s i (LiteralTrue i) \<longleftrightarrow> i < length s \<and> str_starts_with (drop i s) ''true''"
  "sat s i (LiteralFalse i) \<longleftrightarrow> i < length s \<and> str_starts_with (drop i s) ''false''"
  "sat s i (LiteralNull i) \<longleftrightarrow> i < length s \<and> str_starts_with (drop i s) ''null''"
  "sat s i (LiteralSlash i) \<longleftrightarrow> i < length s \<and> s ! i = CHR 0x5C"
  "sat s i (RegexCharAnyExceptQuoteOrSlash i) \<longleftrightarrow> i < length s \<and> s ! i \<noteq> CHR 0x22 \<and> s ! i \<noteq> CHR 0x5C"
  "sat s i (RegexEscapedCharAfterSlash i) \<longleftrightarrow> i < length s \<and> s ! i \<in> escape_chars"
  "sat s i (RegexCharExponent i) \<longleftrightarrow> i < length s \<and> s ! i \<in> {CHR ''e'', CHR ''E''}"
  "sat s i (RegexCharInDigit i) \<longleftrightarrow> i < length s \<and> s ! i \<in> digit_chars"
  "sat s i (RegexCharNumberSign i) \<longleftrightarrow> i < length s \<and> s ! i \<in> set ''+-''"
  "sat s i (RegexCharWhitespace i) \<longleftrightarrow> i < length s \<and> s ! i \<in> ws_chars"
  by (simp_all add: sat_def valid_at_iff satisfied_def contains_single escape_chars_def
      digit_chars_def ws_chars_def del: One_nat_def)

lemma ascii_chars:
  "c \<in> digit_chars \<Longrightarrow> (of_char c :: nat) < 128" "c \<in> ws_chars \<Longrightarrow> (of_char c :: nat) < 128"
  "c \<in> escape_chars \<Longrightarrow> (of_char c :: nat) < 128"
  by (auto simp: digit_chars_def ws_chars_def escape_chars_def)

lemma starts_with_first: "i < length s \<Longrightarrow> s ! i \<noteq> c \<Longrightarrow> \<not> str_starts_with (drop i s) (c # t)"
  using drop_first [of i s] by (simp add: str_starts_with_def)

lemma sat_words:
  "sat s i (LiteralTrue i) \<Longrightarrow> s ! i = CHR ''t''"
  "sat s i (LiteralFalse i) \<Longrightarrow> s ! i = CHR ''f''"
  "sat s i (LiteralNull i) \<Longrightarrow> s ! i = CHR ''n''"
  using starts_with_first [of i s] by (auto simp: sat_simps)

lemma opener_simps [simp]:
  "opener (LiteralArrayStart j)" "opener (LiteralObjectStart j)" "opener (LiteralStringStart j)"
  "\<not> opener (LiteralArrayEnd j)" "\<not> opener (LiteralObjectEnd j)" "\<not> opener (LiteralStringEnd j)"
  "\<not> opener (LiteralColon j)" "\<not> opener (LiteralComma j)" "\<not> opener (LiteralPeriod j)"
  "\<not> opener (LiteralTrue j)" "\<not> opener (LiteralFalse j)" "\<not> opener (LiteralNull j)"
  "\<not> opener (LiteralSlash j)" "\<not> opener (RegexCharAnyExceptQuoteOrSlash j)"
  "\<not> opener (RegexEscapedCharAfterSlash j)" "\<not> opener (RegexCharExponent j)"
  "\<not> opener (RegexCharInDigit j)" "\<not> opener (RegexCharNumberSign j)"
  "\<not> opener (RegexCharWhitespace j)" "\<not> opener EmptyString"
  by (simp_all add: opener_def)

lemma parses_to:
  "parses z D B s i p Rg j v \<Longrightarrow> D \<subseteq> D' \<Longrightarrow> B \<le> B' \<Longrightarrow> j = j' \<Longrightarrow> v = v' \<Longrightarrow>
   parses z D' B' s i p Rg j' v'"
  by (simp add: parses_weaken)

text \<open>A reason other than the three words is answered with one character.\<close>

definition one_char :: "json_parser_yield_reason \<Rightarrow> bool" where
  "one_char r \<longleftrightarrow> r \<noteq> EmptyString \<and>
     r \<notin> range LiteralTrue \<union> range LiteralFalse \<union> range LiteralNull"

lemma parses_one:
  assumes "sat s i r" "ascii_at s i" "one_char r"
  shows "parses z {r} 1 s i (new_pending_future r) {r} (Suc i) [s ! i]"
  using assms by (intro parses_await) (auto simp: respond_def one_char_def)

text \<open>Every reason but the opening brackets and quotes before an index.\<close>

definition from_index :: "nat \<Rightarrow> json_parser_yield_reason set" where
  "from_index i = {r. opener r \<longrightarrow> i \<le> idx r}"

abbreviation ws_regs :: "nat \<Rightarrow> json_parser_yield_reason set" where
  "ws_regs i \<equiv> {RegexCharWhitespace i} \<union> {EmptyString}"

abbreviation value_regs :: "nat \<Rightarrow> json_parser_yield_reason set" where
  "value_regs i \<equiv> ({LiteralObjectStart i} \<union> ({LiteralArrayStart i} \<union> {LiteralStringStart i})) \<union>
     (({RegexCharNumberSign i} \<union> {EmptyString}) \<union> (({LiteralTrue i} \<union> {LiteralFalse i}) \<union> {LiteralNull i}))"

text \<open>The choice between a comma with more, and the end, in arrays and in objects.\<close>

definition comma_or :: "('a jfut \<Rightarrow> 'a jfut \<Rightarrow> 'a jfut) \<Rightarrow> 'a jfut \<Rightarrow> 'a \<Rightarrow> 'a jfut" where
  "comma_or or_fut rest none = or_fut
     (with_context (\<lambda>curr_offset. try_then (new_pending_future (LiteralComma curr_offset)) (\<lambda>_. rest)))
     (try_then (new_pending_future EmptyString) (\<lambda>_. ready (Inr none)))"

text \<open>
  A text is parsed to a value wherever it stands, before a character not in \<open>C\<close> or at the end, with
  fuel and in rounds linear in its length.
\<close>

definition parses_text :: "'z itself \<Rightarrow> char set \<Rightarrow> nat \<Rightarrow> nat \<Rightarrow> (nat \<Rightarrow> 'a jfut) \<Rightarrow>
    (nat \<Rightarrow> json_parser_yield_reason set) \<Rightarrow> string \<Rightarrow> 'a \<Rightarrow> bool" where
  "parses_text z C a b p Rg t v \<longleftrightarrow> (\<forall>s i q. text_at s i t \<longrightarrow> stops s (i + length t) C \<longrightarrow>
     4 * length t + a \<le> q \<longrightarrow> parses z (from_index i) (5 * length t + b) s i (p q) (Rg i) (i + length t) v)"

lemma parses_textI:
  "(\<And>s i q. text_at s i t \<Longrightarrow> stops s (i + length t) C \<Longrightarrow> 4 * length t + a \<le> q \<Longrightarrow>
     parses z (from_index i) (5 * length t + b) s i (p q) (Rg i) (i + length t) v) \<Longrightarrow>
   parses_text z C a b p Rg t v"
  by (simp add: parses_text_def)

lemma parses_textD:
  "parses_text z C a b p Rg t v \<Longrightarrow> text_at s i t \<Longrightarrow> stops s (i + length t) C \<Longrightarrow> 4 * length t + a \<le> q \<Longrightarrow>
   parses z (from_index i) (5 * length t + b) s i (p q) (Rg i) (i + length t) v"
  by (simp add: parses_text_def)

lemma fuelE: "(k :: nat) < q \<Longrightarrow> (\<And>n. q = Suc n \<Longrightarrow> k \<le> n \<Longrightarrow> thesis) \<Longrightarrow> thesis"
  by (cases q) simp_all

section \<open>The futures of the grammar\<close>

locale or_library =
  fixes lib :: futures_lite
  assumes laws: "or_laws lib"
begin

lemma ors:
  "or_law (or_json lib)" "or_law (or_members lib)" "or_law (or_elements lib)" "or_law (or_chars lib)"
  "or_law (or_char lib)" "or_law (or_string lib)" "or_law (or_unit lib)"
  using laws by (simp_all add: or_laws_def)

lemmas wakes_ors = wakes_rules(1-4) ors [THEN wakes_rules(5)]
lemmas parses_ors_left = ors [THEN parses_or_left]
lemmas parses_ors_right = ors [THEN parses_or_right]

text \<open>The reasons that the first poll of each future registers.\<close>

lemma wakes_whitespaces: "0 < q \<Longrightarrow> wakes (parse_whitespaces lib q) i ({RegexCharWhitespace i} \<union> {EmptyString})"
  by (cases q) (simp, simp only: parse_whitespaces.simps, intro wakes_ors, simp_all)

lemma wakes_digits: "0 < q \<Longrightarrow> wakes (parse_digits lib q) i {RegexCharInDigit i}"
  by (cases q) (simp, simp only: parse_digits.simps, intro wakes_ors, simp)

lemma wakes_number: "wakes (parse_number lib q) i ({RegexCharNumberSign i} \<union> {EmptyString})"
  unfolding parse_number_def parse_integer_def by (intro wakes_ors) simp_all

lemma wakes_boolean: "wakes (parse_boolean lib) i ({LiteralTrue i} \<union> {LiteralFalse i})"
  unfolding parse_boolean_def by (intro wakes_ors) simp_all

lemma wakes_null: "wakes parse_null i {LiteralNull i}"
  unfolding parse_null_def by (intro wakes_ors) simp

lemma wakes_character:
  "wakes (parse_character lib) i
     ({RegexCharAnyExceptQuoteOrSlash i} \<union> ({LiteralSlash i} \<union> {LiteralSlash i}))"
  unfolding parse_character_def by (intro wakes_ors) simp_all

lemma wakes_string_value: "wakes (parse_string_value lib q) i {LiteralStringStart i}"
  unfolding parse_string_value_def parse_string_def by (intro wakes_ors) simp

lemma wakes_containers:
  "0 < q \<Longrightarrow> wakes (parse_object lib q) i {LiteralObjectStart i}"
  "0 < q \<Longrightarrow> wakes (parse_array lib q) i {LiteralArrayStart i}"
  by (cases q; auto intro!: wakes_rules)+

section \<open>Whitespace, digits and numbers\<close>

text \<open>The reasons a part of the grammar takes: any but the opening brackets and quotes before it.\<close>

lemma parses_whitespaces:
  assumes "text_at s i w" "set w \<subseteq> ws_chars" "stops s (i + length w) ws_chars" "length w < q"
  shows "parses z {r. \<not> opener r} (length w + 1) s i (parse_whitespaces lib q)
    ({RegexCharWhitespace i} \<union> {EmptyString}) (i + length w) ()"
  using assms
proof (induction w arbitrary: i q)
  case Nil
  then obtain n where q: "q = Suc n" by (cases q) auto
  have stop: "i < length s \<Longrightarrow> ascii_at s i" "\<not> sat s i (RegexCharWhitespace i)"
    using Nil by (auto simp: stops_def sat_simps)
  have "parses z {EmptyString} 1 s i (parse_whitespaces lib q) ({RegexCharWhitespace i} \<union> {EmptyString}) i ()"
    unfolding q parse_whitespaces.simps
    by (rule parses_context parses_ors_right parses_then_done parses_empty done_ready wakes_ors stop
        | simp add: stop)+
  then show ?case by (rule parses_to) simp_all
next
  case (Cons c w)
  from Cons.prems(4) obtain n where q: "q = Suc n" by (cases q) auto
  have c: "sat s i (RegexCharWhitespace i)" "ascii_at s i"
    using Cons.prems by (simp_all add: sat_simps ascii_at_def ascii_chars)
  have "parses z {r. \<not> opener r} (length w + 1) s (Suc i) (parse_whitespaces lib n)
      ({RegexCharWhitespace (Suc i)} \<union> {EmptyString}) (Suc i + length w) ()"
    using Cons.prems by (intro Cons.IH) (simp_all add: q)
  then have "parses z ({RegexCharWhitespace i} \<union> {r. \<not> opener r}) (1 + (length w + 1)) s i (parse_whitespaces lib q)
      ({RegexCharWhitespace i} \<union> {EmptyString}) (Suc i + length w) ()"
    unfolding q parse_whitespaces.simps
    by (intro parses_context parses_ors_left parses_then [OF parses_one [OF c]] parses_then_done
        done_ready wakes_ors) (auto simp: sat_simps one_char_def)
  then show ?case by (rule parses_to) simp_all
qed

lemma parses_digits:
  assumes "text_at s i ds" "digits ds" "stops s (i + length ds) digit_chars" "length ds < q"
  shows "parses z {r. \<not> opener r} (length ds + 1) s i (parse_digits lib q) {RegexCharInDigit i} (i + length ds) ds"
  using assms
proof (induction ds arbitrary: i q)
  case (Cons c ds)
  obtain n where q: "q = Suc n" and n: "length ds < n"
    using Cons.prems(4) by (metis Suc_less_eq2 length_Cons)
  have c: "sat s i (RegexCharInDigit i)" "ascii_at s i" and s: "s ! i = c"
    using Cons.prems by (simp_all add: sat_simps ascii_at_def digits_def ascii_chars)
  let ?more = "try_then (parse_digits lib n) (\<lambda>digits. ready (Inr ([c] @ digits)))"
    and ?stop = "try_then (new_pending_future EmptyString) (\<lambda>_. ready (Inr [c]))"
  have more: "parses z {r. \<not> opener r} (length ds + 1) s (Suc i) (or_string lib ?more ?stop)
      ({RegexCharInDigit (Suc i)} \<union> {EmptyString}) (Suc i + length ds) (c # ds)"
  proof (cases "ds = []")
    case True
    then have stop: "Suc i < length s \<Longrightarrow> ascii_at s (Suc i)" "\<not> sat s (Suc i) (RegexCharInDigit (Suc i))"
      using Cons.prems by (auto simp: stops_def sat_simps)
    have "parses z {EmptyString} 1 s (Suc i) (or_string lib ?more ?stop)
        ({RegexCharInDigit (Suc i)} \<union> {EmptyString}) (Suc i) [c]"
      using n by (intro parses_ors_right(6) wakes_digits wakes_ors parses_then_done [OF parses_empty]
          done_ready) (auto simp: stop)
    then show ?thesis by (rule parses_to) (simp_all add: True)
  next
    case False
    then have "parses z {r. \<not> opener r} (length ds + 1) s (Suc i) (parse_digits lib n)
        {RegexCharInDigit (Suc i)} (Suc i + length ds) ds"
      using Cons.prems n by (intro Cons.IH) (simp_all add: digits_def)
    then show ?thesis
      by (intro parses_ors_left(6) wakes_ors parses_then_done [where v = ds] done_ready)
        (auto simp: sat_simps done_ready)
  qed
  have "parses z ({RegexCharInDigit i} \<union> {r. \<not> opener r}) (1 + (length ds + 1)) s i (parse_digits lib q)
      {RegexCharInDigit i} (Suc i + length ds) (c # ds)"
    unfolding q parse_digits.simps
    by (rule parses_context, rule parses_then [OF parses_one [OF c]])
      (simp add: one_char_def image_iff, unfold s, rule more)
  then show ?case by (rule parses_to) simp_all
qed (simp add: digits_def)

lemma parses_integer:
  assumes "text_at s i (sg @ ds)" "sg \<in> {[], ''+'', ''-''}" "digits ds"
    "stops s (i + length (sg @ ds)) digit_chars" "length ds < q"
  shows "parses z {r. \<not> opener r} (length (sg @ ds) + 2) s i (parse_integer lib q)
    ({RegexCharNumberSign i} \<union> {EmptyString}) (i + length (sg @ ds)) (sg @ ds)"
proof -
  let ?sign = "or_string lib (new_pending_future (RegexCharNumberSign i)) (new_pending_future EmptyString)"
  have sign: "parses z {r. \<not> opener r} 1 s i ?sign ({RegexCharNumberSign i} \<union> {EmptyString}) (i + length sg) sg"
  proof (cases "sg = []")
    case True
    then have "i < length s" "s ! i \<in> digit_chars" using assms by (cases ds; simp add: digits_def)+
    then have "ascii_at s i" "\<not> sat s i (RegexCharNumberSign i)"
      by (auto simp: ascii_at_def ascii_chars sat_simps) (auto simp: digit_chars_def)
    then have "parses z {EmptyString} 1 s i ?sign ({RegexCharNumberSign i} \<union> {EmptyString}) i []"
      by (intro parses_ors_right(6) wakes_ors parses_empty) auto
    then show ?thesis by (rule parses_to) (simp_all add: True)
  next
    case False
    then have "sat s i (RegexCharNumberSign i)" "ascii_at s i" "sg = [s ! i]"
      using assms by (auto simp: ascii_at_def sat_simps)
    then have "parses z {RegexCharNumberSign i} 1 s i ?sign ({RegexCharNumberSign i} \<union> {EmptyString}) (Suc i) sg"
      by (intro parses_ors_left(6) wakes_ors parses_await) (auto simp: sat_simps respond_def)
    then show ?thesis by (rule parses_to) (use False assms(2) in auto)
  qed
  have "parses z {r. \<not> opener r} (length ds + 1) s (i + length sg) (parse_digits lib q)
      {RegexCharInDigit (i + length sg)} (i + length sg + length ds) ds"
    using assms by (intro parses_digits) (simp_all add: add.assoc)
  then have "parses z ({r. \<not> opener r} \<union> {r. \<not> opener r}) (1 + (length ds + 1)) s i (parse_integer lib q)
      ({RegexCharNumberSign i} \<union> {EmptyString}) (i + length sg + length ds) (sg @ ds)"
    unfolding parse_integer_def
    by (intro parses_context parses_then [OF sign] parses_then_done [where v = ds] done_ready)
  then show ?thesis by (rule parses_to) simp_all
qed

text \<open>A fraction or an exponent: nothing, or a character that satisfies \<open>r\<close> and digits.\<close>

lemma parses_part:
  assumes r: "\<not> opener r" "one_char r" "idx r = i" and t: "text_at s i t" "stops s (i + length t) digit_chars"
    and q: "length t < q"
    and some: "t \<noteq> [] \<Longrightarrow> sat s i r \<and> ascii_at s i \<and> digits (tl t) \<and> g [s ! i] = [s ! i]"
    and none: "t = [] \<Longrightarrow> \<not> sat s i r"
  shows "parses z {r. \<not> opener r} (length t + 1) s i
    (or_string lib
      (try_then (new_pending_future r) (\<lambda>x. try_then (parse_digits lib q) (\<lambda>ds. ready (Inr (g x @ ds)))))
      (and_then (new_pending_future EmptyString) ready)) ({r} \<union> {EmptyString}) (i + length t) t"
    (is "parses z _ _ s i (or_string lib ?some ?none) _ _ t")
proof (cases t)
  case Nil
  have "parses z {EmptyString} 1 s i (or_string lib ?some ?none) ({r} \<union> {EmptyString}) i []"
    using r none [OF Nil] t
    by (intro parses_ors_right(6) wakes_ors parses_and_then_ready parses_empty)
      (auto simp: one_char_def Nil stops_def)
  then show ?thesis by (rule parses_to) (simp_all add: Nil)
next
  case (Cons c ds)
  then have c: "sat s i r" "ascii_at s i" and ds: "digits ds" and g: "g [s ! i] = [c]"
    using some t by auto
  have "parses z {r. \<not> opener r} (length ds + 1) s (Suc i) (parse_digits lib q)
      {RegexCharInDigit (Suc i)} (Suc i + length ds) ds"
    using ds t q by (intro parses_digits) (simp_all add: Cons)
  then have more: "parses z {r. \<not> opener r} (length ds + 1) s (Suc i)
      (try_then (parse_digits lib q) (\<lambda>ds. ready (Inr (g [s ! i] @ ds)))) {RegexCharInDigit (Suc i)} (Suc i + length ds) t"
    unfolding g Cons by (rule parses_then_done) (simp add: done_ready)
  have "parses z ({r} \<union> {r. \<not> opener r}) (1 + (length ds + 1)) s i (or_string lib ?some ?none)
      ({r} \<union> {EmptyString}) (Suc i + length ds) t"
    by (rule parses_ors_left(6), rule parses_then [OF parses_one [OF c r(2)]], rule more, intro wakes_ors)
      (auto simp: sat_simps)
  then show ?thesis by (rule parses_to) (use r in \<open>auto simp: Cons\<close>)
qed

lemma parses_number:
  assumes t: "text_at s i t" "number t" "stops s (i + length t) number_chars" and q: "length t < q"
  shows "parses z {r. \<not> opener r} (length t + 4) s i (parse_number lib q)
    ({RegexCharNumberSign i} \<union> {EmptyString}) (i + length t) (Number t)"
proof -
  from t(2) obtain sg ds fr ex where eq: "t = sg @ ds @ fr @ ex" and sg: "sg \<in> {[], ''+'', ''-''}"
    and ds: "digits ds" and fr: "fr = [] \<or> (\<exists>fs. fr = ''.'' @ fs \<and> digits fs)"
    and ex: "ex = [] \<or> (\<exists>e es. ex = e # es \<and> e \<in> {CHR ''e'', CHR ''E''} \<and> digits es)"
    unfolding number_def by blast
  let ?i = "i + length (sg @ ds)"
  let ?j = "?i + length fr"
  let ?k = "?j + length ex"
  have fin: "stops s ?k number_chars" using t(3) by (simp add: eq add.assoc)
  have ex_stops: "stops s ?j (digit_chars \<union> {CHR ''.''})"
    using ex fin t(1) by (auto simp: eq stops_def number_chars_def digit_chars_def ascii_at_def add.assoc)
  have fr_stops: "stops s ?i digit_chars"
    using fr ex_stops t(1) by (auto simp: eq stops_def digit_chars_def ascii_at_def add.assoc)
  have 1: "parses z {r. \<not> opener r} (length (sg @ ds) + 2) s i (parse_integer lib q)
      ({RegexCharNumberSign i} \<union> {EmptyString}) ?i (sg @ ds)"
    using t(1) sg ds q fr_stops by (intro parses_integer) (simp_all add: eq)
  have 2: "parses z {r. \<not> opener r} (length fr + 1) s ?i (parse_fraction lib q)
      ({LiteralPeriod ?i} \<union> {EmptyString}) ?j fr"
    unfolding parse_fraction_def using t(1) q fr ex_stops
    by (intro parses_context parses_part) (auto simp: eq one_char_def sat_simps stops_def ascii_at_def add.assoc)
  have 3: "parses z {r. \<not> opener r} (length ex + 1) s ?j (parse_exponent lib q)
      ({RegexCharExponent ?j} \<union> {EmptyString}) ?k ex"
    unfolding parse_exponent_def using t(1) q ex fin
    by (intro parses_context parses_part) (auto simp: eq one_char_def sat_simps stops_def ascii_at_def
        number_chars_def add.assoc)
  have "parses z ({r. \<not> opener r} \<union> ({r. \<not> opener r} \<union> {r. \<not> opener r}))
      ((length (sg @ ds) + 2) + ((length fr + 1) + (length ex + 1))) s i (parse_number lib q)
      ({RegexCharNumberSign i} \<union> {EmptyString}) ?k (Number t)"
    unfolding parse_number_def
    by (rule parses_then [OF 1 parses_then [OF 2 parses_then_done [OF 3]]]) (simp add: done_ready eq)
  then show ?thesis by (rule parses_to) (simp_all add: eq)
qed

section \<open>Strings\<close>

abbreviation char_regs :: "nat \<Rightarrow> json_parser_yield_reason set" where
  "char_regs i \<equiv> {RegexCharAnyExceptQuoteOrSlash i} \<union> ({LiteralSlash i} \<union> {LiteralSlash i})"

lemma parses_plain_char:
  assumes "text_at s i [c]" "(of_char c :: nat) < 128" "c \<noteq> CHR 0x22" "c \<noteq> CHR 0x5C"
  shows "parses z {r. \<not> opener r} 1 s i (parse_character lib) (char_regs i) (Suc i) (of_char c)"
proof -
  have c: "sat s i (RegexCharAnyExceptQuoteOrSlash i)" "ascii_at s i" "\<not> sat s i (LiteralSlash i)" "s ! i = c"
    using assms by (auto simp: sat_simps ascii_at_def)
  have "parses z {RegexCharAnyExceptQuoteOrSlash i} 1 s i (parse_character lib) (char_regs i) (Suc i) (of_char c)"
    unfolding parse_character_def
    by (rule parses_context, rule parses_ors_left(5), rule parses_then_done,
        rule parses_one [OF c(1,2)], simp add: one_char_def image_iff)
      (simp add: assms(2) c(4) done_ready, intro wakes_ors, use c in auto)
  then show ?thesis by (rule parses_to) simp_all
qed

lemma unescape_single: "\<exists>x. unescape [e] = [x] \<and> (e \<in> escape_chars \<longrightarrow> (of_char x :: nat) < 128)"
  using ascii_chars(3) [of e] by (auto simp: unescape_def)

lemma parses_escaped_char:
  assumes "text_at s i [CHR 0x5C, e]" "e \<in> escape_chars"
  shows "parses z {r. \<not> opener r} 2 s i (parse_character lib) (char_regs i) (Suc (Suc i)) (of_char (hd (unescape [e])))"
proof -
  have c: "sat s i (LiteralSlash i)" "ascii_at s i" "\<not> sat s i (RegexCharAnyExceptQuoteOrSlash i)"
    and e: "sat s (Suc i) (RegexEscapedCharAfterSlash (Suc i))" "ascii_at s (Suc i)" and s: "s ! Suc i = e"
    using assms by (auto simp: sat_simps ascii_at_def ascii_chars)
  obtain x where x: "unescape [e] = [x]" "(of_char x :: nat) < 128"
    using unescape_single assms(2) by blast
  have esc: "parses z {RegexEscapedCharAfterSlash (Suc i)} 1 s (Suc i)
      (try_then (new_pending_future (RegexEscapedCharAfterSlash (i + 1))) (\<lambda>str. ready (str_to_char (unescape str))))
      {RegexEscapedCharAfterSlash (Suc i)} (Suc (Suc i)) (of_char x)"
    unfolding Suc_eq_plus1 [symmetric]
    by (rule parses_then_done, rule parses_one [OF e])
      (use x in \<open>simp_all add: one_char_def image_iff s done_ready\<close>)
  have "parses z ({LiteralSlash i} \<union> {RegexEscapedCharAfterSlash (Suc i)}) (1 + 1) s i (parse_character lib)
      (char_regs i) (Suc (Suc i)) (of_char x)"
    unfolding parse_character_def
    by (rule parses_context, rule parses_ors_right(5), intro wakes_ors, simp,
        rule parses_ors_left(5), rule parses_then [OF parses_one [OF c(1,2)]],
        simp add: one_char_def image_iff, rule esc, intro wakes_ors, simp)
      (use c in auto)
  then show ?thesis by (rule parses_to) (simp_all add: x)
qed

lemma parses_more_characters:
  assumes c: "parses z D B s i (parse_character lib) (char_regs i) j c"
    and cs: "parses z D B' s j (parse_characters_reversed lib n) Rg l cs"
  shows "parses z D (B + B') s i (parse_characters_reversed lib (Suc n)) (char_regs i \<union> {EmptyString}) l (cs @ [c])"
proof -
  have "parses z D B' s j (try_then (parse_characters_reversed lib n) (\<lambda>chs. ready (Inr (chs @ [c])))) Rg l (cs @ [c])"
    by (rule parses_then_done [OF cs]) (rule done_ready)
  then have "parses z (D \<union> D) (B + B') s i (parse_characters_reversed lib (Suc n)) (char_regs i \<union> {EmptyString}) l (cs @ [c])"
    unfolding parse_characters_reversed.simps
    by (intro parses_ors_left(4) parses_then [OF c] wakes_ors) (auto simp: sat_simps)
  then show ?thesis by simp
qed

lemma parses_characters:
  assumes "characters t cs" "text_at s i (t @ [CHR 0x22])" "length t < q"
  shows "parses z {r. \<not> opener r} (length t + 1) s i (parse_characters_reversed lib q)
    (char_regs i \<union> {EmptyString}) (i + length t) (rev (map of_char cs))"
  using assms
proof (induction arbitrary: i q rule: characters.induct)
  case characters_none
  from characters_none(2) obtain n where q: "q = Suc n" by (rule fuelE)
  have c: "ascii_at s i" "\<not> sat s i (RegexCharAnyExceptQuoteOrSlash i)" "\<not> sat s i (LiteralSlash i)"
    using characters_none(1) by (simp_all add: ascii_at_def sat_simps)
  have "parses z {EmptyString} 1 s i (parse_characters_reversed lib q) (char_regs i \<union> {EmptyString}) i []"
    unfolding q parse_characters_reversed.simps
    by (rule parses_ors_right(4), intro wakes_ors wakes_character, rule parses_then_done, rule parses_empty)
      (use c in \<open>auto simp: done_ready\<close>)
  then show ?case by (rule parses_to) simp_all
next
  case (characters_plain t cs c)
  from characters_plain.prems(2) obtain n where q: "q = Suc n" by (rule fuelE)
  have "parses z {r. \<not> opener r} 1 s i (parse_character lib) (char_regs i) (Suc i) (of_char c)"
    using characters_plain.prems characters_plain.hyps by (intro parses_plain_char) simp_all
  moreover have "parses z {r. \<not> opener r} (length t + 1) s (Suc i) (parse_characters_reversed lib n)
      (char_regs (Suc i) \<union> {EmptyString}) (Suc i + length t) (rev (map of_char cs))"
    using characters_plain.prems by (intro characters_plain.IH) (simp_all add: q)
  ultimately show ?case
    unfolding q by (rule parses_more_characters [THEN parses_to]) simp_all
next
  case (characters_escape t cs e)
  from characters_escape.prems(2) obtain n where q: "q = Suc n" by (rule fuelE)
  obtain x where x: "unescape [e] = [x]" using unescape_single by blast
  have "parses z {r. \<not> opener r} 2 s i (parse_character lib) (char_regs i) (Suc (Suc i)) (of_char x)"
    using parses_escaped_char [of s i e z] characters_escape.prems characters_escape.hyps by (simp add: x)
  moreover have "parses z {r. \<not> opener r} (length t + 1) s (Suc (Suc i)) (parse_characters_reversed lib n)
      (char_regs (Suc (Suc i)) \<union> {EmptyString}) (Suc (Suc i) + length t) (rev (map of_char cs))"
    using characters_escape.prems by (intro characters_escape.IH) (simp_all add: q)
  ultimately show ?case
    unfolding q by (rule parses_more_characters [THEN parses_to]) (simp_all add: x)
qed

lemma characters_ascii: "characters t cs \<Longrightarrow> \<forall>c \<in> set cs. (of_char c :: nat) < 128"
proof (induction rule: characters.induct)
  case (characters_escape t cs e)
  obtain x where "unescape [e] = [x]" "(of_char x :: nat) < 128"
    using unescape_single characters_escape.hyps by blast
  then show ?case using characters_escape.IH by simp
qed simp_all

lemma encode_ascii: "\<forall>c \<in> set cs. (of_char c :: nat) < 128 \<Longrightarrow> concat (map encode_utf8 (map of_char cs)) = cs"
  by (induction cs) (simp_all add: encode_utf8_def)

lemma parses_string:
  assumes t: "characters t cs" "text_at s i ([CHR 0x22] @ t @ [CHR 0x22])" and q: "length t < q"
  shows "parses z ({LiteralStringStart i} \<union> {r. \<not> opener r}) (length t + 3) s i (parse_string lib q)
    {LiteralStringStart i} (i + length t + 2) cs"
proof -
  let ?j = "Suc i + length t"
  have open_quote: "sat s i (LiteralStringStart i)" "ascii_at s i"
    and close_quote: "sat s ?j (LiteralStringEnd ?j)" "ascii_at s ?j"
    using t(2) by (simp_all add: sat_simps ascii_at_def)
  have chars: "parses z {r. \<not> opener r} (length t + 1) s (Suc i) (parse_characters_reversed lib q)
      (char_regs (Suc i) \<union> {EmptyString}) ?j (rev (map of_char cs))"
    using t q by (intro parses_characters) simp_all
  have close: "parses z {LiteralStringEnd ?j} 1 s ?j (with_context (\<lambda>curr_offset2.
      try_then (new_pending_future (LiteralStringEnd curr_offset2))
        (\<lambda>_. ready (Inr (concat (map encode_utf8 (rev (rev (map of_char cs)))))))))
      {LiteralStringEnd ?j} (Suc ?j) cs"
    by (rule parses_context, rule parses_then_done [OF parses_one [OF close_quote]])
      (simp_all add: one_char_def image_iff encode_ascii [OF characters_ascii [OF t(1)]] done_ready
        del: map_map)
  have "parses z ({LiteralStringStart i} \<union> ({r. \<not> opener r} \<union> {LiteralStringEnd ?j}))
      (1 + ((length t + 1) + 1)) s i (parse_string lib q) {LiteralStringStart i} (Suc ?j) cs"
    unfolding parse_string_def Let_def
    by (rule parses_context, rule parses_then [OF parses_one [OF open_quote]], simp add: one_char_def image_iff,
        rule parses_then [OF chars], rule close)
  then show ?thesis by (rule parses_to) auto
qed

section \<open>Values\<close>

lemma number_first:
  assumes "text_at s i t" "number t"
  shows "i < length s \<and> s ! i \<in> digit_chars \<union> {CHR ''+'', CHR ''-''}"
proof -
  from assms(2) obtain sg ds u where "t = sg @ ds @ u" "sg \<in> {[], ''+'', ''-''}" "digits ds"
    unfolding number_def by blast
  then show ?thesis using assms(1) by (cases ds) (auto simp: digits_def)
qed

lemma parses_value_number:
  assumes "text_at s i t" "number t" "stops s (i + length t) number_chars" "length t < n"
  shows "parses z {r. \<not> opener r} (length t + 4) s i (parse_value lib (Suc n)) (value_regs i) (i + length t) (Number t)"
proof -
  have n: "0 < n" using assms(4) by simp
  have "s ! i \<notin> {CHR ''{'', CHR ''['', CHR 0x22, CHR ''t'', CHR ''f'', CHR ''n''}"
    using number_first [OF assms(1,2)] by (auto simp: digit_chars_def)
  then show ?thesis
    unfolding parse_value.simps
    by (intro parses_ors_right(1) [OF _ parses_ors_left(1) [OF parses_number [OF assms]]] wakes_ors
        wakes_containers wakes_string_value wakes_boolean wakes_null)
      (auto simp: n sat_simps(1-6) dest: sat_words)
qed

lemma parses_value_string:
  assumes "characters t cs" "text_at s i ([CHR 0x22] @ t @ [CHR 0x22])" "length t < n"
  shows "parses z ({LiteralStringStart i} \<union> {r. \<not> opener r}) (length t + 3) s i (parse_value lib (Suc n))
    (value_regs i) (i + length t + 2) (String cs)"
proof -
  have n: "0 < n" using assms(3) by simp
  have "parses z ({LiteralStringStart i} \<union> {r. \<not> opener r}) (length t + 3) s i (parse_string_value lib n)
    {LiteralStringStart i} (i + length t + 2) (String cs)"
    unfolding parse_string_value_def by (rule parses_then_done [OF parses_string [OF assms]]) (rule done_ready)
  then show ?thesis
    unfolding parse_value.simps using assms(2)
    by (intro parses_ors_left(1) [OF parses_ors_right(1) [OF _ parses_ors_right(1)]] wakes_ors
        wakes_containers wakes_number wakes_boolean wakes_null)
      (auto simp: n sat_simps dest: sat_words)
qed

lemma parses_word:
  assumes "sat s i r" "ascii_at s i" "respond r i [s ! i] = (w, j)" "j \<noteq> i"
  shows "parses z {r} 1 s i (try_then (new_pending_future r) (\<lambda>_. ready (Inr v))) {r} j v"
  by (rule parses_then_done [OF parses_await [OF assms] done_ready])

lemma parses_value_words:
  assumes "0 < n"
  shows "text_at s i ''true'' \<Longrightarrow>
      parses z {LiteralTrue i} 1 s i (parse_value lib (Suc n)) (value_regs i) (i + 4) (Boolean True)"
    and "text_at s i ''false'' \<Longrightarrow>
      parses z {LiteralFalse i} 1 s i (parse_value lib (Suc n)) (value_regs i) (i + 5) (Boolean False)"
    and "text_at s i ''null'' \<Longrightarrow>
      parses z {LiteralNull i} 1 s i (parse_value lib (Suc n)) (value_regs i) (i + 4) Null"
proof -
  show "parses z {LiteralTrue i} 1 s i (parse_value lib (Suc n)) (value_regs i) (i + 4) (Boolean True)"
    if "text_at s i ''true''"
  proof -
    have t: "sat s i (LiteralTrue i)" "ascii_at s i" "s ! i = CHR ''t''"
      using that text_at_take [OF that] by (simp_all add: sat_simps ascii_at_def)
    have "parses z {LiteralTrue i} 1 s i
        (try_then (new_pending_future (LiteralTrue i)) (\<lambda>_. ready (Inr (Boolean True)))) {LiteralTrue i} (i + 4) (Boolean True)"
      by (rule parses_word [OF t(1,2)]) (simp_all add: respond_def)
    then show ?thesis
      unfolding parse_value.simps parse_boolean_def
      by (intro parses_ors_right(1) [OF _ parses_ors_right(1) [OF _ parses_ors_left(1) [OF parses_context
            [OF parses_ors_left(1)]]]] wakes_ors wakes_containers wakes_string_value wakes_number wakes_null)
        (auto simp: assms t(3) sat_simps(1-6,19) dest: sat_words)
  qed
  show "parses z {LiteralFalse i} 1 s i (parse_value lib (Suc n)) (value_regs i) (i + 5) (Boolean False)"
    if "text_at s i ''false''"
  proof -
    have t: "sat s i (LiteralFalse i)" "ascii_at s i" "s ! i = CHR ''f''"
      using that text_at_take [OF that] by (simp_all add: sat_simps ascii_at_def)
    have "parses z {LiteralFalse i} 1 s i
        (try_then (new_pending_future (LiteralFalse i)) (\<lambda>_. ready (Inr (Boolean False)))) {LiteralFalse i} (i + 5) (Boolean False)"
      by (rule parses_word [OF t(1,2)]) (simp_all add: respond_def)
    then show ?thesis
      unfolding parse_value.simps parse_boolean_def
      by (intro parses_ors_right(1) [OF _ parses_ors_right(1) [OF _ parses_ors_left(1) [OF parses_context
            [OF parses_ors_right(1)]]]] wakes_ors wakes_containers wakes_string_value wakes_number wakes_null)
        (auto simp: assms t(3) sat_simps(1-6,19) dest: sat_words)
  qed
  show "parses z {LiteralNull i} 1 s i (parse_value lib (Suc n)) (value_regs i) (i + 4) Null"
    if "text_at s i ''null''"
  proof -
    have t: "sat s i (LiteralNull i)" "ascii_at s i" "s ! i = CHR ''n''"
      using that text_at_take [OF that] by (simp_all add: sat_simps ascii_at_def)
    have "parses z {LiteralNull i} 1 s i
        (try_then (new_pending_future (LiteralNull i)) (\<lambda>_. ready (Inr Null))) {LiteralNull i} (i + 4) Null"
      by (rule parses_word [OF t(1,2)]) (simp_all add: respond_def)
    then show ?thesis
      unfolding parse_value.simps parse_null_def
      by (intro parses_ors_right(1) [OF _ parses_ors_right(1) [OF _ parses_ors_right(1)]] parses_context wakes_ors
          wakes_containers wakes_string_value wakes_number wakes_boolean)
        (auto simp: assms t(3) sat_simps(1-6,19) dest: sat_words)
  qed
qed

section \<open>Arrays and objects\<close>

lemma parses_value_array:
  assumes t: "s ! i = CHR ''[''" "i < length s" "j < length s" "s ! j = CHR '']''" and n: "0 < n"
    and xs: "parses z (from_index (Suc i)) B s (Suc i) (parse_elements lib n) (ws_regs (Suc i)) j xs"
  shows "parses z (from_index i) (B + 2) s i (parse_value lib (Suc (Suc n))) (value_regs i) (Suc j) (Array xs)"
proof -
  have 1: "sat s i (LiteralArrayStart i)" "ascii_at s i" and 2: "sat s j (LiteralArrayEnd j)" "ascii_at s j"
    using t by (simp_all add: sat_simps ascii_at_def)
  let ?open = "or_json lib (try_then (parse_elements lib n) (\<lambda>xs. ready (Inr (Array xs))))
      (try_then (parse_whitespaces lib n) (\<lambda>_. ready (Inr (Array []))))"
  have inside: "parses z (from_index (Suc i)) B s (Suc i) ?open (ws_regs (Suc i) \<union> ws_regs (Suc i)) j (Array xs)"
    by (intro parses_ors_left(1) parses_then_done [OF xs] done_ready wakes_ors wakes_whitespaces n)
  have close: "parses z {LiteralArrayEnd j} 1 s j (with_context (\<lambda>curr_offset2.
      try_then (new_pending_future (LiteralArrayEnd curr_offset2)) (\<lambda>_. ready (Inr (Array xs)))))
      {LiteralArrayEnd j} (Suc j) (Array xs)"
    by (rule parses_context, rule parses_then_done [OF parses_one [OF 2] done_ready])
      (simp add: one_char_def image_iff)
  have "parses z ({LiteralArrayStart i} \<union> (from_index (Suc i) \<union> {LiteralArrayEnd j})) (1 + (B + 1)) s i
      (parse_array lib (Suc n)) {LiteralArrayStart i} (Suc j) (Array xs)"
    unfolding parse_array.simps
    by (rule parses_context, rule parses_then [OF parses_one [OF 1]], simp add: one_char_def image_iff,
        rule parses_then [OF inside], rule close)
  then have "parses z ({LiteralArrayStart i} \<union> (from_index (Suc i) \<union> {LiteralArrayEnd j})) (1 + (B + 1)) s i
      (parse_value lib (Suc (Suc n))) (value_regs i) (Suc j) (Array xs)"
    unfolding parse_value.simps
    by (intro parses_ors_left(1) [OF parses_ors_right(1) [OF _ parses_ors_left(1)]] wakes_ors
        wakes_containers wakes_number wakes_boolean wakes_null wakes_string_value)
      (auto simp: t sat_simps(1-6,19) from_index_def dest: sat_words)
  then show ?thesis by (rule parses_to) (auto simp: from_index_def)
qed

lemma parses_value_object:
  assumes t: "s ! i = CHR ''{''" "i < length s" "j < length s" "s ! j = CHR ''}''" and n: "0 < n"
    and m: "parses z (from_index (Suc i)) B s (Suc i) (parse_members lib n) (ws_regs (Suc i)) j m"
  shows "parses z (from_index i) (B + 2) s i (parse_value lib (Suc (Suc n))) (value_regs i) (Suc j) (Object m)"
proof -
  have 1: "sat s i (LiteralObjectStart i)" "ascii_at s i" and 2: "sat s j (LiteralObjectEnd j)" "ascii_at s j"
    using t by (simp_all add: sat_simps ascii_at_def)
  let ?open = "or_json lib (try_then (parse_members lib n) (\<lambda>m. ready (Inr (Object m))))
      (try_then (parse_whitespaces lib n) (\<lambda>_. ready (Inr (Object Map.empty))))"
  have inside: "parses z (from_index (Suc i)) B s (Suc i) ?open (ws_regs (Suc i) \<union> ws_regs (Suc i)) j (Object m)"
    by (intro parses_ors_left(1) parses_then_done [OF m] done_ready wakes_ors wakes_whitespaces n)
  have close: "parses z {LiteralObjectEnd j} 1 s j (with_context (\<lambda>curr_offset2.
      try_then (new_pending_future (LiteralObjectEnd curr_offset2)) (\<lambda>_. ready (Inr (Object m)))))
      {LiteralObjectEnd j} (Suc j) (Object m)"
    by (rule parses_context, rule parses_then_done [OF parses_one [OF 2] done_ready])
      (simp add: one_char_def image_iff)
  have "parses z ({LiteralObjectStart i} \<union> (from_index (Suc i) \<union> {LiteralObjectEnd j})) (1 + (B + 1)) s i
      (parse_object lib (Suc n)) {LiteralObjectStart i} (Suc j) (Object m)"
    unfolding parse_object.simps
    by (rule parses_context, rule parses_then [OF parses_one [OF 1]], simp add: one_char_def image_iff,
        rule parses_then [OF inside], rule close)
  then have "parses z ({LiteralObjectStart i} \<union> (from_index (Suc i) \<union> {LiteralObjectEnd j})) (1 + (B + 1)) s i
      (parse_value lib (Suc (Suc n))) (value_regs i) (Suc j) (Object m)"
    unfolding parse_value.simps
    by (intro parses_ors_left(1) [OF parses_ors_left(1)] wakes_ors
        wakes_containers wakes_number wakes_boolean wakes_null wakes_string_value)
      (auto simp: t sat_simps(1-6,19) dest: sat_words)
  then show ?thesis by (rule parses_to) (auto simp: from_index_def)
qed

lemma parses_element:
  assumes t: "text_at s i (v @ t @ w)" "set v \<subseteq> ws_chars" "set w \<subseteq> ws_chars"
    and first: "stops s (i + length v) ws_chars" and last: "stops s (i + length (v @ t @ w)) (number_chars \<union> ws_chars)"
    and n: "length v < n" "length w < n"
    and x: "parses z D B s (i + length v) (parse_value lib n) R (i + length v + length t) x" "{r. \<not> opener r} \<subseteq> D"
  shows "parses z D (length v + length w + B + 2) s i (parse_element lib (Suc n)) (ws_regs i) (i + length (v @ t @ w)) x"
proof -
  let ?j = "i + length v + length t"
  have 1: "parses z {r. \<not> opener r} (length v + 1) s i (parse_whitespaces lib n) (ws_regs i) (i + length v) ()"
    using t first n by (intro parses_whitespaces) simp_all
  have 2: "parses z {r. \<not> opener r} (length w + 1) s ?j (parse_whitespaces lib n) (ws_regs ?j) (?j + length w) ()"
    using t last n by (intro parses_whitespaces) (auto simp: stops_def add.assoc)
  have "parses z ({r. \<not> opener r} \<union> (D \<union> {r. \<not> opener r})) ((length v + 1) + (B + (length w + 1))) s i
      (parse_element lib (Suc n)) (ws_regs i) (?j + length w) x"
    unfolding parse_element.simps
    by (rule parses_then [OF 1], rule parses_then [OF x(1)], rule parses_then_done [OF 2 done_ready])
  then show ?thesis by (rule parses_to) (use x(2) in auto)
qed

lemma parses_no_comma:
  assumes o: "or_law or_fut" and j: "stops s j {CHR '',''}"
  shows "parses z {EmptyString} 1 s j (comma_or or_fut rest none) ({LiteralComma j} \<union> {EmptyString}) j none"
proof -
  have no: "j < length s \<Longrightarrow> ascii_at s j" "\<not> sat s j (LiteralComma j)" using j by (auto simp: stops_def sat_simps)
  show ?thesis unfolding comma_or_def
    by (intro parses_or_right [OF o] wakes_ors parses_then_done [OF parses_empty done_ready]) (auto simp: no)
qed

lemma parses_comma:
  assumes o: "or_law or_fut" and j: "j < length s" "s ! j = CHR '',''" and p: "parses z D B s (Suc j) rest R l v"
  shows "parses z ({LiteralComma j} \<union> D) (1 + B) s j (comma_or or_fut rest none) ({LiteralComma j} \<union> {EmptyString}) l v"
proof -
  have c: "sat s j (LiteralComma j)" "ascii_at s j" using j by (simp_all add: sat_simps ascii_at_def)
  show ?thesis unfolding comma_or_def
    by (rule parses_or_left [OF o], rule parses_context, rule parses_then [OF parses_one [OF c]],
        simp add: one_char_def image_iff, rule p, intro wakes_ors) (auto simp: sat_simps)
qed

lemma parse_elements_reversed_Suc:
  "parse_elements_reversed lib (Suc n) = try_then (parse_element lib n) (\<lambda>item.
     try_then (comma_or (or_elements lib) (parse_elements_reversed lib n) []) (\<lambda>xs. ready (Inr (xs @ [item]))))"
  by (simp add: comma_or_def)

lemma parse_members_Suc:
  "parse_members lib (Suc n) = try_then (parse_member lib n) (\<lambda>(key, val).
     try_then (comma_or (or_members lib) (parse_members lib n) Map.empty) (\<lambda>m. ready (Inr (m(key \<mapsto> val)))))"
  by (simp add: comma_or_def)

lemma parses_elements_one:
  assumes x: "parses z D B s i (parse_element lib n) R j x" "{r. \<not> opener r} \<subseteq> D" and j: "stops s j {CHR '',''}"
  shows "parses z D (B + 1) s i (parse_elements_reversed lib (Suc n)) R j [x]"
proof -
  have "parses z (D \<union> {EmptyString}) (B + 1) s i (parse_elements_reversed lib (Suc n)) R j ([] @ [x])"
    unfolding parse_elements_reversed_Suc
    by (rule parses_then [OF x(1)], rule parses_then_done [OF parses_no_comma [OF ors(3) j] done_ready])
  then show ?thesis by (rule parses_to) (use x(2) in auto)
qed

lemma parses_elements_more:
  assumes x: "parses z D B s i (parse_element lib n) R j x" "{r. \<not> opener r} \<subseteq> D"
    and j: "j < length s" "s ! j = CHR '',''"
    and xs: "parses z D B' s (Suc j) (parse_elements_reversed lib n) R' l xs"
  shows "parses z D (B + 1 + B') s i (parse_elements_reversed lib (Suc n)) R l (xs @ [x])"
proof -
  have "parses z (D \<union> ({LiteralComma j} \<union> D)) (B + (1 + B')) s i (parse_elements_reversed lib (Suc n)) R l (xs @ [x])"
    unfolding parse_elements_reversed_Suc
    by (rule parses_then [OF x(1)], rule parses_then_done [OF parses_comma [OF ors(3) j xs] done_ready])
  then show ?thesis by (rule parses_to) (use x(2) in auto)
qed

lemma parses_members_one:
  assumes x: "parses z D B s i (parse_member lib n) R j (k, x)" "{r. \<not> opener r} \<subseteq> D" and j: "stops s j {CHR '',''}"
  shows "parses z D (B + 1) s i (parse_members lib (Suc n)) R j [k \<mapsto> x]"
proof -
  have rest: "parses z {EmptyString} 1 s j (try_then (comma_or (or_members lib) (parse_members lib n) Map.empty)
      (\<lambda>m. ready (Inr (m(k \<mapsto> x))))) ({LiteralComma j} \<union> {EmptyString}) j [k \<mapsto> x]"
    by (rule parses_then_done [OF parses_no_comma [OF ors(2) j] done_ready])
  have "parses z (D \<union> {EmptyString}) (B + 1) s i (parse_members lib (Suc n)) R j [k \<mapsto> x]"
    unfolding parse_members_Suc by (rule parses_then [OF x(1)]) (simp only: prod.case, rule rest)
  then show ?thesis by (rule parses_to) (use x(2) in auto)
qed

lemma parses_members_more:
  assumes x: "parses z D B s i (parse_member lib n) R j (k, x)" "{r. \<not> opener r} \<subseteq> D"
    and j: "j < length s" "s ! j = CHR '',''"
    and m: "parses z D B' s (Suc j) (parse_members lib n) R' l m"
  shows "parses z D (B + 1 + B') s i (parse_members lib (Suc n)) R l (m(k \<mapsto> x))"
proof -
  have rest: "parses z ({LiteralComma j} \<union> D) (1 + B') s j
      (try_then (comma_or (or_members lib) (parse_members lib n) Map.empty) (\<lambda>m. ready (Inr (m(k \<mapsto> x)))))
      ({LiteralComma j} \<union> {EmptyString}) l (m(k \<mapsto> x))"
    by (rule parses_then_done [OF parses_comma [OF ors(2) j m] done_ready])
  have "parses z (D \<union> ({LiteralComma j} \<union> D)) (B + (1 + B')) s i (parse_members lib (Suc n)) R l (m(k \<mapsto> x))"
    unfolding parse_members_Suc by (rule parses_then [OF x(1)]) (simp only: prod.case, rule rest)
  then show ?thesis by (rule parses_to) (use x(2) in auto)
qed

lemma parses_member:
  assumes t: "text_at s i (v @ ([CHR 0x22] @ k @ [CHR 0x22]) @ w @ '':'')" "set v \<subseteq> ws_chars" "set w \<subseteq> ws_chars"
    "characters k cs" and n: "length v < n" "length k < n" "length w < n"
    and x: "parses z D B s (Suc (i + length v + length k + 2 + length w)) (parse_element lib n) R j x"
      "insert (LiteralStringStart (i + length v)) {r. \<not> opener r} \<subseteq> D"
  shows "parses z D (length v + length k + length w + 6 + B) s i (parse_member lib (Suc n)) (ws_regs i) j (cs, x)"
proof -
  let ?j = "i + length v" and ?k = "i + length v + length k + 2" and ?l = "i + length v + length k + 2 + length w"
  have 1: "parses z {r. \<not> opener r} (length v + 1) s i (parse_whitespaces lib n) (ws_regs i) ?j ()"
    using t n by (intro parses_whitespaces) (auto simp: stops_def ascii_at_def ws_chars_def)
  have 2: "parses z ({LiteralStringStart ?j} \<union> {r. \<not> opener r}) (length k + 3) s ?j (parse_string lib n)
      {LiteralStringStart ?j} ?k cs"
    using t n parses_string [of k cs s ?j n z] by simp
  have 3: "parses z {r. \<not> opener r} (length w + 1) s ?k (parse_whitespaces lib n) (ws_regs ?k) ?l ()"
    using t n by (intro parses_whitespaces) (auto simp: stops_def ascii_at_def ws_chars_def)
  have c: "sat s ?l (LiteralColon ?l)" "ascii_at s ?l" using t by (simp_all add: sat_simps ascii_at_def)
  have x': "parses z D B s (Suc ?l) (try_then (parse_element lib n) (\<lambda>val. ready (Inr (cs, val)))) R j (cs, x)"
    using parses_then_done [OF x(1) done_ready, of "Pair cs"] by simp
  have 4: "parses z ({LiteralColon ?l} \<union> D) (1 + B) s ?l (with_context (\<lambda>curr_offset.
      try_then (new_pending_future (LiteralColon curr_offset)) (\<lambda>_.
      try_then (parse_element lib n) (\<lambda>val. ready (Inr (cs, val)))))) {LiteralColon ?l} j (cs, x)"
    by (rule parses_context, rule parses_then [OF parses_one [OF c]], simp add: one_char_def image_iff, rule x')
  have "parses z ({r. \<not> opener r} \<union> (({LiteralStringStart ?j} \<union> {r. \<not> opener r}) \<union>
      ({r. \<not> opener r} \<union> ({LiteralColon ?l} \<union> D))))
      ((length v + 1) + ((length k + 3) + ((length w + 1) + (1 + B)))) s i (parse_member lib (Suc n)) (ws_regs i) j (cs, x)"
    unfolding parse_member.simps
    by (rule parses_then [OF 1], rule parses_then [OF 2], rule parses_then [OF 3], rule 4)
  then show ?thesis by (rule parses_to) (use x(2) in auto)
qed

section \<open>The grammar is accepted\<close>

lemma number_length: "number t \<Longrightarrow> 1 \<le> length t"
  by (auto simp: number_def digits_def Suc_le_eq)

lemma val_first:
  assumes "val t x" "text_at s i t"
  shows "stops s i ws_chars" "1 \<le> length t"
proof -
  have "stops s i ws_chars \<and> 1 \<le> length t"
    using assms
  proof (cases rule: val.cases)
    case val_number
    then show ?thesis
      using number_first [OF assms(2)] number_length ascii_chars(1) [of "s ! i"]
      by (auto simp: stops_def ascii_at_def ws_chars_def digit_chars_def)
  qed (auto simp: stops_def ascii_at_def ws_chars_def)
  then show "stops s i ws_chars" "1 \<le> length t" by simp_all
qed

abbreviation value_ok :: "'z itself \<Rightarrow> string \<Rightarrow> json \<Rightarrow> bool" where
  "value_ok z t x \<equiv> parses_text z number_chars 0 0 (parse_value lib) value_regs t x"

abbreviation element_ok :: "'z itself \<Rightarrow> string \<Rightarrow> json \<Rightarrow> bool" where
  "element_ok z t x \<equiv> parses_text z (number_chars \<union> ws_chars) 1 2 (parse_element lib) ws_regs t x"

abbreviation elements_ok :: "'z itself \<Rightarrow> string \<Rightarrow> json list \<Rightarrow> bool" where
  "elements_ok z t xs \<equiv> parses_text z ({CHR '',''} \<union> number_chars \<union> ws_chars) 2 3 (parse_elements_reversed lib)
     ws_regs t (rev xs)"

abbreviation member_ok :: "'z itself \<Rightarrow> string \<Rightarrow> string \<Rightarrow> json \<Rightarrow> bool" where
  "member_ok z t k x \<equiv> parses_text z (number_chars \<union> ws_chars) 1 2 (parse_member lib) ws_regs t (k, x)"

abbreviation members_ok :: "'z itself \<Rightarrow> string \<Rightarrow> (string \<rightharpoonup> json) \<Rightarrow> bool" where
  "members_ok z t m \<equiv> parses_text z ({CHR '',''} \<union> number_chars \<union> ws_chars) 2 3 (parse_members lib) ws_regs t m"

lemma number_ok:
  assumes "number t"
  shows "value_ok z t (Number t)"
proof (rule parses_textI)
  fix s i q assume t: "text_at s i t" "stops s (i + length t) number_chars" "4 * length t + 0 \<le> q"
  note l = number_length [OF assms]
  then have "length t + 1 < q" using t(3) by simp
  then obtain n where n: "q = Suc n" "length t < n" by (rule fuelE) simp
  from parses_value_number [OF t(1) assms t(2) n(2)]
  show "parses z (from_index i) (5 * length t + 0) s i (parse_value lib q) (value_regs i) (i + length t) (Number t)"
    unfolding n(1) by (rule parses_to) (use l in \<open>auto simp: from_index_def\<close>)
qed

lemma string_ok:
  assumes "characters t cs"
  shows "value_ok z ([CHR 0x22] @ t @ [CHR 0x22]) (String cs)" (is "value_ok z ?t _")
proof (rule parses_textI)
  fix s i q assume t: "text_at s i ?t" "4 * length ?t + 0 \<le> q"
  then have "length t + 1 < q" by simp
  then obtain n where n: "q = Suc n" "length t < n" by (rule fuelE) simp
  from parses_value_string [OF assms t(1) n(2)]
  show "parses z (from_index i) (5 * length ?t + 0) s i (parse_value lib q) (value_regs i) (i + length ?t) (String cs)"
    unfolding n(1) by (rule parses_to) (auto simp: from_index_def)
qed

lemma word_ok:
  assumes "\<And>s i n. 0 < n \<Longrightarrow> text_at s i t \<Longrightarrow>
      parses z {r i} 1 s i (parse_value lib (Suc n)) (value_regs i) (i + length t) x"
    "\<And>i. \<not> opener (r i)" "1 \<le> length t"
  shows "value_ok z t x"
proof (rule parses_textI)
  fix s i q assume t: "text_at s i t" "4 * length t + 0 \<le> q"
  then have "1 < q" using assms(3) by simp
  then obtain n where n: "q = Suc n" "0 < n" by (rule fuelE) simp
  from assms(1) [OF n(2) t(1)]
  show "parses z (from_index i) (5 * length t + 0) s i (parse_value lib q) (value_regs i) (i + length t) x"
    unfolding n(1) by (rule parses_to) (use assms(2,3) in \<open>auto simp: from_index_def\<close>)
qed

lemma words_ok:
  "value_ok z ''true'' (Boolean True)" "value_ok z ''false'' (Boolean False)" "value_ok z ''null'' Null"
proof -
  show "value_ok z ''true'' (Boolean True)"
    by (rule word_ok [where r = LiteralTrue], rule parses_to [OF parses_value_words(1)]) simp_all
  show "value_ok z ''false'' (Boolean False)"
    by (rule word_ok [where r = LiteralFalse], rule parses_to [OF parses_value_words(2)]) simp_all
  show "value_ok z ''null'' Null"
    by (rule word_ok [where r = LiteralNull], rule parses_to [OF parses_value_words(3)]) simp_all
qed

lemma array_ok:
  assumes "elements_ok z t xs"
  shows "value_ok z (''['' @ t @ '']'') (Array xs)" (is "value_ok z ?t _")
proof (rule parses_textI)
  fix s i q assume t: "text_at s i ?t" "4 * length ?t + 0 \<le> q"
  then have "4 * length t + 6 < q" by simp
  then obtain m where m: "q = Suc m" "4 * length t + 5 < m" by (rule fuelE) simp
  from m(2) obtain l where l: "m = Suc l" "4 * length t + 4 < l" by (rule fuelE) simp
  from l(2) obtain n where n: "l = Suc n" "4 * length t + 2 \<le> n" by (rule fuelE) simp
  let ?j = "Suc i + length t"
  have "stops s ?j ({CHR '',''} \<union> number_chars \<union> ws_chars)"
    using t(1) by (simp add: stops_def ascii_at_def number_chars_def digit_chars_def ws_chars_def)
  with assms have "parses z (from_index (Suc i)) (5 * length t + 3) s (Suc i) (parse_elements_reversed lib n)
      (ws_regs (Suc i)) ?j (rev xs)"
    using t(1) by (intro parses_textD [OF _ _ _ n(2)]) simp_all
  from parses_then_done [OF this, of "\<lambda>xs. ready (Inr (rev xs))" xs]
  have "parses z (from_index (Suc i)) (5 * length t + 3) s (Suc i) (parse_elements lib l) (ws_regs (Suc i)) ?j xs"
    by (simp add: n done_ready)
  from parses_value_array [OF _ _ _ _ _ this] show "parses z (from_index i) (5 * length ?t + 0) s i
      (parse_value lib q) (value_regs i) (i + length ?t) (Array xs)"
    unfolding m(1) l(1) by (rule parses_to) (use t(1) l(2) in simp_all)
qed

lemma object_ok:
  assumes "members_ok z t m"
  shows "value_ok z (''{'' @ t @ ''}'') (Object m)" (is "value_ok z ?t _")
proof (rule parses_textI)
  fix s i q assume t: "text_at s i ?t" "4 * length ?t + 0 \<le> q"
  then have "4 * length t + 6 < q" by simp
  then obtain k where k: "q = Suc k" "4 * length t + 5 < k" by (rule fuelE) simp
  from k(2) obtain n where n: "k = Suc n" "4 * length t + 2 \<le> n" by (rule fuelE) simp
  let ?j = "Suc i + length t"
  have "stops s ?j ({CHR '',''} \<union> number_chars \<union> ws_chars)"
    using t(1) by (simp add: stops_def ascii_at_def number_chars_def digit_chars_def ws_chars_def)
  with assms have "parses z (from_index (Suc i)) (5 * length t + 3) s (Suc i) (parse_members lib n)
      (ws_regs (Suc i)) ?j m"
    using t(1) by (intro parses_textD [OF _ _ _ n(2)]) simp_all
  from parses_value_object [OF _ _ _ _ _ this] show "parses z (from_index i) (5 * length ?t + 0) s i
      (parse_value lib q) (value_regs i) (i + length ?t) (Object m)"
    unfolding k(1) n(1) by (rule parses_to) (use t(1) n(2) in simp_all)
qed

lemma from_index_parts: "{r. \<not> opener r} \<subseteq> from_index i" "i \<le> j \<Longrightarrow> from_index j \<subseteq> from_index i"
  by (auto simp: from_index_def)

lemma parses_from:
  "parses z (from_index j) B s k p R l v \<Longrightarrow> i \<le> j \<Longrightarrow> parses z (from_index i) B s k p R l v"
  by (rule parses_weaken [OF _ from_index_parts(2) order_refl])

lemma element_ok:
  assumes v: "set v \<subseteq> ws_chars" and x: "val t x" "value_ok z t x" and w: "set w \<subseteq> ws_chars"
  shows "element_ok z (v @ t @ w) x" (is "element_ok z ?t x")
proof (rule parses_textI)
  fix s i q assume t: "text_at s i ?t" "stops s (i + length ?t) (number_chars \<union> ws_chars)" "4 * length ?t + 1 \<le> q"
  let ?j = "i + length v"
  have tj: "text_at s ?j t" using t(1) by simp
  note first = val_first [OF x(1) tj]
  from t(3) have "4 * length ?t < q" by simp
  then obtain n where n: "q = Suc n" "4 * length ?t \<le> n" by (rule fuelE)
  have "stops s (?j + length t) number_chars"
  proof (cases w)
    case Nil
    then show ?thesis using t(2) by (auto simp: stops_def add.assoc)
  next
    case (Cons c w')
    then have "c \<in> ws_chars" using w by simp
    then show ?thesis
      using t(1) Cons ascii_chars(2) [of c]
      by (auto simp: stops_def ascii_at_def number_chars_def digit_chars_def ws_chars_def add.assoc)
  qed
  with tj n(2) have "parses z (from_index ?j) (5 * length t + 0) s ?j (parse_value lib n) (value_regs ?j) (?j + length t) x"
    by (intro parses_textD [OF x(2)]) auto
  then have "parses z (from_index i) (5 * length t + 0) s ?j (parse_value lib n) (value_regs ?j) (?j + length t) x"
    by (rule parses_from) simp
  from parses_element [OF t(1) v w first(1) t(2) _ _ this from_index_parts(1)]
  show "parses z (from_index i) (5 * length ?t + 2) s i (parse_element lib q) (ws_regs i) (i + length ?t) x"
    unfolding n(1) by (rule parses_to) (use n(2) first(2) in auto)
qed

lemma elements_one_ok:
  assumes "element_ok z t x"
  shows "elements_ok z t [x]"
proof (rule parses_textI)
  fix s i q assume t: "text_at s i t" "stops s (i + length t) ({CHR '',''} \<union> number_chars \<union> ws_chars)" "4 * length t + 2 \<le> q"
  from t(3) have "4 * length t + 1 < q" by simp
  then obtain n where n: "q = Suc n" "4 * length t + 1 \<le> n" by (rule fuelE)
  have stop: "stops s (i + length t) (number_chars \<union> ws_chars)" "stops s (i + length t) {CHR '',''}"
    using t(2) by (simp_all add: stops_def)
  from parses_elements_one [OF parses_textD [OF assms t(1) stop(1) n(2)] from_index_parts(1) stop(2)]
  show "parses z (from_index i) (5 * length t + 3) s i (parse_elements_reversed lib q) (ws_regs i) (i + length t) (rev [x])"
    unfolding n(1) by (rule parses_to) simp_all
qed

lemma elements_more_ok:
  assumes x: "element_ok z t x" and xs: "elements_ok z u xs"
  shows "elements_ok z (t @ '','' @ u) (x # xs)" (is "elements_ok z ?t _")
proof (rule parses_textI)
  fix s i q assume t: "text_at s i ?t" "stops s (i + length ?t) ({CHR '',''} \<union> number_chars \<union> ws_chars)" "4 * length ?t + 2 \<le> q"
  let ?j = "i + length t"
  from t(3) have "4 * (length t + length u) + 5 < q" by simp
  then obtain n where n: "q = Suc n" "4 * (length t + length u) + 5 \<le> n" by (rule fuelE)
  have comma: "?j < length s" "s ! ?j = CHR '',''" using t(1) by simp_all
  then have "stops s ?j (number_chars \<union> ws_chars)"
    by (simp add: stops_def ascii_at_def number_chars_def digit_chars_def ws_chars_def)
  then have 1: "parses z (from_index i) (5 * length t + 2) s i (parse_element lib n) (ws_regs i) ?j x"
    using t(1) n(2) by (intro parses_textD [OF x]) auto
  have "parses z (from_index (Suc ?j)) (5 * length u + 3) s (Suc ?j) (parse_elements_reversed lib n)
      (ws_regs (Suc ?j)) (Suc ?j + length u) (rev xs)"
    using t n(2) by (intro parses_textD [OF xs]) (auto simp: add.assoc)
  then have 2: "parses z (from_index i) (5 * length u + 3) s (Suc ?j) (parse_elements_reversed lib n)
      (ws_regs (Suc ?j)) (Suc ?j + length u) (rev xs)"
    by (rule parses_from) simp
  from parses_elements_more [OF 1 from_index_parts(1) comma 2]
  show "parses z (from_index i) (5 * length ?t + 3) s i (parse_elements_reversed lib q) (ws_regs i) (i + length ?t) (rev (x # xs))"
    unfolding n(1) by (rule parses_to) simp_all
qed

lemma member_ok:
  assumes v: "set v \<subseteq> ws_chars" and k: "characters k cs" and w: "set w \<subseteq> ws_chars" and x: "element_ok z u x"
  shows "member_ok z (v @ ([CHR 0x22] @ k @ [CHR 0x22]) @ w @ '':'' @ u) cs x" (is "member_ok z ?t cs x")
proof (rule parses_textI)
  fix s i q assume t: "text_at s i ?t" "stops s (i + length ?t) (number_chars \<union> ws_chars)" "4 * length ?t + 1 \<le> q"
  let ?j = "Suc (i + length v + length k + 2 + length w)"
  let ?n = "4 * (length v + length k + length w + length u)"
  from t(3) have "?n + 12 < q" by simp
  then obtain n where n: "q = Suc n" "?n + 12 \<le> n" by (rule fuelE)
  have "parses z (from_index ?j) (5 * length u + 2) s ?j (parse_element lib n) (ws_regs ?j) (?j + length u) x"
    using t n(2) by (intro parses_textD [OF x]) (auto simp: add.assoc)
  then have *: "parses z (from_index i) (5 * length u + 2) s ?j (parse_element lib n) (ws_regs ?j) (?j + length u) x"
    by (rule parses_from) simp
  have "parses z (from_index i) (length v + length k + length w + 6 + (5 * length u + 2)) s i
      (parse_member lib (Suc n)) (ws_regs i) (?j + length u) (cs, x)"
    by (rule parses_member [OF _ v w k _ _ _ *]) (use t(1) n(2) in \<open>auto simp: from_index_def\<close>)
  then show "parses z (from_index i) (5 * length ?t + 2) s i (parse_member lib q) (ws_regs i) (i + length ?t) (cs, x)"
    unfolding n(1) by (rule parses_to) simp_all
qed

lemma members_one_ok:
  assumes "member_ok z t k x"
  shows "members_ok z t [k \<mapsto> x]"
proof (rule parses_textI)
  fix s i q assume t: "text_at s i t" "stops s (i + length t) ({CHR '',''} \<union> number_chars \<union> ws_chars)" "4 * length t + 2 \<le> q"
  from t(3) have "4 * length t + 1 < q" by simp
  then obtain n where n: "q = Suc n" "4 * length t + 1 \<le> n" by (rule fuelE)
  have stop: "stops s (i + length t) (number_chars \<union> ws_chars)" "stops s (i + length t) {CHR '',''}"
    using t(2) by (simp_all add: stops_def)
  from parses_members_one [OF parses_textD [OF assms t(1) stop(1) n(2)] from_index_parts(1) stop(2)]
  show "parses z (from_index i) (5 * length t + 3) s i (parse_members lib q) (ws_regs i) (i + length t) [k \<mapsto> x]"
    unfolding n(1) by (rule parses_to) simp_all
qed

lemma members_more_ok:
  assumes x: "member_ok z t k x" and m: "members_ok z u m"
  shows "members_ok z (t @ '','' @ u) (m(k \<mapsto> x))" (is "members_ok z ?t _")
proof (rule parses_textI)
  fix s i q assume t: "text_at s i ?t" "stops s (i + length ?t) ({CHR '',''} \<union> number_chars \<union> ws_chars)" "4 * length ?t + 2 \<le> q"
  let ?j = "i + length t"
  from t(3) have "4 * (length t + length u) + 5 < q" by simp
  then obtain n where n: "q = Suc n" "4 * (length t + length u) + 5 \<le> n" by (rule fuelE)
  have comma: "?j < length s" "s ! ?j = CHR '',''" using t(1) by simp_all
  then have "stops s ?j (number_chars \<union> ws_chars)"
    by (simp add: stops_def ascii_at_def number_chars_def digit_chars_def ws_chars_def)
  then have 1: "parses z (from_index i) (5 * length t + 2) s i (parse_member lib n) (ws_regs i) ?j (k, x)"
    using t(1) n(2) by (intro parses_textD [OF x]) auto
  have "parses z (from_index (Suc ?j)) (5 * length u + 3) s (Suc ?j) (parse_members lib n)
      (ws_regs (Suc ?j)) (Suc ?j + length u) m"
    using t n(2) by (intro parses_textD [OF m]) (auto simp: add.assoc)
  then have 2: "parses z (from_index i) (5 * length u + 3) s (Suc ?j) (parse_members lib n)
      (ws_regs (Suc ?j)) (Suc ?j + length u) m"
    by (rule parses_from) simp
  from parses_members_more [OF 1 from_index_parts(1) comma 2]
  show "parses z (from_index i) (5 * length ?t + 3) s i (parse_members lib q) (ws_regs i) (i + length ?t) (m(k \<mapsto> x))"
    unfolding n(1) by (rule parses_to) simp_all
qed

lemma grammar_ok:
  "val t x \<Longrightarrow> value_ok z t x"
  "element t x \<Longrightarrow> element_ok z t x"
  "elements t xs \<Longrightarrow> elements_ok z t xs"
  "member t k x \<Longrightarrow> member_ok z t k x"
  "members t m \<Longrightarrow> members_ok z t m"
proof (induction rule: val_element_elements_member_members.inducts)
  case (element v t x w)
  then show ?case by (intro element_ok)
qed (rule number_ok string_ok words_ok array_ok object_ok elements_one_ok elements_more_ok member_ok
    members_one_ok members_more_ok; assumption)+

lemma element_run:
  assumes "element t x" "stops (t @ rest) (length t) (number_chars \<union> ws_chars)"
    "4 * length t < q" "5 * length t + 2 < n"
  shows "run_parser n (t @ rest) (parse lib q) (async_runtime_new JSON_MAX_PENDING) = Inr x"
proof -
  have "parses TYPE(json) (from_index 0) (5 * length t + 2) (t @ rest) 0 (parse_element lib q) (ws_regs 0) (0 + length t) x"
    by (rule parses_textD [OF grammar_ok(2) [OF assms(1)]])
      (use text_at_self [of "[]" t rest] assms(2,3) in auto)
  from parses_run [OF this assms(4)] show ?thesis by (simp add: parse_def)
qed

end

interpretation lite: or_library futures_lite_or
  by unfold_locales (rule or_laws_futures_lite_or)

section \<open>The properties\<close>

lemma stops_after:
  "rest = [] \<or> (of_char (hd rest) :: nat) < 128 \<and> hd rest \<notin> C \<Longrightarrow> stops (t @ rest) (length t) C"
  by (cases rest) (simp_all add: stops_def ascii_at_def nth_append)

text \<open>
  C18.  The parser accepts its grammar: on every text that derives a value from the rules in the comments
  (without empty arrays and objects and without hexadecimal escapes), with whitespace wherever the
  rules have it, \<open>main\<close> returns that value, in a number of rounds linear in the length of the text.
  What follows the text does not matter as long as its first character is neither whitespace nor
  part of a number: \<open>run_parser\<close> ignores trailing input.  The runtime's table of 1024 reasons never
  fills up, however long or deep the text is.
\<close>

theorem json_grammar_accepted:
  assumes "or_laws lib" "element t x" "5 * length t + 2 < n"
    "rest = [] \<or> (of_char (hd rest) :: nat) < 128 \<and> hd rest \<notin> number_chars \<union> ws_chars"
  shows "json_main lib n (t @ rest) = Inr x"
proof -
  have "run_parser n (t @ rest) (parse lib n) (async_runtime_new JSON_MAX_PENDING) = Inr x"
    using assms(3) by (intro or_library.element_run [OF or_library.intro [OF assms(1)] assms(2)]
        stops_after [OF assms(4)]) simp_all
  then show ?thesis by (simp add: json_main_def)
qed

lemma example_element: "element ''[1, true] '' (Array [Number ''1'', Boolean True])"
proof -
  have "digits ''1''" by (simp add: digits_def digit_chars_def)
  then have "number ''1''"
    unfolding number_def by (intro exI [of _ "[]"] exI [of _ "''1''"] conjI) simp_all
  from element [OF _ val_number [OF this], of "[]" "[]"] element [OF _ val_true, of "'' ''" "[]"]
  have "element ''1'' (Number ''1'')" "element '' true'' (Boolean True)" by (simp_all add: ws_chars_def)
  from elements_more [OF this(1) elements_one [OF this(2)]]
  have "elements ''1, true'' [Number ''1'', Boolean True]" by simp
  from element [OF _ val_array [OF this], of "[]" "'' ''"] show ?thesis by (simp add: ws_chars_def)
qed

theorem json_grammar_accepted_witness:
  "json_main futures_lite_or 60 (''[1, true] '' @ ''x'') = Inr (Array [Number ''1'', Boolean True])"
  by (rule json_grammar_accepted [OF or_laws_futures_lite_or example_element])
    (simp_all add: number_chars_def digit_chars_def ws_chars_def)

text \<open>
  C38.  String literals: \<open>parse_string\<close> run on a quoted text returns the characters it stands for.  A
  plain character stands for itself, an escape for what \<open>unescape\<close> says, and by that table a tab
  escape stands for the letter t.
\<close>

theorem json_string_parsed:
  assumes "or_laws lib" "characters t cs" "length t < q" "length t + 3 < n"
  shows "run_parser n ([CHR 0x22] @ t @ [CHR 0x22] @ rest) (parse_string lib q)
    (async_runtime_new JSON_MAX_PENDING) = Inr cs"
proof -
  have "text_at ([CHR 0x22] @ t @ [CHR 0x22] @ rest) 0 ([CHR 0x22] @ t @ [CHR 0x22])"
    using text_at_self [of "[]" "[CHR 0x22] @ t @ [CHR 0x22]" rest] by simp
  from or_library.parses_string [OF or_library.intro [OF assms(1)] assms(2) this assms(3)] assms(4)
  show ?thesis by (rule parses_run)
qed

theorem json_string_parsed_witness:
  "run_parser 10 ([CHR 0x22] @ [CHR ''a'', CHR 0x5C, CHR ''t'', CHR 0x5C, CHR ''n''] @ [CHR 0x22] @ '', 1'')
     (parse_string futures_lite_or 6) (async_runtime_new JSON_MAX_PENDING) = Inr [CHR ''a'', CHR ''t'', CHR 0x0A]"
proof -
  have "characters [CHR 0x5C, CHR ''n''] [CHR 0x0A]"
    using characters_escape [OF characters_none, of "CHR ''n''"] by (simp add: escape_chars_def unescape_def)
  from characters_escape [OF this, of "CHR ''t''"]
  have "characters [CHR 0x5C, CHR ''t'', CHR 0x5C, CHR ''n''] [CHR ''t'', CHR 0x0A]"
    by (simp add: escape_chars_def unescape_def)
  from characters_plain [OF this, of "CHR ''a''"]
  have "characters [CHR ''a'', CHR 0x5C, CHR ''t'', CHR 0x5C, CHR ''n''] [CHR ''a'', CHR ''t'', CHR 0x0A]"
    by simp
  then show ?thesis by (rule json_string_parsed [OF or_laws_futures_lite_or]) simp_all
qed

end
