(* ===== verification/Json_Limits.thy ===== *)
theory Json_Limits
  imports Json_Grammar
begin

text \<open>
  Where the JSON parser departs from the grammar of its comments.  Two futures that wait for the same
  reason share one entry of the pending table, and the first of them that is answered takes two
  references off it; an alternative that waits longer for the same reason is then forgotten.  The runs
  are evaluated poll by poll, on inputs with an arbitrary rest and with any fuel beyond a bound.
\<close>

context or_library
begin

lemmas or_polls = ors [THEN or_lawD(1)]
lemmas or_drops = ors [THEN or_lawD(2)]

lemma poll_fuel: "(\<And>n. p (Suc n) = F n) \<Longrightarrow> 0 < n \<Longrightarrow> poll_fut (p n) c rt = poll_fut (F (n - 1)) c rt"
  by (cases n) simp_all

lemma poll_eq: "p = F \<Longrightarrow> poll_fut p c rt = poll_fut F c rt"
  by simp

text \<open>One poll of each function of the grammar; what is not polled stays folded.\<close>

lemmas unfold_polls =
  poll_fuel [where p = "parse_whitespaces lib", OF parse_whitespaces.simps(2)]
  poll_fuel [where p = "parse_digits lib", OF parse_digits.simps(2)]
  poll_fuel [where p = "parse_characters_reversed lib", OF parse_characters_reversed.simps(2)]
  poll_fuel [where p = "parse_value lib", OF parse_value.simps(2)]
  poll_fuel [where p = "parse_object lib", OF parse_object.simps(2)]
  poll_fuel [where p = "parse_array lib", OF parse_array.simps(2)]
  poll_fuel [where p = "parse_elements lib", OF parse_elements.simps(2)]
  poll_fuel [where p = "parse_elements_reversed lib", OF parse_elements_reversed.simps(2)]
  poll_fuel [where p = "parse_element lib", OF parse_element.simps(2)]
  poll_eq [OF parse_string_value_def] poll_eq [OF parse_string_def] poll_eq [OF parse_number_def]
  poll_eq [OF parse_integer_def] poll_eq [OF parse_boolean_def] poll_eq [OF parse_null_def]
  poll_eq [OF parse_character_def]

lemmas table_eval = poll_pending_unpolled poll_pending_waiting drop_pending_waiting new_pending_future_def
  roomy_def descending_def less_json_parser_yield_reason_def JSON_MAX_PENDING_def

lemma run_loop_num:
  "0 < n \<Longrightarrow> run_loop n s i F (runtime_with 1024 u b ps) = after (n - 1) s i (poll_fut F i (runtime_with 1024 u False ps))"
  using run_loop_after [of "n - 1" s i F u b ps] by (simp add: JSON_MAX_PENDING_def)

lemmas evaluate = run_loop_num unfold_polls poll_simps or_polls or_drops
  table_eval after_def tail_def slice_one_def filter_runtime_with valid_at_def
  choose_reason_def check_runtime_with satisfied_def is_empty_string_def respond_def
  unblock_runtime_with str_starts_with_def contains_single

lemma empty_array_run:
  "run_parser (n + 20) (''[]'' @ rest) (parse lib (n + 20)) (async_runtime_new 1024) =
     Inl (Err (UnexpectedCharacter '']''))"
  unfolding run_parser_def parse_def async_runtime_new_with
  by (simp add: evaluate del: run_loop.simps)

lemma hex_escape_run:
  "run_parser (n + 20) ([CHR 0x22, CHR 0x5C, CHR ''u''] @ rest) (parse lib (n + 20)) (async_runtime_new 1024) =
     Inl (Err (UnexpectedCharacter ''u''))"
  unfolding run_parser_def parse_def async_runtime_new_with
  by (simp add: evaluate del: run_loop.simps)

end

text \<open>
  An empty array is rejected at its closing bracket, whatever follows, although the grammar in the
  comments has it: the two alternatives inside the brackets share the reason \<open>EmptyString\<close>, and the
  one for elements uses up its entry in the table before it fails.
\<close>

theorem json_empty_array_rejected:
  assumes "or_laws lib"
  shows "run_parser (n + 20) (''[]'' @ rest) (parse lib (n + 20)) (async_runtime_new JSON_MAX_PENDING) =
    Inl (Err (UnexpectedCharacter '']''))"
  using or_library.empty_array_run [OF or_library.intro [OF assms]] by (simp add: JSON_MAX_PENDING_def)

theorem json_empty_array_rejected_witness:
  "run_parser 20 ''[]'' (parse futures_lite_or 20) (async_runtime_new JSON_MAX_PENDING) =
     Inl (Err (UnexpectedCharacter '']''))"
  using json_empty_array_rejected [OF or_laws_futures_lite_or, of 0 "[]"] by simp

text \<open>
  A hexadecimal escape at the start of a string is rejected at its letter u, whatever follows, although
  the grammar in the comments has it: both rules for escapes wait for the same backslash, and only the
  first of them is answered.
\<close>

theorem json_hex_escape_rejected:
  assumes "or_laws lib"
  shows "run_parser (n + 20) ([CHR 0x22, CHR 0x5C, CHR ''u''] @ rest) (parse lib (n + 20))
    (async_runtime_new JSON_MAX_PENDING) = Inl (Err (UnexpectedCharacter ''u''))"
  using or_library.hex_escape_run [OF or_library.intro [OF assms]] by (simp add: JSON_MAX_PENDING_def)

theorem json_hex_escape_rejected_witness:
  "run_parser 20 ([CHR 0x22, CHR 0x5C, CHR ''u''] @ ''0041'' @ [CHR 0x22]) (parse futures_lite_or 20)
     (async_runtime_new JSON_MAX_PENDING) = Inl (Err (UnexpectedCharacter ''u''))"
  using json_hex_escape_rejected [OF or_laws_futures_lite_or, of 0 "''0041'' @ [CHR 0x22]"] by simp

end
