(* ===== verification/Table_Calls.thy ===== *)
theory Table_Calls
  imports Aug_Process Aug_Perms Seccomp_Program
begin

text \<open>
  What becomes of calls whose handling depends on their entry in the table: the calls that install seccomp filters
  (\<open>sysaug/src/aug_seccomp.rs\<close>) and the calls that set several ids (\<open>sysaug/src/aug_perms.rs\<close>), with the entries that
  \<open>get_syscall\<close> finds for them.
\<close>

section \<open>Entries of the table\<close>

lemma entries_of_append: "entries_of (xs @ ys) acc = entries_of ys (entries_of xs acc)"
  by (induction xs acc rule: entries_of.induct) simp_all

lemma entries_of_keeps: "set (butlast acc) \<subseteq> set (entries_of ss acc)"
proof (induction ss acc rule: entries_of.induct)
  case (2 info ss acc)
  then show ?case by (auto dest: in_set_butlastD)
next
  case (3 f ss acc)
  then show ?case by (auto split: if_splits)
qed (auto dest: in_set_butlastD)

lemma table_entry:
  assumes "libc_ok L" "Define info \<in> set (perms_syscalls L @ seccomp_syscalls L)" "get_syscall L (as_usize (num info)) = Some (Some i)"
  shows "i = info"
proof -
  let ?ss = "perms_syscalls L @ seccomp_syscalls L"
  have all: "all_syscalls L = (?ss @ take 1 (path_syscalls L)) @ (drop 1 (path_syscalls L) @ dirfd_syscalls L @
     xattr_stat_syscalls L @ time_and_dir_syscalls L @ x86_64_syscalls L @ legacy_path_syscalls L @ legacy_link_syscalls L)"
    by (simp add: all_syscalls_def)
  have "info \<in> set (butlast (entries_of (?ss @ take 1 (path_syscalls L)) []))"
    using assms(2) by (auto simp: perms_syscalls_def seccomp_syscalls_def path_syscalls_def define_macros)
  then have "info \<in> set (table_infos L)"
    unfolding table_infos_def all entries_of_append [of "?ss @ take 1 (path_syscalls L)"] using entries_of_keeps by blast
  then show ?thesis using assms(1,3) by (metis find_num get_syscall_eq option.inject)
qed

section \<open>Seccomp\<close>

text \<open>
  What the kernel is asked for, by \<open>seccomp(2)\<close> and \<open>prctl(2)\<close>: the operation of \<open>seccomp\<close> and the option of \<open>prctl\<close> are 32-bit
  numbers, and the modes of \<open>prctl(PR_SET_SECCOMP)\<close> are 1 (strict) and 2 (filter).
\<close>

datatype seccomp_request = SetsStrict | SetsFilter | SetsNothing

definition seccomp_request_of :: "libc \<Rightarrow> generic_purpose_regs \<Rightarrow> seccomp_request" where
  "seccomp_request_of L r =
     (if syscall_num r = as_usize (SYS L ''seccomp'')
      then (if take_bit 32 (arg0 r) = 0 then SetsStrict else if take_bit 32 (arg0 r) = 1 then SetsFilter else SetsNothing)
      else if syscall_num r = as_usize (SYS L ''prctl'') \<and> take_bit 32 (arg0 r) = 22
      then (if arg1 r = 1 then SetsStrict else if arg1 r = 2 then SetsFilter else SetsNothing)
      else SetsNothing)"

text \<open>The two ways in which the handler ends such a call.\<close>

definition refused :: "('k, 'regex) env \<Rightarrow> 'k tracee_view \<Rightarrow> 'k handler \<Rightarrow> 'k handler \<Rightarrow> bool" where
  "refused e V h h' \<longleftrightarrow> executed e V h' = executed e V h @ [(regs_of e V h)\<lparr>syscall_num := NO_MOD_SYSCALL (env_libc e)\<rparr>] \<and>
     syscall_retval (regs_of e V h') = of_int (- ENOSYS)"

definition passed :: "('k, 'regex) env \<Rightarrow> 'k tracee_view \<Rightarrow> 'k handler \<Rightarrow> 'k handler \<Rightarrow> bool" where
  "passed e V h h' \<longleftrightarrow> executed e V h' = executed e V h @ [regs_of e V h]"

lemma augment_sys_seccomp_ends:
  assumes laws: "kernel_laws e V legacy w" and h: "in_step e V legacy h" "is_after_syscall_entry h"
    and info: "seccomp_position info = Some n" "n < 3"
  shows "\<exists>h'. run w (augment_sys_seccomp e r info) h = (Inr (), h') \<and> in_step e V legacy h' \<and> \<not> is_after_syscall_entry h' \<and>
    (if (num info = SYS (env_libc e) ''prctl'' \<longrightarrow> arg0 r = 22) \<and> [arg0 r, arg1 r, arg2 r] ! n = 1
     then refused e V h h' else passed e V h h')"
proof (cases "(num info = SYS (env_libc e) ''prctl'' \<longrightarrow> arg0 r = 22) \<and> [arg0 r, arg1 r, arg2 r] ! n = 1")
  case True
  then have "augment_sys_seccomp e r info = do_skip_syscall e minus_ENOSYS"
    using info by (auto simp: augment_sys_seccomp_def Let_def PR_SET_SECCOMP_def SECCOMP_SET_MODE_FILTER_def)
  then show ?thesis
    unfolding if_P [OF True] using do_skip [OF laws h, of minus_ENOSYS]
    by (auto simp: skipped_def minus_ENOSYS_def refused_def)
next
  case False
  then have "augment_sys_seccomp e r info = a_then (do_resume_syscall e) (\<lambda>_. sync (ret ()))"
    using info by (auto simp: augment_sys_seccomp_def Let_def PR_SET_SECCOMP_def SECCOMP_SET_MODE_FILTER_def)
  moreover obtain h' where "run w (a_then (do_resume_syscall e) (\<lambda>_. sync (ret ()))) h = (Inr (), h')"
    and m: "moved e V False h h'" using resume_then_ret [OF laws h] by blast
  moreover have "in_step e V legacy h'" "\<not> is_after_syscall_entry h'" "passed e V h h'"
    using moved_in_step [OF h(1) m] m by (simp_all add: moved_def passed_def)
  ultimately show ?thesis unfolding if_not_P [OF False] by (intro exI [of _ h']) simp
qed

lemma libc_ok_inject:
  assumes "libc_ok L" "m \<in> set intercepted" "n \<in> set intercepted" "m \<noteq> n"
  shows "SYS L m \<noteq> SYS L n" "as_usize (SYS L m) \<noteq> as_usize (SYS L n)"
proof -
  have "distinct (map (SYS L) intercepted)" using assms(1) by (simp add: libc_ok_def)
  then show ne: "SYS L m \<noteq> SYS L n" using assms(2-4) by (auto simp: distinct_map dest: inj_onD)
  have "\<forall>k \<in> set intercepted. 0 \<le> SYS L k \<and> SYS L k < 1024" using assms(1) by (simp add: libc_ok_def)
  then show "as_usize (SYS L m) \<noteq> as_usize (SYS L n)" using ne assms(2,3) by (simp add: as_usize_inject)
qed

lemma libc_ok_seccomp:
  assumes "libc_ok L"
  shows "SYS L ''seccomp'' \<noteq> SYS L ''prctl''" "as_usize (SYS L ''seccomp'') \<noteq> as_usize (SYS L ''prctl'')"
  by (rule libc_ok_inject [OF assms]; simp add: intercepted_def)+

text \<open>
  C25.  The handler compares the operation of \<open>seccomp\<close> and the mode of \<open>prctl(PR_SET_SECCOMP)\<close> with the same number 1, and it compares
  whole registers.  So a tracee that asks \<open>seccomp\<close> for a filter is refused with \<open>-ENOSYS\<close>, as is meant, and its other operations
  are executed unchanged.  But with \<open>prctl\<close> it is the strict mode that is refused, and a request to install a filter is executed
  unchanged.  A register with a bit above the 32 bits that the kernel reads is not recognised.
\<close>

theorem augment_sys_seccomp_requests:
  assumes laws: "kernel_laws e V legacy w" and h: "in_step e V legacy h" "is_after_syscall_entry h"
    and L: "libc_ok (env_libc e)" and name: "name \<in> {''seccomp'', ''prctl''}"
    and call: "syscall_num (regs_of e V h) = as_usize (SYS (env_libc e) name)"
    and info: "get_syscall (env_libc e) (syscall_num (regs_of e V h)) = Some (Some info)"
  shows "\<exists>h'. run w (augment_sys_seccomp e (regs_of e V h) info) h = (Inr (), h') \<and> in_step e V legacy h' \<and>
    \<not> is_after_syscall_entry h' \<and>
    (if unat (arg0 (regs_of e V h)) < 2 ^ 32 \<and>
        seccomp_request_of (env_libc e) (regs_of e V h) = (if name = ''seccomp'' then SetsFilter else SetsStrict)
     then refused e V h h' else passed e V h h')"
proof -
  let ?L = "env_libc e" and ?r = "regs_of e V h"
  let ?entry = "\<lambda>name position. default_syscall_info\<lparr>augment := AugSeccomp, seccomp_position := Some position,
     full_name := ''libc::SYS_'' @ name, num := SYS ?L name\<rparr>"
  have low: "unat x < 2 ^ 32 \<and> take_bit 32 x = k \<longleftrightarrow> x = k" if "unat k < 2 ^ 32" for x k :: usize
  proof -
    have "take_bit 32 x = x" if "unat x < 2 ^ 32" for x :: usize
    proof -
      have "take_bit 32 x = x mod 4294967296" by (simp add: take_bit_eq_mod)
      moreover have "unat (x mod 4294967296) = unat x" using that by (simp add: unat_mod_distrib)
      ultimately have "unat (take_bit 32 x) = unat x" by simp
      then show ?thesis by (simp only: word_unat_eq_iff)
    qed
    then show ?thesis using that by auto
  qed
  have one: "unat (arg0 ?r) < 2 ^ 32 \<and> take_bit 32 (arg0 ?r) = 1 \<longleftrightarrow> arg0 ?r = 1" by (rule low) simp
  have opt: "unat (arg0 ?r) < 2 ^ 32 \<and> take_bit 32 (arg0 ?r) = 22 \<longleftrightarrow> arg0 ?r = 22" by (rule low) simp
  note ne = libc_ok_seccomp [OF L]
  consider "name = ''seccomp''" | "name = ''prctl''" using name by auto
  then show ?thesis
  proof cases
    case 1
    then have "info = ?entry ''seccomp'' 0"
      using call info by (intro table_entry [OF L]) (simp_all add: seccomp_syscalls_def define_macros)
    moreover have "unat (arg0 ?r) < 2 ^ 32 \<and> seccomp_request_of ?L ?r = SetsFilter \<longleftrightarrow> arg0 ?r = 1"
      using one call 1 ne by (auto simp: seccomp_request_of_def)
    ultimately show ?thesis
      using augment_sys_seccomp_ends [OF laws h, of info 0 ?r] ne 1 by simp
  next
    case 2
    then have "info = ?entry ''prctl'' 1"
      using call info by (intro table_entry [OF L]) (simp_all add: seccomp_syscalls_def define_macros)
    moreover have "unat (arg0 ?r) < 2 ^ 32 \<and> seccomp_request_of ?L ?r = SetsStrict \<longleftrightarrow> arg0 ?r = 22 \<and> arg1 ?r = 1"
      using opt call 2 ne by (auto simp: seccomp_request_of_def)
    ultimately show ?thesis
      using augment_sys_seccomp_ends [OF laws h, of info 1 ?r] 2 by simp
  qed
qed

text \<open>The tracee installs a filter with \<open>prctl\<close>.\<close>

abbreviation table_env :: "perms_mode \<Rightarrow> (sim_kernel, unit) env" where
  "table_env mode \<equiv> sim_env x86_64_libc (default_sysaug_args\<lparr>args_perms_mode := mode\<rparr>)"

lemma x86_64_numbers_of:
  "SYS x86_64_libc ''prctl'' = 157" "SYS x86_64_libc ''setresuid'' = 117"
  by (simp_all add: x86_64_libc_def intercepted_def x86_64_numbers_def)

lemma x86_64_found:
  assumes "name \<in> set intercepted"
  obtains info where "get_syscall x86_64_libc (as_usize (SYS x86_64_libc name)) = Some (Some info)"
proof -
  have "SYS x86_64_libc name \<in> set (map num (table_infos x86_64_libc))" using assms by (simp only: table_nums_set) simp
  then obtain info where "info \<in> set (table_infos x86_64_libc)" "num info = SYS x86_64_libc name" by auto
  then show thesis using that [of info] by (simp add: get_syscall_eq [OF x86_64_libc_ok] find_num [OF x86_64_libc_ok])
qed

theorem augment_sys_seccomp_requests_witness:
  "\<exists>info h'. run (sim_between False 1) (augment_sys_seccomp (table_env Passthrough) (zero_regs\<lparr>syscall_num := 157, arg0 := 22, arg1 := 2\<rparr>) info)
      (sim_handler (zero_regs\<lparr>syscall_num := 157, arg0 := 22, arg1 := 2\<rparr>) SeccompStop False True) = (Inr (), h') \<and>
     get_syscall x86_64_libc 157 = Some (Some info) \<and>
     sim_executed (kern (globals h')) 1 = [zero_regs\<lparr>syscall_num := 157, arg0 := 22, arg1 := 2\<rparr>]"
proof -
  let ?e = "table_env Passthrough" and ?r = "zero_regs\<lparr>syscall_num := 157, arg0 := 22, arg1 := 2\<rparr>"
  let ?h = "sim_handler ?r SeccompStop False True"
  have i: "in_step ?e sim_view False ?h" by (rule sim_in_step) simp
  have L: "env_libc ?e = x86_64_libc" by (simp add: sim_env_def)
  have r: "regs_of ?e sim_view ?h = ?r" by (simp add: sim_simps)
  have num: "as_usize (SYS x86_64_libc ''prctl'') = 157" by (simp add: x86_64_numbers_of as_usize_def)
  have "''prctl'' \<in> set intercepted" by (simp add: intercepted_def)
  then obtain info where info: "get_syscall x86_64_libc 157 = Some (Some info)" using x86_64_found num by metis
  have "seccomp_request_of x86_64_libc ?r = SetsFilter"
    using libc_ok_seccomp(2) [OF x86_64_libc_ok] num by (simp add: seccomp_request_of_def take_bit_eq_mod)
  then obtain h' where h': "run (sim_between False 1) (augment_sys_seccomp ?e ?r info) ?h = (Inr (), h')" "passed ?e sim_view ?h h'"
    using augment_sys_seccomp_requests [OF sim_laws i sim_after_entry, of "''prctl''" info] info num
    unfolding L r by (auto simp: x86_64_libc_ok)
  then have "sim_executed (kern (globals h')) 1 = [?r]" by (simp add: passed_def sim_simps)
  then show ?thesis using h'(1) info by blast
qed

section \<open>Several ids\<close>

lemma perms_passthrough:
  assumes laws: "kernel_laws e V legacy w" and h: "in_step e V legacy h" "is_after_syscall_entry h"
    and mode: "args_perms_mode (args_of e) = Passthrough"
  shows "\<exists>h'. run w (augment_sys_perms e r info) h = (Inr (), h') \<and> in_step e V legacy h' \<and> passed e V h h' \<and> perms_ids h' = perms_ids h"
proof -
  obtain h' where "run w (do_resume_syscall e) h = (Inr (regs_of e V h'), h')" and m: "moved e V False h h'"
    using do_resume [OF laws h] by blast
  then have "run w (augment_sys_perms e r info) h = (Inr (), h')"
    using mode by (simp add: augment_sys_perms_def run_simps m_then_apply io_simps)
  then show ?thesis using moved_in_step [OF h(1) m] m moved_perms_ids [OF m] by (auto simp: moved_def passed_def)
qed

lemma walk_multi_setter:
  assumes "resf_bit info = None" "res_bits info \<in> {3, 7, 19, 23}" "length (perms_ids h) = PERMS_IDS_SIZE"
  shows "on_perms_ids (walk_resf_syscall info True (setter_callback e r)) h =
    (Inr True, h\<lparr>perms_ids := (if res_bits info \<in> {3, 19}
       then (perms_ids h)[0 := Some (emulated_id e (arg0 r)), 1 := Some (emulated_id e (arg1 r))]
       else (perms_ids h)[4 := Some (emulated_id e (arg0 r)), 5 := Some (emulated_id e (arg1 r))])\<rparr>)" (is "_ = (Inr True, h\<lparr>perms_ids := ?ids\<rparr>)")
proof -
  have slot: "call_slot (setter_callback e r) (Some i) idx (ids, h) = (Inr (), ids[idx := Some (emulated_id e ([arg0 r, arg1 r, arg2 r] ! i))], h)"
    if "idx < length ids" for i idx ids
    using that by (simp add: call_slot_def setter_callback_def handle_setid_eq io_simps)
  have "[0..<2] = [0, 1 :: nat]" by (simp add: upt_rec)
  moreover have "for_each (walk_register info (setter_callback e r)) [0, 1] (perms_ids h, h) = (Inr (), ?ids, h)"
    using assms(2,3) by (auto simp: walk_register_def Let_def PERMS_IDBIT_UG_def PERMS_IDS_SIZE_def slot io_simps)
  ultimately show ?thesis using assms(1) by (simp add: on_perms_ids_def walk_resf_syscall_def m_then_apply io_simps)
qed

text \<open>
  C32.  The calls of the table that set several ids record their first two arguments, when ids are emulated.  The slots depend
  on bit 2 of \<open>res_bits\<close> alone: \<open>setregid\<close> and \<open>setreuid\<close> both write the slots 0 and 1, \<open>setresgid\<close> and \<open>setresuid\<close>
  both write the slots 4 and 5, and all other slots keep their content.  With \<open>--root\<close> a negative argument is recorded as 0; in
  the mode \<open>Passthrough\<close> nothing is recorded.  The call itself is executed unchanged.
\<close>

theorem perms_multi_setter_slots:
  assumes laws: "kernel_laws e V legacy w" and h: "in_step e V legacy h" "is_after_syscall_entry h"
    and L: "libc_ok (env_libc e)" and name: "name \<in> {''setregid'', ''setreuid'', ''setresgid'', ''setresuid''}"
    and info: "get_syscall (env_libc e) (as_usize (SYS (env_libc e) name)) = Some (Some info)"
    and ids: "length (perms_ids h) = PERMS_IDS_SIZE"
  shows "\<exists>h'. run w (augment_sys_perms e r info) h = (Inr (), h') \<and> in_step e V legacy h' \<and>
    executed e V h' = executed e V h @ [regs_of e V h] \<and>
    (let id = (\<lambda>x. if args_perms_mode (args_of e) = RootOnly \<and> unat x \<ge> 2 ^ 63 - 1 then 0 else x)
     in perms_ids h' =
       (if args_perms_mode (args_of e) = Passthrough then perms_ids h
        else if name \<in> {''setregid'', ''setreuid''} then (perms_ids h)[0 := Some (id (arg0 r)), 1 := Some (id (arg1 r))]
        else (perms_ids h)[4 := Some (id (arg0 r)), 5 := Some (id (arg1 r))]))"
proof (cases "args_perms_mode (args_of e) = Passthrough")
  case True
  then show ?thesis using perms_passthrough [OF laws h True, of r info] by (auto simp: passed_def)
next
  case False
  let ?entry = "\<lambda>res. default_syscall_info\<lparr>augment := AugPerms, is_setter := True, res_bits := res, resf_bit := None,
     full_name := ''libc::SYS_'' @ name, num := SYS (env_libc e) name\<rparr>"
  let ?res = "if name = ''setregid'' then 3 else if name = ''setreuid'' then 19 else if name = ''setresgid'' then 7 else 23"
  have mem: "Define (?entry ?res) \<in> set (perms_syscalls (env_libc e))"
    using name by (elim insertE) (simp_all add: perms_syscalls_def define_macros)
  have "info = ?entry ?res" by (rule table_entry [OF L]) (use mem info in simp_all)
  then have props: "is_setter info" "resf_bit info = None" "res_bits info = ?res" by simp_all
  have bits: "res_bits info \<in> {3, 7, 19, 23}" "res_bits info \<in> {3, 19} \<longleftrightarrow> name \<in> {''setregid'', ''setreuid''}"
    unfolding props(3) using name by auto
  from perms_setter [OF laws h props(1) False walk_multi_setter [OF props(2) bits(1) ids, of e r]]
  obtain h' where "run w (augment_sys_perms e r info) h = (Inr (), h')" "in_step e V legacy h'"
      "executed e V h' = executed e V h @ [regs_of e V h]"
      "perms_ids h' = (if name \<in> {''setregid'', ''setreuid''}
         then (perms_ids h)[0 := Some (emulated_id e (arg0 r)), 1 := Some (emulated_id e (arg1 r))]
         else (perms_ids h)[4 := Some (emulated_id e (arg0 r)), 5 := Some (emulated_id e (arg1 r))])"
    unfolding bits(2) by blast
  then show ?thesis unfolding Let_def emulated_id_def [symmetric] if_not_P [OF False] by (intro exI [of _ h'] conjI)
qed

theorem perms_multi_setter_slots_witness:
  "\<exists>info h'. get_syscall x86_64_libc 117 = Some (Some info) \<and>
     run (sim_between False 1) (augment_sys_perms (table_env RootOnly) (zero_regs\<lparr>arg0 := - 1, arg1 := 1001\<rparr>) info)
      (sim_handler zero_regs SeccompStop False True) = (Inr (), h') \<and>
     perms_ids h' = [None, None, None, None, Some 0, Some 1001, None, None]"
proof -
  let ?e = "table_env RootOnly" and ?h = "sim_handler zero_regs SeccompStop False True"
  let ?r = "zero_regs\<lparr>arg0 := - 1, arg1 := 1001\<rparr>"
  have i: "in_step ?e sim_view False ?h" by (rule sim_in_step) simp
  have L: "env_libc ?e = x86_64_libc" "args_perms_mode (args_of ?e) = RootOnly" by (simp_all add: sim_env_def)
  have num: "as_usize (SYS x86_64_libc ''setresuid'') = 117" by (simp add: x86_64_numbers_of as_usize_def)
  have "''setresuid'' \<in> set intercepted" by (simp add: intercepted_def)
  then obtain info where info: "get_syscall x86_64_libc 117 = Some (Some info)" using x86_64_found num by metis
  have ids: "length (perms_ids ?h) = PERMS_IDS_SIZE" by (simp add: sim_handler_def)
  have neg: "unat (- 1 :: usize) = 2 ^ 64 - 1" by (simp add: unsigned_minus_1_eq_mask mask_eq_exp_minus_1)
  obtain h' where h': "run (sim_between False 1) (augment_sys_perms ?e ?r info) ?h = (Inr (), h')"
    and slots: "perms_ids h' = (perms_ids ?h)[4 := Some 0, 5 := Some 1001]"
    using perms_multi_setter_slots [OF sim_laws i sim_after_entry, of "''setresuid''" info ?r] info num ids
    unfolding L by (auto simp: x86_64_libc_ok Let_def neg)
  have "perms_ids h' = [None, None, None, None, Some 0, Some 1001, None, None]"
    using slots by (simp add: sim_handler_def PERMS_IDS_SIZE_def numeral_eq_Suc)
  then show ?thesis using h' info by blast
qed

end
