(* ===== verification/Spec2Isabelle.thy ===== *)
theory Spec2Isabelle
  imports Runtime_Safety Syscall_Protocol Seccomp_Program Command_Line Mem_Equivalence File_Results
    Exec_Arguments Getdents_Results Json_Limits Table_Calls
begin

text \<open>
  Verification of pcontainer, a container runtime without privileges for Linux (x86\_64 is modelled,
  64-bit \<open>usize\<close>).  One tracer thread per tracee stops the tracee at its system calls with ptrace and
  seccomp, and changes their arguments and results so that the tracee sees another root file
  system and other user ids.

  \<^bold>\<open>How a run goes.\<close>  \<open>main\<close> starts the first tracee and a thread for it (\<open>Command_Line\<close>).  The thread attaches to
  the tracee and runs the event loop (\<open>Handler_Sync\<close>): it polls three coroutines on the runtime of the \<open>krsm\<close> crate, for
  signals, for events and for system calls (\<open>Handler_Loops\<close>), resumes the tracee, waits for its next stop and gives the stop
  to the coroutine that awaits it.  The first two system calls of a tracee are replaced by calls that map a shared region and
  install the seccomp filter (\<open>Seccomp_Program\<close>).  After that every system call of the table (\<open>Syscalls\<close>) is handled by one of the
  augmentations, which read and write the memory of the tracee (\<open>Mem_Slow\<close>, \<open>Mem_Direct\<close>).  A new child gets a thread of its own.

  \<^bold>\<open>Parts of the program and their theories.\<close>

  \<^item> \<^emph>\<open>Machine and effects.\<close>  \<open>Prelude\<close> has bytes, words and the slice operations of Rust with
    their panics; \<open>Effects\<close> the computations \<open>'w \<Rightarrow> (error fault + 'a) \<times> 'w\<close> in which a world is
    passed on, an error is a value, and a panic, undefined behaviour and an exhausted loop are values of their own.
    \<open>Rust_Path\<close> has \<open>std::path\<close> on bytes.

  \<^item> \<^emph>\<open>krsm/src/futures.rs\<close>, a runtime for futures in a fixed table: theory \<open>Krsm\<close>.  The table refines a bag of
    reasons (locale \<open>reason_bag\<close>, interpreted on the operations of the table); if the table has two slots more than the
    program has reasons, starting, polling and dropping futures never gets stuck, and a response reaches the future that awaits it.

  \<^item> \<^emph>\<open>krsm/examples/json_parser.rs\<close>, a parser whose grammar is \<open>async\<close> code on that runtime.  \<open>Futures\<close> has futures as what polling
    and dropping them does (a codatatype, with \<open>.await\<close> and the law of \<open>futures_lite::future::or\<close>), \<open>Json_Parser\<close> the
    functions of the grammar and \<open>run_parser\<close>, \<open>Json_Runs\<close> rules for the runs of such futures (one for each way to combine
    them), \<open>Json_Grammar\<close> the grammar of the comments as inductive predicates and the proof that it is accepted (locale
    \<open>or_library\<close>), \<open>Json_Limits\<close> inputs on which the parser and the comments differ.

  \<^item> \<^emph>\<open>ptrace/src\<close>: \<open>Ptrace_Common\<close> (registers, wait statuses, requests, checked arithmetic),
    \<open>Tracee_Memory\<close> (structures in the memory of the tracee, over the interfaces \<open>mem_reader\<close> and \<open>mem_writer\<close>),
    \<open>Pointer_Arrays\<close> (null-terminated arrays of pointers), \<open>Mem_Slow\<close> (word by
    word through ptrace, on the stack of the tracee), \<open>Mem_Direct\<close> (shared regions and \<open>/proc/<pid>/mem\<close>; the pool of regions is a
    state machine over all threads), \<open>Mem_Equivalence\<close> (where both ways to read agree), \<open>Struct_Writes\<close>
    (structures that are written without their zero words in excess).  Both modules interpret both interfaces.

  \<^item> \<^emph>\<open>executor/src\<close>: \<open>Executor\<close>, the reasons a tracer thread waits for and the clients; \<open>Main_Thread_Executor\<close>, the
    executor of the option \<open>--fix-attach\<close>, whose threads interleave, as a step relation that refines the local client:
    what was sent is what ran, is under way or was dropped when the server left.

  \<^item> \<^emph>\<open>procfs/src\<close>: \<open>Procfs\<close>, working directories, open files and the configuration of the kernel.

  \<^item> \<^emph>\<open>sysaug/src/common.rs, syscalls.rs, config.rs\<close>: theories \<open>Syscall_Info\<close>, \<open>Syscalls\<close>,
    \<open>Seccomp_Program\<close> (the filter run by a model of the BPF machine), \<open>Config\<close>.

  \<^item> \<^emph>\<open>sysaug/src/handler_async.rs, handler_sync.rs\<close>: \<open>Handler_State\<close> (the state of a tracer thread
    and asynchronous code as coroutines), \<open>Handler_Async\<close> (waiting for, resuming and skipping system
    calls), \<open>Scratch_Memory\<close> (what is put into the memory of the tracee, on \<open>mem_writer\<close> extended by the room that is
    left, locale \<open>mem_space\<close>), \<open>Handler_Loops\<close> (the loops for signals, events and system calls), \<open>Handler_Sync\<close> (the
    event loop that polls them and waits for the tracee), \<open>Tracee_Stops\<close> (laws of the
    stops of a tracee, with a small kernel that satisfies them), \<open>Runtime_Safety\<close> (what no handler changes or breaks),
    \<open>Kernel_Frame\<close> (what code leaves alone; locale \<open>host_frame\<close>) and \<open>Syscall_Protocol\<close> (one system call is executed for each that is intercepted).

  \<^item> \<^emph>\<open>sysaug/src/aug\_*.rs\<close>: \<open>Aug_Process\<close> (clone, seccomp, waitpid), \<open>Aug_Perms\<close> (user and group ids), \<open>Table_Calls\<close> (seccomp and
    the calls that set several ids, with their entries in the table), \<open>Host_Files\<close>
    (the file system of the host), \<open>Aug_Common\<close> (metadata files and translation of paths), \<open>Aug_Paths\<close> (calls on
    files, results of stat and getdents), \<open>Aug_Exec\<close> (interpreters of programs and scripts), \<open>Metadata_Store\<close> and
    \<open>File_Results\<close> (what is recorded for a file and what the tracee sees of it), \<open>Exec_Arguments\<close>, \<open>Wait_Results\<close>
    and \<open>Getdents_Results\<close> (what the tracee sees of execve, wait4 and getdents; the helper of a handler interprets \<open>mem_reader\<close>).

  \<^item> \<^emph>\<open>main/src/main.rs\<close> and \<open>start\<close> of \<^emph>\<open>ptrace/src/lib.rs\<close>: \<open>Command_Line\<close>.

  \<^bold>\<open>State.\<close>  The state of a tracer thread is the record \<open>handler\<close>: the fields of \<open>AsyncTraceeHandler\<close> that are cells, and the
  globals of the process (\<open>direct_world\<close>: the statics and thread locals of \<open>mem_direct.rs\<close> and the kernel).  Fields that do not
  change are in the record \<open>env\<close>.  \<open>async\<close> code is a coroutine (\<open>co\<close>) that is done, awaits a future of the runtime or
  yields; \<open>poll\<close> runs it as \<open>run_async_step\<close> does.

  \<^bold>\<open>The kernel\<close> and other code that is not part of the repository (\<open>serde_json\<close>, \<open>regex\<close>, \<open>elf\<close>, \<open>clap\<close>, \<open>futures_lite\<close>) are records of functions
  over an unknown state (\<open>ptrace_api\<close> and its extensions up to \<open>tracer_api\<close>, \<open>host_api\<close>, \<open>launch_api\<close>).  What the
  code relies on are named laws over these records, hypotheses of the theorems that need them; every such theorem has an instance
  with a small concrete kernel.

  \<^bold>\<open>What is shown.\<close>

  \<^item> \<^emph>\<open>Runtime.\<close>  The event loop never fails because of its runtime, for any tracee, kernel and number of steps, and never
    changes what the tracee is confined to (\<open>Runtime_Safety\<close>).  Futures are registered, answered and removed as
    specified; two defects for shared reasons and for a crowded table are stated as theorems (\<open>Krsm\<close>).

  \<^item> \<^emph>\<open>Example parser.\<close>  Every text of the grammar of the comments is parsed to its value, without empty arrays and objects and
    hexadecimal escapes; empty arrays and hexadecimal escapes are rejected because alternatives share a reason.

  \<^item> \<^emph>\<open>Stops.\<close>  On a kernel that keeps the stop protocol the handler stays in step with its tracee; a skipped system call
    is not executed, an inserted one is executed exactly once in place of the one of the tracee.  Every augmentation, and
    every iteration of the loop over system calls, has one call executed for the intercepted one, with at most
    its first five arguments replaced, or a harmless one in its place (\<open>Syscall_Protocol\<close>).

  \<^item> \<^emph>\<open>Memory.\<close>  Live tracees own different regions, new regions are zero, writes stay inside their buffer, what is
    written is read back, and both readers are equivalent but for the last word of a mapping.

  \<^item> \<^emph>\<open>Paths and files.\<close>  Translated paths lie below the prefix or a passed-through path whatever links are followed;
    following links ends; metadata files do not collide, are read back as written and show up in the results of stat.
    A directory is listed without its hidden entries, the others with a new record length only, and
    the halved buffer leaves enough room for it (\<open>Getdents_Results\<close>).

  \<^item> \<^emph>\<open>System calls.\<close>  The filter traces exactly the calls of the table; clone, seccomp and the emulated ids behave as
    stated, the defects of the last two included: \<open>prctl\<close> can install a filter that \<open>seccomp\<close> is refused.  After the expansion of execve the registers point to the interpreter and to
    the right vector of arguments, as long as eight zero bytes occur in the original vector at its end only
    (\<open>Exec_Arguments\<close>); wait4 hides exactly the stops made by the tracer, and fails without a status pointer
    (\<open>Wait_Results\<close>).

  \<^item> \<^emph>\<open>Start.\<close>  The shared file gets a high unused number and no file is leaked on any way out of \<open>start\<close>.

  \<^bold>\<open>Loops and fuel.\<close>  Loops whose end follows from their data are functions with a termination proof (the readers of memory, the
  search in slices, the BPF program).  The loops of the handlers need not end: they take a number of iterations and \<open>OutOfFuel\<close> is a
  result of its own.  The theorems on them hold for every number of iterations, so for every prefix of a run.
  Following links is bounded by \<open>link_limit\<close>, a number greater than the targets of all links on the host
  (\<open>calc_real_path_returns\<close> shows that it is then not reached); expanding scripts in \<open>execve\<close> by the same number.
  The functions of the JSON grammar and \<open>run_parser\<close> count fuel; fuel linear in the length of the text is enough
  (\<open>json_grammar_accepted\<close>).

  \<^bold>\<open>Not modelled.\<close>  Log messages and the texts of errors; parsing of the command line by \<open>clap\<close> and of configuration files by \<open>serde\<close>;
  registers, structures and system calls of other architectures (arm, aarch64, x86) and the stat structure of
  32-bit kernels; unit tests.  Copies of structures (\<open>item.clone()\<close>) copy the padding as well.  The
  file operations behind the laws of \<open>Metadata_Store\<close> do not fail.
  Threads of different tracees interleave in the pool of regions and in the main thread executor; the event loop of one
  handler is modelled alone, with the effect of other threads on the kernel as part of the unknown state.
\<close>

end
